(* ===== verification/Nexum_Prelude.thy ===== *)
theory Nexum_Prelude
  imports Main "HOL-Library.Word" "HOL-Library.List_Lexorder" "HOL-Library.Char_ord"
    "HOL-Library.Product_Lexorder" "HOL-Library.AList"
begin

text \<open>
  Shared vocabulary of the Nexum development.

  \<^item> machine integers: \<open>u8\<close>, \<open>u16\<close>, \<open>u32\<close>, \<open>u64\<close> as words;
  \<^item> \<open>error\<close> (the variants of \<^verbatim>\<open>nexum_core::Error\<close>; the diagnostic text of a variant is not
    modelled) and \<open>'a res\<close>, the outcome of a fallible call: a value, an error, or a panic;
  \<^item> operations that take \<^verbatim>\<open>&mut self\<close> return their outcome together with the new state, so that
    what an operation leaves behind when it fails is part of the model;
  \<^item> ordered maps (\<^verbatim>\<open>BTreeMap\<close>) as association lists with strictly increasing keys, whose list
    order is the iteration order, and hash maps that are iterated as association lists with
    distinct keys (AList), the list order standing for the unspecified iteration order;
  \<^item> the interface locales the components share: finite maps and byte codecs.
\<close>

section \<open>Proof collections\<close>

named_theorems codec_simps \<open>encode/decode round trips\<close>
named_theorems omap_simps \<open>laws of ordered maps\<close>
named_theorems wf_intros \<open>preservation of well-formedness\<close>

section \<open>Machine integers and outcomes\<close>

type_synonym u8 = "8 word"
type_synonym u16 = "16 word"
type_synonym u32 = "32 word"
type_synonym u64 = "64 word"

datatype error =
    NotFound
  | AlreadyExists
  | InvalidArgument
  | Conflict
  | AlreadyCommitted
  | AlreadyAborted
  | InvalidTransaction
  | Capacity
  | Internal
  | Unsupported

datatype 'a res = Ok 'a | Err error | Panic

fun bind_res :: "'a res \<Rightarrow> ('a \<Rightarrow> 'b res) \<Rightarrow> 'b res" where
  "bind_res (Ok x) f = f x"
| "bind_res (Err e) f = Err e"
| "bind_res Panic f = Panic"

fun is_ok :: "'a res \<Rightarrow> bool" where
  "is_ok (Ok x) = True"
| "is_ok (Err e) = False"
| "is_ok Panic = False"

fun map_err :: "(error \<Rightarrow> error) \<Rightarrow> 'a res \<Rightarrow> 'a res" where
  "map_err f (Ok x) = Ok x"
| "map_err f (Err e) = Err (f e)"
| "map_err f Panic = Panic"

definition ok_or :: "error \<Rightarrow> 'a option \<Rightarrow> 'a res" where
  "ok_or e x = (case x of None \<Rightarrow> Err e | Some v \<Rightarrow> Ok v)"

lemma ok_or_simps [simp]:
  "ok_or e None = Err e"
  "ok_or e (Some v) = Ok v"
  by (simp_all add: ok_or_def)

lemma bind_res_eq_Ok: "bind_res m f = Ok y \<longleftrightarrow> (\<exists>x. m = Ok x \<and> f x = Ok y)"
  by (cases m) auto

lemma bind_res_not_Panic:
  "bind_res m f \<noteq> Panic \<longleftrightarrow> m \<noteq> Panic \<and> (\<forall>x. m = Ok x \<longrightarrow> f x \<noteq> Panic)"
  by (cases m) auto

lemma bind_res_eq_Panic:
  "bind_res m f = Panic \<longleftrightarrow> m = Panic \<or> (\<exists>x. m = Ok x \<and> f x = Panic)"
  by (cases m) auto

lemma ok_or_eq_Ok [simp]: "ok_or e x = Ok v \<longleftrightarrow> x = Some v"
  by (cases x) auto

lemma map_err_eq_Ok [simp]: "map_err f m = Ok x \<longleftrightarrow> m = Ok x"
  by (cases m) auto

lemma is_ok_iff: "is_ok m \<longleftrightarrow> (\<exists>x. m = Ok x)"
  by (cases m) auto

text \<open>A fallible call inside an operation on a state \<open>s\<close>: on failure the operation returns with \<open>s\<close>
  as it is at that point (\<^verbatim>\<open>?\<close>), otherwise it goes on with the value.\<close>

definition try_res :: "'b res \<Rightarrow> 's \<Rightarrow> ('b \<Rightarrow> 'a res \<times> 's) \<Rightarrow> 'a res \<times> 's" where
  "try_res m s k = (case m of Ok x \<Rightarrow> k x | Err e \<Rightarrow> (Err e, s) | Panic \<Rightarrow> (Panic, s))"

lemma try_res_simps [simp]:
  "try_res (Ok x) s k = k x"
  "try_res (Err e) s k = (Err e, s)"
  "try_res Panic s k = (Panic, s)"
  by (simp_all add: try_res_def)

lemma try_res_Ok: "try_res m s k = (Ok y, s') \<longleftrightarrow> (\<exists>x. m = Ok x \<and> k x = (Ok y, s'))"
  by (cases m) auto

text \<open>The elements of a list through a fallible function, stopping at the first failure: the
  \<^verbatim>\<open>for\<close> loop with \<^verbatim>\<open>?\<close> and the \<^verbatim>\<open>collect\<close> into a \<^verbatim>\<open>Result\<close>.\<close>

fun map_res :: "('a \<Rightarrow> 'b res) \<Rightarrow> 'a list \<Rightarrow> 'b list res" where
  "map_res f [] = Ok []"
| "map_res f (x # xs) =
     bind_res (f x) (\<lambda>y. bind_res (map_res f xs) (\<lambda>ys. Ok (y # ys)))"

fun all_res :: "('a \<Rightarrow> unit res) \<Rightarrow> 'a list \<Rightarrow> unit res" where
  "all_res f [] = Ok ()"
| "all_res f (x # xs) = bind_res (f x) (\<lambda>_. all_res f xs)"

text \<open>A loop over a list that threads a state and stops at the first failure.\<close>

fun for_each :: "('a \<Rightarrow> 's \<Rightarrow> unit res \<times> 's) \<Rightarrow> 'a list \<Rightarrow> 's \<Rightarrow> unit res \<times> 's" where
  "for_each f [] s = (Ok (), s)"
| "for_each f (x # xs) s = (case f x s of (res, s) \<Rightarrow> try_res res s (\<lambda>_. for_each f xs s))"

lemma for_each_append:
  "for_each f (xs @ ys) s = (case for_each f xs s of (res, s) \<Rightarrow> try_res res s (\<lambda>_. for_each f ys s))"
proof (induction xs arbitrary: s)
  case (Cons x xs)
  show ?case by (cases "f x s"; cases "fst (f x s)") (auto simp: Cons.IH)
qed simp

lemma map_res_Ok:
  "map_res f xs = Ok ys \<longleftrightarrow> length ys = length xs \<and> (\<forall>i < length xs. f (xs ! i) = Ok (ys ! i))"
proof (induction xs arbitrary: ys)
  case Nil
  then show ?case by auto
next
  case (Cons x xs)
  show ?case
    by (cases ys) (auto simp: bind_res_eq_Ok Cons.IH nth_Cons split: nat.splits)
qed

lemma all_res_Ok: "all_res f xs = Ok u \<longleftrightarrow> (\<forall>x \<in> set xs. f x = Ok ())"
  by (induction xs) (auto simp: bind_res_eq_Ok)

lemma all_res_Err: "all_res f xs = Err e \<Longrightarrow> \<exists>x \<in> set xs. f x = Err e"
proof (induction xs)
  case Nil
  then show ?case by simp
next
  case (Cons x xs)
  then show ?case by (cases "f x") auto
qed

lemma all_res_not_Panic:
  "(\<And>x. x \<in> set xs \<Longrightarrow> f x \<noteq> Panic) \<Longrightarrow> all_res f xs \<noteq> Panic"
  by (induction xs) (auto simp: bind_res_not_Panic)

lemma map_res_map: "(\<And>x. x \<in> set xs \<Longrightarrow> f x = Ok (g x)) \<Longrightarrow> map_res f xs = Ok (map g xs)"
  by (induction xs) auto

lemma all_res_map: "all_res f (map g xs) = all_res (\<lambda>x. f (g x)) xs"
  by (induction xs) auto

lemma all_res_cong: "(\<And>x. x \<in> set xs \<Longrightarrow> f x = g x) \<Longrightarrow> all_res f xs = all_res g xs"
  by (induction xs) auto

lemma all_res_if:
  "all_res (\<lambda>x. if P x then Err e else Ok ()) xs = (if \<exists>x \<in> set xs. P x then Err e else Ok ())"
  by (induction xs) auto

lemma sorted_wrt_le_last: "sorted xs \<Longrightarrow> x \<in> set xs \<Longrightarrow> x \<le> last xs"
  by (induction xs) auto

lemma find_SomeD: "find P xs = Some x \<Longrightarrow> x \<in> set xs \<and> P x"
  by (induction xs) (auto split: if_splits)

section \<open>Ordered maps\<close>

type_synonym ('k, 'v) omap = "('k \<times> 'v) list"

fun om_put :: "'k::linorder \<Rightarrow> 'v \<Rightarrow> ('k, 'v) omap \<Rightarrow> ('k, 'v) omap" where
  "om_put k v [] = [(k, v)]"
| "om_put k v (p # m) =
     (if fst p < k then p # om_put k v m
      else if fst p = k then (k, v) # m
      else (k, v) # p # m)"

definition om_del :: "'k::linorder \<Rightarrow> ('k, 'v) omap \<Rightarrow> ('k, 'v) omap" where
  "om_del k m = filter (\<lambda>p. fst p \<noteq> k) m"

definition om_wf :: "('k::linorder, 'v) omap \<Rightarrow> bool" where
  "om_wf m \<longleftrightarrow> sorted_wrt (<) (map fst m)"

abbreviation om_get :: "('k, 'v) omap \<Rightarrow> 'k \<Rightarrow> 'v option" where
  "om_get \<equiv> map_of"

lemma om_wf_Nil [simp, intro]: "om_wf []"
  by (simp add: om_wf_def)

lemma om_wf_Cons: "om_wf (p # m) \<longleftrightarrow> (\<forall>q \<in> set m. fst p < fst q) \<and> om_wf m"
  by (auto simp: om_wf_def)

lemma om_wf_distinct: "om_wf m \<Longrightarrow> distinct (map fst m)"
  by (simp add: om_wf_def strict_sorted_iff)

lemma fst_set_om_put: "fst ` set (om_put k v m) = insert k (fst ` set m)"
  by (induction k v m rule: om_put.induct) auto

lemma set_om_put_sub: "set (om_put k v m) \<subseteq> insert (k, v) (set m)"
  by (induction k v m rule: om_put.induct) auto

lemma om_wf_put [wf_intros]: "om_wf m \<Longrightarrow> om_wf (om_put k v m)"
proof (induction k v m rule: om_put.induct)
  case (1 k v)
  then show ?case by (simp add: om_wf_Cons)
next
  case (2 k v p m)
  have "\<forall>q \<in> set (om_put k v m). fst q = k \<or> fst q \<in> fst ` set m"
    using fst_set_om_put [of k v m] by (metis image_eqI insert_iff)
  with 2 show ?case by (fastforce simp: om_wf_Cons)
qed

lemma om_wf_del [wf_intros]: "om_wf m \<Longrightarrow> om_wf (om_del k m)"
  by (induction m) (auto simp: om_wf_Cons om_del_def)

lemma om_get_put [omap_simps]: "om_wf m \<Longrightarrow> om_get (om_put k v m) = (om_get m)(k \<mapsto> v)"
proof (induction k v m rule: om_put.induct)
  case (1 k v)
  then show ?case by auto
next
  case (2 k v p m)
  then show ?case by (cases p) (auto simp: om_wf_Cons fun_eq_iff)
qed

lemma om_get_del [omap_simps]: "om_get (om_del k m) = (om_get m)(k := None)"
  by (induction m) (auto simp: om_del_def fun_eq_iff)

lemma om_get_mem: "om_wf m \<Longrightarrow> om_get m k = Some v \<longleftrightarrow> (k, v) \<in> set m"
  by (simp add: om_wf_distinct map_of_eq_Some_iff)

lemma set_om_put:
  assumes "om_wf m"
  shows "(n, u) \<in> set (om_put k v m) \<longleftrightarrow> (if n = k then u = v else (n, u) \<in> set m)"
  using om_get_mem [OF om_wf_put [OF assms, of k v], of n u] om_get_mem [OF assms, of n u]
  by (auto simp: om_get_put [OF assms])

lemma distinct_map_sort_key: "distinct (map f (sort_key k xs)) \<longleftrightarrow> distinct (map f xs)"
  by (simp add: distinct_map)

lemma om_get_None: "om_get m k = None \<longleftrightarrow> k \<notin> fst ` set m"
  by (rule map_of_eq_None_iff)

lemma om_put_beyond: "(\<forall>q \<in> set m. fst q < k) \<Longrightarrow> om_put k v m = m @ [(k, v)]"
  by (induction m) auto

lemma om_wf_fold_put: "om_wf m \<Longrightarrow> om_wf (fold (\<lambda>x. om_put (k x) (v x)) xs m)"
  by (induction xs arbitrary: m) (auto intro: om_wf_put)

lemma om_get_fold_put:
  "om_wf m \<Longrightarrow> om_get (fold (\<lambda>x. om_put (k x) (v x)) xs m)
     = om_get m ++ map_of (rev (map (\<lambda>x. (k x, v x)) xs))"
  by (induction xs arbitrary: m) (simp_all add: om_get_put om_wf_put)

lemma om_map_snd:
  "om_wf (map (\<lambda>(k, v). (k, f v)) m) = om_wf m"
  "om_get (map (\<lambda>(k, v). (k, f v)) m) k = map_option f (om_get m k)"
  by (simp_all add: om_wf_def o_def case_prod_beta) (induction m; auto)

lemma om_ext:
  assumes "om_wf m" and "om_wf n" and eq: "om_get m = om_get n"
  shows "m = n"
proof -
  have keys: "map fst m = map fst n"
    using assms unfolding om_wf_def
    by (metis dom_map_of_conv_image_fst list.set_map strict_sorted_equal)
  then have len: "length m = length n"
    by (rule map_eq_imp_length_eq)
  show ?thesis
  proof (rule nth_equalityI [OF len])
    fix i assume i: "i < length m"
    with keys len have k: "fst (m ! i) = fst (n ! i)"
      by (metis nth_map)
    have "om_get m (fst (m ! i)) = Some (snd (m ! i))"
      using i by (simp add: om_get_mem [OF assms(1)])
    moreover have "om_get n (fst (n ! i)) = Some (snd (n ! i))"
      using i len by (simp add: om_get_mem [OF assms(2)])
    ultimately show "m ! i = n ! i"
      using eq k by (simp add: prod_eq_iff)
  qed
qed

section \<open>Byte codecs\<close>

text \<open>A decoder takes the unread input (the cursor \<^verbatim>\<open>&mut &[u8]\<close>) and returns the value with the
  rest. \<open>get_n\<close> is the loop \<^verbatim>\<open>for _ in 0..count\<close> over a decoder.\<close>

type_synonym 'a decoder = "u8 list \<Rightarrow> ('a \<times> u8 list) res"

fun get_n :: "'a decoder \<Rightarrow> nat \<Rightarrow> 'a list decoder" where
  "get_n d 0 c = Ok ([], c)"
| "get_n d (Suc n) c =
     bind_res (d c) (\<lambda>(x, c). bind_res (get_n d n c) (\<lambda>(xs, c). Ok (x # xs, c)))"

lemma get_n_not_Panic: "(\<And>c. d c \<noteq> Panic) \<Longrightarrow> get_n d n c \<noteq> Panic"
  by (induction n arbitrary: c) (auto simp: bind_res_not_Panic)

lemma get_n_length: "get_n d n c = Ok (xs, r) \<Longrightarrow> length xs = n"
  by (induction n arbitrary: c xs r) (auto simp: bind_res_eq_Ok)

text \<open>The contract of an encoder/decoder pair: on the values satisfying \<open>valid\<close> the decoder reads
  back what the encoder wrote and leaves what follows it.\<close>

locale codec =
  fixes enc :: "'a \<Rightarrow> u8 list"
    and dec :: "'a decoder"
    and valid :: "'a \<Rightarrow> bool"
  assumes dec_enc: "valid x \<Longrightarrow> dec (enc x @ rest) = Ok (x, rest)"
begin

lemma dec_enc_exact: "valid x \<Longrightarrow> dec (enc x) = Ok (x, [])"
  using dec_enc [of x "[]"] by simp

lemma enc_prefix_free:
  assumes "valid x" and "valid y" and "enc x @ r = enc y @ s"
  shows "x = y \<and> r = s"
proof -
  have "Ok (x, r) = Ok (y, s)"
    unfolding dec_enc [OF assms(1), of r, symmetric] dec_enc [OF assms(2), of s, symmetric] assms(3)
    by (rule refl)
  then show ?thesis by simp
qed

lemma enc_inject: "valid x \<Longrightarrow> valid y \<Longrightarrow> enc x = enc y \<longleftrightarrow> x = y"
  using enc_prefix_free [of x y "[]" "[]"] by auto

lemma get_n_enc:
  "\<forall>x \<in> set xs. valid x \<Longrightarrow> get_n dec (length xs) (concat (map enc xs) @ rest) = Ok (xs, rest)"
  by (induction xs arbitrary: rest) (simp_all add: dec_enc)

end

end
