(* ===== verification/Core_Value.thy ===== *)
theory Core_Value
  imports Nexum_Prelude
begin

text \<open>
  \<^verbatim>\<open>nexum-core\<close>: column types, cell values, rows, versions and ids (\<^verbatim>\<open>value.rs\<close>, \<^verbatim>\<open>row.rs\<close>,
  \<^verbatim>\<open>types.rs\<close>, \<^verbatim>\<open>ids.rs\<close>, \<^verbatim>\<open>state.rs\<close>).

  Signed integers are words of their width read with \<open>sint\<close>; floats are their IEEE-754 bit
  patterns, which is how the code compares, hashes and encodes them. A \<^verbatim>\<open>str\<close> is its list of
  bytes (as \<open>char\<close>s); that the bytes are UTF-8, which the Rust type guarantees, is the predicate
  \<open>utf8\<close>. Ids and versions are \<^verbatim>\<open>u64\<close> newtypes and are modelled by their raw value; counters wrap,
  as they do in the release profile the workspace builds.
\<close>

section \<open>Ids and versions\<close>

type_synonym table_id = u64
type_synonym row_id = u64
type_synonym column_id = u64
type_synonym transaction_id = u64
type_synonym version = u64

definition version_zero :: version where
  "version_zero = 0"

definition version_next :: "version \<Rightarrow> version" where
  "version_next v = v + 1"

definition checked_next :: "version \<Rightarrow> version option" where
  "checked_next v = (if v = - 1 then None else Some (v + 1))"

lemma unat_version_next: "v \<noteq> - 1 \<Longrightarrow> unat (version_next v) = Suc (unat v)"
  using unatSuc [of v] by (auto simp: version_next_def add.commute eq_neg_iff_add_eq_0)

lemma version_next_greater: "v \<noteq> - 1 \<Longrightarrow> v < version_next v"
  by (simp add: word_less_nat_alt unat_version_next)

lemma checked_next_eq: "checked_next v = Some w \<longleftrightarrow> v \<noteq> - 1 \<and> w = version_next v"
  by (auto simp: checked_next_def version_next_def)

section \<open>Column types and values\<close>

datatype column_type =
    TyBool | TyI8 | TyI16 | TyI32 | TyI64 | TyU8 | TyU16 | TyU32 | TyU64
  | TyF32 | TyF64 | TyString | TyBytes

fun column_type_name :: "column_type \<Rightarrow> string" where
  "column_type_name TyBool = ''bool''"
| "column_type_name TyI8 = ''i8''"
| "column_type_name TyI16 = ''i16''"
| "column_type_name TyI32 = ''i32''"
| "column_type_name TyI64 = ''i64''"
| "column_type_name TyU8 = ''u8''"
| "column_type_name TyU16 = ''u16''"
| "column_type_name TyU32 = ''u32''"
| "column_type_name TyU64 = ''u64''"
| "column_type_name TyF32 = ''f32''"
| "column_type_name TyF64 = ''f64''"
| "column_type_name TyString = ''string''"
| "column_type_name TyBytes = ''bytes''"

datatype value_t =
    VBool bool
  | VI8 u8
  | VI16 u16
  | VI32 u32
  | VI64 u64
  | VU8 u8
  | VU16 u16
  | VU32 u32
  | VU64 u64
  | VF32 u32
  | VF64 u64
  | VString string
  | VBytes "u8 list"

fun type_of :: "value_t \<Rightarrow> column_type" where
  "type_of (VBool _) = TyBool"
| "type_of (VI8 _) = TyI8"
| "type_of (VI16 _) = TyI16"
| "type_of (VI32 _) = TyI32"
| "type_of (VI64 _) = TyI64"
| "type_of (VU8 _) = TyU8"
| "type_of (VU16 _) = TyU16"
| "type_of (VU32 _) = TyU32"
| "type_of (VU64 _) = TyU64"
| "type_of (VF32 _) = TyF32"
| "type_of (VF64 _) = TyF64"
| "type_of (VString _) = TyString"
| "type_of (VBytes _) = TyBytes"

definition value_is :: "value_t \<Rightarrow> column_type \<Rightarrow> bool" where
  "value_is v ty \<longleftrightarrow> type_of v = ty"

definition as_bool :: "value_t \<Rightarrow> bool option" where
  "as_bool v = (case v of VBool x \<Rightarrow> Some x | _ \<Rightarrow> None)"

definition as_i8 :: "value_t \<Rightarrow> u8 option" where
  "as_i8 v = (case v of VI8 x \<Rightarrow> Some x | _ \<Rightarrow> None)"

definition as_i16 :: "value_t \<Rightarrow> u16 option" where
  "as_i16 v = (case v of VI16 x \<Rightarrow> Some x | _ \<Rightarrow> None)"

definition as_i32 :: "value_t \<Rightarrow> u32 option" where
  "as_i32 v = (case v of VI32 x \<Rightarrow> Some x | _ \<Rightarrow> None)"

definition as_i64 :: "value_t \<Rightarrow> u64 option" where
  "as_i64 v = (case v of VI64 x \<Rightarrow> Some x | _ \<Rightarrow> None)"

definition as_u8 :: "value_t \<Rightarrow> u8 option" where
  "as_u8 v = (case v of VU8 x \<Rightarrow> Some x | _ \<Rightarrow> None)"

definition as_u16 :: "value_t \<Rightarrow> u16 option" where
  "as_u16 v = (case v of VU16 x \<Rightarrow> Some x | _ \<Rightarrow> None)"

definition as_u32 :: "value_t \<Rightarrow> u32 option" where
  "as_u32 v = (case v of VU32 x \<Rightarrow> Some x | _ \<Rightarrow> None)"

definition as_u64 :: "value_t \<Rightarrow> u64 option" where
  "as_u64 v = (case v of VU64 x \<Rightarrow> Some x | _ \<Rightarrow> None)"

definition as_f32 :: "value_t \<Rightarrow> u32 option" where
  "as_f32 v = (case v of VF32 x \<Rightarrow> Some x | _ \<Rightarrow> None)"

definition as_f64 :: "value_t \<Rightarrow> u64 option" where
  "as_f64 v = (case v of VF64 x \<Rightarrow> Some x | _ \<Rightarrow> None)"

definition as_str :: "value_t \<Rightarrow> string option" where
  "as_str v = (case v of VString x \<Rightarrow> Some x | _ \<Rightarrow> None)"

definition as_bytes :: "value_t \<Rightarrow> u8 list option" where
  "as_bytes v = (case v of VBytes x \<Rightarrow> Some x | _ \<Rightarrow> None)"

text \<open>\<^verbatim>\<open>PartialEq for Value\<close>, arm by arm.\<close>

definition value_eq :: "value_t \<Rightarrow> value_t \<Rightarrow> bool" where
  "value_eq a b =
     (case a of
        VBool x \<Rightarrow> (case b of VBool y \<Rightarrow> x = y | _ \<Rightarrow> False)
      | VI8 x \<Rightarrow> (case b of VI8 y \<Rightarrow> x = y | _ \<Rightarrow> False)
      | VI16 x \<Rightarrow> (case b of VI16 y \<Rightarrow> x = y | _ \<Rightarrow> False)
      | VI32 x \<Rightarrow> (case b of VI32 y \<Rightarrow> x = y | _ \<Rightarrow> False)
      | VI64 x \<Rightarrow> (case b of VI64 y \<Rightarrow> x = y | _ \<Rightarrow> False)
      | VU8 x \<Rightarrow> (case b of VU8 y \<Rightarrow> x = y | _ \<Rightarrow> False)
      | VU16 x \<Rightarrow> (case b of VU16 y \<Rightarrow> x = y | _ \<Rightarrow> False)
      | VU32 x \<Rightarrow> (case b of VU32 y \<Rightarrow> x = y | _ \<Rightarrow> False)
      | VU64 x \<Rightarrow> (case b of VU64 y \<Rightarrow> x = y | _ \<Rightarrow> False)
      | VF32 x \<Rightarrow> (case b of VF32 y \<Rightarrow> x = y | _ \<Rightarrow> False)
      | VF64 x \<Rightarrow> (case b of VF64 y \<Rightarrow> x = y | _ \<Rightarrow> False)
      | VString x \<Rightarrow> (case b of VString y \<Rightarrow> x = y | _ \<Rightarrow> False)
      | VBytes x \<Rightarrow> (case b of VBytes y \<Rightarrow> x = y | _ \<Rightarrow> False))"

text \<open>The bit-exact equality is HOL's equality, so the model compares values, rows and index
  keys with \<open>=\<close>.\<close>

lemma value_eq_iff: "value_eq a b \<longleftrightarrow> a = b"
  by (cases a) (cases b; simp add: value_eq_def)+

section \<open>Rows\<close>

datatype row = Row (row_values: "value_t list")

definition row_get :: "row \<Rightarrow> nat \<Rightarrow> value_t option" where
  "row_get r i = (if i < length (row_values r) then Some (row_values r ! i) else None)"

definition row_len :: "row \<Rightarrow> nat" where
  "row_len r = length (row_values r)"

section \<open>Change kinds\<close>

datatype change_kind = CInsert | CUpdate | CDelete

section \<open>Strings\<close>

text \<open>Well-formed UTF-8, as \<^verbatim>\<open>String::from_utf8\<close> accepts it (the Unicode table of well-formed byte
  sequences), and strings that \<^verbatim>\<open>str::trim\<close> empties (only Unicode white space, in UTF-8).\<close>

definition cont :: "nat \<Rightarrow> bool" where
  "cont b \<longleftrightarrow> 128 \<le> b \<and> b \<le> 191"

fun utf8_bytes :: "nat list \<Rightarrow> bool" where
  "utf8_bytes [] = True"
| "utf8_bytes (b # bs) =
     (if b < 128 then utf8_bytes bs
      else (case bs of [] \<Rightarrow> False | c # cs \<Rightarrow>
        if 194 \<le> b \<and> b \<le> 223 then cont c \<and> utf8_bytes cs
        else (case cs of [] \<Rightarrow> False | d # ds \<Rightarrow>
          if 224 \<le> b \<and> b \<le> 239 then
            (if b = 224 then 160 \<le> c \<and> c \<le> 191 else if b = 237 then 128 \<le> c \<and> c \<le> 159 else cont c)
            \<and> cont d \<and> utf8_bytes ds
          else (case ds of [] \<Rightarrow> False | e # es \<Rightarrow>
            if 240 \<le> b \<and> b \<le> 244 then
              (if b = 240 then 144 \<le> c \<and> c \<le> 191 else if b = 244 then 128 \<le> c \<and> c \<le> 143 else cont c)
              \<and> cont d \<and> cont e \<and> utf8_bytes es
            else False))))"

definition utf8 :: "string \<Rightarrow> bool" where
  "utf8 s \<longleftrightarrow> utf8_bytes (map of_char s)"

fun blank_bytes :: "nat list \<Rightarrow> bool" where
  "blank_bytes [] = True"
| "blank_bytes (b # bs) =
     (if 9 \<le> b \<and> b \<le> 13 \<or> b = 32 then blank_bytes bs
      else (case bs of [] \<Rightarrow> False | c # cs \<Rightarrow>
        if b = 194 \<and> (c = 133 \<or> c = 160) then blank_bytes cs
        else (case cs of [] \<Rightarrow> False | d # ds \<Rightarrow>
          if b = 225 \<and> c = 154 \<and> d = 128
             \<or> b = 226 \<and> c = 128 \<and> (128 \<le> d \<and> d \<le> 138 \<or> d = 168 \<or> d = 169 \<or> d = 175)
             \<or> b = 226 \<and> c = 129 \<and> d = 159
             \<or> b = 227 \<and> c = 128 \<and> d = 128
          then blank_bytes ds else False)))"

definition blank :: "string \<Rightarrow> bool" where
  "blank s \<longleftrightarrow> blank_bytes (map of_char s)"

text \<open>What the Rust types of a value and a row guarantee and the encodings rely on: strings are
  UTF-8, and no allocation exceeds \<^verbatim>\<open>isize::MAX\<close> bytes (\<open>alloc_fits k n\<close> for \<open>n\<close> elements of
  \<open>k\<close> bytes). Exhaustion of memory below that bound is not modelled.\<close>

definition isize_max :: nat where
  "isize_max = 2 ^ 63 - 1"

definition alloc_fits :: "nat \<Rightarrow> nat \<Rightarrow> bool" where
  "alloc_fits k n \<longleftrightarrow> k * n \<le> isize_max"

lemma alloc_fits_u64: "alloc_fits k n \<Longrightarrow> 0 < k \<Longrightarrow> n < 2 ^ 64"
proof -
  assume "alloc_fits k n" and "0 < k"
  then have "n \<le> k * n" and "k * n \<le> isize_max"
    by (auto simp: alloc_fits_def)
  then have "n \<le> isize_max" by (rule le_trans)
  then show "n < 2 ^ 64"
    by (simp add: isize_max_def)
qed

definition str_ok :: "string \<Rightarrow> bool" where
  "str_ok s \<longleftrightarrow> utf8 s \<and> alloc_fits 1 (length s)"

fun value_ok :: "value_t \<Rightarrow> bool" where
  "value_ok (VString s) = str_ok s"
| "value_ok (VBytes bs) = alloc_fits 1 (length bs)"
| "value_ok _ = True"

text \<open>A \<^verbatim>\<open>Value\<close> takes 24 bytes (a 16-byte boxed slice and a tag).\<close>

definition size_of_value :: nat where
  "size_of_value = 24"

definition row_ok :: "row \<Rightarrow> bool" where
  "row_ok r \<longleftrightarrow> (\<forall>v \<in> set (row_values r). value_ok v) \<and>
     alloc_fits size_of_value (length (row_values r))"

end
