(* ===== verification/Core_Schema.thy ===== *)
theory Core_Schema
  imports Core_Value
begin

text \<open>
  \<^verbatim>\<open>nexum-core/src/schema.rs\<close>: column and index definitions, validated table schemas and their
  builder, row validation and column resolution; \<^verbatim>\<open>Row::get_named\<close> from \<^verbatim>\<open>row.rs\<close>. The predicate
  \<open>schema_valid\<close> states the invariants the documentation of \<^verbatim>\<open>TableSchema\<close> lists; the lemmas show
  that \<^verbatim>\<open>build\<close> accepts exactly the builders that satisfy it.
\<close>

section \<open>Data\<close>

record column_def =
  cd_id :: column_id
  cd_name :: string
  cd_ty :: column_type

record index_def =
  idf_name :: string
  idf_columns :: "string list"
  idf_unique :: bool

definition index_def_new :: "string \<Rightarrow> string list \<Rightarrow> bool \<Rightarrow> index_def" where
  "index_def_new name columns unique = \<lparr>idf_name = name, idf_columns = columns, idf_unique = unique\<rparr>"

record table_schema =
  ts_name :: string
  ts_columns :: "column_def list"
  ts_primary_key :: "string list option"
  ts_indexes :: "index_def list"

record schema_builder =
  sb_name :: string
  sb_columns :: "column_def list"
  sb_primary_key :: "string list option"
  sb_indexes :: "index_def list"

section \<open>Accessors\<close>

definition schema_column :: "table_schema \<Rightarrow> string \<Rightarrow> column_def option" where
  "schema_column s name = find (\<lambda>c. cd_name c = name) (ts_columns s)"

fun position :: "('a \<Rightarrow> bool) \<Rightarrow> 'a list \<Rightarrow> nat option" where
  "position P [] = None"
| "position P (x # xs) = (if P x then Some 0 else map_option Suc (position P xs))"

definition column_index :: "table_schema \<Rightarrow> string \<Rightarrow> nat option" where
  "column_index s name = position (\<lambda>c. cd_name c = name) (ts_columns s)"

definition column_count :: "table_schema \<Rightarrow> nat" where
  "column_count s = length (ts_columns s)"

definition has_primary_key :: "table_schema \<Rightarrow> bool" where
  "has_primary_key s \<longleftrightarrow> ts_primary_key s \<noteq> None"

definition schema_index :: "table_schema \<Rightarrow> string \<Rightarrow> index_def option" where
  "schema_index s name = find (\<lambda>i. idf_name i = name) (ts_indexes s)"

definition has_index :: "table_schema \<Rightarrow> string \<Rightarrow> bool" where
  "has_index s name \<longleftrightarrow> list_ex (\<lambda>i. idf_name i = name) (ts_indexes s)"

definition get_named :: "row \<Rightarrow> table_schema \<Rightarrow> string \<Rightarrow> value_t option" where
  "get_named r s name = Option.bind (column_index s name) (row_get r)"

text \<open>Row validation: arity first, then the column types in order.\<close>

definition validate_row :: "table_schema \<Rightarrow> value_t list \<Rightarrow> unit res" where
  "validate_row s vs =
     (if length vs \<noteq> length (ts_columns s) then Err InvalidArgument
      else all_res (\<lambda>(c, v). if type_of v \<noteq> cd_ty c then Err InvalidArgument else Ok ())
             (zip (ts_columns s) vs))"

definition resolve_columns :: "table_schema \<Rightarrow> string list \<Rightarrow> nat list res" where
  "resolve_columns s names = map_res (\<lambda>n. ok_or InvalidArgument (column_index s n)) names"

section \<open>The builder\<close>

definition builder_new :: "string \<Rightarrow> schema_builder" where
  "builder_new name = \<lparr>sb_name = name, sb_columns = [], sb_primary_key = None, sb_indexes = []\<rparr>"

definition builder_column :: "string \<Rightarrow> column_type \<Rightarrow> schema_builder \<Rightarrow> schema_builder" where
  "builder_column name ty b =
     b\<lparr>sb_columns := sb_columns b @
         [\<lparr>cd_id = word_of_nat (length (sb_columns b)), cd_name = name, cd_ty = ty\<rparr>]\<rparr>"

definition builder_primary_key :: "string list \<Rightarrow> schema_builder \<Rightarrow> schema_builder" where
  "builder_primary_key columns b = b\<lparr>sb_primary_key := Some columns\<rparr>"

definition builder_index :: "string \<Rightarrow> string list \<Rightarrow> schema_builder \<Rightarrow> schema_builder" where
  "builder_index name columns b =
     b\<lparr>sb_indexes := sb_indexes b @ [\<lparr>idf_name = name, idf_columns = columns, idf_unique = False\<rparr>]\<rparr>"

definition builder_unique_index :: "string \<Rightarrow> string list \<Rightarrow> schema_builder \<Rightarrow> schema_builder" where
  "builder_unique_index name columns b =
     b\<lparr>sb_indexes := sb_indexes b @ [\<lparr>idf_name = name, idf_columns = columns, idf_unique = True\<rparr>]\<rparr>"

fun build_columns_check :: "string list \<Rightarrow> column_def list \<Rightarrow> unit res" where
  "build_columns_check seen [] = Ok ()"
| "build_columns_check seen (c # cs) =
     (if blank (cd_name c) then Err InvalidArgument
      else if cd_name c \<in> set seen then Err InvalidArgument
      else build_columns_check (cd_name c # seen) cs)"

fun build_indexes_check :: "string list \<Rightarrow> index_def list \<Rightarrow> unit res" where
  "build_indexes_check seen [] = Ok ()"
| "build_indexes_check seen (i # is) =
     (if blank (idf_name i) then Err InvalidArgument
      else if idf_name i \<in> set seen then Err InvalidArgument
      else if idf_columns i = [] then Err InvalidArgument
      else build_indexes_check (idf_name i # seen) is)"

definition known_column :: "column_def list \<Rightarrow> string \<Rightarrow> unit res" where
  "known_column columns name =
     (if list_ex (\<lambda>c. cd_name c = name) columns then Ok () else Err InvalidArgument)"

definition build :: "schema_builder \<Rightarrow> table_schema res" where
  "build b =
     (if blank (sb_name b) then Err InvalidArgument
      else if sb_columns b = [] then Err InvalidArgument
      else bind_res (build_columns_check [] (sb_columns b)) (\<lambda>_.
           bind_res (build_indexes_check [] (sb_indexes b)) (\<lambda>_.
           bind_res (case sb_primary_key b of
                       None \<Rightarrow> Ok ()
                     | Some pk \<Rightarrow> all_res (known_column (sb_columns b)) pk) (\<lambda>_.
           bind_res (all_res (\<lambda>i. all_res (known_column (sb_columns b)) (idf_columns i))
                       (sb_indexes b)) (\<lambda>_.
           Ok \<lparr>ts_name = sb_name b, ts_columns = sb_columns b,
               ts_primary_key = sb_primary_key b, ts_indexes = sb_indexes b\<rparr>)))))"

section \<open>The documented invariants\<close>

definition columns_valid :: "column_def list \<Rightarrow> bool" where
  "columns_valid cs \<longleftrightarrow>
     (\<forall>c \<in> set cs. \<not> blank (cd_name c)) \<and> distinct (map cd_name cs)"

definition indexes_valid :: "index_def list \<Rightarrow> bool" where
  "indexes_valid is \<longleftrightarrow>
     (\<forall>i \<in> set is. \<not> blank (idf_name i) \<and> idf_columns i \<noteq> []) \<and> distinct (map idf_name is)"

definition schema_valid :: "table_schema \<Rightarrow> bool" where
  "schema_valid s \<longleftrightarrow>
     \<not> blank (ts_name s) \<and> ts_columns s \<noteq> [] \<and> columns_valid (ts_columns s) \<and>
     indexes_valid (ts_indexes s) \<and>
     (\<forall>pk. ts_primary_key s = Some pk \<longrightarrow> set pk \<subseteq> cd_name ` set (ts_columns s)) \<and>
     (\<forall>i \<in> set (ts_indexes s). set (idf_columns i) \<subseteq> cd_name ` set (ts_columns s))"

text \<open>The column ids the builder assigns are the positions.\<close>

definition ids_positional :: "column_def list \<Rightarrow> bool" where
  "ids_positional cs \<longleftrightarrow> map cd_id cs = map word_of_nat [0..<length cs]"

definition schema_of :: "schema_builder \<Rightarrow> table_schema" where
  "schema_of b = \<lparr>ts_name = sb_name b, ts_columns = sb_columns b,
                  ts_primary_key = sb_primary_key b, ts_indexes = sb_indexes b\<rparr>"

lemma schema_of_sel [simp]:
  "ts_name (schema_of b) = sb_name b"
  "ts_columns (schema_of b) = sb_columns b"
  "ts_primary_key (schema_of b) = sb_primary_key b"
  "ts_indexes (schema_of b) = sb_indexes b"
  by (simp_all add: schema_of_def)

lemma build_columns_check_Ok:
  "build_columns_check seen cs = Ok u \<longleftrightarrow>
     columns_valid cs \<and> set seen \<inter> cd_name ` set cs = {}"
  by (induction seen cs rule: build_columns_check.induct) (auto simp: columns_valid_def)

lemma build_indexes_check_Ok:
  "build_indexes_check seen is = Ok u \<longleftrightarrow>
     indexes_valid is \<and> set seen \<inter> idf_name ` set is = {}"
  by (induction seen "is" rule: build_indexes_check.induct) (auto simp: indexes_valid_def)

lemma known_column_Ok: "known_column cs n = Ok u \<longleftrightarrow> n \<in> cd_name ` set cs"
  by (auto simp: known_column_def list_ex_iff)

lemma build_Ok: "build b = Ok s \<longleftrightarrow> schema_valid (schema_of b) \<and> s = schema_of b"
proof -
  have "(case sb_primary_key b of None \<Rightarrow> Ok () | Some pk \<Rightarrow> all_res (known_column (sb_columns b)) pk)
          = Ok () \<longleftrightarrow> (\<forall>pk. sb_primary_key b = Some pk \<longrightarrow> set pk \<subseteq> cd_name ` set (sb_columns b))"
    by (cases "sb_primary_key b") (auto simp: all_res_Ok known_column_Ok)
  then show ?thesis
    by (auto simp: build_def schema_valid_def bind_res_eq_Ok build_columns_check_Ok
        build_indexes_check_Ok all_res_Ok known_column_Ok schema_of_def)
qed

lemma build_checks_not_Panic:
  "build_columns_check seen cs \<noteq> Panic"
  "build_indexes_check seen is \<noteq> Panic"
  "known_column cs n \<noteq> Panic"
    apply (induction seen cs rule: build_columns_check.induct; simp)
   apply (induction seen "is" rule: build_indexes_check.induct; simp)
  apply (simp add: known_column_def)
  done

lemma build_not_Panic: "build b \<noteq> Panic"
  by (auto simp: build_def bind_res_not_Panic build_checks_not_Panic
      intro!: all_res_not_Panic split: option.splits)

section \<open>Positions and row validation\<close>

lemma position_Some:
  "position P xs = Some i \<longleftrightarrow> i < length xs \<and> P (xs ! i) \<and> (\<forall>j < i. \<not> P (xs ! j))"
proof (induction xs arbitrary: i)
  case Nil
  then show ?case by simp
next
  case (Cons x xs)
  show ?case
    by (cases i) (auto simp: Cons.IH nth_Cons split: nat.splits if_splits)
qed

lemma position_None: "position P xs = None \<longleftrightarrow> (\<forall>x \<in> set xs. \<not> P x)"
  by (induction xs) auto

lemma column_index_lt: "column_index s n = Some i \<Longrightarrow> i < length (ts_columns s)"
  by (simp add: column_index_def position_Some)

lemma column_index_ex: "n \<in> cd_name ` set (ts_columns s) \<Longrightarrow> \<exists>i. column_index s n = Some i"
  unfolding column_index_def
  by (metis (mono_tags, lifting) image_iff not_None_eq position_None)

lemma resolve_columns_lt:
  "resolve_columns s ns = Ok ps \<Longrightarrow> p \<in> set ps \<Longrightarrow> p < length (ts_columns s)"
  by (auto simp: resolve_columns_def map_res_Ok in_set_conv_nth column_index_lt)

lemma resolve_columns_total:
  "set ns \<subseteq> cd_name ` set (ts_columns s) \<Longrightarrow> \<exists>ps. resolve_columns s ns = Ok ps"
proof (induction ns)
  case Nil
  then show ?case by (simp add: resolve_columns_def)
next
  case (Cons n ns)
  then show ?case using column_index_ex [of n s] by (auto simp: resolve_columns_def)
qed

lemma resolve_columns_not_Panic: "resolve_columns s ns \<noteq> Panic"
  unfolding resolve_columns_def
  by (induction ns) (auto simp: bind_res_not_Panic ok_or_def split: option.splits)

lemma validate_row_Ok:
  "validate_row s vs = Ok u \<longleftrightarrow> map type_of vs = map cd_ty (ts_columns s)"
proof (cases "length vs = length (ts_columns s)")
  case True
  then show ?thesis
    by (auto simp: validate_row_def all_res_Ok list_eq_iff_nth_eq set_zip split: if_splits)
next
  case False
  then show ?thesis
    by (auto simp: validate_row_def dest: map_eq_imp_length_eq)
qed

lemma validate_row_cases: "validate_row s vs = Ok () \<or> validate_row s vs = Err InvalidArgument"
proof -
  have "all_res (\<lambda>(c, v). if type_of v \<noteq> cd_ty c then Err InvalidArgument else Ok ()) zs = Ok () \<or>
        all_res (\<lambda>(c, v). if type_of v \<noteq> cd_ty c then Err InvalidArgument else Ok ()) zs
          = Err InvalidArgument" for zs
    by (induction zs) (auto split: if_splits)
  then show ?thesis by (auto simp: validate_row_def)
qed

definition row_conforms :: "table_schema \<Rightarrow> row \<Rightarrow> bool" where
  "row_conforms s r \<longleftrightarrow> map type_of (row_values r) = map cd_ty (ts_columns s)"

lemma validate_row_if:
  "validate_row s (row_values r) = (if row_conforms s r then Ok () else Err InvalidArgument)"
  using validate_row_cases [of s "row_values r"] validate_row_Ok [of s "row_values r"]
  by (auto simp: row_conforms_def)

lemma row_conforms_length: "row_conforms s r \<Longrightarrow> length (row_values r) = length (ts_columns s)"
  unfolding row_conforms_def by (rule map_eq_imp_length_eq)

lemma row_get_conforms:
  "row_conforms s r \<Longrightarrow> i < length (ts_columns s) \<Longrightarrow> row_get r i = Some (row_values r ! i)"
  by (simp add: row_get_def row_conforms_length)

end
