(* ===== verification/Table_Index.thy ===== *)
theory Table_Index
  imports Storage_Table
begin

text \<open>
  \<^verbatim>\<open>nexum-table/src/index.rs\<close>: the derived indexes. A unique index maps a key to one row id, a
  non-unique one to the set of its row ids, kept in ascending order (the \<^verbatim>\<open>BTreeSet\<close> is its sorted
  list). The locale \<open>key_index\<close> states what a table relies on: what a lookup returns after a key is
  inserted or removed. Its lemmas show, once for any such structure, that maintaining it row by row
  keeps it an exact mirror of the rows; the interpretation discharges the laws for the code's
  two index kinds.
\<close>

type_synonym index_key = "value_t list"

datatype index_t =
    UniqueIx (ix_name: string) (ix_columns: "nat list") (unique_entries: "index_key \<rightharpoonup> row_id")
  | NonUniqueIx (ix_name: string) (ix_columns: "nat list")
      (set_entries: "index_key \<rightharpoonup> row_id list")

fun is_unique_ix :: "index_t \<Rightarrow> bool" where
  "is_unique_ix (UniqueIx _ _ _) = True"
| "is_unique_ix (NonUniqueIx _ _ _) = False"

definition index_unique :: "string \<Rightarrow> nat list \<Rightarrow> index_t" where
  "index_unique name columns = UniqueIx name columns Map.empty"

definition index_non_unique :: "string \<Rightarrow> nat list \<Rightarrow> index_t" where
  "index_non_unique name columns = NonUniqueIx name columns Map.empty"

definition key_of :: "index_t \<Rightarrow> row \<Rightarrow> index_key res" where
  "key_of ix r =
     map_res (\<lambda>position. case row_get r position of Some v \<Rightarrow> Ok v | None \<Rightarrow> Panic) (ix_columns ix)"

fun check_insert :: "index_t \<Rightarrow> index_key \<Rightarrow> unit res" where
  "check_insert (UniqueIx name columns entries) key =
     (if entries key \<noteq> None then Err AlreadyExists else Ok ())"
| "check_insert (NonUniqueIx name columns entries) key = Ok ()"

fun check_update :: "index_t \<Rightarrow> index_key \<Rightarrow> index_key \<Rightarrow> row_id \<Rightarrow> unit res" where
  "check_update (UniqueIx name columns entries) old_key new_key rid =
     (if old_key = new_key then Ok ()
      else (case entries new_key of
              Some existing \<Rightarrow> if existing \<noteq> rid then Err AlreadyExists else Ok ()
            | None \<Rightarrow> Ok ()))"
| "check_update (NonUniqueIx name columns entries) old_key new_key rid = Ok ()"

fun commit_insert :: "index_key \<Rightarrow> row_id \<Rightarrow> index_t \<Rightarrow> index_t" where
  "commit_insert key rid (UniqueIx name columns entries) =
     UniqueIx name columns (entries(key \<mapsto> rid))"
| "commit_insert key rid (NonUniqueIx name columns entries) =
     NonUniqueIx name columns
       (entries(key \<mapsto> insort_insert rid (case entries key of Some ids \<Rightarrow> ids | None \<Rightarrow> [])))"

fun commit_remove :: "index_key \<Rightarrow> row_id \<Rightarrow> index_t \<Rightarrow> index_t" where
  "commit_remove key rid (UniqueIx name columns entries) =
     UniqueIx name columns (entries(key := None))"
| "commit_remove key rid (NonUniqueIx name columns entries) =
     (case entries key of
        None \<Rightarrow> NonUniqueIx name columns entries
      | Some ids \<Rightarrow>
          let ids = remove1 rid ids in
          NonUniqueIx name columns (if ids = [] then entries(key := None) else entries(key \<mapsto> ids)))"

fun index_lookup :: "index_t \<Rightarrow> index_key \<Rightarrow> row_id list" where
  "index_lookup (UniqueIx name columns entries) key =
     (case entries key of Some rid \<Rightarrow> [rid] | None \<Rightarrow> [])"
| "index_lookup (NonUniqueIx name columns entries) key =
     (case entries key of Some ids \<Rightarrow> ids | None \<Rightarrow> [])"

section \<open>The contract of a derived index\<close>

locale key_index =
  fixes look :: "'ix \<Rightarrow> 'k \<Rightarrow> row_id list"
    and ins :: "'k \<Rightarrow> row_id \<Rightarrow> 'ix \<Rightarrow> 'ix"
    and del :: "'k \<Rightarrow> row_id \<Rightarrow> 'ix \<Rightarrow> 'ix"
    and admits :: "'ix \<Rightarrow> 'k \<Rightarrow> bool"
    and sound :: "'ix \<Rightarrow> bool"
  assumes look_sorted: "sound ix \<Longrightarrow> sorted_wrt (<) (look ix k)"
    and sound_ins: "sound ix \<Longrightarrow> sound (ins k rid ix)"
    and sound_del: "sound ix \<Longrightarrow> sound (del k rid ix)"
    and look_ins: "sound ix \<Longrightarrow> admits ix k \<Longrightarrow>
      set (look (ins k rid ix) k') = (if k' = k then insert rid (set (look ix k)) else set (look ix k'))"
    and look_del: "sound ix \<Longrightarrow> rid \<in> set (look ix k) \<Longrightarrow>
      set (look (del k rid ix) k') = (if k' = k then set (look ix k) - {rid} else set (look ix k'))"
    and admits_del: "k' \<noteq> k \<Longrightarrow> admits (del k rid ix) k' \<longleftrightarrow> admits ix k'"
begin

text \<open>The index mirrors a map from row ids to keys: a lookup returns exactly the rows with the key.\<close>

definition mirrors :: "'ix \<Rightarrow> (row_id \<rightharpoonup> 'k) \<Rightarrow> bool" where
  "mirrors ix m \<longleftrightarrow> sound ix \<and> (\<forall>k. set (look ix k) = {rid. m rid = Some k})"

lemma mirrors_look:
  assumes "mirrors ix m"
  shows "rid \<in> set (look ix k) \<longleftrightarrow> m rid = Some k"
  using assms by (simp add: mirrors_def)

lemma mirrors_look_sorted: "mirrors ix m \<Longrightarrow> sorted_wrt (<) (look ix k)"
  by (simp add: mirrors_def look_sorted)

text \<open>The lookup is determined by what is mirrored, whatever history built the index.\<close>

lemma mirrors_look_eq:
  assumes "mirrors ix m" and "mirrors ix' m"
  shows "look ix k = look ix' k"
  using assms by (intro strict_sorted_equal) (auto simp: mirrors_def look_sorted)

lemma mirrors_ins:
  assumes "mirrors ix m" and "m rid = None" and "admits ix k"
  shows "mirrors (ins k rid ix) (m(rid \<mapsto> k))"
  using assms by (auto simp: mirrors_def look_ins sound_ins split: if_splits)

lemma mirrors_del:
  assumes "mirrors ix m" and "m rid = Some k"
  shows "mirrors (del k rid ix) (m(rid := None))"
  using assms by (auto simp: mirrors_def look_del sound_del split: if_splits)

lemma mirrors_move:
  assumes "mirrors ix m" and "m rid = Some k" and "k' \<noteq> k" and "admits ix k'"
  shows "mirrors (ins k' rid (del k rid ix)) (m(rid \<mapsto> k'))"
  using mirrors_ins [OF mirrors_del [OF assms(1,2)], of rid k'] assms(3,4)
  by (simp add: admits_del)

end

section \<open>The two index kinds satisfy it\<close>

text \<open>No key is kept with an empty set of rows, and every set is in ascending order.\<close>

fun index_sound :: "index_t \<Rightarrow> bool" where
  "index_sound (UniqueIx name columns entries) = True"
| "index_sound (NonUniqueIx name columns entries) =
     (\<forall>k ids. entries k = Some ids \<longrightarrow> ids \<noteq> [] \<and> sorted_wrt (<) ids)"

abbreviation index_admits :: "index_t \<Rightarrow> index_key \<Rightarrow> bool" where
  "index_admits ix k \<equiv> check_insert ix k = Ok ()"

lemma insort_insert_ne [simp]: "insort_insert x xs \<noteq> []"
  by (auto simp: insort_insert_key_def)

lemma insort_insert_strict:
  "sorted_wrt (<) (xs :: u64 list) \<Longrightarrow> sorted_wrt (<) (insort_insert x xs)"
  by (auto simp: strict_sorted_iff sorted_insort_insert distinct_insort_insert)

lemma remove1_strict: "sorted_wrt (<) (xs :: u64 list) \<Longrightarrow> sorted_wrt (<) (remove1 x xs)"
  by (auto simp: strict_sorted_iff sorted_remove1)

lemma set_remove1_strict:
  "sorted_wrt (<) (xs :: u64 list) \<Longrightarrow> set (remove1 x xs) = set xs - {x}"
  by (simp add: strict_sorted_iff)

lemma lookup_commit_remove:
  assumes "index_sound ix" and "rid \<in> set (index_lookup ix k)"
  shows "set (index_lookup (commit_remove k rid ix) k')
      = (if k' = k then set (index_lookup ix k) - {rid} else set (index_lookup ix k'))"
proof (cases ix)
  case (UniqueIx name columns entries)
  then show ?thesis
    using assms by (cases "entries k") (auto split: if_splits)
next
  case (NonUniqueIx name columns entries)
  obtain ids where ids: "entries k = Some ids"
    using assms(2) NonUniqueIx by (cases "entries k") auto
  then have "sorted_wrt (<) ids"
    using assms(1) NonUniqueIx by simp
  then have "set (remove1 rid ids) = set ids - {rid}"
    by (rule set_remove1_strict)
  then show ?thesis
    using NonUniqueIx ids by (cases "remove1 rid ids = []") (auto simp: Let_def)
qed

interpretation ix: key_index index_lookup commit_insert commit_remove index_admits index_sound
proof unfold_locales
  fix ix :: "index_t" and k k' :: index_key and rid :: row_id
  show "sorted_wrt (<) (index_lookup ix k)" if "index_sound ix"
    using that by (cases ix) (auto split: option.splits)
  show "index_sound (commit_insert k rid ix)" if "index_sound ix"
    using that by (cases ix) (auto intro: insort_insert_strict split: option.splits)
  show "index_sound (commit_remove k rid ix)" if "index_sound ix"
    using that by (cases ix) (auto simp: Let_def intro: remove1_strict split: option.splits if_splits)
  show "set (index_lookup (commit_insert k rid ix) k')
      = (if k' = k then insert rid (set (index_lookup ix k)) else set (index_lookup ix k'))"
    if "index_sound ix" "index_admits ix k"
    using that by (cases ix) (auto simp: set_insort_insert split: option.splits if_splits)
  show "set (index_lookup (commit_remove k rid ix) k')
      = (if k' = k then set (index_lookup ix k) - {rid} else set (index_lookup ix k'))"
    if "index_sound ix" "rid \<in> set (index_lookup ix k)"
    using that by (rule lookup_commit_remove)
  show "index_admits (commit_remove k rid ix) k' \<longleftrightarrow> index_admits ix k'" if "k' \<noteq> k"
    using that by (cases ix) (auto simp: Let_def split: option.splits)
qed

lemma index_fields [simp]:
  "ix_columns (commit_insert k rid ix) = ix_columns ix"
  "ix_name (commit_insert k rid ix) = ix_name ix"
  "is_unique_ix (commit_insert k rid ix) = is_unique_ix ix"
  "ix_columns (commit_remove k rid ix) = ix_columns ix"
  "ix_name (commit_remove k rid ix) = ix_name ix"
  "is_unique_ix (commit_remove k rid ix) = is_unique_ix ix"
  by (cases ix; auto simp: Let_def split: option.splits)+

lemma new_index_mirrors:
  "ix.mirrors (index_unique name columns) Map.empty"
  "ix.mirrors (index_non_unique name columns) Map.empty"
  by (simp_all add: ix.mirrors_def index_unique_def index_non_unique_def)

section \<open>Checks against what is mirrored\<close>

lemma unique_entries_mirrors:
  assumes "ix.mirrors (UniqueIx name columns entries) m"
  shows "m q = Some k \<longleftrightarrow> entries k = Some q"
  using ix.mirrors_look [OF assms, of q k] by (auto split: option.splits)

lemma check_insert_if:
  assumes "ix.mirrors ix m"
  shows "check_insert ix k =
    (if is_unique_ix ix \<and> (\<exists>rid. m rid = Some k) then Err AlreadyExists else Ok ())"
  using assms by (cases ix) (auto simp: unique_entries_mirrors)

lemma check_update_if:
  assumes "ix.mirrors ix m" and "m rid = Some old"
  shows "check_update ix old new rid =
    (if is_unique_ix ix \<and> (\<exists>q. q \<noteq> rid \<and> m q = Some new) then Err AlreadyExists else Ok ())"
  using assms by (cases ix) (auto simp: unique_entries_mirrors split: option.splits)

text \<open>A unique index never has two rows under one key.\<close>

lemma unique_mirrors_inj:
  assumes "ix.mirrors ix m" and "is_unique_ix ix" and "m p = Some k" and "m q = Some k"
  shows "p = q"
  using assms by (cases ix) (auto simp: unique_entries_mirrors)

section \<open>Keys of rows\<close>

definition project :: "nat list \<Rightarrow> row \<Rightarrow> index_key" where
  "project columns r = map (\<lambda>c. row_values r ! c) columns"

lemma key_of_project:
  "\<forall>c \<in> set (ix_columns ix). c < length (row_values r) \<Longrightarrow> key_of ix r = Ok (project (ix_columns ix) r)"
  by (auto simp: key_of_def project_def map_res_Ok row_get_def)

end
