(* ===== verification/Table_Engine.thy ===== *)
theory Table_Engine
  imports Table_Index
begin

text \<open>
  \<^verbatim>\<open>nexum-table/src/table.rs\<close>: a table is its authoritative storage with the primary index and the
  named secondary indexes derived from it. \<open>table_wf\<close> says that every index mirrors the stored rows
  exactly; every operation keeps it, a refused operation changes nothing, and a lookup returns
  the rows a scan would find. The secondary indexes are a hash map the code iterates: an association
  list whose order stands for the iteration order, on which no result depends.
\<close>

record nexum_table =
  tb_storage :: storage_table
  tb_primary :: "index_t option"
  tb_indexes :: "(string \<times> index_t) list"

abbreviation table_schema_of :: "nexum_table \<Rightarrow> table_schema" where
  "table_schema_of t \<equiv> st_schema (tb_storage t)"

abbreviation table_rows :: "nexum_table \<Rightarrow> row_id \<rightharpoonup> stored_row" where
  "table_rows t \<equiv> storage_rows (tb_storage t)"

section \<open>Construction\<close>

definition primary_name :: string where
  "primary_name = ''primary''"

definition index_shell :: "table_schema \<Rightarrow> index_def \<Rightarrow> index_t res" where
  "index_shell schema def =
     bind_res (resolve_columns schema (idf_columns def)) (\<lambda>positions.
       Ok (if idf_unique def then index_unique (idf_name def) positions
           else index_non_unique (idf_name def) positions))"

fun secondary_shells ::
    "table_schema \<Rightarrow> index_def list \<Rightarrow> (string \<times> index_t) list \<Rightarrow> (string \<times> index_t) list res" where
  "secondary_shells schema [] indexes = Ok indexes"
| "secondary_shells schema (def # defs) indexes =
     bind_res (index_shell schema def) (\<lambda>ix.
       secondary_shells schema defs (AList.update (idf_name def) ix indexes))"

definition index_shells :: "table_schema \<Rightarrow> (index_t option \<times> (string \<times> index_t) list) res" where
  "index_shells schema =
     bind_res (case ts_primary_key schema of
                 Some names \<Rightarrow>
                   bind_res (resolve_columns schema names) (\<lambda>positions.
                     Ok (Some (index_unique primary_name positions)))
               | None \<Rightarrow> Ok None) (\<lambda>primary.
     bind_res (secondary_shells schema (ts_indexes schema) []) (\<lambda>indexes.
       Ok (primary, indexes)))"

definition table_new :: "table_id \<Rightarrow> table_schema \<Rightarrow> nexum_table res" where
  "table_new tid schema =
     bind_res (index_shells schema) (\<lambda>(primary, indexes).
       Ok \<lparr>tb_storage = storage_new tid schema, tb_primary = primary, tb_indexes = indexes\<rparr>)"

section \<open>Keys of all indexes, and committing them\<close>

definition primary_key_of :: "index_t option \<Rightarrow> row \<Rightarrow> index_key option res" where
  "primary_key_of primary r =
     (case primary of
        None \<Rightarrow> Ok None
      | Some ix \<Rightarrow> bind_res (key_of ix r) (\<lambda>k. Ok (Some k)))"

definition secondary_keys :: "(string \<times> index_t) list \<Rightarrow> row \<Rightarrow> (string \<times> index_key) list res" where
  "secondary_keys indexes r =
     map_res (\<lambda>(name, ix). bind_res (key_of ix r) (\<lambda>k. Ok (name, k))) indexes"

text \<open>The loop over the computed keys: \<^verbatim>\<open>get_mut(&name).expect(..)\<close>, then the index operation.\<close>

fun commit_each ::
    "('k \<Rightarrow> index_t \<Rightarrow> index_t) \<Rightarrow> (string \<times> 'k) list \<Rightarrow> (string \<times> index_t) list \<Rightarrow>
      (string \<times> index_t) list res" where
  "commit_each f [] indexes = Ok indexes"
| "commit_each f ((name, k) # ks) indexes =
     (case map_of indexes name of
        None \<Rightarrow> Panic
      | Some ix \<Rightarrow> commit_each f ks (AList.update name (f k ix) indexes))"

fun rebuild_rows ::
    "(row_id \<times> row) list \<Rightarrow> index_t option \<times> (string \<times> index_t) list \<Rightarrow>
      (index_t option \<times> (string \<times> index_t) list) res" where
  "rebuild_rows [] ixs = Ok ixs"
| "rebuild_rows ((rid, r) # rows) (primary, indexes) =
     bind_res (case primary of
                 None \<Rightarrow> Ok None
               | Some ix \<Rightarrow> bind_res (key_of ix r) (\<lambda>key. Ok (Some (commit_insert key rid ix)))) (\<lambda>primary.
     bind_res (secondary_keys indexes r) (\<lambda>secondary.
     bind_res (commit_each (\<lambda>key. commit_insert key rid) secondary indexes) (\<lambda>indexes.
       rebuild_rows rows (primary, indexes))))"

definition rebuild_indexes :: "nexum_table \<Rightarrow> nexum_table res" where
  "rebuild_indexes t =
     (let rows = map (\<lambda>(rid, stored). (rid, sr_row stored)) (storage_scan (tb_storage t)) in
      bind_res (rebuild_rows rows (tb_primary t, tb_indexes t)) (\<lambda>(primary, indexes).
        Ok (t\<lparr>tb_primary := primary, tb_indexes := indexes\<rparr>)))"

definition table_from_state :: "table_state \<Rightarrow> nexum_table res" where
  "table_from_state st =
     bind_res (storage_from_state st) (\<lambda>storage.
     bind_res (index_shells (st_schema storage)) (\<lambda>(primary, indexes).
       rebuild_indexes \<lparr>tb_storage = storage, tb_primary = primary, tb_indexes = indexes\<rparr>))"

definition table_state_of :: "nexum_table \<Rightarrow> table_state" where
  "table_state_of t = storage_table_state (tb_storage t)"

section \<open>Mutations\<close>

definition table_insert :: "row \<Rightarrow> nexum_table \<Rightarrow> row_id res \<times> nexum_table" where
  "table_insert r t =
     try_res (validate_row (table_schema_of t) (row_values r)) t (\<lambda>_.
     try_res (primary_key_of (tb_primary t) r) t (\<lambda>primary_key.
     try_res (case (tb_primary t, primary_key) of
                (Some ix, Some key) \<Rightarrow> check_insert ix key
              | _ \<Rightarrow> Ok ()) t (\<lambda>_.
     try_res (secondary_keys (tb_indexes t) r) t (\<lambda>secondary.
     try_res (all_res (\<lambda>(name, key). case map_of (tb_indexes t) name of
                Some ix \<Rightarrow> check_insert ix key | None \<Rightarrow> Ok ()) secondary) t (\<lambda>_.
       (case storage_insert r (tb_storage t) of (res, storage) \<Rightarrow>
          let t = t\<lparr>tb_storage := storage\<rparr> in
          try_res res t (\<lambda>rid.
            let t = t\<lparr>tb_primary :=
                  (case (tb_primary t, primary_key) of
                     (Some ix, Some key) \<Rightarrow> Some (commit_insert key rid ix)
                   | _ \<Rightarrow> tb_primary t)\<rparr> in
            try_res (commit_each (\<lambda>key. commit_insert key rid) secondary (tb_indexes t)) t (\<lambda>indexes.
              (Ok rid, t\<lparr>tb_indexes := indexes\<rparr>)))))))))"

definition move_key :: "row_id \<Rightarrow> index_key \<times> index_key \<Rightarrow> index_t \<Rightarrow> index_t" where
  "move_key rid keys ix =
     (case keys of (old, new) \<Rightarrow>
        if old \<noteq> new then commit_insert new rid (commit_remove old rid ix) else ix)"

definition table_update :: "row_id \<Rightarrow> row \<Rightarrow> nexum_table \<Rightarrow> unit res \<times> nexum_table" where
  "table_update rid r t =
     try_res (validate_row (table_schema_of t) (row_values r)) t (\<lambda>_.
     try_res (ok_or NotFound (storage_get (tb_storage t) rid)) t (\<lambda>stored.
     let old_row = sr_row stored in
     try_res (primary_key_of (tb_primary t) old_row) t (\<lambda>old_primary_key.
     try_res (primary_key_of (tb_primary t) r) t (\<lambda>new_primary_key.
     try_res (case (tb_primary t, old_primary_key, new_primary_key) of
                (Some ix, Some old, Some new) \<Rightarrow> check_update ix old new rid
              | _ \<Rightarrow> Ok ()) t (\<lambda>_.
     try_res (map_res (\<lambda>(name, ix).
                bind_res (key_of ix old_row) (\<lambda>old.
                bind_res (key_of ix r) (\<lambda>new. Ok (name, old, new)))) (tb_indexes t)) t (\<lambda>secondary.
     try_res (all_res (\<lambda>(name, old, new). case map_of (tb_indexes t) name of
                Some ix \<Rightarrow> check_update ix old new rid | None \<Rightarrow> Panic) secondary) t (\<lambda>_.
       (case storage_update rid r (tb_storage t) of (res, storage) \<Rightarrow>
          let t = t\<lparr>tb_storage := storage\<rparr> in
          try_res res t (\<lambda>_.
            let t = t\<lparr>tb_primary :=
                  (case (tb_primary t, old_primary_key, new_primary_key) of
                     (Some ix, Some old, Some new) \<Rightarrow> Some (move_key rid (old, new) ix)
                   | _ \<Rightarrow> tb_primary t)\<rparr> in
            try_res (commit_each (move_key rid) secondary (tb_indexes t)) t (\<lambda>indexes.
              (Ok (), t\<lparr>tb_indexes := indexes\<rparr>)))))))))))"

definition table_delete :: "row_id \<Rightarrow> nexum_table \<Rightarrow> unit res \<times> nexum_table" where
  "table_delete rid t =
     try_res (ok_or NotFound (storage_get (tb_storage t) rid)) t (\<lambda>stored.
     let r = sr_row stored in
     (case storage_delete rid (tb_storage t) of (res, storage) \<Rightarrow>
        let t = t\<lparr>tb_storage := storage\<rparr> in
        try_res res t (\<lambda>_.
        try_res (case tb_primary t of
                   None \<Rightarrow> Ok None
                 | Some ix \<Rightarrow> bind_res (key_of ix r) (\<lambda>key. Ok (Some (commit_remove key rid ix)))) t
          (\<lambda>primary.
             let t = t\<lparr>tb_primary := primary\<rparr> in
             try_res (secondary_keys (tb_indexes t) r) t (\<lambda>secondary.
             try_res (commit_each (\<lambda>key. commit_remove key rid) secondary (tb_indexes t)) t (\<lambda>indexes.
               (Ok (), t\<lparr>tb_indexes := indexes\<rparr>)))))))"

fun fill_index :: "(row_id \<times> row) list \<Rightarrow> index_t \<Rightarrow> index_t res" where
  "fill_index [] ix = Ok ix"
| "fill_index ((rid, r) # rows) ix =
     bind_res (key_of ix r) (\<lambda>key.
     bind_res (check_insert ix key) (\<lambda>_.
       fill_index rows (commit_insert key rid ix)))"

definition table_add_index :: "index_def \<Rightarrow> nexum_table \<Rightarrow> unit res \<times> nexum_table" where
  "table_add_index def t =
     (if idf_name def = [] then (Err InvalidArgument, t)
      else if idf_name def = primary_name then (Err InvalidArgument, t)
      else if map_of (tb_indexes t) (idf_name def) \<noteq> None then (Err AlreadyExists, t)
      else
        try_res (index_shell (table_schema_of t) def) t (\<lambda>ix.
        let rows = map (\<lambda>(rid, stored). (rid, sr_row stored)) (storage_scan (tb_storage t)) in
        try_res (fill_index rows ix) t (\<lambda>ix.
          (Ok (), t\<lparr>tb_indexes := AList.update (idf_name def) ix (tb_indexes t)\<rparr>))))"

definition table_drain_changes :: "nexum_table \<Rightarrow> change list \<times> nexum_table" where
  "table_drain_changes t =
     (case storage_drain_changes (tb_storage t) of (cs, s) \<Rightarrow> (cs, t\<lparr>tb_storage := s\<rparr>))"

section \<open>Reads\<close>

definition validate_key :: "nexum_table \<Rightarrow> index_t \<Rightarrow> index_key \<Rightarrow> unit res" where
  "validate_key t ix key =
     (if length key \<noteq> length (ix_columns ix) then Err InvalidArgument
      else all_res (\<lambda>(position, v).
             if \<not> position < length (ts_columns (table_schema_of t)) then Panic
             else if type_of v \<noteq> cd_ty (ts_columns (table_schema_of t) ! position)
             then Err InvalidArgument else Ok ()) (zip (ix_columns ix) key))"

definition get_by_primary_key :: "nexum_table \<Rightarrow> index_key \<Rightarrow> row option res" where
  "get_by_primary_key t key =
     bind_res (ok_or InvalidArgument (tb_primary t)) (\<lambda>ix.
     bind_res (validate_key t ix key) (\<lambda>_.
       Ok (case index_lookup ix key of
             [] \<Rightarrow> None
           | rid # _ \<Rightarrow> storage_get_row (tb_storage t) rid)))"

definition table_lookup :: "nexum_table \<Rightarrow> string \<Rightarrow> index_key \<Rightarrow> row_id list res" where
  "table_lookup t name key =
     bind_res (ok_or NotFound (map_of (tb_indexes t) name)) (\<lambda>ix.
     bind_res (validate_key t ix key) (\<lambda>_. Ok (index_lookup ix key)))"

definition table_lookup_unique :: "nexum_table \<Rightarrow> string \<Rightarrow> index_key \<Rightarrow> row_id list res" where
  "table_lookup_unique t name key =
     (if name = primary_name then
        bind_res (ok_or InvalidArgument (tb_primary t)) (\<lambda>ix.
        bind_res (validate_key t ix key) (\<lambda>_. Ok (index_lookup ix key)))
      else
        bind_res (ok_or NotFound (map_of (tb_indexes t) name)) (\<lambda>ix.
          if is_unique_ix ix then bind_res (validate_key t ix key) (\<lambda>_. Ok (index_lookup ix key))
          else Err InvalidArgument))"

definition named_keys :: "index_t list \<Rightarrow> row \<Rightarrow> (string \<times> index_key) list res" where
  "named_keys ixs r = map_res (\<lambda>ix. bind_res (key_of ix r) (\<lambda>k. Ok (ix_name ix, k))) ixs"

definition index_keys :: "nexum_table \<Rightarrow> row \<Rightarrow> (string \<times> index_key) list res" where
  "index_keys t r =
     bind_res (validate_row (table_schema_of t) (row_values r)) (\<lambda>_.
     bind_res (named_keys (case tb_primary t of None \<Rightarrow> [] | Some ix \<Rightarrow> [ix]) r) (\<lambda>keys.
     bind_res (named_keys (map snd (tb_indexes t)) r) (\<lambda>secondary.
       Ok (keys @ sort_key fst secondary))))"

definition unique_keys :: "nexum_table \<Rightarrow> row \<Rightarrow> (string \<times> index_key) list res" where
  "unique_keys t r =
     bind_res (validate_row (table_schema_of t) (row_values r)) (\<lambda>_.
     bind_res (named_keys (case tb_primary t of None \<Rightarrow> [] | Some ix \<Rightarrow> [ix]) r) (\<lambda>keys.
     bind_res (named_keys (filter is_unique_ix (map snd (tb_indexes t))) r) (\<lambda>secondary.
       Ok (keys @ sort_key fst secondary))))"

definition table_scan :: "nexum_table \<Rightarrow> (row_id \<times> row) list" where
  "table_scan t = map (\<lambda>(rid, stored). (rid, sr_row stored)) (storage_scan (tb_storage t))"

definition table_get :: "nexum_table \<Rightarrow> row_id \<Rightarrow> row option" where
  "table_get t rid = storage_get_row (tb_storage t) rid"

section \<open>The invariant\<close>

definition row_keys :: "nat list \<Rightarrow> (row_id \<rightharpoonup> stored_row) \<Rightarrow> row_id \<rightharpoonup> index_key" where
  "row_keys columns rows rid = map_option (\<lambda>stored. project columns (sr_row stored)) (rows rid)"

definition index_for :: "table_schema \<Rightarrow> (row_id \<rightharpoonup> stored_row) \<Rightarrow> index_t \<Rightarrow> bool" where
  "index_for schema rows ix \<longleftrightarrow>
     (\<forall>c \<in> set (ix_columns ix). c < length (ts_columns schema)) \<and>
     ix.mirrors ix (row_keys (ix_columns ix) rows)"

definition table_indexes :: "nexum_table \<Rightarrow> index_t list" where
  "table_indexes t = (case tb_primary t of None \<Rightarrow> [] | Some ix \<Rightarrow> [ix]) @ map snd (tb_indexes t)"

definition indexes_named :: "index_t option \<Rightarrow> (string \<times> index_t) list \<Rightarrow> bool" where
  "indexes_named primary indexes \<longleftrightarrow>
     distinct (map fst indexes) \<and> (\<forall>(name, ix) \<in> set indexes. ix_name ix = name) \<and>
     (\<forall>ix. primary = Some ix \<longrightarrow> is_unique_ix ix \<and> ix_name ix = primary_name)"

text \<open>Every index the schema declares is there (with the declared columns and uniqueness).\<close>

definition index_shape :: "index_t \<Rightarrow> nat list \<times> bool" where
  "index_shape ix = (ix_columns ix, is_unique_ix ix)"

definition shells_list :: "index_t option \<times> (string \<times> index_t) list \<Rightarrow> index_t list" where
  "shells_list sh = (case fst sh of None \<Rightarrow> [] | Some ix \<Rightarrow> [ix]) @ map snd (snd sh)"

definition declared :: "table_schema \<Rightarrow> index_t list \<Rightarrow> bool" where
  "declared schema ixs \<longleftrightarrow>
     (\<exists>sh. index_shells schema = Ok sh \<and>
        index_shape ` set (shells_list sh) \<subseteq> index_shape ` set ixs)"

lemma declared_mono: "declared schema ixs \<Longrightarrow> set ixs \<subseteq> set ixs' \<Longrightarrow> declared schema ixs'"
  unfolding declared_def by (meson image_mono subset_trans)

definition table_wf :: "nexum_table \<Rightarrow> bool" where
  "table_wf t \<longleftrightarrow>
     storage_wf (tb_storage t) \<and> indexes_named (tb_primary t) (tb_indexes t) \<and>
     declared (table_schema_of t) (table_indexes t) \<and>
     (\<forall>ix \<in> set (table_indexes t). index_for (table_schema_of t) (table_rows t) ix)"

lemma table_wf_storage [simp]: "table_wf t \<Longrightarrow> storage_wf (tb_storage t)"
  by (simp add: table_wf_def)

lemma table_wf_declared: "table_wf t \<Longrightarrow> declared (table_schema_of t) (table_indexes t)"
  by (simp add: table_wf_def)

lemma table_wf_index: "table_wf t \<Longrightarrow> ix \<in> set (table_indexes t) \<Longrightarrow>
    index_for (table_schema_of t) (table_rows t) ix"
  by (simp add: table_wf_def)

lemma table_wf_distinct: "table_wf t \<Longrightarrow> distinct (map fst (tb_indexes t))"
  by (simp add: table_wf_def indexes_named_def)

definition map_indexes :: "(index_t \<Rightarrow> index_t) \<Rightarrow> nexum_table \<Rightarrow> nexum_table" where
  "map_indexes f t =
     t\<lparr>tb_primary := map_option f (tb_primary t),
       tb_indexes := map (\<lambda>(name, ix). (name, f ix)) (tb_indexes t)\<rparr>"

lemma map_indexes_storage [simp]: "tb_storage (map_indexes f t) = tb_storage t"
  by (simp add: map_indexes_def)

lemma table_indexes_map [simp]: "table_indexes (map_indexes f t) = map f (table_indexes t)"
  by (auto simp: table_indexes_def map_indexes_def split: option.splits)

lemma table_indexes_storage [simp]: "table_indexes (t\<lparr>tb_storage := s\<rparr>) = table_indexes t"
  by (simp add: table_indexes_def)

lemma indexes_named_map:
  assumes "\<And>ix. ix_name (f ix) = ix_name ix" and "\<And>ix. is_unique_ix (f ix) = is_unique_ix ix"
    and "indexes_named primary indexes"
  shows "indexes_named (map_option f primary) (map (\<lambda>(name, ix). (name, f ix)) indexes)"
proof -
  have "map fst (map (\<lambda>(name, ix). (name, f ix)) indexes) = map fst indexes"
    by (simp add: o_def case_prod_beta)
  with assms show ?thesis by (auto simp: indexes_named_def simp del: map_map)
qed

text \<open>What an operation does to each index is enough to know what it does to the table.\<close>

lemma map_indexes_wf:
  assumes wf: "table_wf t" and "storage_wf s" and "st_schema s = table_schema_of t"
    and "\<And>ix. ix_name (f ix) = ix_name ix" and "\<And>ix. is_unique_ix (f ix) = is_unique_ix ix"
    and "\<And>ix. ix_columns (f ix) = ix_columns ix"
    and "\<And>ix. ix \<in> set (table_indexes t) \<Longrightarrow> index_for (table_schema_of t) (storage_rows s) (f ix)"
  shows "table_wf (map_indexes f (t\<lparr>tb_storage := s\<rparr>))"
  unfolding table_wf_def
proof (intro conjI ballI)
  show "storage_wf (tb_storage (map_indexes f (t\<lparr>tb_storage := s\<rparr>)))"
    using assms(2) by simp
  show "indexes_named (tb_primary (map_indexes f (t\<lparr>tb_storage := s\<rparr>)))
      (tb_indexes (map_indexes f (t\<lparr>tb_storage := s\<rparr>)))"
    using indexes_named_map [of f, OF assms(4,5)] wf by (simp add: map_indexes_def table_wf_def)
  have "index_shape (f ix) = index_shape ix" for ix
    using assms(5,6) by (simp add: index_shape_def)
  then show "declared (table_schema_of (map_indexes f (t\<lparr>tb_storage := s\<rparr>)))
      (table_indexes (map_indexes f (t\<lparr>tb_storage := s\<rparr>)))"
    using wf assms(3) by (simp add: table_wf_def declared_def image_image)
  fix ix assume "ix \<in> set (table_indexes (map_indexes f (t\<lparr>tb_storage := s\<rparr>)))"
  then show "index_for (table_schema_of (map_indexes f (t\<lparr>tb_storage := s\<rparr>)))
      (table_rows (map_indexes f (t\<lparr>tb_storage := s\<rparr>))) ix"
    using assms(3,7) by auto
qed

section \<open>The loops over the indexes\<close>

lemma AList_update_mid:
  "name \<notin> fst ` set pre \<Longrightarrow>
     AList.update name v (pre @ (name, w) # post) = pre @ (name, v) # post"
  by (induction pre) auto

lemma commit_each_from:
  assumes "distinct (map fst (pre @ indexes))"
  shows "commit_each f (map (\<lambda>(name, ix). (name, kf ix)) indexes) (pre @ indexes)
           = Ok (pre @ map (\<lambda>(name, ix). (name, f (kf ix) ix)) indexes)"
  using assms
proof (induction indexes arbitrary: pre)
  case Nil
  then show ?case by simp
next
  case (Cons p indexes)
  obtain name ix where p: "p = (name, ix)" by (cases p)
  have new: "name \<notin> fst ` set pre" using Cons.prems by (auto simp: p)
  then have "map_of (pre @ p # indexes) name = Some ix"
    by (simp add: p map_add_def map_of_eq_None_iff [THEN iffD2] split: option.splits)
  moreover have "commit_each f (map (\<lambda>(name, ix). (name, kf ix)) indexes)
      ((pre @ [(name, f (kf ix) ix)]) @ indexes)
      = Ok ((pre @ [(name, f (kf ix) ix)]) @ map (\<lambda>(name, ix). (name, f (kf ix) ix)) indexes)"
    using Cons.prems by (intro Cons.IH) (auto simp: p)
  ultimately show ?case
    using new by (simp add: p AList_update_mid)
qed

lemma commit_each_all:
  "distinct (map fst indexes) \<Longrightarrow>
     commit_each f (map (\<lambda>(name, ix). (name, kf ix)) indexes) indexes
       = Ok (map (\<lambda>(name, ix). (name, f (kf ix) ix)) indexes)"
  using commit_each_from [of "[]"] by simp

lemma check_each:
  assumes "distinct (map fst indexes)"
  shows "all_res (\<lambda>(name, k). case map_of indexes name of Some ix \<Rightarrow> c ix k | None \<Rightarrow> d)
           (map (\<lambda>(name, ix). (name, kf ix)) indexes)
         = all_res (\<lambda>ix. c ix (kf ix)) (map snd indexes)"
  unfolding all_res_map
  by (rule all_res_cong) (auto simp: map_of_eq_Some_iff [THEN iffD2, OF assms])

lemma row_keys_conforms:
  assumes "index_for schema rows ix" and "row_conforms schema r"
  shows "key_of ix r = Ok (project (ix_columns ix) r)"
  using assms by (intro key_of_project) (simp add: index_for_def row_conforms_length)

lemma secondary_keys_Ok:
  assumes "\<And>ix. ix \<in> snd ` set indexes \<Longrightarrow> key_of ix r = Ok (project (ix_columns ix) r)"
  shows "secondary_keys indexes r = Ok (map (\<lambda>(name, ix). (name, project (ix_columns ix) r)) indexes)"
  unfolding secondary_keys_def
proof (rule map_res_map)
  fix p assume "p \<in> set indexes"
  then have "key_of (snd p) r = Ok (project (ix_columns (snd p)) r)" by (intro assms) auto
  then show "(case p of (name, ix) \<Rightarrow> bind_res (key_of ix r) (\<lambda>k. Ok (name, k)))
      = Ok (case p of (name, ix) \<Rightarrow> (name, project (ix_columns ix) r))"
    by (cases p) simp
qed

lemma table_keys:
  assumes wf: "table_wf t" and r: "row_conforms (table_schema_of t) r"
  shows "primary_key_of (tb_primary t) r
           = Ok (map_option (\<lambda>ix. project (ix_columns ix) r) (tb_primary t))"
    and "secondary_keys (tb_indexes t) r
           = Ok (map (\<lambda>(name, ix). (name, project (ix_columns ix) r)) (tb_indexes t))"
proof -
  have key: "ix \<in> set (table_indexes t) \<Longrightarrow> key_of ix r = Ok (project (ix_columns ix) r)" for ix
    using row_keys_conforms [OF table_wf_index [OF wf] r] .
  then show "primary_key_of (tb_primary t) r
           = Ok (map_option (\<lambda>ix. project (ix_columns ix) r) (tb_primary t))"
    by (auto simp: primary_key_of_def table_indexes_def split: option.splits)
  show "secondary_keys (tb_indexes t) r
           = Ok (map (\<lambda>(name, ix). (name, project (ix_columns ix) r)) (tb_indexes t))"
    using key by (intro secondary_keys_Ok) (simp add: table_indexes_def)
qed

section \<open>Insert\<close>

definition insert_conflict :: "nexum_table \<Rightarrow> row \<Rightarrow> bool" where
  "insert_conflict t r \<longleftrightarrow>
     (\<exists>ix \<in> set (table_indexes t). is_unique_ix ix \<and>
        (\<exists>rid stored. table_rows t rid = Some stored \<and>
           project (ix_columns ix) (sr_row stored) = project (ix_columns ix) r))"

lemma table_check_insert:
  assumes wf: "table_wf t"
  shows "bind_res (case tb_primary t of
           None \<Rightarrow> Ok () | Some ix \<Rightarrow> check_insert ix (project (ix_columns ix) r)) (\<lambda>_.
         all_res (\<lambda>ix. check_insert ix (project (ix_columns ix) r)) (map snd (tb_indexes t)))
         = (if insert_conflict t r then Err AlreadyExists else Ok ())"
proof -
  let ?chk = "\<lambda>ix. check_insert ix (project (ix_columns ix) r)"
  let ?P = "\<lambda>ix. is_unique_ix ix \<and> (\<exists>rid stored. table_rows t rid = Some stored \<and>
           project (ix_columns ix) (sr_row stored) = project (ix_columns ix) r)"
  have "bind_res (case tb_primary t of None \<Rightarrow> Ok () | Some ix \<Rightarrow> ?chk ix) (\<lambda>_.
      all_res ?chk (map snd (tb_indexes t))) = all_res ?chk (table_indexes t)"
    by (auto simp: table_indexes_def split: option.splits)
  also have "\<dots> = all_res (\<lambda>ix. if ?P ix then Err AlreadyExists else Ok ()) (table_indexes t)"
  proof (rule all_res_cong)
    fix ix assume "ix \<in> set (table_indexes t)"
    then have "ix.mirrors ix (row_keys (ix_columns ix) (table_rows t))"
      using table_wf_index [OF wf] by (simp add: index_for_def)
    then show "?chk ix = (if ?P ix then Err AlreadyExists else Ok ())"
      by (simp add: check_insert_if row_keys_def)
  qed
  also have "\<dots> = (if insert_conflict t r then Err AlreadyExists else Ok ())"
    unfolding all_res_if insert_conflict_def ..
  finally show ?thesis .
qed

text \<open>The outcome of an insertion on every branch.\<close>

lemma table_insert_eq:
  assumes wf: "table_wf t"
  shows "table_insert r t =
    (if \<not> row_conforms (table_schema_of t) r then (Err InvalidArgument, t)
     else if insert_conflict t r then (Err AlreadyExists, t)
     else (Ok (st_next_row_id (tb_storage t)),
           map_indexes (\<lambda>ix. commit_insert (project (ix_columns ix) r) (st_next_row_id (tb_storage t)) ix)
             (t\<lparr>tb_storage := snd (storage_insert r (tb_storage t))\<rparr>)))"
proof (cases "row_conforms (table_schema_of t) r")
  case False
  then show ?thesis by (simp add: table_insert_def validate_row_if)
next
  case True
  let ?rid = "st_next_row_id (tb_storage t)"
  let ?S = "all_res (\<lambda>ix. check_insert ix (project (ix_columns ix) r)) (map snd (tb_indexes t))"
  obtain s where s: "storage_insert r (tb_storage t) = (Ok ?rid, s)"
    using True by (simp add: storage_insert_eq)
  note dist = table_wf_distinct [OF wf]
  note keys = table_keys [OF wf True]
  note steps = table_insert_def validate_row_if keys(2) check_each [OF dist]
    commit_each_all [OF dist] map_indexes_def s Let_def
  show ?thesis
  proof (cases "tb_primary t")
    case None
    then show ?thesis
      using table_check_insert [OF wf, of r] True keys(1) by (simp add: steps split: if_splits)
  next
    case (Some ix)
    then show ?thesis
      using table_check_insert [OF wf, of r] True keys(1)
      by (cases "check_insert ix (project (ix_columns ix) r)") (simp_all add: steps split: if_splits)
  qed
qed

lemma row_keys_upd [simp]:
  "row_keys columns (rows(rid \<mapsto> stored)) = (row_keys columns rows)(rid \<mapsto> project columns (sr_row stored))"
  "row_keys columns (rows(rid := None)) = (row_keys columns rows)(rid := None)"
  by (auto simp: row_keys_def fun_eq_iff)

lemma table_insert_wf [wf_intros]:
  assumes wf: "table_wf t" and left: "ids_left (tb_storage t)"
  shows "table_wf (snd (table_insert r t))"
proof (cases "row_conforms (table_schema_of t) r \<and> \<not> insert_conflict t r")
  case False
  then show ?thesis using wf by (auto simp: table_insert_eq [OF wf])
next
  case True
  let ?s = "snd (storage_insert r (tb_storage t))" and ?rid = "st_next_row_id (tb_storage t)"
  have rows: "storage_rows ?s = (table_rows t)(?rid \<mapsto> \<lparr>sr_row = r, sr_version = 0\<rparr>)"
    using True wf by (simp add: storage_insert_eq om_get_put)
  have "index_for (table_schema_of t) (storage_rows ?s)
      (commit_insert (project (ix_columns ix) r) ?rid ix)" if ix: "ix \<in> set (table_indexes t)" for ix
  proof -
    have mir: "ix.mirrors ix (row_keys (ix_columns ix) (table_rows t))"
      using table_wf_index [OF wf ix] by (simp add: index_for_def)
    have "index_admits ix (project (ix_columns ix) r)"
      using True ix check_insert_if [OF mir] by (auto simp: insert_conflict_def row_keys_def)
    then show ?thesis
      using ix.mirrors_ins [OF mir, of ?rid] table_wf_index [OF wf ix] storage_wf_next [of "tb_storage t"] wf
      by (simp add: index_for_def rows row_keys_def)
  qed
  then have "table_wf (map_indexes (\<lambda>ix. commit_insert (project (ix_columns ix) r) ?rid ix)
      (t\<lparr>tb_storage := ?s\<rparr>))"
    using wf storage_insert_wf [OF _ left, of r]
    by (intro map_indexes_wf) (auto simp: storage_insert_eq)
  then show ?thesis
    using True by (simp add: table_insert_eq [OF wf])
qed

section \<open>Update\<close>

definition update_conflict :: "nexum_table \<Rightarrow> row_id \<Rightarrow> row \<Rightarrow> bool" where
  "update_conflict t rid r \<longleftrightarrow>
     (\<exists>ix \<in> set (table_indexes t). is_unique_ix ix \<and>
        (\<exists>q stored. q \<noteq> rid \<and> table_rows t q = Some stored \<and>
           project (ix_columns ix) (sr_row stored) = project (ix_columns ix) r))"

lemma table_check_update:
  assumes wf: "table_wf t" and stored: "table_rows t rid = Some stored"
  shows "bind_res (case tb_primary t of
           None \<Rightarrow> Ok ()
         | Some ix \<Rightarrow> check_update ix (project (ix_columns ix) (sr_row stored)) (project (ix_columns ix) r) rid) (\<lambda>_.
         all_res (\<lambda>ix. check_update ix (project (ix_columns ix) (sr_row stored)) (project (ix_columns ix) r) rid)
           (map snd (tb_indexes t)))
         = (if update_conflict t rid r then Err AlreadyExists else Ok ())"
proof -
  let ?chk = "\<lambda>ix. check_update ix (project (ix_columns ix) (sr_row stored)) (project (ix_columns ix) r) rid"
  let ?P = "\<lambda>ix. is_unique_ix ix \<and> (\<exists>q stored. q \<noteq> rid \<and> table_rows t q = Some stored \<and>
           project (ix_columns ix) (sr_row stored) = project (ix_columns ix) r)"
  have "bind_res (case tb_primary t of None \<Rightarrow> Ok () | Some ix \<Rightarrow> ?chk ix) (\<lambda>_.
      all_res ?chk (map snd (tb_indexes t))) = all_res ?chk (table_indexes t)"
    by (auto simp: table_indexes_def split: option.splits)
  also have "\<dots> = all_res (\<lambda>ix. if ?P ix then Err AlreadyExists else Ok ()) (table_indexes t)"
  proof (rule all_res_cong)
    fix ix assume "ix \<in> set (table_indexes t)"
    then have "ix.mirrors ix (row_keys (ix_columns ix) (table_rows t))"
      using table_wf_index [OF wf] by (simp add: index_for_def)
    moreover have "row_keys (ix_columns ix) (table_rows t) rid = Some (project (ix_columns ix) (sr_row stored))"
      using stored by (simp add: row_keys_def)
    ultimately show "?chk ix = (if ?P ix then Err AlreadyExists else Ok ())"
      by (simp add: check_update_if row_keys_def)
  qed
  also have "\<dots> = (if update_conflict t rid r then Err AlreadyExists else Ok ())"
    unfolding all_res_if update_conflict_def ..
  finally show ?thesis .
qed

lemma table_update_keys:
  assumes wf: "table_wf t" and "row_conforms (table_schema_of t) old"
    and "row_conforms (table_schema_of t) r"
  shows "map_res (\<lambda>(name, ix). bind_res (key_of ix old) (\<lambda>old.
             bind_res (key_of ix r) (\<lambda>new. Ok (name, old, new)))) (tb_indexes t)
         = Ok (map (\<lambda>(name, ix). (name, project (ix_columns ix) old, project (ix_columns ix) r)) (tb_indexes t))"
proof (rule map_res_map)
  fix p assume "p \<in> set (tb_indexes t)"
  then have "snd p \<in> set (table_indexes t)" by (auto simp: table_indexes_def)
  note row_keys_conforms [OF table_wf_index [OF wf this]]
  with assms(2,3) show "(case p of (name, ix) \<Rightarrow> bind_res (key_of ix old) (\<lambda>old.
             bind_res (key_of ix r) (\<lambda>new. Ok (name, old, new))))
        = Ok (case p of (name, ix) \<Rightarrow> (name, project (ix_columns ix) old, project (ix_columns ix) r))"
    by (cases p) simp
qed

lemma table_update_eq:
  assumes wf: "table_wf t"
  shows "table_update rid r t =
    (if \<not> row_conforms (table_schema_of t) r then (Err InvalidArgument, t)
     else case table_rows t rid of
       None \<Rightarrow> (Err NotFound, t)
     | Some stored \<Rightarrow>
         if update_conflict t rid r then (Err AlreadyExists, t)
         else (Ok (),
           map_indexes (\<lambda>ix. move_key rid (project (ix_columns ix) (sr_row stored), project (ix_columns ix) r) ix)
             (t\<lparr>tb_storage := snd (storage_update rid r (tb_storage t))\<rparr>)))"
proof (cases "row_conforms (table_schema_of t) r")
  case False
  then show ?thesis by (simp add: table_update_def validate_row_if)
next
  case True
  show ?thesis
  proof (cases "table_rows t rid")
    case None
    then show ?thesis
      using True by (simp add: table_update_def validate_row_if storage_get_def)
  next
    case (Some stored)
    then have old: "row_conforms (table_schema_of t) (sr_row stored)"
      using storage_wfD(1) [of "tb_storage t"] wf by simp
    obtain s where s: "storage_update rid r (tb_storage t) = (Ok (), s)"
      using True Some by (cases "sr_row stored = r") (simp_all add: storage_update_eq)
    note dist = table_wf_distinct [OF wf]
    have check: "all_res (\<lambda>(name, old, new). case map_of (tb_indexes t) name of
          Some ix \<Rightarrow> check_update ix old new rid | None \<Rightarrow> Panic)
        (map (\<lambda>(name, ix). (name, project (ix_columns ix) (sr_row stored), project (ix_columns ix) r)) (tb_indexes t))
        = all_res (\<lambda>ix. check_update ix (project (ix_columns ix) (sr_row stored)) (project (ix_columns ix) r) rid)
           (map snd (tb_indexes t))"
      using check_each [OF dist, where c = "\<lambda>ix (old, new). check_update ix old new rid" and d = Panic
          and kf = "\<lambda>ix. (project (ix_columns ix) (sr_row stored), project (ix_columns ix) r)"]
      by (simp only: all_res_map split_def fst_conv snd_conv)
    note keys = table_keys(1) [OF wf True] table_keys(1) [OF wf old]
    note steps = table_update_def validate_row_if storage_get_def table_update_keys [OF wf old True] check
      commit_each_all [OF dist] map_indexes_def s Let_def Some
    show ?thesis
    proof (cases "tb_primary t")
      case None
      then show ?thesis
        using table_check_update [OF wf Some, of r] True keys by (simp add: steps split: if_splits)
    next
      case p: (Some ix)
      then show ?thesis
        using table_check_update [OF wf Some, of r] True keys
        by (cases "check_update ix (project (ix_columns ix) (sr_row stored)) (project (ix_columns ix) r) rid")
          (simp_all add: steps split: if_splits)
    qed
  qed
qed

lemma move_key_fields [simp]:
  "ix_columns (move_key rid ks ix) = ix_columns ix"
  "ix_name (move_key rid ks ix) = ix_name ix"
  "is_unique_ix (move_key rid ks ix) = is_unique_ix ix"
  by (simp_all add: move_key_def split: prod.splits)

lemma table_update_wf [wf_intros]:
  assumes wf: "table_wf t"
  shows "table_wf (snd (table_update rid r t))"
proof (cases "row_conforms (table_schema_of t) r \<and> table_rows t rid \<noteq> None \<and> \<not> update_conflict t rid r")
  case False
  then show ?thesis using wf by (auto simp: table_update_eq [OF wf] split: option.splits)
next
  case True
  then obtain stored where stored: "table_rows t rid = Some stored" by auto
  let ?s = "snd (storage_update rid r (tb_storage t))"
  let ?old = "\<lambda>ix. project (ix_columns ix) (sr_row stored)" and ?new = "\<lambda>ix. project (ix_columns ix) r"
  have keys: "row_keys columns (storage_rows ?s) = (row_keys columns (table_rows t))(rid \<mapsto> project columns r)"
    for columns
    using True stored wf
    by (cases "sr_row stored = r") (auto simp: storage_update_eq om_get_put row_keys_def fun_eq_iff)
  have "index_for (table_schema_of t) (storage_rows ?s) (move_key rid (?old ix, ?new ix) ix)"
    if ix: "ix \<in> set (table_indexes t)" for ix
  proof -
    let ?m = "row_keys (ix_columns ix) (table_rows t)"
    have mir: "ix.mirrors ix ?m"
      using table_wf_index [OF wf ix] by (simp add: index_for_def)
    have rid: "?m rid = Some (?old ix)" using stored by (simp add: row_keys_def)
    have "ix.mirrors (move_key rid (?old ix, ?new ix) ix) (?m(rid \<mapsto> ?new ix))"
    proof (cases "?old ix = ?new ix")
      case same: True
      then have "?m(rid \<mapsto> ?new ix) = ?m" using rid by auto
      then show ?thesis using mir same by (simp add: move_key_def)
    next
      case False
      have "\<not> (is_unique_ix ix \<and> (\<exists>q. ?m q = Some (?new ix)))"
      proof
        assume "is_unique_ix ix \<and> (\<exists>q. ?m q = Some (?new ix))"
        then obtain q where q: "is_unique_ix ix" "?m q = Some (?new ix)" by blast
        moreover have "q \<noteq> rid" using q rid False by auto
        ultimately show False
          using True ix by (auto simp: update_conflict_def row_keys_def)
      qed
      then have "index_admits ix (?new ix)"
        by (simp add: check_insert_if [OF mir])
      then show ?thesis
        using ix.mirrors_move [OF mir rid] False by (auto simp: move_key_def)
    qed
    then show ?thesis
      using table_wf_index [OF wf ix] by (simp add: index_for_def keys)
  qed
  then have "table_wf (map_indexes (\<lambda>ix. move_key rid (?old ix, ?new ix) ix) (t\<lparr>tb_storage := ?s\<rparr>))"
    using wf storage_update_wf [of "tb_storage t" rid r]
    by (intro map_indexes_wf) (auto simp: storage_update_eq split: option.splits)
  then show ?thesis
    using True stored by (simp add: table_update_eq [OF wf])
qed

section \<open>Delete\<close>

lemma table_delete_eq:
  assumes wf: "table_wf t"
  shows "table_delete rid t =
    (case table_rows t rid of
       None \<Rightarrow> (Err NotFound, t)
     | Some stored \<Rightarrow>
         (Ok (), map_indexes (\<lambda>ix. commit_remove (project (ix_columns ix) (sr_row stored)) rid ix)
            (t\<lparr>tb_storage := snd (storage_delete rid (tb_storage t))\<rparr>)))"
proof (cases "table_rows t rid")
  case None
  then show ?thesis by (simp add: table_delete_def storage_get_def)
next
  case (Some stored)
  then have r: "row_conforms (table_schema_of t) (sr_row stored)"
    using storage_wfD(1) [of "tb_storage t"] wf by simp
  obtain s where s: "storage_delete rid (tb_storage t) = (Ok (), s)"
    using Some by (simp add: storage_delete_eq)
  note dist = table_wf_distinct [OF wf]
  note keys = table_keys [OF wf r]
  have prim: "(case tb_primary t of None \<Rightarrow> Ok None
      | Some ix \<Rightarrow> bind_res (key_of ix (sr_row stored)) (\<lambda>key. Ok (Some (commit_remove key rid ix))))
      = Ok (map_option (\<lambda>ix. commit_remove (project (ix_columns ix) (sr_row stored)) rid ix) (tb_primary t))"
    using row_keys_conforms [OF table_wf_index [OF wf] r]
    by (auto simp: table_indexes_def split: option.splits)
  show ?thesis
    using Some by (simp add: table_delete_def storage_get_def s prim keys(2) commit_each_all [OF dist]
        map_indexes_def Let_def)
qed

lemma table_delete_wf [wf_intros]:
  assumes wf: "table_wf t"
  shows "table_wf (snd (table_delete rid t))"
proof (cases "table_rows t rid")
  case None
  then show ?thesis using wf by (simp add: table_delete_eq [OF wf])
next
  case (Some stored)
  let ?s = "snd (storage_delete rid (tb_storage t))"
  have rows: "storage_rows ?s = (table_rows t)(rid := None)"
    using Some by (simp add: storage_delete_eq om_get_del)
  have "index_for (table_schema_of t) (storage_rows ?s)
      (commit_remove (project (ix_columns ix) (sr_row stored)) rid ix)"
    if ix: "ix \<in> set (table_indexes t)" for ix
    using table_wf_index [OF wf ix] Some ix.mirrors_del [of ix _ rid]
    by (simp add: index_for_def rows row_keys_def)
  then have "table_wf (map_indexes (\<lambda>ix. commit_remove (project (ix_columns ix) (sr_row stored)) rid ix)
      (t\<lparr>tb_storage := ?s\<rparr>))"
    using wf storage_delete_wf [of "tb_storage t" rid]
    by (intro map_indexes_wf) (auto simp: storage_delete_eq split: option.splits)
  then show ?thesis
    using Some by (simp add: table_delete_eq [OF wf])
qed

lemma table_drain_wf [wf_intros]: "table_wf t \<Longrightarrow> table_wf (snd (table_drain_changes t))"
  by (simp add: table_wf_def table_drain_changes_def storage_drain_changes_def storage_wf_def table_indexes_def)

section \<open>A refused mutation changes nothing\<close>

lemma table_failed_unchanged:
  assumes "table_wf t"
  shows "\<not> is_ok (fst (table_insert r t)) \<Longrightarrow> snd (table_insert r t) = t"
    and "\<not> is_ok (fst (table_update rid r t)) \<Longrightarrow> snd (table_update rid r t) = t"
    and "\<not> is_ok (fst (table_delete rid t)) \<Longrightarrow> snd (table_delete rid t) = t"
  by (auto simp: table_insert_eq [OF assms] table_update_eq [OF assms] table_delete_eq [OF assms]
      split: if_splits option.splits)

lemma table_ops_not_Panic:
  assumes "table_wf t"
  shows "fst (table_insert r t) \<noteq> Panic" and "fst (table_update rid r t) \<noteq> Panic"
    and "fst (table_delete rid t) \<noteq> Panic"
  by (auto simp: table_insert_eq [OF assms] table_update_eq [OF assms] table_delete_eq [OF assms]
      split: if_splits option.splits)

section \<open>Filling an index from rows\<close>

definition fill :: "(row_id \<times> row) list \<Rightarrow> index_t \<Rightarrow> index_t" where
  "fill rows ix = fold (\<lambda>(rid, r) ix. commit_insert (project (ix_columns ix) r) rid ix) rows ix"

lemma fill_simps [simp]:
  "fill [] ix = ix"
  "fill ((rid, r) # rows) ix = fill rows (commit_insert (project (ix_columns ix) r) rid ix)"
  by (simp_all add: fill_def)

lemma fill_fields [simp]:
  "ix_columns (fill rows ix) = ix_columns ix"
  "ix_name (fill rows ix) = ix_name ix"
  "is_unique_ix (fill rows ix) = is_unique_ix ix"
  by (induction rows arbitrary: ix) auto

text \<open>The keys of the rows are pairwise different and none is taken.\<close>

definition fresh_keys :: "(row_id \<rightharpoonup> index_key) \<Rightarrow> index_key list \<Rightarrow> bool" where
  "fresh_keys m ks \<longleftrightarrow> distinct ks \<and> (\<forall>k \<in> set ks. \<forall>rid. m rid \<noteq> Some k)"

definition keyed :: "nat list \<Rightarrow> (row_id \<times> row) list \<Rightarrow> (row_id \<times> index_key) list" where
  "keyed columns rows = map (\<lambda>(rid, r). (rid, project columns r)) rows"

lemma keyed_simps [simp]:
  "keyed columns [] = []"
  "keyed columns ((rid, r) # rows) = (rid, project columns r) # keyed columns rows"
  "fst ` set (keyed columns rows) = fst ` set rows"
  by (auto simp: keyed_def image_image case_prod_beta)

lemma fresh_keys_Cons:
  "m rid = None \<Longrightarrow> fresh_keys m (k # ks) \<longleftrightarrow>
     (\<forall>q. m q \<noteq> Some k) \<and> fresh_keys (m(rid \<mapsto> k)) ks"
  unfolding fresh_keys_def by (auto, metis option.distinct(1))

lemma fill_mirrors:
  assumes "ix.mirrors ix m" and "distinct (map fst rows)" and "\<forall>p \<in> set rows. m (fst p) = None"
    and "is_unique_ix ix \<Longrightarrow> fresh_keys m (map snd (keyed (ix_columns ix) rows))"
  shows "ix.mirrors (fill rows ix) (m ++ map_of (keyed (ix_columns ix) rows))"
  using assms
proof (induction rows arbitrary: ix m)
  case Nil
  then show ?case by simp
next
  case (Cons p rows)
  obtain rid r where p: "p = (rid, r)" by (cases p)
  let ?k = "project (ix_columns ix) r"
  have rid: "m rid = None" "rid \<notin> fst ` set rows" using Cons.prems by (auto simp: p)
  have fresh: "(\<forall>q. m q \<noteq> Some ?k) \<and>
      fresh_keys (m(rid \<mapsto> ?k)) (map snd (keyed (ix_columns ix) rows))" if "is_unique_ix ix"
    using Cons.prems(4) [OF that] by (simp add: p fresh_keys_Cons [of m rid, OF rid(1)])
  then have "index_admits ix ?k"
    by (auto simp: check_insert_if [OF Cons.prems(1)])
  then have mir: "ix.mirrors (commit_insert ?k rid ix) (m(rid \<mapsto> ?k))"
    using Cons.prems(1) rid(1) by (intro ix.mirrors_ins)
  have "\<forall>q \<in> set rows. (m(rid \<mapsto> ?k)) (fst q) = None"
    using Cons.prems(3) rid by (auto simp: p)
  then have "ix.mirrors (fill rows (commit_insert ?k rid ix))
      (m(rid \<mapsto> ?k) ++ map_of (keyed (ix_columns (commit_insert ?k rid ix)) rows))"
    using Cons.IH [of _ "m(rid \<mapsto> ?k)", OF mir] Cons.prems(2) fresh by (simp add: p del: fun_upd_apply)
  moreover have "m(rid \<mapsto> ?k) ++ map_of (keyed (ix_columns ix) rows)
      = m ++ map_of (keyed (ix_columns ix) (p # rows))"
    using rid(2) by (auto simp: p fun_eq_iff map_add_def map_of_eq_None_iff [THEN iffD2]
        split: option.splits)
  ultimately show ?case by (simp add: p del: fun_upd_apply)
qed

lemma fill_index_if:
  assumes "ix.mirrors ix m" and "distinct (map fst rows)" and "\<forall>p \<in> set rows. m (fst p) = None"
    and "\<forall>p \<in> set rows. \<forall>c \<in> set (ix_columns ix). c < length (row_values (snd p))"
  shows "fill_index rows ix =
    (if is_unique_ix ix \<and> \<not> fresh_keys m (map snd (keyed (ix_columns ix) rows))
     then Err AlreadyExists else Ok (fill rows ix))"
  using assms
proof (induction rows arbitrary: ix m)
  case Nil
  then show ?case by (simp add: fresh_keys_def)
next
  case (Cons p rows)
  obtain rid r where p: "p = (rid, r)" by (cases p)
  let ?k = "project (ix_columns ix) r"
  have rid: "m rid = None" "rid \<notin> fst ` set rows" using Cons.prems by (auto simp: p)
  have key: "key_of ix r = Ok ?k" using Cons.prems(4) by (intro key_of_project) (simp add: p)
  show ?case
  proof (cases "is_unique_ix ix \<and> (\<exists>q. m q = Some ?k)")
    case True
    then show ?thesis
      using fresh_keys_Cons [of m rid, OF rid(1)] by (auto simp: p key check_insert_if [OF Cons.prems(1)])
  next
    case False
    then have ok: "index_admits ix ?k" by (simp add: check_insert_if [OF Cons.prems(1)])
    have mir: "ix.mirrors (commit_insert ?k rid ix) (m(rid \<mapsto> ?k))"
      using Cons.prems(1) rid(1) ok by (intro ix.mirrors_ins)
    have "\<forall>q \<in> set rows. (m(rid \<mapsto> ?k)) (fst q) = None"
      using Cons.prems(3) rid by (auto simp: p)
    note IH = Cons.IH [of _ "m(rid \<mapsto> ?k)", OF mir _ this]
    show ?thesis
      using IH Cons.prems(2,4) False
      by (auto simp: p key ok fresh_keys_Cons [of m rid, OF rid(1)] simp del: fun_upd_apply)
  qed
qed

section \<open>Creating tables and adding indexes\<close>

lemma index_shell_Ok:
  assumes "index_shell schema def = Ok ix"
  shows "ix_name ix = idf_name def" and "is_unique_ix ix = idf_unique def"
    and "ix.mirrors ix Map.empty"
    and "\<forall>c \<in> set (ix_columns ix). c < length (ts_columns schema)"
  using assms new_index_mirrors
  by (auto simp: index_shell_def bind_res_eq_Ok index_unique_def index_non_unique_def
      dest: resolve_columns_lt split: if_splits)

definition shells_ok :: "table_schema \<Rightarrow> index_t list \<Rightarrow> bool" where
  "shells_ok schema ixs \<longleftrightarrow>
     (\<forall>ix \<in> set ixs. ix.mirrors ix Map.empty \<and>
        (\<forall>c \<in> set (ix_columns ix). c < length (ts_columns schema)))"

lemma secondary_shells_Ok:
  assumes "secondary_shells schema defs acc = Ok ixs"
    and "indexes_named None acc" and "shells_ok schema (map snd acc)"
  shows "indexes_named None ixs \<and> shells_ok schema (map snd ixs)"
  using assms
proof (induction schema defs acc rule: secondary_shells.induct)
  case (1 schema acc)
  then show ?case by simp
next
  case (2 schema def defs acc)
  from 2(2) obtain ix where ix: "index_shell schema def = Ok ix"
    and rest: "secondary_shells schema defs (AList.update (idf_name def) ix acc) = Ok ixs"
    by (auto simp: bind_res_eq_Ok)
  have sub: "p = (idf_name def, ix) \<or> p \<in> set acc" if "p \<in> set (AList.update (idf_name def) ix acc)" for p
    using that by (induction acc) (auto split: if_splits)
  have "indexes_named None (AList.update (idf_name def) ix acc)"
    using 2(3) sub index_shell_Ok(1) [OF ix] by (fastforce simp: indexes_named_def AList.distinct_update)
  moreover have "shells_ok schema (map snd (AList.update (idf_name def) ix acc))"
    using 2(4) sub index_shell_Ok(3,4) [OF ix] by (fastforce simp: shells_ok_def)
  ultimately show ?case
    using 2(1) [OF rest] by simp
qed

lemma index_shells_Ok:
  assumes "index_shells schema = Ok (primary, indexes)"
  shows "indexes_named primary indexes"
    and "shells_ok schema ((case primary of None \<Rightarrow> [] | Some ix \<Rightarrow> [ix]) @ map snd indexes)"
proof -
  from assms have sec: "secondary_shells schema (ts_indexes schema) [] = Ok indexes"
    and prim: "(case ts_primary_key schema of
                 Some names \<Rightarrow> bind_res (resolve_columns schema names) (\<lambda>positions.
                     Ok (Some (index_unique primary_name positions)))
               | None \<Rightarrow> Ok None) = Ok primary"
    by (auto simp: index_shells_def bind_res_eq_Ok)
  have secs: "indexes_named None indexes" "shells_ok schema (map snd indexes)"
    using secondary_shells_Ok [OF sec] by (auto simp: indexes_named_def shells_ok_def)
  show "indexes_named primary indexes"
    using secs(1) prim by (auto simp: indexes_named_def bind_res_eq_Ok index_unique_def split: option.splits)
  show "shells_ok schema ((case primary of None \<Rightarrow> [] | Some ix \<Rightarrow> [ix]) @ map snd indexes)"
    using secs(2) prim new_index_mirrors(1)
    by (auto simp: shells_ok_def bind_res_eq_Ok index_unique_def split: option.splits
        dest: resolve_columns_lt)
qed

lemma row_keys_empty [simp]: "row_keys columns Map.empty = Map.empty"
  by (simp add: row_keys_def fun_eq_iff)

lemma table_new_wf [wf_intros]:
  assumes "table_new tid schema = Ok t"
  shows "table_wf t"
proof -
  from assms obtain primary indexes where sh: "index_shells schema = Ok (primary, indexes)"
    and t: "t = \<lparr>tb_storage = storage_new tid schema, tb_primary = primary, tb_indexes = indexes\<rparr>"
    by (auto simp: table_new_def bind_res_eq_Ok)
  from index_shells_Ok [OF sh] storage_new_wf [of tid schema] show ?thesis
    by (auto simp: t table_wf_def table_indexes_def shells_ok_def index_for_def storage_new_def
        declared_def sh shells_list_def)
qed

text \<open>A schema the builder accepts always gives a table.\<close>

lemma secondary_shells_total:
  assumes "\<forall>def \<in> set defs. set (idf_columns def) \<subseteq> cd_name ` set (ts_columns schema)"
  shows "\<exists>ixs. secondary_shells schema defs acc = Ok ixs"
  using assms
proof (induction defs arbitrary: acc)
  case Nil
  then show ?case by simp
next
  case (Cons def defs)
  then obtain ps where "resolve_columns schema (idf_columns def) = Ok ps"
    using resolve_columns_total by fastforce
  then show ?case using Cons by (simp add: index_shell_def)
qed

lemma table_new_total:
  assumes "schema_valid schema"
  shows "\<exists>t. table_new tid schema = Ok t"
proof -
  obtain ixs where sec: "secondary_shells schema (ts_indexes schema) [] = Ok ixs"
    using secondary_shells_total assms by (metis schema_valid_def)
  have "\<exists>p. (case ts_primary_key schema of
                 Some names \<Rightarrow> bind_res (resolve_columns schema names) (\<lambda>positions.
                     Ok (Some (index_unique primary_name positions)))
               | None \<Rightarrow> Ok None) = Ok p"
    using assms resolve_columns_total [of _ schema]
    by (cases "ts_primary_key schema") (force simp: schema_valid_def)+
  with sec show ?thesis
    by (auto simp: table_new_def index_shells_def)
qed

abbreviation scan_rows :: "storage_table \<Rightarrow> (row_id \<times> row) list" where
  "scan_rows s \<equiv> map (\<lambda>(rid, stored). (rid, sr_row stored)) (storage_scan s)"

lemma map_of_keyed:
  "map_of (keyed columns (map (\<lambda>(rid, stored). (rid, sr_row stored)) m)) = row_keys columns (map_of m)"
  by (induction m) (auto simp: fun_eq_iff row_keys_def)

lemma scan_rows_props:
  assumes "storage_wf s"
  shows "distinct (map fst (scan_rows s))"
    and "map_of (keyed columns (scan_rows s)) = row_keys columns (storage_rows s)"
    and "(rid, r) \<in> set (scan_rows s) \<longleftrightarrow> (\<exists>v. storage_rows s rid = Some \<lparr>sr_row = r, sr_version = v\<rparr>)"
proof -
  have om: "om_wf (st_rows s)" using assms by simp
  show "distinct (map fst (scan_rows s))"
    using om_wf_distinct [OF om] by (simp add: storage_scan_def o_def case_prod_beta)
  show "map_of (keyed columns (scan_rows s)) = row_keys columns (storage_rows s)"
    unfolding storage_scan_def by (rule map_of_keyed)
  show "(rid, r) \<in> set (scan_rows s) \<longleftrightarrow> (\<exists>v. storage_rows s rid = Some \<lparr>sr_row = r, sr_version = v\<rparr>)"
    by (auto simp: storage_scan_def om_get_mem [OF om] intro!: rev_image_eqI)
      (metis (full_types) stored_row.surjective old.unit.exhaust)
qed

lemma scan_rows_fit:
  assumes "storage_wf s" and "\<forall>c \<in> set columns. c < length (ts_columns (st_schema s))"
  shows "\<forall>p \<in> set (scan_rows s). \<forall>c \<in> set columns. c < length (row_values (snd p))"
proof (intro ballI)
  fix p c assume "p \<in> set (scan_rows s)" and c: "c \<in> set columns"
  then obtain v where "storage_rows s (fst p) = Some \<lparr>sr_row = snd p, sr_version = v\<rparr>"
    using scan_rows_props(3) [OF assms(1)] by (metis prod.collapse)
  from storage_wfD(1) [OF assms(1) this] show "c < length (row_values (snd p))"
    using assms(2) c by (simp add: row_conforms_length)
qed

text \<open>A filled shell mirrors the table's rows.\<close>

lemma fill_shell:
  assumes "storage_wf s" and "ix.mirrors ix Map.empty"
    and "\<forall>c \<in> set (ix_columns ix). c < length (ts_columns (st_schema s))"
    and "is_unique_ix ix \<Longrightarrow> fresh_keys Map.empty (map snd (keyed (ix_columns ix) (scan_rows s)))"
  shows "index_for (st_schema s) (storage_rows s) (fill (scan_rows s) ix)"
  using fill_mirrors [OF assms(2) scan_rows_props(1) [OF assms(1)] _ assms(4)] assms(3)
  by (simp add: index_for_def scan_rows_props(2) [OF assms(1)])

text \<open>Adding an index to a populated table: refused without effect when the name is taken or reserved,
  a column is unknown, or the rows already break uniqueness.\<close>

lemma AList_update_new:
  "map_of xs k = None \<Longrightarrow> AList.update k v xs = xs @ [(k, v)]"
  by (induction xs) (auto split: if_splits)

lemma index_shell_not_Panic: "index_shell schema def \<noteq> Panic"
  by (simp add: index_shell_def bind_res_not_Panic resolve_columns_not_Panic)

lemma fill_index_shell:
  assumes "storage_wf s" and "index_shell (st_schema s) def = Ok ix"
  shows "fill_index (scan_rows s) ix =
    (if idf_unique def \<and> \<not> fresh_keys Map.empty (map snd (keyed (ix_columns ix) (scan_rows s)))
     then Err AlreadyExists else Ok (fill (scan_rows s) ix))"
  using assms(1) index_shell_Ok [OF assms(2)] scan_rows_props(1) [OF assms(1)]
    scan_rows_fit [OF assms(1)] fill_index_if [of ix Map.empty "scan_rows s"] by simp

lemma table_add_index_cases:
  assumes wf: "table_wf t"
  shows "(\<exists>e. table_add_index def t = (Err e, t)) \<or>
     (\<exists>ix. index_shell (table_schema_of t) def = Ok ix \<and> map_of (tb_indexes t) (idf_name def) = None \<and>
        (is_unique_ix ix \<longrightarrow>
           fresh_keys Map.empty (map snd (keyed (ix_columns ix) (scan_rows (tb_storage t))))) \<and>
        table_add_index def t =
          (Ok (), t\<lparr>tb_indexes := tb_indexes t @ [(idf_name def, fill (scan_rows (tb_storage t)) ix)]\<rparr>))"
proof (cases "index_shell (table_schema_of t) def")
  case (Ok ix)
  then show ?thesis
    using fill_index_shell [OF _ Ok] wf index_shell_Ok(2) [OF Ok]
    by (simp add: table_add_index_def AList_update_new)
next
  case Panic
  then show ?thesis by (simp add: index_shell_not_Panic)
qed (simp add: table_add_index_def)

lemma table_add_index_wf [wf_intros]:
  assumes wf: "table_wf t"
  shows "table_wf (snd (table_add_index def t))"
  using table_add_index_cases [OF wf, of def]
proof
  assume "\<exists>e. table_add_index def t = (Err e, t)"
  then have "snd (table_add_index def t) = t" by (elim exE) simp
  with wf show ?thesis by simp
next
  assume "\<exists>ix. index_shell (table_schema_of t) def = Ok ix \<and> map_of (tb_indexes t) (idf_name def) = None \<and>
        (is_unique_ix ix \<longrightarrow>
           fresh_keys Map.empty (map snd (keyed (ix_columns ix) (scan_rows (tb_storage t))))) \<and>
        table_add_index def t =
          (Ok (), t\<lparr>tb_indexes := tb_indexes t @ [(idf_name def, fill (scan_rows (tb_storage t)) ix)]\<rparr>)"
  then obtain ix where ix: "index_shell (table_schema_of t) def = Ok ix"
    and new: "map_of (tb_indexes t) (idf_name def) = None"
    and fresh: "is_unique_ix ix \<longrightarrow>
           fresh_keys Map.empty (map snd (keyed (ix_columns ix) (scan_rows (tb_storage t))))"
    and eq: "table_add_index def t =
          (Ok (), t\<lparr>tb_indexes := tb_indexes t @ [(idf_name def, fill (scan_rows (tb_storage t)) ix)]\<rparr>)"
    by (elim exE conjE) (rule that)
  let ?new = "fill (scan_rows (tb_storage t)) ix"
  let ?t = "t\<lparr>tb_indexes := tb_indexes t @ [(idf_name def, ?new)]\<rparr>"
  have lst: "table_indexes ?t = table_indexes t @ [?new]"
    by (simp add: table_indexes_def)
  have "index_for (table_schema_of t) (table_rows t) ?new"
    by (rule fill_shell [OF table_wf_storage [OF wf] index_shell_Ok(3,4) [OF ix]]) (use fresh in blast)
  moreover have "declared (table_schema_of t) (table_indexes ?t)"
    unfolding lst by (rule declared_mono [OF table_wf_declared [OF wf]]) auto
  moreover have "indexes_named (tb_primary t) (tb_indexes t @ [(idf_name def, ?new)])"
    using wf new index_shell_Ok(1) [OF ix]
    by (auto simp: table_wf_def indexes_named_def map_of_eq_None_iff)
  ultimately have "table_wf ?t"
    using wf unfolding table_wf_def lst by simp
  then show ?thesis
    by (simp add: eq)
qed

lemma table_add_index_failed:
  assumes "table_wf t"
  shows "\<not> is_ok (fst (table_add_index def t)) \<Longrightarrow> snd (table_add_index def t) = t"
    and "fst (table_add_index def t) \<noteq> Panic"
    and "tb_storage (snd (table_add_index def t)) = tb_storage t"
  using table_add_index_cases [OF assms, of def] by auto

section \<open>Restoring\<close>

definition fits :: "(row_id \<times> row) list \<Rightarrow> index_t \<Rightarrow> bool" where
  "fits rows ix \<longleftrightarrow> (\<forall>p \<in> set rows. \<forall>c \<in> set (ix_columns ix). c < length (row_values (snd p)))"

lemma fits_commit [simp]: "fits rows (commit_insert k rid ix) = fits rows ix"
  by (simp add: fits_def)

lemma fits_Cons: "fits (p # rows) ix \<Longrightarrow> fits rows ix \<and> key_of ix (snd p) = Ok (project (ix_columns ix) (snd p))"
  by (auto simp: fits_def intro: key_of_project)

lemma rebuild_rows_eq:
  assumes "distinct (map fst indexes)"
    and "\<forall>ix \<in> set (shells_list (primary, indexes)). fits rows ix"
  shows "rebuild_rows rows (primary, indexes)
           = Ok (map_option (fill rows) primary, map (\<lambda>(name, ix). (name, fill rows ix)) indexes)"
  using assms
proof (induction rows arbitrary: primary indexes)
  case Nil
  then show ?case by (cases primary) auto
next
  case (Cons p rows)
  obtain rid r where p: "p = (rid, r)" by (cases p)
  let ?ins = "\<lambda>ix. commit_insert (project (ix_columns ix) r) rid ix"
  have key: "key_of ix r = Ok (project (ix_columns ix) r)"
    if "primary = Some ix \<or> ix \<in> snd ` set indexes" for ix
    using that Cons.prems(2) fits_Cons [of p rows ix] by (auto simp: p shells_list_def)
  have prim: "(case primary of None \<Rightarrow> Ok None
      | Some ix \<Rightarrow> bind_res (key_of ix r) (\<lambda>key. Ok (Some (commit_insert key rid ix))))
      = Ok (map_option ?ins primary)"
    using key by (auto split: option.splits)
  have sec: "secondary_keys indexes r = Ok (map (\<lambda>(name, ix). (name, project (ix_columns ix) r)) indexes)"
    by (intro secondary_keys_Ok key) simp
  have "rebuild_rows rows (map_option ?ins primary, map (\<lambda>(name, ix). (name, ?ins ix)) indexes)
      = Ok (map_option (fill rows) (map_option ?ins primary),
            map (\<lambda>(name, ix). (name, fill rows ix)) (map (\<lambda>(name, ix). (name, ?ins ix)) indexes))"
  proof (rule Cons.IH)
    show "distinct (map fst (map (\<lambda>(name, ix). (name, ?ins ix)) indexes))"
      using Cons.prems(1) by (simp add: o_def case_prod_beta)
    show "\<forall>ix \<in> set (shells_list (map_option ?ins primary, map (\<lambda>(name, ix). (name, ?ins ix)) indexes)).
        fits rows ix"
      using Cons.prems(2) fits_Cons [of p rows] by (cases primary) (auto simp: shells_list_def)
  qed
  then show ?case
    by (simp add: p prim sec commit_each_all [OF Cons.prems(1)] option.map_comp o_def case_prod_beta)
qed

text \<open>The unique indexes of the schema have no two rows under one key.\<close>

definition rows_unique :: "storage_table \<Rightarrow> bool" where
  "rows_unique s \<longleftrightarrow>
     (\<exists>sh. index_shells (st_schema s) = Ok sh \<and>
        (\<forall>ix \<in> set (shells_list sh). is_unique_ix ix \<longrightarrow>
           (\<forall>p q k. row_keys (ix_columns ix) (storage_rows s) p = Some k \<longrightarrow>
                     row_keys (ix_columns ix) (storage_rows s) q = Some k \<longrightarrow> p = q)))"

lemma table_wf_rows_unique:
  assumes wf: "table_wf t"
  shows "rows_unique (tb_storage t)"
proof -
  obtain sh where sh: "index_shells (table_schema_of t) = Ok sh"
    and sub: "index_shape ` set (shells_list sh) \<subseteq> index_shape ` set (table_indexes t)"
    using wf by (auto simp: table_wf_def declared_def)
  have "p = q" if "ix \<in> set (shells_list sh)" "is_unique_ix ix"
    "row_keys (ix_columns ix) (table_rows t) p = Some k"
    "row_keys (ix_columns ix) (table_rows t) q = Some k" for ix p q k
  proof -
    obtain ix' where ix': "ix' \<in> set (table_indexes t)" "index_shape ix' = index_shape ix"
      using sub \<open>ix \<in> set (shells_list sh)\<close> by (metis image_iff subset_iff)
    have "ix.mirrors ix' (row_keys (ix_columns ix') (table_rows t))"
      using table_wf_index [OF wf ix'(1)] by (simp add: index_for_def)
    then show ?thesis
      using that ix'(2) unique_mirrors_inj by (metis index_shape_def prod.inject)
  qed
  with sh show ?thesis by (auto simp: rows_unique_def)
qed

lemma distinct_keyed:
  assumes "storage_wf s"
    and "\<forall>p q k. row_keys columns (storage_rows s) p = Some k \<longrightarrow>
           row_keys columns (storage_rows s) q = Some k \<longrightarrow> p = q"
  shows "fresh_keys Map.empty (map snd (keyed columns (scan_rows s)))"
proof -
  let ?kr = "keyed columns (scan_rows s)"
  have dist: "distinct (map fst ?kr)"
    using scan_rows_props(1) [OF assms(1)] by (simp add: keyed_def o_def case_prod_beta)
  have at: "row_keys columns (storage_rows s) p = Some k" if "(p, k) \<in> set ?kr" for p k
    using that map_of_is_SomeI [OF dist] by (simp add: scan_rows_props(2) [OF assms(1)])
  have "distinct ?kr" using dist by (simp add: distinct_map)
  moreover have "inj_on snd (set ?kr)"
    by (rule inj_onI) (metis at assms(2) prod.collapse)
  ultimately show ?thesis by (simp add: fresh_keys_def distinct_map)
qed

lemma table_from_state_wf:
  assumes s: "storage_from_state st = Ok s" and uniq: "rows_unique s"
  shows "\<exists>t sh. table_from_state st = Ok t \<and> tb_storage t = s \<and> table_wf t \<and>
    index_shells (st_schema s) = Ok sh \<and> index_shape ` set (table_indexes t) = index_shape ` set (shells_list sh)"
proof -
  have swf: "storage_wf s" using storage_from_state_wf [OF s] by simp
  obtain primary indexes where sh: "index_shells (st_schema s) = Ok (primary, indexes)"
    and keys: "\<forall>ix \<in> set (shells_list (primary, indexes)). is_unique_ix ix \<longrightarrow>
      fresh_keys Map.empty (map snd (keyed (ix_columns ix) (scan_rows s)))"
    using uniq distinct_keyed [OF swf] by (fastforce simp: rows_unique_def)
  note shells = index_shells_Ok [OF sh]
  let ?t = "map_indexes (fill (scan_rows s)) \<lparr>tb_storage = s, tb_primary = primary, tb_indexes = indexes\<rparr>"
  have "rebuild_rows (scan_rows s) (primary, indexes)
      = Ok (map_option (fill (scan_rows s)) primary, map (\<lambda>(name, ix). (name, fill (scan_rows s) ix)) indexes)"
  proof (rule rebuild_rows_eq)
    show "distinct (map fst indexes)" using shells(1) by (simp add: indexes_named_def)
    show "\<forall>ix \<in> set (shells_list (primary, indexes)). fits (scan_rows s) ix"
      using shells(2) scan_rows_fit [OF swf] unfolding shells_ok_def fits_def shells_list_def fst_conv snd_conv
      by blast
  qed
  then have t: "table_from_state st = Ok ?t"
    by (simp add: table_from_state_def s sh rebuild_indexes_def map_indexes_def)
  have lst: "table_indexes \<lparr>tb_storage = s, tb_primary = primary, tb_indexes = indexes\<rparr>
      = shells_list (primary, indexes)"
    by (simp add: table_indexes_def shells_list_def)
  have "index_for (st_schema s) (storage_rows s) (fill (scan_rows s) ix)"
    if "ix \<in> set (shells_list (primary, indexes))" for ix
    using that shells(2) keys swf by (intro fill_shell) (auto simp: shells_ok_def shells_list_def)
  moreover have "declared (st_schema s) (map (fill (scan_rows s)) (shells_list (primary, indexes)))"
    by (auto simp: declared_def sh index_shape_def image_image)
  moreover have "indexes_named (map_option (fill (scan_rows s)) primary)
      (map (\<lambda>(name, ix). (name, fill (scan_rows s) ix)) indexes)"
    using shells(1) by (intro indexes_named_map) auto
  ultimately have "table_wf ?t"
    unfolding table_wf_def table_indexes_map lst by (simp add: swf) (simp add: map_indexes_def)
  moreover have "index_shape ` set (table_indexes ?t) = index_shape ` set (shells_list (primary, indexes))"
    unfolding table_indexes_map lst by (simp add: image_image index_shape_def)
  ultimately show ?thesis using t sh by (intro exI [of _ ?t] exI [of _ "(primary, indexes)"]) simp
qed

text \<open>Capturing a table and restoring it gives back its storage, with every index the schema declares
  rebuilt and no index the table did not have.\<close>

lemma table_restore_capture:
  assumes wf: "table_wf t"
  shows "\<exists>t'. table_from_state (table_state_of t) = Ok t' \<and>
    tb_storage t' = (tb_storage t)\<lparr>st_changes := []\<rparr> \<and> table_wf t' \<and>
    index_shape ` set (table_indexes t') \<subseteq> index_shape ` set (table_indexes t)"
proof -
  let ?s = "(tb_storage t)\<lparr>st_changes := []\<rparr>"
  have "storage_from_state (table_state_of t) = Ok ?s"
    using wf by (simp add: table_state_of_def storage_restore_capture)
  moreover have "rows_unique ?s"
    using table_wf_rows_unique [OF wf] by (simp add: rows_unique_def)
  ultimately obtain t' sh where "table_from_state (table_state_of t) = Ok t'" "tb_storage t' = ?s" "table_wf t'"
      "index_shells (st_schema ?s) = Ok sh"
      "index_shape ` set (table_indexes t') = index_shape ` set (shells_list sh)"
    using table_from_state_wf by blast
  then show ?thesis using table_wf_declared [OF wf] by (auto simp: declared_def)
qed

section \<open>Lookups\<close>

definition key_conforms :: "table_schema \<Rightarrow> index_t \<Rightarrow> index_key \<Rightarrow> bool" where
  "key_conforms schema ix key \<longleftrightarrow>
     map type_of key = map (\<lambda>c. cd_ty (ts_columns schema ! c)) (ix_columns ix)"

lemma validate_key_if:
  assumes "index_for (table_schema_of t) rows ix"
  shows "validate_key t ix key =
    (if key_conforms (table_schema_of t) ix key then Ok () else Err InvalidArgument)"
proof (cases "length key = length (ix_columns ix)")
  case True
  let ?bad = "\<lambda>(c, v). type_of v \<noteq> cd_ty (ts_columns (table_schema_of t) ! c)"
  have "validate_key t ix key =
      all_res (\<lambda>p. if ?bad p then Err InvalidArgument else Ok ()) (zip (ix_columns ix) key)"
    unfolding validate_key_def using True assms
    by (auto simp: index_for_def intro!: all_res_cong dest: set_zip_leftD)
  then show ?thesis
    unfolding all_res_if using True
    by (auto simp: key_conforms_def list_eq_iff_nth_eq set_zip)
next
  case False
  then show ?thesis
    by (auto simp: validate_key_def key_conforms_def dest: map_eq_imp_length_eq)
qed

lemma index_lookup_rows:
  assumes "index_for schema rows ix"
  shows "sorted_wrt (<) (index_lookup ix key)"
    and "rid \<in> set (index_lookup ix key) \<longleftrightarrow>
      (\<exists>stored. rows rid = Some stored \<and> project (ix_columns ix) (sr_row stored) = key)"
  using assms ix.mirrors_look_sorted ix.mirrors_look by (auto simp: index_for_def row_keys_def)

lemma table_lookup_if:
  assumes "table_wf t"
  shows "table_lookup t name key =
    (case map_of (tb_indexes t) name of
       None \<Rightarrow> Err NotFound
     | Some ix \<Rightarrow> if key_conforms (table_schema_of t) ix key then Ok (index_lookup ix key)
                 else Err InvalidArgument)"
proof (cases "map_of (tb_indexes t) name")
  case (Some ix)
  then have "ix \<in> set (table_indexes t)"
    by (auto simp: table_indexes_def intro: rev_image_eqI dest: map_of_SomeD)
  then show ?thesis
    using Some validate_key_if [OF table_wf_index [OF assms]] by (simp add: table_lookup_def)
qed (simp add: table_lookup_def)

text \<open>The key of a row conforms to the index, so looking a stored row's key up finds the row.\<close>

lemma project_conforms:
  assumes "index_for schema rows ix" and "row_conforms schema r"
  shows "key_conforms schema ix (project (ix_columns ix) r)"
proof -
  have "type_of (row_values r ! c) = cd_ty (ts_columns schema ! c)" if "c \<in> set (ix_columns ix)" for c
  proof -
    have c: "c < length (ts_columns schema)" using assms(1) that by (simp add: index_for_def)
    have "map type_of (row_values r) ! c = map cd_ty (ts_columns schema) ! c"
      using assms(2) by (simp add: row_conforms_def)
    with c assms(2) show ?thesis by (simp add: row_conforms_length)
  qed
  then show ?thesis by (simp add: key_conforms_def project_def)
qed

lemma table_indexes_mem:
  "map_of (tb_indexes t) name = Some ix \<Longrightarrow> ix \<in> set (table_indexes t)"
  "tb_primary t = Some ix \<Longrightarrow> ix \<in> set (table_indexes t)"
  by (auto simp: table_indexes_def intro: rev_image_eqI dest: map_of_SomeD)

lemma get_by_primary_key_if:
  assumes wf: "table_wf t" and ix: "tb_primary t = Some ix"
    and key: "key_conforms (table_schema_of t) ix key"
  shows "get_by_primary_key t key = Ok res \<longleftrightarrow>
    (case res of
       Some r \<Rightarrow> (\<exists>rid. table_get t rid = Some r \<and> project (ix_columns ix) r = key)
     | None \<Rightarrow> \<not> (\<exists>rid r. table_get t rid = Some r \<and> project (ix_columns ix) r = key))"
proof -
  note ixf = table_wf_index [OF wf table_indexes_mem(2) [OF ix]]
  have look: "rid \<in> set (index_lookup ix key) \<longleftrightarrow>
      (\<exists>r. table_get t rid = Some r \<and> project (ix_columns ix) r = key)" for rid
    using index_lookup_rows(2) [OF ixf] by (auto simp: table_get_def storage_get_row_def)
  have eq: "get_by_primary_key t key =
      Ok (case index_lookup ix key of [] \<Rightarrow> None | rid # _ \<Rightarrow> table_get t rid)"
    using key by (simp add: get_by_primary_key_def ix validate_key_if [OF ixf] table_get_def
        split: list.splits)
  have uniq: "is_unique_ix ix" using wf ix by (simp add: table_wf_def indexes_named_def)
  show ?thesis
  proof (cases "index_lookup ix key")
    case Nil
    then show ?thesis using look by (auto simp: eq split: option.splits)
  next
    case (Cons rid rest)
    have "rest = []" using uniq Cons by (cases ix) (auto split: option.splits)
    then have here: "q = rid" if "table_get t q = Some r" "project (ix_columns ix) r = key" for q r
      using look [of q] Cons that by simp
    obtain r where r: "table_get t rid = Some r" "project (ix_columns ix) r = key"
      using look [of rid] Cons by auto
    have "get_by_primary_key t key = Ok (Some r)"
      using Cons r by (simp add: eq)
    moreover have "(\<exists>q. table_get t q = Some r' \<and> project (ix_columns ix) r' = key) \<longleftrightarrow> r' = r" for r'
      using here [of _ r'] r by fastforce
    ultimately show ?thesis using r by (cases res) auto
  qed
qed

end
