(* ===== verification/Table_Store.thy ===== *)
theory Table_Store
  imports Table_Engine
begin

text \<open>
  \<^verbatim>\<open>nexum-table/src/store.rs\<close>: the registry of named tables, its id counters, the drain of the
  committed changes and the capture and restore of the whole store. \<open>store_wf\<close> collects the
  tables' invariants with those of the registry: tables are filed under their own names, their ids
  are distinct and below the id counter.
\<close>

record table_store =
  ts_tables :: "(string, nexum_table) omap"
  next_table_id :: u64
  next_transaction_id :: u64

abbreviation table_id_of :: "nexum_table \<Rightarrow> table_id" where
  "table_id_of t \<equiv> st_id (tb_storage t)"

abbreviation table_name_of :: "nexum_table \<Rightarrow> string" where
  "table_name_of t \<equiv> ts_name (table_schema_of t)"

definition store_new :: table_store where
  "store_new = \<lparr>ts_tables = [], next_table_id = 0, next_transaction_id = 0\<rparr>"

definition alloc_transaction_id :: "table_store \<Rightarrow> transaction_id \<times> table_store" where
  "alloc_transaction_id st =
     (next_transaction_id st, st\<lparr>next_transaction_id := next_transaction_id st + 1\<rparr>)"

definition create_table :: "table_schema \<Rightarrow> table_store \<Rightarrow> table_id res \<times> table_store" where
  "create_table schema st =
     (let name = ts_name schema in
      if om_get (ts_tables st) name \<noteq> None then (Err AlreadyExists, st)
      else
        let tid = next_table_id st; st = st\<lparr>next_table_id := tid + 1\<rparr> in
        try_res (table_new tid schema) st (\<lambda>t.
          (Ok tid, st\<lparr>ts_tables := om_put name t (ts_tables st)\<rparr>)))"

definition drop_table :: "string \<Rightarrow> table_store \<Rightarrow> unit res \<times> table_store" where
  "drop_table name st =
     (if om_get (ts_tables st) name = None then (Err NotFound, st)
      else (Ok (), st\<lparr>ts_tables := om_del name (ts_tables st)\<rparr>))"

definition store_table :: "table_store \<Rightarrow> string \<Rightarrow> nexum_table option" where
  "store_table st name = om_get (ts_tables st) name"

text \<open>Running an operation on the table behind a \<^verbatim>\<open>&mut\<close> handle.\<close>

definition set_table :: "nexum_table \<Rightarrow> string \<Rightarrow> table_store \<Rightarrow> table_store" where
  "set_table t name st = st\<lparr>ts_tables := om_put name t (ts_tables st)\<rparr>"

definition store_add_index :: "string \<Rightarrow> index_def \<Rightarrow> table_store \<Rightarrow> unit res \<times> table_store" where
  "store_add_index name def st =
     (case om_get (ts_tables st) name of
        None \<Rightarrow> (Err NotFound, st)
      | Some t \<Rightarrow> (case table_add_index def t of (res, t) \<Rightarrow> (res, set_table t name st)))"

definition table_by_id :: "table_store \<Rightarrow> table_id \<Rightarrow> nexum_table option" where
  "table_by_id st tid = find (\<lambda>t. table_id_of t = tid) (map snd (ts_tables st))"

text \<open>\<^verbatim>\<open>table_mut_by_id\<close>: the handle is the entry of the first table with the id; \<open>f\<close> is what is done
  with it.\<close>

fun update_table_by_id ::
    "table_id \<Rightarrow> (nexum_table \<Rightarrow> nexum_table) \<Rightarrow> (string, nexum_table) omap \<Rightarrow> (string, nexum_table) omap"
  where
  "update_table_by_id tid f [] = []"
| "update_table_by_id tid f ((name, t) # ts) =
     (if table_id_of t = tid then (name, f t) # ts else (name, t) # update_table_by_id tid f ts)"

definition with_table_mut ::
    "table_id \<Rightarrow> (nexum_table \<Rightarrow> 'a \<times> nexum_table) \<Rightarrow> table_store \<Rightarrow> 'a option \<times> table_store" where
  "with_table_mut tid f st =
     (case table_by_id st tid of
        None \<Rightarrow> (None, st)
      | Some t \<Rightarrow>
          (Some (fst (f t)), st\<lparr>ts_tables := update_table_by_id tid (\<lambda>t. snd (f t)) (ts_tables st)\<rparr>))"

definition store_drain_changes :: "table_store \<Rightarrow> change list \<times> table_store" where
  "store_drain_changes st =
     (concat (map (\<lambda>(name, t). fst (table_drain_changes t)) (ts_tables st)),
      st\<lparr>ts_tables := map (\<lambda>(name, t). (name, snd (table_drain_changes t))) (ts_tables st)\<rparr>)"

definition advance_transaction_id :: "u64 \<Rightarrow> table_store \<Rightarrow> table_store" where
  "advance_transaction_id min_next st =
     st\<lparr>next_transaction_id := max (next_transaction_id st) min_next\<rparr>"

definition snapshot_tables :: "table_store \<Rightarrow> table_state list" where
  "snapshot_tables st = sort_key tst_id (map (\<lambda>(name, t). table_state_of t) (ts_tables st))"

fun restore_check :: "table_id list \<Rightarrow> string list \<Rightarrow> table_state list \<Rightarrow> unit res" where
  "restore_check seen_ids seen_names [] = Ok ()"
| "restore_check seen_ids seen_names (state # states) =
     (if tst_id state \<in> set seen_ids then Err Internal
      else if ts_name (tst_schema state) \<in> set seen_names then Err Internal
      else restore_check (tst_id state # seen_ids) (ts_name (tst_schema state) # seen_names) states)"

fun restore_tables :: "table_state list \<Rightarrow> table_store \<Rightarrow> unit res \<times> table_store" where
  "restore_tables [] st = (Ok (), st)"
| "restore_tables (state # states) st =
     try_res (table_from_state state) st (\<lambda>t. restore_tables states (set_table t (table_name_of t) st))"

definition store_restore ::
    "table_state list \<Rightarrow> u64 \<Rightarrow> u64 \<Rightarrow> table_store \<Rightarrow> unit res \<times> table_store" where
  "store_restore tables next_tid next_txid st =
     (if ts_tables st \<noteq> [] then (Err InvalidArgument, st)
      else
        try_res (restore_check [] [] tables) st (\<lambda>_.
          if tables \<noteq> [] \<and> next_tid \<le> Max (set (map tst_id tables)) then (Err Internal, st)
          else
            (case restore_tables tables st of (res, st) \<Rightarrow>
               try_res res st (\<lambda>_.
                 (Ok (), st\<lparr>next_table_id := next_tid, next_transaction_id := next_txid\<rparr>)))))"

section \<open>The invariant\<close>

definition store_wf :: "table_store \<Rightarrow> bool" where
  "store_wf st \<longleftrightarrow>
     om_wf (ts_tables st) \<and>
     (\<forall>(name, t) \<in> set (ts_tables st).
        table_wf t \<and> table_name_of t = name \<and> table_id_of t < next_table_id st) \<and>
     distinct (map (\<lambda>p. table_id_of (snd p)) (ts_tables st))"

lemma store_wfD:
  assumes "store_wf st" and "(name, t) \<in> set (ts_tables st)"
  shows "table_wf t" and "table_name_of t = name" and "table_id_of t < next_table_id st"
  using assms by (auto simp: store_wf_def)

lemma store_wf_om: "store_wf st \<Longrightarrow> om_wf (ts_tables st)"
  by (simp add: store_wf_def)

lemma store_new_wf [wf_intros]: "store_wf store_new"
  by (simp add: store_wf_def store_new_def)

lemma store_wf_id_inj:
  assumes "store_wf st" and "p \<in> set (ts_tables st)" and "q \<in> set (ts_tables st)"
    and "table_id_of (snd p) = table_id_of (snd q)"
  shows "p = q"
  using assms by (auto simp: store_wf_def distinct_map dest: inj_onD)

lemma table_by_id_iff:
  assumes "store_wf st"
  shows "table_by_id st tid = Some t \<longleftrightarrow> (\<exists>name. (name, t) \<in> set (ts_tables st)) \<and> table_id_of t = tid"
proof -
  have inj: "p = q" if "p \<in> set (ts_tables st)" "q \<in> set (ts_tables st)"
      "table_id_of (snd p) = table_id_of (snd q)" for p q
    using assms that by (rule store_wf_id_inj)
  show ?thesis
  proof
    assume "table_by_id st tid = Some t"
    then show "(\<exists>name. (name, t) \<in> set (ts_tables st)) \<and> table_id_of t = tid"
      unfolding table_by_id_def by (force dest: find_SomeD)
  next
    assume t: "(\<exists>name. (name, t) \<in> set (ts_tables st)) \<and> table_id_of t = tid"
    then obtain t' where t': "table_by_id st tid = Some t'"
      by (cases "table_by_id st tid") (auto simp: table_by_id_def find_None_iff)
    then have "(\<exists>name. (name, t') \<in> set (ts_tables st)) \<and> table_id_of t' = tid"
      unfolding table_by_id_def by (force dest: find_SomeD)
    with t t' show "table_by_id st tid = Some t" using inj by fastforce
  qed
qed

section \<open>Registry operations keep it\<close>

lemma table_new_fields:
  assumes "table_new tid schema = Ok t"
  shows "table_id_of t = tid" and "table_schema_of t = schema" and "table_rows t = Map.empty"
  using assms by (auto simp: table_new_def bind_res_eq_Ok storage_new_def)

lemma create_table_wf [wf_intros]:
  assumes wf: "store_wf st" and left: "next_table_id st \<noteq> - 1"
  shows "store_wf (snd (create_table schema st))"
proof -
  let ?id = "next_table_id st"
  have lt: "?id < ?id + 1"
    using version_next_greater [OF left] by (simp add: version_next_def)
  have keep: "store_wf (st\<lparr>next_table_id := ?id + 1\<rparr>)"
    using wf lt by (auto simp: store_wf_def dest: less_trans)
  show ?thesis
  proof (cases "om_get (ts_tables st) (ts_name schema) = None \<and> is_ok (table_new ?id schema)")
    case False
    then show ?thesis
      using wf keep by (cases "table_new ?id schema") (auto simp: create_table_def Let_def)
  next
    case True
    then obtain t where t: "table_new ?id schema = Ok t" and new: "ts_name schema \<notin> fst ` set (ts_tables st)"
      by (auto simp: is_ok_iff om_get_None)
    let ?ts = "om_put (ts_name schema) t (ts_tables st)"
    have sub: "set ?ts \<subseteq> insert (ts_name schema, t) (set (ts_tables st))"
      by (rule set_om_put_sub)
    have om: "om_wf ?ts" using wf by (intro om_wf_put store_wf_om)
    have "distinct (map (\<lambda>p. table_id_of (snd p)) ?ts)"
    proof -
      have "inj_on (\<lambda>p. table_id_of (snd p)) (set (ts_tables st))"
        using wf by (simp add: store_wf_def distinct_map)
      moreover have "table_id_of (snd p) \<noteq> ?id" if "p \<in> set (ts_tables st)" for p
        using store_wfD(3) [OF wf, of "fst p" "snd p"] that by auto
      ultimately have "inj_on (\<lambda>p. table_id_of (snd p)) (insert (ts_name schema, t) (set (ts_tables st)))"
        using table_new_fields(1) [OF t] by (fastforce simp: inj_on_def)
      then have "inj_on (\<lambda>p. table_id_of (snd p)) (set ?ts)" using sub by (rule inj_on_subset)
      with om_wf_distinct [OF om] show ?thesis by (simp add: distinct_map)
    qed
    moreover have "table_wf t" using t by (rule table_new_wf)
    ultimately have "store_wf (st\<lparr>next_table_id := ?id + 1, ts_tables := ?ts\<rparr>)"
      using sub om keep table_new_fields(1,2) [OF t] lt by (auto simp: store_wf_def subset_eq)
    then show ?thesis
      using True t by (simp add: create_table_def Let_def)
  qed
qed

lemma drop_table_wf [wf_intros]: "store_wf st \<Longrightarrow> store_wf (snd (drop_table name st))"
  using om_wf_del [of "ts_tables st" name]
  by (auto simp: drop_table_def store_wf_def om_del_def distinct_map intro: inj_on_subset)

text \<open>Replacing a table by one with the same identity.\<close>

lemma map_of_update_by_id:
  "map fst (update_table_by_id tid f ts) = map fst ts"
  by (induction tid f ts rule: update_table_by_id.induct) auto

lemma update_by_id_ids:
  "(\<And>t. table_id_of (f t) = table_id_of t) \<Longrightarrow>
     map (\<lambda>p. table_id_of (snd p)) (update_table_by_id tid f ts) = map (\<lambda>p. table_id_of (snd p)) ts"
  by (induction tid f ts rule: update_table_by_id.induct) auto

lemma update_by_id_set:
  "p \<in> set (update_table_by_id tid f ts) \<Longrightarrow>
     p \<in> set ts \<or> (\<exists>t. (fst p, t) \<in> set ts \<and> table_id_of t = tid \<and> snd p = f t)"
  by (induction tid f ts rule: update_table_by_id.induct) (auto split: if_splits)

lemma with_table_mut_wf:
  assumes wf: "store_wf st"
    and keep: "\<And>t. table_id_of (snd (f t)) = table_id_of t"
      "\<And>t. table_by_id st tid = Some t \<Longrightarrow> table_wf (snd (f t)) \<and> table_name_of (snd (f t)) = table_name_of t"
  shows "store_wf (snd (with_table_mut tid f st))"
proof (cases "table_by_id st tid")
  case None
  then show ?thesis using wf by (simp add: with_table_mut_def)
next
  case (Some t0)
  let ?ts = "update_table_by_id tid (\<lambda>t. snd (f t)) (ts_tables st)"
  have "table_wf t \<and> table_name_of t = name \<and> table_id_of t < next_table_id st"
    if "(name, t) \<in> set ?ts" for name t
    using update_by_id_set [OF that]
  proof
    assume "(name, t) \<in> set (ts_tables st)"
    with store_wfD [OF wf] show ?thesis by auto
  next
    assume "\<exists>u. (fst (name, t), u) \<in> set (ts_tables st) \<and> table_id_of u = tid \<and> snd (name, t) = snd (f u)"
    then obtain u where u: "(name, u) \<in> set (ts_tables st)" "table_id_of u = tid" "t = snd (f u)" by auto
    then have "table_by_id st tid = Some u" using table_by_id_iff [OF wf] by auto
    with keep u store_wfD [OF wf u(1)] show ?thesis by simp
  qed
  moreover have "om_wf ?ts" using store_wf_om [OF wf] by (simp add: om_wf_def map_of_update_by_id)
  moreover have "distinct (map (\<lambda>p. table_id_of (snd p)) ?ts)"
    using wf by (simp add: update_by_id_ids keep store_wf_def)
  ultimately show ?thesis
    using Some by (auto simp: with_table_mut_def store_wf_def)
qed

lemma set_table_wf:
  assumes wf: "store_wf st" and old: "om_get (ts_tables st) name = Some t"
    and new: "table_wf t'" "table_id_of t' = table_id_of t" "table_name_of t' = table_name_of t"
  shows "store_wf (set_table t' name st)"
proof -
  let ?ts = "om_put name t' (ts_tables st)"
  have om: "om_wf (ts_tables st)" using wf by (rule store_wf_om)
  have mem: "(name, t) \<in> set (ts_tables st)" using old om_get_mem [OF om] by simp
  note at = set_om_put [OF om, of _ _ name t']
  have "inj_on (\<lambda>p. table_id_of (snd p)) (set ?ts)"
  proof (rule inj_onI)
    fix p q assume pq: "p \<in> set ?ts" "q \<in> set ?ts" "table_id_of (snd p) = table_id_of (snd q)"
    obtain n u m v where p: "p = (n, u)" and q: "q = (m, v)" by (cases p, cases q)
    have eq: "table_id_of u = table_id_of v" using pq(3) by (simp add: p q)
    have n: "if n = name then u = t' else (n, u) \<in> set (ts_tables st)"
      and m: "if m = name then v = t' else (m, v) \<in> set (ts_tables st)"
      using pq(1,2) by (simp_all add: p q at)
    note inj = store_wf_id_inj [OF wf]
    show "p = q"
    proof (cases "n = name")
      case True
      then show ?thesis
        using n m eq new(2) inj [of "(name, t)" "(m, v)"] mem by (cases "m = name") (simp_all add: p q)
    next
      case False
      then show ?thesis
        using n m eq new(2) inj [of "(n, u)" "(name, t)"] inj [of "(n, u)" "(m, v)"] mem
        by (cases "m = name") (simp_all add: p q)
    qed
  qed
  then have "distinct (map (\<lambda>p. table_id_of (snd p)) ?ts)"
    using om_wf_distinct [OF om_wf_put [OF om]] by (simp add: distinct_map)
  moreover have "table_wf u \<and> table_name_of u = n \<and> table_id_of u < next_table_id st"
    if "(n, u) \<in> set ?ts" for n u
    using that store_wfD [OF wf mem] store_wfD [OF wf, of n u] new by (auto simp: at split: if_splits)
  ultimately show ?thesis
    using om_wf_put [OF om] by (auto simp: set_table_def store_wf_def)
qed

lemma table_add_index_identity:
  "st_id (tb_storage (snd (table_add_index def t))) = st_id (tb_storage t)"
  "st_schema (tb_storage (snd (table_add_index def t))) = st_schema (tb_storage t)"
  by (auto simp: table_add_index_def try_res_def Let_def split: res.splits)

lemma store_add_index_wf [wf_intros]:
  assumes "store_wf st"
  shows "store_wf (snd (store_add_index name def st))"
proof (cases "om_get (ts_tables st) name")
  case None
  then show ?thesis using assms by (simp add: store_add_index_def)
next
  case (Some t)
  then have "table_wf t"
    using store_wfD(1) [OF assms] om_get_mem [OF store_wf_om [OF assms]] by simp
  then have "store_wf (set_table (snd (table_add_index def t)) name st)"
    using Some by (intro set_table_wf [OF assms]) (auto simp: table_add_index_identity intro: table_add_index_wf)
  then show ?thesis
    using Some by (simp add: store_add_index_def case_prod_beta)
qed

lemma store_drain_wf [wf_intros]:
  assumes "store_wf st"
  shows "store_wf (snd (store_drain_changes st))"
proof -
  have "st_id (tb_storage (snd (table_drain_changes t))) = table_id_of t"
    "st_schema (tb_storage (snd (table_drain_changes t))) = table_schema_of t" for t
    by (simp_all add: table_drain_changes_def storage_drain_changes_def)
  with assms show ?thesis
    by (auto simp: store_drain_changes_def store_wf_def om_map_snd o_def case_prod_beta table_drain_wf)
qed

text \<open>Draining returns every buffered change, in table-name order, and leaves none.\<close>

lemma store_drain_changes_eq:
  "fst (store_drain_changes st) = concat (map (\<lambda>(name, t). st_changes (tb_storage t)) (ts_tables st))"
  "fst (store_drain_changes (snd (store_drain_changes st))) = []"
  by (simp_all add: store_drain_changes_def table_drain_changes_def storage_drain_changes_def
      case_prod_beta o_def)

section \<open>Capture and restore\<close>

lemma restore_check_if:
  "restore_check seen_ids seen_names states =
     (if distinct (map tst_id states) \<and> distinct (map (\<lambda>s. ts_name (tst_schema s)) states) \<and>
         set (map tst_id states) \<inter> set seen_ids = {} \<and>
         set (map (\<lambda>s. ts_name (tst_schema s)) states) \<inter> set seen_names = {}
      then Ok () else Err Internal)"
  by (induction seen_ids seen_names states rule: restore_check.induct) auto

lemma restore_tables_eq:
  assumes "\<forall>s \<in> set states. table_from_state s = Ok (g s)"
  shows "restore_tables states st =
    (Ok (), st\<lparr>ts_tables := fold (\<lambda>s. om_put (table_name_of (g s)) (g s)) states (ts_tables st)\<rparr>)"
  using assms by (induction states arbitrary: st) (simp_all add: set_table_def)

definition the_table :: "table_state \<Rightarrow> nexum_table" where
  "the_table s = (case table_from_state s of Ok t \<Rightarrow> t | _ \<Rightarrow> undefined)"

lemma table_state_fields [simp]:
  "tst_id (table_state_of t) = table_id_of t"
  "tst_schema (table_state_of t) = table_schema_of t"
  by (simp_all add: table_state_of_def storage_table_state_def)

lemma the_table_capture:
  assumes "table_wf t"
  shows "table_from_state (table_state_of t) = Ok (the_table (table_state_of t))"
    and "tb_storage (the_table (table_state_of t)) = (tb_storage t)\<lparr>st_changes := []\<rparr>"
    and "table_wf (the_table (table_state_of t))"
    and "index_shape ` set (table_indexes (the_table (table_state_of t))) \<subseteq> index_shape ` set (table_indexes t)"
  using table_restore_capture [OF assms] by (auto simp: the_table_def)

lemma snapshot_tables_props:
  assumes wf: "store_wf st"
  shows "distinct (map tst_id (snapshot_tables st))"
    and "distinct (map (\<lambda>s. ts_name (tst_schema s)) (snapshot_tables st))"
    and "\<forall>s \<in> set (snapshot_tables st). table_from_state s = Ok (the_table s)"
    and "\<forall>s \<in> set (snapshot_tables st). tst_id s < next_table_id st"
proof -
  have names: "map (\<lambda>s. ts_name (tst_schema s)) (map (\<lambda>(name, t). table_state_of t) (ts_tables st))
      = map fst (ts_tables st)"
    using store_wfD(2) [OF wf] by auto
  show "distinct (map (\<lambda>s. ts_name (tst_schema s)) (snapshot_tables st))"
    unfolding snapshot_tables_def distinct_map_sort_key names
    using om_wf_distinct [OF store_wf_om [OF wf]] .
  show "distinct (map tst_id (snapshot_tables st))"
    using wf by (simp add: snapshot_tables_def distinct_map_sort_key o_def case_prod_beta store_wf_def)
  show "\<forall>s \<in> set (snapshot_tables st). table_from_state s = Ok (the_table s)"
    using store_wfD(1) [OF wf] the_table_capture(1) by (auto simp: snapshot_tables_def)
  show "\<forall>s \<in> set (snapshot_tables st). tst_id s < next_table_id st"
    using store_wfD(3) [OF wf] by (auto simp: snapshot_tables_def)
qed

lemma restored_tables:
  assumes wf: "store_wf st"
  shows "fold (\<lambda>s. om_put (table_name_of (the_table s)) (the_table s)) (snapshot_tables st) []
    = map (\<lambda>(name, t). (name, the_table (table_state_of t))) (ts_tables st)"
    (is "fold ?put _ _ = ?ts")
proof (rule om_ext)
  let ?kv = "\<lambda>s. (table_name_of (the_table s), the_table s)"
  note snap = snapshot_tables_props [OF wf]
  have name: "table_name_of (the_table s) = ts_name (tst_schema s)" if "s \<in> set (snapshot_tables st)" for s
    using that store_wfD(1) [OF wf] the_table_capture(2) by (auto simp: snapshot_tables_def)
  show "om_wf (fold ?put (snapshot_tables st) [])" by (rule om_wf_fold_put) simp
  show ts: "om_wf ?ts" using store_wf_om [OF wf] by (simp add: om_map_snd)
  have "map fst (map ?kv (snapshot_tables st)) = map (\<lambda>s. ts_name (tst_schema s)) (snapshot_tables st)"
    using name by simp
  then have dist: "distinct (map fst (rev (map ?kv (snapshot_tables st))))"
    using snap(2) by (simp only: rev_map [symmetric] distinct_rev)
  have "set (rev (map ?kv (snapshot_tables st))) = set ?ts"
    using store_wfD [OF wf] the_table_capture(2) by (force simp: snapshot_tables_def)
  then have "map_of (rev (map ?kv (snapshot_tables st))) = map_of ?ts"
    using map_of_inject_set [OF dist om_wf_distinct [OF ts]] by simp
  then show "om_get (fold ?put (snapshot_tables st) []) = om_get ?ts"
    by (simp add: om_get_fold_put)
qed

text \<open>Restoring what was captured into a new store brings back every table, with nothing left to
  drain, and the counters.\<close>

lemma store_restore_tables:
  assumes wf: "store_wf st"
  shows "store_restore (snapshot_tables st) (next_table_id st) (next_transaction_id st) store_new
    = (Ok (), st\<lparr>ts_tables := map (\<lambda>(name, t). (name, the_table (table_state_of t))) (ts_tables st)\<rparr>)"
proof -
  let ?states = "snapshot_tables st"
  let ?put = "\<lambda>s. om_put (table_name_of (the_table s)) (the_table s)"
  note snap = snapshot_tables_props [OF wf]
  have "restore_tables ?states store_new = (Ok (), store_new\<lparr>ts_tables := fold ?put ?states []\<rparr>)"
    using restore_tables_eq [of ?states the_table store_new] snap(3) by (simp add: store_new_def)
  moreover have "restore_check [] [] ?states = Ok ()"
    using snap(1,2) by (simp add: restore_check_if)
  moreover have "\<not> (?states \<noteq> [] \<and> next_table_id st \<le> Max (set (map tst_id ?states)))"
    using snap(4) by (cases "?states = []") (auto simp: not_le)
  ultimately show ?thesis
    by (simp add: store_restore_def restored_tables [OF wf]) (simp add: store_new_def)
qed

lemma restored_wf:
  assumes wf: "store_wf st"
  shows "store_wf (st\<lparr>ts_tables := map (\<lambda>(name, t). (name, the_table (table_state_of t))) (ts_tables st)\<rparr>)"
  using wf the_table_capture(2,3) store_wfD(1) [OF wf]
    om_map_snd(1) [of "\<lambda>t. the_table (table_state_of t)" "ts_tables st"]
  by (auto simp: store_wf_def o_def case_prod_beta cong: map_cong)

lemma store_restore_capture:
  assumes wf: "store_wf st"
  shows "\<exists>st'. store_restore (snapshot_tables st) (next_table_id st) (next_transaction_id st) store_new
        = (Ok (), st') \<and> store_wf st' \<and>
      next_table_id st' = next_table_id st \<and> next_transaction_id st' = next_transaction_id st \<and>
      (\<forall>name. map_option tb_storage (store_table st' name)
         = map_option (\<lambda>t. (tb_storage t)\<lparr>st_changes := []\<rparr>) (store_table st name))"
proof -
  let ?st = "st\<lparr>ts_tables := map (\<lambda>(name, t). (name, the_table (table_state_of t))) (ts_tables st)\<rparr>"
  have "map_option tb_storage (store_table ?st name)
      = map_option (\<lambda>t. (tb_storage t)\<lparr>st_changes := []\<rparr>) (store_table st name)" for name
    using the_table_capture(2) store_wfD(1) [OF wf, OF map_of_SomeD]
    by (cases "om_get (ts_tables st) name") (simp_all add: store_table_def om_map_snd)
  then show ?thesis
    using store_restore_tables [OF wf] restored_wf [OF wf] by (intro exI [of _ ?st]) simp
qed

end
