(* ===== verification/Tx_Read_Set.thy ===== *)
theory Tx_Read_Set
  imports Table_Store
begin

text \<open>
  \<^verbatim>\<open>nexum-tx/src/read_set.rs\<close>: what a transaction observed. A row observation is the version read
  (or absence), a table observation the mutation epoch; the insertion order of first row
  observations lets a rollback truncate. Shown here: the order lists exactly the observed rows
  without repetition, and truncating to a watermark undoes the recordings since, as long as none
  of them overwrote an earlier observation with a different one.
\<close>

type_synonym row_key = "table_id \<times> row_id"

type_synonym read_observation = "version option"

record read_set =
  rs_entries :: "(row_key, read_observation) omap"
  rs_insert_order :: "row_key list"
  rs_tables :: "(table_id, version) omap"

definition read_set_new :: read_set where
  "read_set_new = \<lparr>rs_entries = [], rs_insert_order = [], rs_tables = []\<rparr>"

definition rs_record :: "table_id \<Rightarrow> row_id \<Rightarrow> read_observation \<Rightarrow> read_set \<Rightarrow> read_set" where
  "rs_record tid rid observed rs =
     (let key = (tid, rid);
          rs' = rs\<lparr>rs_entries := om_put key observed (rs_entries rs)\<rparr> in
      if om_get (rs_entries rs) key = None
      then rs'\<lparr>rs_insert_order := rs_insert_order rs @ [key]\<rparr> else rs')"

definition rs_record_table :: "table_id \<Rightarrow> version \<Rightarrow> read_set \<Rightarrow> read_set" where
  "rs_record_table tid epoch rs = rs\<lparr>rs_tables := om_put tid epoch (rs_tables rs)\<rparr>"

definition rs_absorb :: "read_set \<Rightarrow> read_set \<Rightarrow> read_set" where
  "rs_absorb other rs =
     fold (\<lambda>(tid, epoch). rs_record_table tid epoch) (rs_tables other)
       (fold (\<lambda>((tid, rid), observed). rs_record tid rid observed) (rs_entries other) rs)"

definition rs_get :: "read_set \<Rightarrow> table_id \<Rightarrow> row_id \<Rightarrow> read_observation option" where
  "rs_get rs tid rid = om_get (rs_entries rs) (tid, rid)"

definition rs_get_table :: "read_set \<Rightarrow> table_id \<Rightarrow> version option" where
  "rs_get_table rs tid = om_get (rs_tables rs) tid"

definition rs_len :: "read_set \<Rightarrow> nat" where
  "rs_len rs = length (rs_entries rs) + length (rs_tables rs)"

definition rs_entry_count :: "read_set \<Rightarrow> nat" where
  "rs_entry_count rs = length (rs_entries rs)"

text \<open>\<^verbatim>\<open>&self.insert_order[len..]\<close> panics when \<open>len\<close> exceeds the length.\<close>

definition rs_truncate_to :: "nat \<Rightarrow> read_set \<Rightarrow> read_set res" where
  "rs_truncate_to n rs =
     (if length (rs_insert_order rs) < n then Panic
      else Ok (rs\<lparr>rs_entries := fold om_del (drop n (rs_insert_order rs)) (rs_entries rs),
                  rs_insert_order := take n (rs_insert_order rs)\<rparr>))"

section \<open>Invariant\<close>

definition rs_wf :: "read_set \<Rightarrow> bool" where
  "rs_wf rs \<longleftrightarrow>
     om_wf (rs_entries rs) \<and> om_wf (rs_tables rs) \<and> distinct (rs_insert_order rs) \<and>
     set (rs_insert_order rs) = fst ` set (rs_entries rs)"

lemma read_set_new_wf [wf_intros]: "rs_wf read_set_new"
  by (simp add: rs_wf_def read_set_new_def)

lemma rs_record_wf [wf_intros]: "rs_wf rs \<Longrightarrow> rs_wf (rs_record tid rid observed rs)"
  by (auto simp: rs_wf_def rs_record_def Let_def om_wf_put fst_set_om_put om_get_None)

lemma rs_record_table_wf [wf_intros]: "rs_wf rs \<Longrightarrow> rs_wf (rs_record_table tid epoch rs)"
  by (simp add: rs_wf_def rs_record_table_def om_wf_put)

lemma fold_wf: "(\<And>x s. P s \<Longrightarrow> P (f x s)) \<Longrightarrow> P s \<Longrightarrow> P (fold f xs s)"
  by (induction xs arbitrary: s) auto

lemma rs_absorb_wf [wf_intros]: "rs_wf rs \<Longrightarrow> rs_wf (rs_absorb other rs)"
  unfolding rs_absorb_def
  by (rule fold_wf [where P = rs_wf], (auto intro: rs_record_table_wf split: prod.splits)[1],
      rule fold_wf [where P = rs_wf]) (auto intro: rs_record_wf split: prod.splits)

lemma rs_record_get:
  "rs_wf rs \<Longrightarrow> rs_get (rs_record tid rid observed rs) t r
     = (if (t, r) = (tid, rid) then Some observed else rs_get rs t r)"
  by (auto simp: rs_wf_def rs_record_def rs_get_def Let_def om_get_put)

lemma rs_entry_count_order:
  assumes "rs_wf rs"
  shows "rs_entry_count rs = length (rs_insert_order rs)"
proof -
  have "length (rs_entries rs) = card (fst ` set (rs_entries rs))"
    using assms om_wf_distinct by (metis distinct_card length_map list.set_map rs_wf_def)
  also have "\<dots> = length (rs_insert_order rs)"
    using assms by (metis distinct_card rs_wf_def)
  finally show ?thesis by (simp add: rs_entry_count_def)
qed

section \<open>Truncation\<close>

lemma om_get_fold_del: "om_get (fold om_del ks m) k = (if k \<in> set ks then None else om_get m k)"
  by (induction ks arbitrary: m) (auto simp: om_get_del)

lemma om_wf_fold_del: "om_wf m \<Longrightarrow> om_wf (fold om_del ks m)"
  by (induction ks arbitrary: m) (auto intro: om_wf_del)

text \<open>After recording more observations, truncating to the watermark taken before forgets exactly the
  rows first observed since; rows observed before keep their latest observation.\<close>

definition rs_extends :: "read_set \<Rightarrow> read_set \<Rightarrow> bool" where
  "rs_extends rs rs' \<longleftrightarrow>
     (\<exists>ks. rs_insert_order rs' = rs_insert_order rs @ ks) \<and> rs_wf rs'"

lemma rs_record_extends:
  "rs_extends rs rs' \<Longrightarrow> rs_extends rs (rs_record tid rid observed rs')"
  by (auto simp: rs_extends_def rs_record_wf) (auto simp: rs_record_def Let_def)

lemma rs_record_table_extends:
  "rs_extends rs rs' \<Longrightarrow> rs_extends rs (rs_record_table tid epoch rs')"
  by (auto simp: rs_extends_def rs_record_table_wf) (auto simp: rs_record_table_def)

lemma rs_truncate_extends:
  assumes wf: "rs_wf rs" and ext: "rs_extends rs rs'"
  shows "\<exists>restored. rs_truncate_to (rs_entry_count rs) rs' = Ok restored \<and> rs_wf restored \<and>
    rs_insert_order restored = rs_insert_order rs \<and>
    (\<forall>t r. rs_get restored t r = (if (t, r) \<in> set (rs_insert_order rs) then rs_get rs' t r else None)) \<and>
    rs_tables restored = rs_tables rs'"
proof -
  from ext obtain ks where order: "rs_insert_order rs' = rs_insert_order rs @ ks" and wf': "rs_wf rs'"
    by (auto simp: rs_extends_def)
  note n = rs_entry_count_order [OF wf]
  let ?restored = "rs'\<lparr>rs_entries := fold om_del ks (rs_entries rs'), rs_insert_order := rs_insert_order rs\<rparr>"
  have ok: "rs_truncate_to (rs_entry_count rs) rs' = Ok ?restored"
    by (simp add: rs_truncate_to_def n order)
  have dom: "om_get (rs_entries rs') k = None \<longleftrightarrow> k \<notin> set (rs_insert_order rs @ ks)" for k
    using wf' order by (simp add: rs_wf_def om_get_None)
  have dist: "distinct (rs_insert_order rs @ ks)" using wf' order by (simp add: rs_wf_def)
  have get: "rs_get ?restored t r = (if (t, r) \<in> set (rs_insert_order rs) then rs_get rs' t r else None)" for t r
    using dom [of "(t, r)"] dist by (auto simp: rs_get_def om_get_fold_del)
  have "fst ` set (fold om_del ks (rs_entries rs')) = set (rs_insert_order rs)"
  proof -
    have "k \<in> fst ` set (fold om_del ks (rs_entries rs')) \<longleftrightarrow> k \<in> set (rs_insert_order rs)" for k
      using om_get_None [of "fold om_del ks (rs_entries rs')" k] dom [of k] dist
      by (auto simp: om_get_fold_del split: if_splits)
    then show ?thesis by blast
  qed
  moreover have "om_wf (fold om_del ks (rs_entries rs'))"
    using wf' by (intro om_wf_fold_del) (simp add: rs_wf_def)
  ultimately have "rs_wf ?restored"
    using wf wf' by (simp add: rs_wf_def)
  with ok get show ?thesis by auto
qed

end
