(* ===== verification/Tx_Write_Set.thy ===== *)
theory Tx_Write_Set
  imports Tx_Read_Set
begin

text \<open>
  \<^verbatim>\<open>nexum-tx/src/write_set.rs\<close>: the buffered writes of a transaction, one entry per row, in two
  layers: what was inherited when the transaction was branched off its parent, and its own writes,
  which override it. Sharing the layers (\<^verbatim>\<open>Arc\<close>) is a matter of cost and is not visible here.
  \<open>ws_get\<close> is the logical view. Shown: the merging iterator yields exactly the logical view in
  ascending order; each operation coalesces as the table in the module documentation says; and
  absorbing a child reproduces the child's view.
\<close>

datatype write_entry = WInsert row | WUpdate row | WDelete

fun entry_row :: "write_entry \<Rightarrow> row option" where
  "entry_row (WInsert r) = Some r"
| "entry_row (WUpdate r) = Some r"
| "entry_row WDelete = None"

type_synonym write_map = "(row_key, write_entry) omap"

record write_set =
  ws_base :: "write_map option"
  ws_own :: write_map

definition write_set_new :: write_set where
  "write_set_new = \<lparr>ws_base = None, ws_own = []\<rparr>"

definition own_contains :: "write_set \<Rightarrow> table_id \<Rightarrow> row_id \<Rightarrow> bool" where
  "own_contains ws tid rid \<longleftrightarrow> om_get (ws_own ws) (tid, rid) \<noteq> None"

definition ws_get :: "write_set \<Rightarrow> table_id \<Rightarrow> row_id \<Rightarrow> write_entry option" where
  "ws_get ws tid rid =
     (case om_get (ws_own ws) (tid, rid) of
        Some e \<Rightarrow> Some e
      | None \<Rightarrow> Option.bind (ws_base ws) (\<lambda>b. om_get b (tid, rid)))"

definition ws_contains :: "write_set \<Rightarrow> table_id \<Rightarrow> row_id \<Rightarrow> bool" where
  "ws_contains ws tid rid \<longleftrightarrow> ws_get ws tid rid \<noteq> None"

text \<open>\<^verbatim>\<open>WriteSet::set\<close>: overwrite in the own layer.\<close>

definition ws_set :: "table_id \<Rightarrow> row_id \<Rightarrow> write_entry \<Rightarrow> write_set \<Rightarrow> write_set" where
  "ws_set tid rid entry ws = ws\<lparr>ws_own := om_put (tid, rid) entry (ws_own ws)\<rparr>"

definition ws_remove :: "table_id \<Rightarrow> row_id \<Rightarrow> write_set \<Rightarrow> write_set" where
  "ws_remove tid rid ws = ws\<lparr>ws_own := om_del (tid, rid) (ws_own ws)\<rparr>"

definition ws_insert :: "table_id \<Rightarrow> row_id \<Rightarrow> row \<Rightarrow> write_set \<Rightarrow> unit res \<times> write_set" where
  "ws_insert tid rid r ws =
     (if om_get (ws_own ws) (tid, rid) \<noteq> None then (Err InvalidTransaction, ws)
      else (Ok (), ws_set tid rid (WInsert r) ws))"

definition ws_update ::
    "table_id \<Rightarrow> row_id \<Rightarrow> bool \<Rightarrow> row \<Rightarrow> write_set \<Rightarrow> unit res \<times> write_set" where
  "ws_update tid rid is_prov r ws =
     (case ws_get ws tid rid of
        None \<Rightarrow>
          if is_prov then (Err InvalidTransaction, ws) else (Ok (), ws_set tid rid (WUpdate r) ws)
      | Some (WInsert _) \<Rightarrow> (Ok (), ws_set tid rid (WInsert r) ws)
      | Some (WUpdate _) \<Rightarrow> (Ok (), ws_set tid rid (WUpdate r) ws)
      | Some WDelete \<Rightarrow> (Err InvalidTransaction, ws))"

definition ws_delete :: "table_id \<Rightarrow> row_id \<Rightarrow> bool \<Rightarrow> write_set \<Rightarrow> unit res \<times> write_set" where
  "ws_delete tid rid is_prov ws =
     (case ws_get ws tid rid of
        None \<Rightarrow>
          if is_prov then (Err InvalidTransaction, ws) else (Ok (), ws_set tid rid WDelete ws)
      | Some (WInsert _) \<Rightarrow>
          if own_contains ws tid rid then (Ok (), ws_remove tid rid ws)
          else (Ok (), ws_set tid rid WDelete ws)
      | Some (WUpdate _) \<Rightarrow> (Ok (), ws_set tid rid WDelete ws)
      | Some WDelete \<Rightarrow> (Err InvalidTransaction, ws))"

definition ws_len :: "write_set \<Rightarrow> nat" where
  "ws_len ws =
     (case ws_base ws of
        None \<Rightarrow> length (ws_own ws)
      | Some b \<Rightarrow>
          length (ws_own ws) + length b
            - length (filter (\<lambda>k. om_get (ws_own ws) k \<noteq> None) (map fst b)))"

definition ws_is_empty :: "write_set \<Rightarrow> bool" where
  "ws_is_empty ws \<longleftrightarrow>
     (case ws_base ws of
        None \<Rightarrow> ws_own ws = []
      | Some b \<Rightarrow> ws_own ws = [] \<and> \<not> list_ex (\<lambda>k. om_get (ws_own ws) k = None) (map fst b))"

text \<open>The two-way merge of \<^verbatim>\<open>WriteSet::entries\<close>.\<close>

fun merge_entries :: "('k::linorder, 'v) omap \<Rightarrow> ('k, 'v) omap \<Rightarrow> ('k, 'v) omap" where
  "merge_entries (o1 # own) (i # inherited) =
     (if fst o1 = fst i then o1 # merge_entries own inherited
      else if fst o1 < fst i then o1 # merge_entries own (i # inherited)
      else i # merge_entries (o1 # own) inherited)"
| "merge_entries (o1 # own) [] = o1 # merge_entries own []"
| "merge_entries [] (i # inherited) = i # merge_entries [] inherited"
| "merge_entries [] [] = []"

definition ws_entries :: "write_set \<Rightarrow> write_map" where
  "ws_entries ws = merge_entries (ws_own ws) (case ws_base ws of None \<Rightarrow> [] | Some b \<Rightarrow> b)"

definition entries_for_table :: "write_set \<Rightarrow> table_id \<Rightarrow> (row_id \<times> write_entry) list" where
  "entries_for_table ws tid =
     map (\<lambda>((t, rid), e). (rid, e)) (filter (\<lambda>((t, rid), e). t = tid) (ws_entries ws))"

fun is_insert :: "write_entry \<Rightarrow> bool" where
  "is_insert (WInsert _) = True"
| "is_insert _ = False"

definition has_any_insert :: "write_set \<Rightarrow> bool" where
  "has_any_insert ws \<longleftrightarrow>
     list_ex is_insert (map snd (ws_own ws)) \<or>
     (case ws_base ws of None \<Rightarrow> False | Some b \<Rightarrow> list_ex is_insert (map snd b))"

definition ws_tables :: "write_set \<Rightarrow> table_id list" where
  "ws_tables ws = remdups (sort (map (\<lambda>((tid, rid), e). tid) (ws_entries ws)))"

definition fold_entry :: "row_key \<times> write_entry \<Rightarrow> write_map \<Rightarrow> write_map" where
  "fold_entry p logical =
     (case p of (key, entry) \<Rightarrow>
        (case (om_get logical key, entry) of
           (Some (WInsert _), WDelete) \<Rightarrow> om_del key logical
         | _ \<Rightarrow> om_put key entry logical))"

definition ws_branch :: "write_set \<Rightarrow> write_set" where
  "ws_branch ws =
     \<lparr>ws_base = Some (case ws_base ws of None \<Rightarrow> ws_own ws | Some b \<Rightarrow> fold fold_entry (ws_own ws) b),
      ws_own = []\<rparr>"

definition absorb_entry :: "row_key \<times> write_entry \<Rightarrow> write_set \<Rightarrow> write_set" where
  "absorb_entry p ws =
     (case p of ((tid, rid), entry) \<Rightarrow>
        (case (ws_get ws tid rid, entry) of
           (Some (WInsert _), WDelete) \<Rightarrow>
             if om_get (ws_own ws) (tid, rid) \<noteq> None then ws_remove tid rid ws
             else ws_set tid rid WDelete ws
         | _ \<Rightarrow> ws_set tid rid entry ws))"

definition ws_absorb :: "write_set \<Rightarrow> write_set \<Rightarrow> write_set" where
  "ws_absorb child ws =
     (if \<not> list_ex (\<lambda>e. e = WDelete) (map snd (ws_own child))
      then fold (\<lambda>((tid, rid), entry). ws_set tid rid entry) (ws_own child) ws
      else fold absorb_entry (ws_own child) ws)"

section \<open>The logical view\<close>

definition ws_wf :: "write_set \<Rightarrow> bool" where
  "ws_wf ws \<longleftrightarrow> om_wf (ws_own ws) \<and> (\<forall>b. ws_base ws = Some b \<longrightarrow> om_wf b)"

abbreviation view :: "write_set \<Rightarrow> row_key \<Rightarrow> write_entry option" where
  "view ws k \<equiv> ws_get ws (fst k) (snd k)"

lemma ws_get_base:
  "ws_get ws tid rid = (case om_get (ws_own ws) (tid, rid) of
     Some e \<Rightarrow> Some e | None \<Rightarrow> om_get (case ws_base ws of None \<Rightarrow> [] | Some b \<Rightarrow> b) (tid, rid))"
  by (auto simp: ws_get_def split: option.splits)

lemma ws_set_wf [wf_intros]: "ws_wf ws \<Longrightarrow> ws_wf (ws_set tid rid e ws)"
  by (simp add: ws_wf_def ws_set_def om_wf_put)

lemma ws_remove_wf [wf_intros]: "ws_wf ws \<Longrightarrow> ws_wf (ws_remove tid rid ws)"
  by (simp add: ws_wf_def ws_remove_def om_wf_del)

lemma ws_get_set: "ws_wf ws \<Longrightarrow>
    ws_get (ws_set tid rid e ws) t r = (if (t, r) = (tid, rid) then Some e else ws_get ws t r)"
  by (auto simp: ws_wf_def ws_set_def ws_get_def om_get_put split: option.splits)

lemma ws_ops_wf [wf_intros]:
  assumes "ws_wf ws"
  shows "ws_wf (snd (ws_insert tid rid r ws))" and "ws_wf (snd (ws_update tid rid p r ws))"
    and "ws_wf (snd (ws_delete tid rid p ws))"
  using assms
  by (auto simp: ws_insert_def ws_update_def ws_delete_def ws_set_wf ws_remove_wf
      split: option.splits write_entry.splits)

lemma merge_keys:
  "fst ` set (merge_entries own inherited) = fst ` set own \<union> fst ` set inherited"
  by (induction own inherited rule: merge_entries.induct) auto

lemma merge_Nil [simp]: "merge_entries own [] = own"
  by (induction own) auto

lemma merge_Nil_left [simp]: "merge_entries [] inherited = inherited"
  by (induction inherited) auto

lemma merge_wf:
  "om_wf own \<Longrightarrow> om_wf inherited \<Longrightarrow> om_wf (merge_entries own inherited)"
proof (induction own inherited rule: merge_entries.induct)
  case (1 o1 own i inherited)
  have "\<forall>q \<in> set (merge_entries own inherited). fst q \<in> fst ` set own \<union> fst ` set inherited"
    "\<forall>q \<in> set (merge_entries own (i # inherited)). fst q \<in> fst ` set own \<union> fst ` set (i # inherited)"
    "\<forall>q \<in> set (merge_entries (o1 # own) inherited). fst q \<in> fst ` set (o1 # own) \<union> fst ` set inherited"
    using merge_keys by blast+
  with 1 show ?case
    by (auto simp: om_wf_Cons split: if_splits) (fastforce dest: less_trans)+
qed (auto simp: om_wf_Cons)

lemma merge_get:
  "om_wf own \<Longrightarrow> om_wf inherited \<Longrightarrow>
     om_get (merge_entries own inherited) k
       = (case om_get own k of Some e \<Rightarrow> Some e | None \<Rightarrow> om_get inherited k)"
proof (induction own inherited rule: merge_entries.induct)
  case (1 o1 own i inherited)
  have absent: "om_get m k = None" if "om_wf (p # m)" "k \<le> fst p" for m and p :: "'a \<times> 'b" and k
    using that by (force simp: om_wf_Cons om_get_None)
  obtain ko eo ki ei where o1: "o1 = (ko, eo)" and i: "i = (ki, ei)" by (cases o1, cases i)
  show ?case
    using 1 absent [of o1 own k] absent [of i inherited k] less_imp_le [of ki ko]
    by (cases ko ki rule: linorder_cases)
      (auto simp: o1 i om_wf_Cons split: option.splits if_splits)
qed (auto split: option.splits)

lemma ws_entries_wf:
  assumes "ws_wf ws"
  shows "om_wf (ws_entries ws)" and "om_get (ws_entries ws) (tid, rid) = ws_get ws tid rid"
  using assms
  by (auto simp: ws_entries_def ws_wf_def merge_wf merge_get ws_get_base split: option.splits)

section \<open>Coalescing\<close>

text \<open>A refused write changes nothing; an accepted one puts the new row in the view.\<close>

lemma ws_failed_unchanged:
  "\<not> is_ok (fst (ws_insert tid rid r ws)) \<Longrightarrow> snd (ws_insert tid rid r ws) = ws"
  "\<not> is_ok (fst (ws_update tid rid p r ws)) \<Longrightarrow> snd (ws_update tid rid p r ws) = ws"
  "\<not> is_ok (fst (ws_delete tid rid p ws)) \<Longrightarrow> snd (ws_delete tid rid p ws) = ws"
  by (auto simp: ws_insert_def ws_update_def ws_delete_def split: if_splits option.splits write_entry.splits)

lemma ws_update_view:
  assumes "ws_wf ws" and "ws_update tid rid p r ws = (Ok (), ws')"
  shows "ws_get ws' t q = (if (t, q) = (tid, rid)
      then Some (case ws_get ws tid rid of Some (WInsert _) \<Rightarrow> WInsert r | _ \<Rightarrow> WUpdate r)
      else ws_get ws t q)"
  using assms by (auto simp: ws_update_def ws_get_set split: option.splits write_entry.splits if_splits)

text \<open>The own layer holds no insertion of a row the inherited layer inserts. Then an accepted
  deletion removes the row from the view: no entry (an insertion undone) or a tombstone.\<close>

definition layered :: "write_set \<Rightarrow> bool" where
  "layered ws \<longleftrightarrow>
     (\<forall>b k r. ws_base ws = Some b \<longrightarrow> om_get (ws_own ws) k = Some (WInsert r) \<longrightarrow>
        om_get b k = None)"

lemma ws_get_remove:
  "ws_get (ws_remove tid rid ws) t q = (if (t, q) = (tid, rid)
     then Option.bind (ws_base ws) (\<lambda>b. om_get b (tid, rid)) else ws_get ws t q)"
  by (auto simp: ws_remove_def ws_get_def om_get_del split: option.splits)

lemma ws_delete_view:
  assumes wf: "ws_wf ws" and lay: "layered ws" and del: "ws_delete tid rid p ws = (Ok (), ws')"
  shows "ws_get ws' t q = (if (t, q) = (tid, rid)
      then (if own_contains ws tid rid \<and> (\<exists>r. ws_get ws tid rid = Some (WInsert r)) then None else Some WDelete)
      else ws_get ws t q)"
proof -
  have base: "Option.bind (ws_base ws) (\<lambda>b. om_get b (tid, rid)) = None"
    if "own_contains ws tid rid" "ws_get ws tid rid = Some (WInsert r)" for r
    using that lay by (cases "ws_base ws") (auto simp: layered_def own_contains_def ws_get_def)
  show ?thesis
    using del base
    by (auto simp: ws_delete_def ws_get_set [OF wf] ws_get_remove
        split: option.splits write_entry.splits if_splits)
qed

section \<open>Branching and absorbing\<close>

text \<open>How one entry of a child lands on the parent's entry for the same row.\<close>

definition resolve :: "write_entry option \<Rightarrow> write_entry \<Rightarrow> write_entry option" where
  "resolve old new =
     (case (old, new) of (Some (WInsert _), WDelete) \<Rightarrow> None | _ \<Rightarrow> Some new)"

lemma absorb_entry_view:
  assumes "ws_wf ws" and "ws_base ws = None"
  shows "ws_get (absorb_entry (k, e) ws) t q
    = (if (t, q) = k then resolve (view ws k) e else ws_get ws t q)"
proof -
  obtain tid rid where k: "k = (tid, rid)" by (cases k)
  have own: "om_get (ws_own ws) (tid, rid) = ws_get ws tid rid"
    using assms(2) by (simp add: ws_get_def split: option.splits)
  show ?thesis
  proof (cases "e = WDelete \<and> (\<exists>r. ws_get ws tid rid = Some (WInsert r))")
    case True
    then show ?thesis
      using assms(2) by (auto simp: k absorb_entry_def own ws_get_remove resolve_def)
  next
    case False
    then have "absorb_entry (k, e) ws = ws_set tid rid e ws" "resolve (view ws k) e = Some e"
      by (auto simp: k absorb_entry_def resolve_def split: option.splits write_entry.splits)
    then show ?thesis
      using assms(1) by (simp add: ws_get_set k)
  qed
qed

lemma absorb_entry_wf: "ws_wf ws \<Longrightarrow> ws_wf (absorb_entry p ws)"
  by (auto simp: absorb_entry_def ws_set_wf ws_remove_wf split: prod.splits option.splits write_entry.splits)

lemma absorb_entry_base [simp]: "ws_base (absorb_entry p ws) = ws_base ws"
  by (auto simp: absorb_entry_def ws_set_def ws_remove_def split: prod.splits option.splits write_entry.splits)

lemma absorb_fold_view:
  assumes "ws_wf ws" and "ws_base ws = None" and "om_wf xs"
  shows "ws_get (fold absorb_entry xs ws) t q
    = (case om_get xs (t, q) of None \<Rightarrow> ws_get ws t q | Some e \<Rightarrow> resolve (ws_get ws t q) e)"
  using assms
proof (induction xs arbitrary: ws)
  case Nil
  then show ?case by simp
next
  case (Cons p xs)
  obtain k e where p: "p = (k, e)" by (cases p)
  have xs: "om_wf xs" "om_get xs k = None"
    using Cons.prems(3) om_wf_distinct [OF Cons.prems(3)] by (auto simp: om_wf_Cons p om_get_None)
  show ?case
    using Cons.IH [OF absorb_entry_wf [OF Cons.prems(1), of p]] Cons.prems(2) xs
      absorb_entry_view [OF Cons.prems(1,2), of k e]
    by (auto simp: p split: option.splits)
qed

lemma absorb_fast:
  assumes "\<not> list_ex (\<lambda>e. e = WDelete) (map snd xs)"
  shows "fold (\<lambda>((tid, rid), entry). ws_set tid rid entry) xs ws = fold absorb_entry xs ws"
  using assms
proof (induction xs arbitrary: ws)
  case (Cons p xs)
  then have "snd p \<noteq> WDelete" by simp
  then have "absorb_entry p ws = (\<lambda>((tid, rid), entry). ws_set tid rid entry) p ws"
    by (cases "snd p") (auto simp: absorb_entry_def split: prod.splits option.splits write_entry.splits)
  with Cons show ?case by simp
qed simp

text \<open>Absorbing into a top-level transaction: the child's own entries land on the parent's, and an
  insertion of the parent that the child deleted is gone.\<close>

lemma ws_absorb_view:
  assumes "ws_wf ws" and "ws_base ws = None" and "ws_wf child"
  shows "ws_get (ws_absorb child ws) t q
    = (case om_get (ws_own child) (t, q) of None \<Rightarrow> ws_get ws t q | Some e \<Rightarrow> resolve (ws_get ws t q) e)"
  using absorb_fold_view [OF assms(1,2), of "ws_own child"] assms(3) absorb_fast [of "ws_own child" ws]
  by (auto simp: ws_absorb_def ws_wf_def)

lemma ws_branch_view:
  assumes "ws_base ws = None"
  shows "ws_get (ws_branch ws) t q = ws_get ws t q" and "ws_wf ws \<Longrightarrow> ws_wf (ws_branch ws)"
  using assms by (auto simp: ws_branch_def ws_get_def ws_wf_def split: option.splits)

end
