(* ===== verification/Tx_Transaction.thy ===== *)
theory Tx_Transaction
  imports Tx_Write_Set
begin

text \<open>
  \<^verbatim>\<open>nexum-tx/src/transaction.rs\<close>, \<^verbatim>\<open>snapshot.rs\<close> and \<^verbatim>\<open>commit.rs\<close>: the transaction, its state machine,
  its reads through the logical view, its buffered writes, and the optimistic commit (validate
  everything, apply everything, collect the changes). Table handles and stores are passed per call
  as in the code. The proofs about commit are in \<open>Tx_Commit\<close>.
\<close>

section \<open>Provisional ids\<close>

definition provisional_flag :: u64 where
  "provisional_flag = push_bit 63 1"

definition is_provisional :: "row_id \<Rightarrow> bool" where
  "is_provisional rid \<longleftrightarrow> and rid provisional_flag \<noteq> 0"

definition provisional_row_id :: "u64 \<Rightarrow> row_id" where
  "provisional_row_id n = or provisional_flag n"

section \<open>State\<close>

datatype transaction_state = Active | Committed | Aborted

record transaction =
  tx_id :: transaction_id
  tx_state :: transaction_state
  tx_reads :: read_set
  tx_writes :: write_set
  tx_provisional :: "(table_id, u64) omap"

record tx_snapshot =
  sn_writes :: write_set
  sn_read_watermark :: nat
  sn_provisional :: "(table_id, u64) omap"

definition tx_new :: "transaction_id \<Rightarrow> transaction" where
  "tx_new tid =
     \<lparr>tx_id = tid, tx_state = Active, tx_reads = read_set_new, tx_writes = write_set_new,
      tx_provisional = []\<rparr>"

definition tx_begin :: "table_store \<Rightarrow> transaction \<times> table_store" where
  "tx_begin st = (case alloc_transaction_id st of (tid, st) \<Rightarrow> (tx_new tid, st))"

definition ensure_active :: "transaction \<Rightarrow> unit res" where
  "ensure_active tx =
     (case tx_state tx of
        Active \<Rightarrow> Ok () | Committed \<Rightarrow> Err AlreadyCommitted | Aborted \<Rightarrow> Err AlreadyAborted)"

definition branch_of :: "transaction \<Rightarrow> transaction \<Rightarrow> unit res \<times> transaction" where
  "branch_of parent tx =
     try_res (ensure_active tx) tx (\<lambda>_.
     try_res (ensure_active parent) tx (\<lambda>_.
       (Ok (), tx\<lparr>tx_writes := ws_branch (tx_writes parent),
                  tx_provisional := tx_provisional parent\<rparr>)))"

definition raise_counter ::
    "table_id \<times> u64 \<Rightarrow> (table_id, u64) omap \<Rightarrow> (table_id, u64) omap" where
  "raise_counter p m =
     (case p of (tid, count) \<Rightarrow>
        let ours = (case om_get m tid of Some n \<Rightarrow> n | None \<Rightarrow> 0) in
        om_put tid (if ours < count then count else ours) m)"

definition tx_absorb :: "transaction \<Rightarrow> transaction \<Rightarrow> unit res \<times> transaction" where
  "tx_absorb child tx =
     try_res (ensure_active tx) tx (\<lambda>_.
     try_res (ensure_active child) tx (\<lambda>_.
       (Ok (), tx\<lparr>tx_reads := rs_absorb (tx_reads child) (tx_reads tx),
                  tx_writes := ws_absorb (tx_writes child) (tx_writes tx),
                  tx_provisional := fold raise_counter (tx_provisional child) (tx_provisional tx)\<rparr>)))"

definition tx_snapshot_of :: "transaction \<Rightarrow> tx_snapshot" where
  "tx_snapshot_of tx =
     \<lparr>sn_writes = tx_writes tx, sn_read_watermark = rs_entry_count (tx_reads tx),
      sn_provisional = tx_provisional tx\<rparr>"

definition tx_rollback :: "tx_snapshot \<Rightarrow> transaction \<Rightarrow> transaction res" where
  "tx_rollback sn tx =
     bind_res (rs_truncate_to (sn_read_watermark sn) (tx_reads tx)) (\<lambda>reads.
       Ok (tx\<lparr>tx_writes := sn_writes sn, tx_reads := reads, tx_provisional := sn_provisional sn\<rparr>))"

section \<open>Reads through the logical view\<close>

definition resolve_table :: "table_store \<Rightarrow> string \<Rightarrow> nexum_table res" where
  "resolve_table st name = ok_or NotFound (store_table st name)"

definition table_version_of :: "nexum_table \<Rightarrow> row_id \<Rightarrow> version option" where
  "table_version_of t rid = storage_version_of (tb_storage t) rid"

definition table_epoch :: "nexum_table \<Rightarrow> version" where
  "table_epoch t = st_epoch (tb_storage t)"

definition observe_row :: "nexum_table \<Rightarrow> row_id \<Rightarrow> transaction \<Rightarrow> transaction" where
  "observe_row t rid tx =
     tx\<lparr>tx_reads := rs_record (table_id_of t) rid (table_version_of t rid) (tx_reads tx)\<rparr>"

definition observe_table :: "nexum_table \<Rightarrow> transaction \<Rightarrow> transaction" where
  "observe_table t tx = tx\<lparr>tx_reads := rs_record_table (table_id_of t) (table_epoch t) (tx_reads tx)\<rparr>"

definition tx_get :: "table_store \<Rightarrow> string \<Rightarrow> row_id \<Rightarrow> transaction \<Rightarrow> row option res \<times> transaction" where
  "tx_get st name rid tx =
     try_res (ensure_active tx) tx (\<lambda>_.
     try_res (resolve_table st name) tx (\<lambda>t.
       (case ws_get (tx_writes tx) (table_id_of t) rid of
          Some e \<Rightarrow> (Ok (entry_row e), tx)
        | None \<Rightarrow>
            if is_provisional rid then (Ok None, tx)
            else (Ok (table_get t rid), observe_row t rid tx))))"

definition tx_contains :: "table_store \<Rightarrow> string \<Rightarrow> row_id \<Rightarrow> transaction \<Rightarrow> bool res \<times> transaction" where
  "tx_contains st name rid tx =
     try_res (ensure_active tx) tx (\<lambda>_.
     try_res (resolve_table st name) tx (\<lambda>t.
       (case ws_get (tx_writes tx) (table_id_of t) rid of
          Some e \<Rightarrow> (Ok (e \<noteq> WDelete), tx)
        | None \<Rightarrow>
            if is_provisional rid then (Ok False, tx)
            else (Ok (table_version_of t rid \<noteq> None), observe_row t rid tx))))"

definition scan_committed :: "write_set \<Rightarrow> nexum_table \<Rightarrow> (row_id \<times> row) list" where
  "scan_committed ws t =
     concat (map (\<lambda>(rid, committed).
       (case ws_get ws (table_id_of t) rid of
          Some WDelete \<Rightarrow> []
        | Some (WUpdate pending) \<Rightarrow> [(rid, pending)]
        | Some (WInsert _) \<Rightarrow> [(rid, committed)]
        | None \<Rightarrow> [(rid, committed)])) (table_scan t))"

definition scan_inserted :: "write_set \<Rightarrow> table_id \<Rightarrow> (row_id \<times> row) list" where
  "scan_inserted ws tid =
     concat (map (\<lambda>((write_table, rid), e).
       (case e of WInsert r \<Rightarrow> if write_table = tid then [(rid, r)] else [] | _ \<Rightarrow> []))
       (ws_entries ws))"

definition tx_scan :: "table_store \<Rightarrow> string \<Rightarrow> transaction \<Rightarrow> (row_id \<times> row) list res \<times> transaction" where
  "tx_scan st name tx =
     try_res (ensure_active tx) tx (\<lambda>_.
     try_res (resolve_table st name) tx (\<lambda>t.
       (Ok (scan_committed (tx_writes tx) t @ scan_inserted (tx_writes tx) (table_id_of t)),
        observe_table t tx)))"

definition row_owns_key :: "nexum_table \<Rightarrow> string \<Rightarrow> index_key \<Rightarrow> row \<Rightarrow> bool res" where
  "row_owns_key t name key r =
     bind_res (unique_keys t r) (\<lambda>keys. Ok (list_ex (\<lambda>(n, k). n = name \<and> k = key) keys))"

definition row_owns_index_key :: "nexum_table \<Rightarrow> string \<Rightarrow> index_key \<Rightarrow> row \<Rightarrow> bool res" where
  "row_owns_index_key t name key r =
     bind_res (index_keys t r) (\<lambda>keys. Ok (list_ex (\<lambda>(n, k). n = name \<and> k = key) keys))"

text \<open>The overlay both lookups share; \<open>owns\<close> is the ownership test of the index kind.\<close>

fun keep_owners ::
    "(row \<Rightarrow> bool res) \<Rightarrow> write_set \<Rightarrow> table_id \<Rightarrow> row_id list \<Rightarrow> row_id list res" where
  "keep_owners owns ws tid [] = Ok []"
| "keep_owners owns ws tid (owner # ids) =
     bind_res (case ws_get ws tid owner of
                 Some WDelete \<Rightarrow> Ok False
               | Some (WUpdate pending) \<Rightarrow> owns pending
               | Some (WInsert _) \<Rightarrow> Ok True
               | None \<Rightarrow> Ok True) (\<lambda>keep.
     bind_res (keep_owners owns ws tid ids) (\<lambda>rest.
       Ok (if keep then owner # rest else rest)))"

fun pending_owners :: "(row \<Rightarrow> bool res) \<Rightarrow> (row_id \<times> write_entry) list \<Rightarrow> row_id list res" where
  "pending_owners owns [] = Ok []"
| "pending_owners owns ((rid, e) # es) =
     bind_res (case entry_row e of None \<Rightarrow> Ok False | Some r \<Rightarrow> owns r) (\<lambda>mine.
     bind_res (pending_owners owns es) (\<lambda>rest. Ok (if mine then rid # rest else rest)))"

definition overlay_owners ::
    "(row \<Rightarrow> bool res) \<Rightarrow> write_set \<Rightarrow> table_id \<Rightarrow> row_id list \<Rightarrow> row_id list res" where
  "overlay_owners owns ws tid committed =
     bind_res (keep_owners owns ws tid committed) (\<lambda>kept.
     bind_res (if has_any_insert ws then pending_owners owns (entries_for_table ws tid) else Ok []) (\<lambda>pending.
       Ok (remdups (sort (kept @ pending)))))"

definition tx_lookup_unique ::
    "table_store \<Rightarrow> string \<Rightarrow> string \<Rightarrow> index_key \<Rightarrow> transaction \<Rightarrow> row_id list res \<times> transaction" where
  "tx_lookup_unique st name index_name key tx =
     try_res (ensure_active tx) tx (\<lambda>_.
     try_res (resolve_table st name) tx (\<lambda>t.
       (bind_res (table_lookup_unique t index_name key)
          (overlay_owners (row_owns_key t index_name key) (tx_writes tx) (table_id_of t)),
        observe_table t tx)))"

definition tx_lookup_index ::
    "table_store \<Rightarrow> string \<Rightarrow> string \<Rightarrow> index_key \<Rightarrow> transaction \<Rightarrow> row_id list res \<times> transaction" where
  "tx_lookup_index st name index_name key tx =
     try_res (ensure_active tx) tx (\<lambda>_.
     try_res (resolve_table st name) tx (\<lambda>t.
       (bind_res (table_lookup t index_name key)
          (overlay_owners (row_owns_index_key t index_name key) (tx_writes tx) (table_id_of t)),
        observe_table t tx)))"

section \<open>Buffered writes\<close>

definition tx_insert :: "table_store \<Rightarrow> string \<Rightarrow> row \<Rightarrow> transaction \<Rightarrow> row_id res \<times> transaction" where
  "tx_insert st name r tx =
     try_res (ensure_active tx) tx (\<lambda>_.
     try_res (resolve_table st name) tx (\<lambda>t.
     try_res (validate_row (table_schema_of t) (row_values r)) tx (\<lambda>_.
       let tid = table_id_of t;
           n = (case om_get (tx_provisional tx) tid of Some n \<Rightarrow> n | None \<Rightarrow> 0);
           handle = provisional_row_id n;
           tx = tx\<lparr>tx_provisional := om_put tid (n + 1) (tx_provisional tx)\<rparr> in
       (case ws_insert tid handle r (tx_writes tx) of (res, ws) \<Rightarrow>
          try_res res (tx\<lparr>tx_writes := ws\<rparr>) (\<lambda>_. (Ok handle, tx\<lparr>tx_writes := ws\<rparr>))))))"

definition capture_version :: "nexum_table \<Rightarrow> row_id \<Rightarrow> bool \<Rightarrow> transaction \<Rightarrow> transaction" where
  "capture_version t rid first_write tx =
     (if \<not> is_provisional rid \<and> first_write then observe_row t rid tx else tx)"

definition tx_update :: "table_store \<Rightarrow> string \<Rightarrow> row_id \<Rightarrow> row \<Rightarrow> transaction \<Rightarrow> unit res \<times> transaction" where
  "tx_update st name rid r tx =
     try_res (ensure_active tx) tx (\<lambda>_.
     try_res (resolve_table st name) tx (\<lambda>t.
     try_res (validate_row (table_schema_of t) (row_values r)) tx (\<lambda>_.
       let tid = table_id_of t; first_write = (\<not> ws_contains (tx_writes tx) tid rid) in
       (case ws_update tid rid (is_provisional rid) r (tx_writes tx) of (res, ws) \<Rightarrow>
          try_res res (tx\<lparr>tx_writes := ws\<rparr>) (\<lambda>_.
            (Ok (), capture_version t rid first_write (tx\<lparr>tx_writes := ws\<rparr>)))))))"

definition tx_delete :: "table_store \<Rightarrow> string \<Rightarrow> row_id \<Rightarrow> transaction \<Rightarrow> unit res \<times> transaction" where
  "tx_delete st name rid tx =
     try_res (ensure_active tx) tx (\<lambda>_.
     try_res (resolve_table st name) tx (\<lambda>t.
       let tid = table_id_of t; first_write = (\<not> ws_contains (tx_writes tx) tid rid) in
       (case ws_delete tid rid (is_provisional rid) (tx_writes tx) of (res, ws) \<Rightarrow>
          try_res res (tx\<lparr>tx_writes := ws\<rparr>) (\<lambda>_.
            (Ok (), capture_version t rid first_write (tx\<lparr>tx_writes := ws\<rparr>))))))"

section \<open>Validation\<close>

type_synonym released_keys = "row_key \<rightharpoonup> (string \<times> index_key) list"
type_synonym claimed_keys = "table_id \<times> string \<rightharpoonup> (index_key \<rightharpoonup> row_id)"

definition find_table :: "table_store \<Rightarrow> table_id \<Rightarrow> nexum_table res" where
  "find_table st tid = ok_or NotFound (table_by_id st tid)"

definition validate_tables :: "table_store \<Rightarrow> (table_id \<times> version) list \<Rightarrow> unit res" where
  "validate_tables st observations =
     all_res (\<lambda>(tid, observed).
       bind_res (find_table st tid) (\<lambda>t.
         if table_epoch t \<noteq> observed then Err Conflict else Ok ())) observations"

definition validate_reads :: "table_store \<Rightarrow> (row_key \<times> read_observation) list \<Rightarrow> unit res" where
  "validate_reads st observations =
     all_res (\<lambda>((tid, rid), observed).
       bind_res (find_table st tid) (\<lambda>t.
         if table_version_of t rid \<noteq> observed then Err Conflict else Ok ())) observations"

fun validate_deletes :: "table_store \<Rightarrow> write_map \<Rightarrow> released_keys \<Rightarrow> released_keys res" where
  "validate_deletes st [] released = Ok released"
| "validate_deletes st (((tid, rid), e) # es) released =
     (if e = WDelete then
        bind_res (find_table st tid) (\<lambda>t.
          if \<not> storage_contains (tb_storage t) rid then Err NotFound
          else (case table_get t rid of
                  None \<Rightarrow> Panic
                | Some old_row \<Rightarrow>
                    bind_res (unique_keys t old_row) (\<lambda>keys.
                      validate_deletes st es (released((tid, rid) \<mapsto> keys)))))
      else validate_deletes st es released)"

fun claim_keys ::
    "nexum_table \<Rightarrow> row_id \<Rightarrow> row_id list \<Rightarrow> released_keys \<Rightarrow> (string \<times> index_key) list \<Rightarrow>
      claimed_keys \<Rightarrow> claimed_keys res" where
  "claim_keys t rid allowed released [] claims = Ok claims"
| "claim_keys t rid allowed released ((name, key) # keys) claims =
     bind_res (table_lookup_unique t name key) (\<lambda>ids.
       let owners = filter (\<lambda>q. released (table_id_of t, q) = None) ids in
       if list_ex (\<lambda>owner. owner \<notin> set allowed) owners then Err AlreadyExists
       else
         let claim_map = (case claims (table_id_of t, name) of Some m \<Rightarrow> m | None \<Rightarrow> Map.empty) in
         (case claim_map key of
            Some other \<Rightarrow>
              if other \<noteq> rid then Err AlreadyExists
              else claim_keys t rid allowed released keys (claims((table_id_of t, name) \<mapsto> claim_map))
          | None \<Rightarrow>
              claim_keys t rid allowed released keys
                (claims((table_id_of t, name) \<mapsto> claim_map(key \<mapsto> rid)))))"

fun validate_writes :: "table_store \<Rightarrow> released_keys \<Rightarrow> write_map \<Rightarrow> claimed_keys \<Rightarrow> unit res" where
  "validate_writes st released [] claims = Ok ()"
| "validate_writes st released (((tid, rid), e) # es) claims =
     (case entry_row e of
        None \<Rightarrow> validate_writes st released es claims
      | Some r \<Rightarrow>
          bind_res (find_table st tid) (\<lambda>t.
            if \<not> is_insert e \<and> \<not> storage_contains (tb_storage t) rid then Err NotFound
            else
              let allowed = (if is_insert e then [] else [rid]) in
              bind_res (unique_keys t r) (\<lambda>keys.
              bind_res (claim_keys t rid allowed released keys claims) (\<lambda>claims.
                validate_writes st released es claims))))"

definition validate :: "table_store \<Rightarrow> transaction \<Rightarrow> unit res" where
  "validate st tx =
     bind_res (validate_tables st (rs_tables (tx_reads tx))) (\<lambda>_.
     bind_res (validate_reads st (rs_entries (tx_reads tx))) (\<lambda>_.
     bind_res (validate_deletes st (ws_entries (tx_writes tx)) Map.empty) (\<lambda>released.
       validate_writes st released (ws_entries (tx_writes tx)) Map.empty)))"

section \<open>Apply and collect\<close>

text \<open>One call on the table behind \<^verbatim>\<open>table_mut_by_id(..).expect(..)\<close>, itself \<^verbatim>\<open>expect\<close>ed.\<close>

definition expect_on ::
    "table_id \<Rightarrow> (nexum_table \<Rightarrow> 'a res \<times> nexum_table) \<Rightarrow> table_store \<Rightarrow> unit res \<times> table_store" where
  "expect_on tid f st =
     (case with_table_mut tid f st of (Some (Ok _), st) \<Rightarrow> (Ok (), st) | (_, st) \<Rightarrow> (Panic, st))"

definition apply_delete :: "row_key \<times> write_entry \<Rightarrow> table_store \<Rightarrow> unit res \<times> table_store" where
  "apply_delete p st =
     (case p of ((tid, rid), WDelete) \<Rightarrow> expect_on tid (table_delete rid) st | _ \<Rightarrow> (Ok (), st))"

definition apply_write :: "row_key \<times> write_entry \<Rightarrow> table_store \<Rightarrow> unit res \<times> table_store" where
  "apply_write p st =
     (case p of
        ((tid, rid), WInsert r) \<Rightarrow> expect_on tid (table_insert r) st
      | ((tid, rid), WUpdate r) \<Rightarrow> expect_on tid (table_update rid r) st
      | _ \<Rightarrow> (Ok (), st))"

definition apply_writes :: "transaction \<Rightarrow> table_store \<Rightarrow> unit res \<times> table_store" where
  "apply_writes tx st =
     (case for_each apply_delete (ws_entries (tx_writes tx)) st of (res, st) \<Rightarrow>
        try_res res st (\<lambda>_. for_each apply_write (ws_entries (tx_writes tx)) st))"

fun base_lengths :: "table_store \<Rightarrow> table_id list \<Rightarrow> (table_id \<times> nat) list res" where
  "base_lengths st [] = Ok []"
| "base_lengths st (tid # tids) =
     (case table_by_id st tid of
        None \<Rightarrow> Panic
      | Some t \<Rightarrow>
          bind_res (base_lengths st tids) (\<lambda>rest. Ok ((tid, length (st_changes (tb_storage t))) # rest)))"

fun collect_changes :: "(table_id \<times> nat) list \<Rightarrow> table_store \<Rightarrow> change list res \<times> table_store" where
  "collect_changes [] st = (Ok [], st)"
| "collect_changes ((tid, base) # bases) st =
     (case with_table_mut tid table_drain_changes st of
        (None, st) \<Rightarrow> (Panic, st)
      | (Some drained, st) \<Rightarrow>
          (case collect_changes bases st of (res, st) \<Rightarrow>
             try_res res st (\<lambda>rest. (Ok (drop base drained @ rest), st))))"

definition commit :: "transaction \<Rightarrow> table_store \<Rightarrow> change list res \<times> table_store" where
  "commit tx st =
     try_res (validate st tx) st (\<lambda>_.
     try_res (base_lengths st (ws_tables (tx_writes tx))) st (\<lambda>bases.
       (case apply_writes tx st of (res, st) \<Rightarrow>
          try_res res st (\<lambda>_. collect_changes bases st))))"

definition tx_commit ::
    "transaction \<Rightarrow> table_store \<Rightarrow> change list res \<times> transaction \<times> table_store" where
  "tx_commit tx st =
     (case ensure_active tx of
        Ok _ \<Rightarrow>
          (case commit tx st of
             (Ok changes, st) \<Rightarrow> (Ok changes, tx\<lparr>tx_state := Committed\<rparr>, st)
           | (Err e, st) \<Rightarrow> (Err e, tx\<lparr>tx_state := Aborted\<rparr>, st)
           | (Panic, st) \<Rightarrow> (Panic, tx, st))
      | Err e \<Rightarrow> (Err e, tx, st)
      | Panic \<Rightarrow> (Panic, tx, st))"

definition tx_abort :: "transaction \<Rightarrow> unit res \<times> transaction" where
  "tx_abort tx =
     (case tx_state tx of
        Active \<Rightarrow> (Ok (), tx\<lparr>tx_state := Aborted\<rparr>)
      | Committed \<Rightarrow> (Err AlreadyCommitted, tx)
      | Aborted \<Rightarrow> (Ok (), tx))"

end
