(* ===== verification/Wal_Replay.thy ===== *)
theory Wal_Replay
  imports Table_Store
begin

text \<open>
  \<^verbatim>\<open>nexum-wal/src/recovery.rs\<close>, replaying a committed change on one table. \<open>covers t u\<close> relates a
  live table to a recovered one: the same storage up to the change buffer, and no uniqueness
  constraint that the live table lacks (an index added at run time is not part of the schema and
  is gone after a restore). The changes an operation emits, replayed on a covered table, succeed and
  give a covered table again.
\<close>

definition replay_on :: "change \<Rightarrow> nexum_table \<Rightarrow> unit res \<times> nexum_table" where
  "replay_on c t =
     (case ch_kind c of
        CInsert \<Rightarrow>
          try_res (ok_or Internal (ch_new_row c)) t (\<lambda>r.
            (case table_insert r t of (res, t) \<Rightarrow>
               try_res (map_err (\<lambda>_. Internal) res) t (\<lambda>assigned.
                 if assigned \<noteq> ch_row_id c then (Err Internal, t) else (Ok (), t))))
      | CUpdate \<Rightarrow>
          try_res (ok_or Internal (ch_new_row c)) t (\<lambda>r.
            (case table_update (ch_row_id c) r t of (res, t) \<Rightarrow> (map_err (\<lambda>_. Internal) res, t)))
      | CDelete \<Rightarrow>
          (case table_delete (ch_row_id c) t of (res, t) \<Rightarrow> (map_err (\<lambda>_. Internal) res, t)))"

definition replay_change :: "change \<Rightarrow> table_store \<Rightarrow> unit res \<times> table_store" where
  "replay_change c st =
     (case with_table_mut (ch_table c) (replay_on c) st of
        (None, st) \<Rightarrow> (Err Internal, st)
      | (Some res, st) \<Rightarrow> (res, st))"

section \<open>Live and recovered tables\<close>

definition unique_columns :: "nexum_table \<Rightarrow> nat list set" where
  "unique_columns t = ix_columns ` {ix \<in> set (table_indexes t). is_unique_ix ix}"

definition covers :: "nexum_table \<Rightarrow> nexum_table \<Rightarrow> bool" where
  "covers t u \<longleftrightarrow>
     table_wf t \<and> table_wf u \<and> unique_columns u \<subseteq> unique_columns t \<and>
     (\<exists>cs. tb_storage u = (tb_storage t)\<lparr>st_changes := cs\<rparr>)"

lemma covers_refl: "table_wf t \<Longrightarrow> covers t t"
  by (auto simp: covers_def intro: exI [of _ "st_changes (tb_storage t)"])

lemma covers_fields:
  assumes "covers t u"
  shows "table_schema_of u = table_schema_of t" and "table_rows u = table_rows t"
    and "st_next_row_id (tb_storage u) = st_next_row_id (tb_storage t)" and "table_wf t" and "table_wf u"
  using assms by (auto simp: covers_def)

lemma unique_columns_map:
  "(\<And>ix. ix_columns (f ix) = ix_columns ix) \<Longrightarrow> (\<And>ix. is_unique_ix (f ix) = is_unique_ix ix) \<Longrightarrow>
     unique_columns (map_indexes f t) = unique_columns t"
  unfolding unique_columns_def by (force simp: image_iff)

lemma unique_columns_storage [simp]: "unique_columns (t\<lparr>tb_storage := s\<rparr>) = unique_columns t"
  by (simp add: unique_columns_def)

lemma conflict_columns:
  "insert_conflict t r \<longleftrightarrow> (\<exists>columns \<in> unique_columns t. \<exists>rid stored.
     table_rows t rid = Some stored \<and> project columns (sr_row stored) = project columns r)"
  "update_conflict t rid r \<longleftrightarrow> (\<exists>columns \<in> unique_columns t. \<exists>q stored.
     q \<noteq> rid \<and> table_rows t q = Some stored \<and> project columns (sr_row stored) = project columns r)"
  unfolding insert_conflict_def update_conflict_def unique_columns_def by blast+

lemma covers_conflict:
  assumes "covers t u"
  shows "insert_conflict u r \<Longrightarrow> insert_conflict t r"
    and "update_conflict u rid r \<Longrightarrow> update_conflict t rid r"
proof -
  have "unique_columns u \<subseteq> unique_columns t" using assms by (simp add: covers_def)
  then show "insert_conflict u r \<Longrightarrow> insert_conflict t r"
    and "update_conflict u rid r \<Longrightarrow> update_conflict t rid r"
    unfolding conflict_columns covers_fields(2) [OF assms] by blast+
qed

text \<open>The storage operations do not look at the change buffer.\<close>

lemma storage_ops_buffer:
  fixes cs :: "change list"
  shows
  "\<exists>cs'. snd (storage_insert r (s\<lparr>st_changes := cs\<rparr>)) = (snd (storage_insert r s))\<lparr>st_changes := cs'\<rparr>"
  "\<exists>cs'. snd (storage_update rid r (s\<lparr>st_changes := cs\<rparr>)) = (snd (storage_update rid r s))\<lparr>st_changes := cs'\<rparr>"
  "\<exists>cs'. snd (storage_delete rid (s\<lparr>st_changes := cs\<rparr>)) = (snd (storage_delete rid s))\<lparr>st_changes := cs'\<rparr>"
  by (cases s; auto simp: storage_insert_eq storage_update_eq storage_delete_eq split: option.splits)+

lemma covers_map:
  assumes cov: "covers t u" and wf: "table_wf (map_indexes f (t\<lparr>tb_storage := s\<rparr>))"
      "table_wf (map_indexes g (u\<lparr>tb_storage := s'\<rparr>))"
    and f: "\<And>ix. ix_columns (f ix) = ix_columns ix" "\<And>ix. is_unique_ix (f ix) = is_unique_ix ix"
    and g: "\<And>ix. ix_columns (g ix) = ix_columns ix" "\<And>ix. is_unique_ix (g ix) = is_unique_ix ix"
    and s: "\<exists>cs. s' = s\<lparr>st_changes := cs\<rparr>"
  shows "covers (map_indexes f (t\<lparr>tb_storage := s\<rparr>)) (map_indexes g (u\<lparr>tb_storage := s'\<rparr>))"
  using cov wf s unfolding covers_def by (simp add: unique_columns_map [OF f] unique_columns_map [OF g])

lemma covers_insert:
  assumes cov: "covers t u" and left: "ids_left (tb_storage t)" and ok: "table_insert r t = (Ok rid, t')"
  shows "\<exists>u'. table_insert r u = (Ok rid, u') \<and> covers t' u'"
proof -
  note wf = covers_fields(4,5) [OF cov] and same = covers_fields(1-3) [OF cov]
  obtain cs where cs: "tb_storage u = (tb_storage t)\<lparr>st_changes := cs\<rparr>" using cov by (auto simp: covers_def)
  have c: "row_conforms (table_schema_of t) r" "\<not> insert_conflict t r" "rid = st_next_row_id (tb_storage t)"
    using ok by (auto simp: table_insert_eq [OF wf(1)] split: if_splits)
  have "ids_left (tb_storage u)" using left same by (simp add: ids_left_def)
  then have wf': "table_wf (snd (table_insert r t))" "table_wf (snd (table_insert r u))"
    using wf left by (auto intro: table_insert_wf)
  have nc: "\<not> insert_conflict u r" using c(2) covers_conflict(1) [OF cov] by blast
  have "covers (snd (table_insert r t)) (snd (table_insert r u))"
    using wf' c nc same storage_ops_buffer(1) [where s = "tb_storage t" and cs = cs]
    unfolding table_insert_eq [OF wf(1)] table_insert_eq [OF wf(2)]
    by (auto intro!: covers_map [OF cov] simp: cs)
  moreover have "fst (table_insert r u) = Ok rid"
    using c nc same by (simp add: table_insert_eq [OF wf(2)])
  ultimately show ?thesis using ok by (metis prod.collapse snd_conv)
qed

lemma covers_update:
  assumes cov: "covers t u" and ok: "table_update rid r t = (Ok (), t')"
  shows "\<exists>u'. table_update rid r u = (Ok (), u') \<and> covers t' u'"
proof -
  note wf = covers_fields(4,5) [OF cov] and same = covers_fields(1-3) [OF cov]
  obtain cs where cs: "tb_storage u = (tb_storage t)\<lparr>st_changes := cs\<rparr>" using cov by (auto simp: covers_def)
  obtain stored where c: "row_conforms (table_schema_of t) r" "\<not> update_conflict t rid r"
      "table_rows t rid = Some stored"
    using ok by (auto simp: table_update_eq [OF wf(1)] split: if_splits option.splits)
  have wf': "table_wf (snd (table_update rid r t))" "table_wf (snd (table_update rid r u))"
    using wf by (auto intro: table_update_wf)
  have nc: "\<not> update_conflict u rid r" using c(2) covers_conflict(2) [OF cov] by blast
  have "covers (snd (table_update rid r t)) (snd (table_update rid r u))"
    using wf' c nc same storage_ops_buffer(2) [where s = "tb_storage t" and cs = cs]
    unfolding table_update_eq [OF wf(1)] table_update_eq [OF wf(2)]
    by (auto intro!: covers_map [OF cov] simp: cs)
  moreover have "fst (table_update rid r u) = Ok ()"
    using c nc same by (simp add: table_update_eq [OF wf(2)])
  ultimately show ?thesis using ok by (metis prod.collapse snd_conv)
qed

lemma covers_delete:
  assumes cov: "covers t u" and ok: "table_delete rid t = (Ok (), t')"
  shows "\<exists>u'. table_delete rid u = (Ok (), u') \<and> covers t' u'"
proof -
  note wf = covers_fields(4,5) [OF cov] and same = covers_fields(1-3) [OF cov]
  obtain cs where cs: "tb_storage u = (tb_storage t)\<lparr>st_changes := cs\<rparr>" using cov by (auto simp: covers_def)
  obtain stored where c: "table_rows t rid = Some stored"
    using ok by (auto simp: table_delete_eq [OF wf(1)] split: option.splits)
  have wf': "table_wf (snd (table_delete rid t))" "table_wf (snd (table_delete rid u))"
    using wf by (auto intro: table_delete_wf)
  have "covers (snd (table_delete rid t)) (snd (table_delete rid u))"
    using wf' c same storage_ops_buffer(3) [where s = "tb_storage t" and cs = cs]
    unfolding table_delete_eq [OF wf(1)] table_delete_eq [OF wf(2)]
    by (auto intro!: covers_map [OF cov] simp: cs)
  moreover have "fst (table_delete rid u) = Ok ()"
    using c same by (simp add: table_delete_eq [OF wf(2)])
  ultimately show ?thesis using ok by (metis prod.collapse snd_conv)
qed

section \<open>Replaying what was logged\<close>

definition replayed :: "change list \<Rightarrow> nexum_table \<Rightarrow> nexum_table \<Rightarrow> bool" where
  "replayed cs t t' \<longleftrightarrow>
     (\<forall>u. covers t u \<longrightarrow> (\<exists>u'. for_each replay_on cs u = (Ok (), u') \<and> covers t' u'))"

definition relogs :: "nexum_table \<Rightarrow> nexum_table \<Rightarrow> bool" where
  "relogs t t' \<longleftrightarrow>
     (\<exists>cs. st_changes (tb_storage t') = st_changes (tb_storage t) @ cs \<and> replayed cs t t')"

lemma replayed_Nil [simp]: "replayed [] t t"
  by (simp add: replayed_def)

lemma replayed_append: "replayed cs t u \<Longrightarrow> replayed ds u v \<Longrightarrow> replayed (cs @ ds) t v"
  by (fastforce simp: replayed_def for_each_append)

lemma relogs_refl [simp]: "relogs t t"
  by (auto simp: relogs_def intro: exI [of _ "[]"])

lemma relogs_trans: "relogs t u \<Longrightarrow> relogs u v \<Longrightarrow> relogs t v"
  unfolding relogs_def using replayed_append by fastforce

lemma relogs_insert:
  assumes wf: "table_wf t" and left: "ids_left (tb_storage t)" and ok: "table_insert r t = (Ok rid, t')"
  shows "relogs t t'"
proof -
  let ?c = "change_insert (st_id (tb_storage t)) rid r 0"
  have "st_changes (tb_storage t') = st_changes (tb_storage t) @ [?c]"
    using ok by (auto simp: table_insert_eq [OF wf] storage_insert_eq split: if_splits)
  moreover have "replayed [?c] t t'"
    unfolding replayed_def
  proof (intro allI impI)
    fix u assume "covers t u"
    from covers_insert [OF this left ok] obtain u' where "table_insert r u = (Ok rid, u')" "covers t' u'" by blast
    then show "\<exists>u'. for_each replay_on [?c] u = (Ok (), u') \<and> covers t' u'"
      by (simp add: replay_on_def change_insert_def)
  qed
  ultimately show ?thesis unfolding relogs_def by blast
qed

lemma relogs_update:
  assumes wf: "table_wf t" and ok: "table_update rid r t = (Ok (), t')"
  shows "relogs t t'"
proof -
  obtain stored where c: "row_conforms (table_schema_of t) r" "\<not> update_conflict t rid r"
      "table_rows t rid = Some stored"
    using ok by (auto simp: table_update_eq [OF wf] split: if_splits option.splits)
  show ?thesis
  proof (cases "sr_row stored = r")
    case True
    then have "t' = map_indexes (\<lambda>ix. ix) t"
      using ok c by (auto simp: table_update_eq [OF wf] storage_update_eq move_key_def)
    also have "map_indexes (\<lambda>ix. ix) t = t"
      by (cases t) (simp add: map_indexes_def option.map_ident)
    finally show ?thesis by simp
  next
    case False
    let ?c = "change_update (st_id (tb_storage t)) rid (sr_row stored) (sr_version stored) r
                (version_next (sr_version stored))"
    have "st_changes (tb_storage t') = st_changes (tb_storage t) @ [?c]"
      using ok c False by (auto simp: table_update_eq [OF wf] storage_update_eq)
    moreover have "replayed [?c] t t'"
      unfolding replayed_def
    proof (intro allI impI)
      fix u assume "covers t u"
      from covers_update [OF this ok] obtain u' where "table_update rid r u = (Ok (), u')" "covers t' u'" by blast
      then show "\<exists>u'. for_each replay_on [?c] u = (Ok (), u') \<and> covers t' u'"
        by (simp add: replay_on_def change_update_def)
    qed
    ultimately show ?thesis unfolding relogs_def by blast
  qed
qed

lemma relogs_delete:
  assumes wf: "table_wf t" and ok: "table_delete rid t = (Ok (), t')"
  shows "relogs t t'"
proof -
  obtain stored where c: "table_rows t rid = Some stored"
    using ok by (auto simp: table_delete_eq [OF wf] split: option.splits)
  let ?c = "change_delete (st_id (tb_storage t)) rid (sr_row stored) (sr_version stored)"
  have "st_changes (tb_storage t') = st_changes (tb_storage t) @ [?c]"
    using ok c by (auto simp: table_delete_eq [OF wf] storage_delete_eq)
  moreover have "replayed [?c] t t'"
    unfolding replayed_def
  proof (intro allI impI)
    fix u assume "covers t u"
    from covers_delete [OF this ok] obtain u' where "table_delete rid u = (Ok (), u')" "covers t' u'" by blast
    then show "\<exists>u'. for_each replay_on [?c] u = (Ok (), u') \<and> covers t' u'"
      by (simp add: replay_on_def change_delete_def)
  qed
  ultimately show ?thesis unfolding relogs_def by blast
qed

end
