(* ===== verification/Tx_Commit.thy ===== *)
theory Tx_Commit
  imports Tx_Transaction Wal_Replay
begin

text \<open>
  Correctness of the optimistic commit of \<open>Tx_Transaction\<close>. \<open>plan_ok\<close> states what a successful
  validation establishes about the buffered writes; \<open>tracks\<close> relates a table before the commit to
  the same table after a part of the writes was applied. Together they show that applying a
  validated write set never fails, and what the store holds afterwards.
\<close>

section \<open>Single operations as the commit uses them\<close>

definition same_shape :: "nexum_table \<Rightarrow> nexum_table \<Rightarrow> bool" where
  "same_shape t t' \<longleftrightarrow>
     table_id_of t' = table_id_of t \<and> table_schema_of t' = table_schema_of t \<and>
     map fst (tb_indexes t') = map fst (tb_indexes t) \<and>
     map index_shape (table_indexes t') = map index_shape (table_indexes t)"

lemma same_shape_refl [simp]: "same_shape t t"
  by (simp add: same_shape_def)

lemma same_shape_trans: "same_shape t u \<Longrightarrow> same_shape u v \<Longrightarrow> same_shape t v"
  by (simp add: same_shape_def)

lemma same_shape_map_indexes:
  assumes "\<And>ix. ix_columns (f ix) = ix_columns ix" and "\<And>ix. is_unique_ix (f ix) = is_unique_ix ix"
    and "st_id s = table_id_of t" and "st_schema s = table_schema_of t"
  shows "same_shape t (map_indexes f (t\<lparr>tb_storage := s\<rparr>))"
  using assms by (auto simp: same_shape_def index_shape_def o_def)
    (simp add: map_indexes_def o_def case_prod_beta)

lemma table_get_rows: "table_get t rid = map_option sr_row (table_rows t rid)"
  by (simp add: table_get_def storage_get_row_def)

abbreviation next_id :: "nexum_table \<Rightarrow> row_id" where
  "next_id t \<equiv> st_next_row_id (tb_storage t)"

lemma table_insert_ok:
  assumes wf: "table_wf t" and r: "row_conforms (table_schema_of t) r" and "\<not> insert_conflict t r"
  shows "\<exists>t'. table_insert r t = (Ok (next_id t), t') \<and> table_get t' = (table_get t)(next_id t \<mapsto> r) \<and>
    next_id t' = next_id t + 1 \<and> same_shape t t' \<and> logs (tb_storage t) (tb_storage t')"
proof -
  let ?s = "snd (storage_insert r (tb_storage t))"
  let ?f = "\<lambda>ix. commit_insert (project (ix_columns ix) r) (next_id t) ix"
  have "logs (tb_storage t) ?s" using wf by (intro storage_ops_log) simp
  moreover have "same_shape t (map_indexes ?f (t\<lparr>tb_storage := ?s\<rparr>))"
    using r by (intro same_shape_map_indexes) (auto simp: storage_insert_eq)
  moreover have "table_get (map_indexes ?f (t\<lparr>tb_storage := ?s\<rparr>)) = (table_get t)(next_id t \<mapsto> r)"
    using r wf by (auto simp: storage_insert_eq om_get_put fun_eq_iff table_get_rows)
  moreover have "next_id (map_indexes ?f (t\<lparr>tb_storage := ?s\<rparr>)) = next_id t + 1"
    using r by (simp add: storage_insert_eq)
  ultimately show ?thesis
    using assms by (simp add: table_insert_eq [OF wf])
qed

lemma table_update_ok:
  assumes wf: "table_wf t" and r: "row_conforms (table_schema_of t) r"
    and "table_rows t rid \<noteq> None" and "\<not> update_conflict t rid r"
  shows "\<exists>t'. table_update rid r t = (Ok (), t') \<and> table_get t' = (table_get t)(rid \<mapsto> r) \<and>
    next_id t' = next_id t \<and> same_shape t t' \<and> logs (tb_storage t) (tb_storage t')"
proof -
  obtain stored where stored: "table_rows t rid = Some stored" using assms(3) by auto
  let ?s = "snd (storage_update rid r (tb_storage t))"
  let ?f = "\<lambda>ix. move_key rid (project (ix_columns ix) (sr_row stored), project (ix_columns ix) r) ix"
  have "logs (tb_storage t) ?s" using wf by (intro storage_ops_log) simp
  moreover have "same_shape t (map_indexes ?f (t\<lparr>tb_storage := ?s\<rparr>))"
    using r by (intro same_shape_map_indexes) (auto simp: storage_update_eq split: option.splits)
  moreover have "table_get (map_indexes ?f (t\<lparr>tb_storage := ?s\<rparr>)) = (table_get t)(rid \<mapsto> r)"
    using r wf stored by (cases "sr_row stored = r") (auto simp: storage_update_eq om_get_put fun_eq_iff table_get_rows)
  moreover have "next_id (map_indexes ?f (t\<lparr>tb_storage := ?s\<rparr>)) = next_id t"
    using r stored by (simp add: storage_update_eq)
  ultimately show ?thesis
    using assms stored by (simp add: table_update_eq [OF wf])
qed

lemma table_delete_ok:
  assumes wf: "table_wf t" and "table_rows t rid \<noteq> None"
  shows "\<exists>t'. table_delete rid t = (Ok (), t') \<and> table_get t' = (table_get t)(rid := None) \<and>
    next_id t' = next_id t \<and> same_shape t t' \<and> logs (tb_storage t) (tb_storage t')"
proof -
  obtain stored where stored: "table_rows t rid = Some stored" using assms(2) by auto
  let ?s = "snd (storage_delete rid (tb_storage t))"
  let ?f = "\<lambda>ix. commit_remove (project (ix_columns ix) (sr_row stored)) rid ix"
  have "logs (tb_storage t) ?s" using wf by (intro storage_ops_log) simp
  moreover have "same_shape t (map_indexes ?f (t\<lparr>tb_storage := ?s\<rparr>))"
    by (intro same_shape_map_indexes) (auto simp: storage_delete_eq split: option.splits)
  moreover have "table_get (map_indexes ?f (t\<lparr>tb_storage := ?s\<rparr>)) = (table_get t)(rid := None)"
    using stored by (auto simp: storage_delete_eq om_get_del fun_eq_iff table_get_rows)
  moreover have "next_id (map_indexes ?f (t\<lparr>tb_storage := ?s\<rparr>)) = next_id t"
    using stored by (simp add: storage_delete_eq)
  ultimately show ?thesis
    using assms stored by (simp add: table_delete_eq [OF wf])
qed

section \<open>Writing through a table handle\<close>

lemma find_update_by_id:
  assumes "\<And>t. table_id_of (f t) = table_id_of t"
  shows "find (\<lambda>t. table_id_of t = q) (map snd (update_table_by_id tid f ts))
    = (if q = tid then map_option f (find (\<lambda>t. table_id_of t = q) (map snd ts))
       else find (\<lambda>t. table_id_of t = q) (map snd ts))"
  using assms by (induction tid f ts rule: update_table_by_id.induct) auto

text \<open>The table operations keep id and schema whatever table they meet.\<close>

definition keeps_identity :: "(nexum_table \<Rightarrow> 'a \<times> nexum_table) \<Rightarrow> bool" where
  "keeps_identity f \<longleftrightarrow>
     (\<forall>t. table_id_of (snd (f t)) = table_id_of t \<and> table_schema_of (snd (f t)) = table_schema_of t)"

lemma storage_keeps:
  "st_id (snd (storage_insert r s)) = st_id s" "st_schema (snd (storage_insert r s)) = st_schema s"
  "st_id (snd (storage_update rid r s)) = st_id s" "st_schema (snd (storage_update rid r s)) = st_schema s"
  "st_id (snd (storage_delete rid s)) = st_id s" "st_schema (snd (storage_delete rid s)) = st_schema s"
  by (auto simp: storage_insert_eq storage_update_eq storage_delete_eq split: option.splits)

lemma table_insert_keeps: "keeps_identity (table_insert r)"
  unfolding keeps_identity_def table_insert_def try_res_def Let_def
  by (auto simp: storage_keeps split: res.splits prod.splits option.splits)
    (metis storage_keeps snd_conv)+

lemma table_update_keeps: "keeps_identity (table_update rid r)"
  unfolding keeps_identity_def table_update_def try_res_def Let_def
  by (auto simp: storage_keeps split: res.splits prod.splits option.splits)
    (metis storage_keeps snd_conv)+

lemma table_delete_keeps: "keeps_identity (table_delete rid)"
  unfolding keeps_identity_def table_delete_def try_res_def Let_def
  by (auto simp: storage_keeps split: res.splits prod.splits option.splits)
    (metis storage_keeps snd_conv)+

lemma table_drain_keeps: "keeps_identity table_drain_changes"
  by (simp add: keeps_identity_def table_drain_changes_def storage_drain_changes_def)

lemma with_table_mut_get:
  assumes "keeps_identity f"
  shows "table_by_id (snd (with_table_mut tid f st)) q
    = (if q = tid then map_option (\<lambda>t. snd (f t)) (table_by_id st q) else table_by_id st q)"
  using assms find_update_by_id [of "\<lambda>t. snd (f t)" q tid "ts_tables st"]
  by (cases "table_by_id st tid") (auto simp: with_table_mut_def table_by_id_def keeps_identity_def)

lemma expect_on_ok:
  assumes wf: "store_wf st" and keep: "keeps_identity f" and t: "table_by_id st tid = Some t"
    and ok: "f t = (Ok x, t')" and wf': "table_wf t'"
  shows "\<exists>st'. expect_on tid f st = (Ok (), st') \<and> store_wf st' \<and>
    next_table_id st' = next_table_id st \<and> next_transaction_id st' = next_transaction_id st \<and>
    table_by_id st' = (table_by_id st)(tid \<mapsto> t')"
proof -
  let ?st = "snd (with_table_mut tid f st)"
  have "store_wf ?st"
    using keep ok wf' t by (intro with_table_mut_wf [OF wf]) (auto simp: keeps_identity_def, metis snd_conv)
  moreover have "table_by_id ?st = (table_by_id st)(tid \<mapsto> t')"
    using with_table_mut_get [OF keep] t ok by (auto simp: fun_eq_iff)
  ultimately show ?thesis
    using t ok by (auto simp: expect_on_def with_table_mut_def)
qed

section \<open>What validation establishes\<close>

text \<open>No secondary index has the name reserved for the primary key.\<close>

definition no_reserved :: "nexum_table \<Rightarrow> bool" where
  "no_reserved t \<longleftrightarrow> primary_name \<notin> set (map fst (tb_indexes t))"

lemma lookup_unique_own:
  assumes wf: "table_wf t" and free: "no_reserved t" and ix: "ix \<in> set (table_indexes t)"
    and uniq: "is_unique_ix ix" and r: "row_conforms (table_schema_of t) r"
  shows "table_lookup_unique t (ix_name ix) (project (ix_columns ix) r)
    = Ok (index_lookup ix (project (ix_columns ix) r))"
proof -
  have ok: "validate_key t ix (project (ix_columns ix) r) = Ok ()"
    using validate_key_if [OF table_wf_index [OF wf ix]] project_conforms [OF table_wf_index [OF wf ix] r]
    by simp
  have named: "indexes_named (tb_primary t) (tb_indexes t)" using wf by (simp add: table_wf_def)
  show ?thesis
  proof (cases "tb_primary t = Some ix")
    case True
    then have "ix_name ix = primary_name" using named by (simp add: indexes_named_def)
    then show ?thesis using True ok by (simp add: table_lookup_unique_def)
  next
    case False
    then obtain n where n: "(n, ix) \<in> set (tb_indexes t)"
      using ix by (auto simp: table_indexes_def split: option.splits)
    have "ix_name ix = n" using n named by (auto simp: indexes_named_def)
    moreover have "n \<in> set (map fst (tb_indexes t))" using n by force
    then have "n \<noteq> primary_name" using free unfolding no_reserved_def by metis
    ultimately show ?thesis
      using n named uniq ok by (simp add: table_lookup_unique_def indexes_named_def)
  qed
qed

lemma named_keys_eq:
  assumes "table_wf t" and "row_conforms (table_schema_of t) r" and "set ixs \<subseteq> set (table_indexes t)"
  shows "named_keys ixs r = Ok (map (\<lambda>ix. (ix_name ix, project (ix_columns ix) r)) ixs)"
  unfolding named_keys_def
proof (rule map_res_map)
  fix ix assume "ix \<in> set ixs"
  with assms(3) have "ix \<in> set (table_indexes t)" by auto
  then show "bind_res (key_of ix r) (\<lambda>k. Ok (ix_name ix, k)) = Ok (ix_name ix, project (ix_columns ix) r)"
    using row_keys_conforms [OF table_wf_index [OF assms(1)] assms(2)] by simp
qed

lemma unique_keys_eq:
  assumes wf: "table_wf t"
  shows "\<exists>keys. unique_keys t r =
      (if row_conforms (table_schema_of t) r then Ok keys else Err InvalidArgument) \<and>
    (row_conforms (table_schema_of t) r \<longrightarrow>
      set keys = {(ix_name ix, project (ix_columns ix) r) | ix. ix \<in> set (table_indexes t) \<and> is_unique_ix ix})"
proof (cases "row_conforms (table_schema_of t) r")
  case False
  then show ?thesis by (simp add: unique_keys_def validate_row_if)
next
  case True
  let ?p = "case tb_primary t of None \<Rightarrow> [] | Some ix \<Rightarrow> [ix]"
  let ?s = "filter is_unique_ix (map snd (tb_indexes t))"
  let ?k = "\<lambda>ix. (ix_name ix, project (ix_columns ix) r)"
  have "unique_keys t r = Ok (map ?k ?p @ sort_key fst (map ?k ?s))"
    using True wf
    by (simp add: unique_keys_def validate_row_if named_keys_eq [OF wf True] table_indexes_def subset_eq)
  moreover have "\<forall>ix \<in> set ?p. is_unique_ix ix"
    using wf by (auto simp: table_wf_def indexes_named_def split: option.splits)
  then have "set (map ?k ?p @ sort_key fst (map ?k ?s))
      = {?k ix | ix. ix \<in> set (table_indexes t) \<and> is_unique_ix ix}"
    by (auto simp: table_indexes_def)
  ultimately show ?thesis using True by auto
qed

text \<open>The claims only grow, and each key asked for ends up claimed by the row.\<close>

definition claimed :: "claimed_keys \<Rightarrow> table_id \<Rightarrow> string \<Rightarrow> index_key \<Rightarrow> row_id option" where
  "claimed claims tid name key = Option.bind (claims (tid, name)) (\<lambda>m. m key)"

lemma claim_keys_step:
  assumes "claim_keys t rid allowed released ((name, key) # keys) claims = Ok claims'"
  shows "\<exists>ids claims1. table_lookup_unique t name key = Ok ids \<and>
     (\<forall>q \<in> set ids. released (table_id_of t, q) = None \<longrightarrow> q \<in> set allowed) \<and>
     claim_keys t rid allowed released keys claims1 = Ok claims' \<and>
     (\<forall>v. claimed claims (table_id_of t) name key = Some v \<longrightarrow> v = rid) \<and>
     (\<forall>tid n k. claimed claims1 tid n k =
        (if (tid, n, k) = (table_id_of t, name, key) then Some rid else claimed claims tid n k))"
proof -
  let ?m = "case claims (table_id_of t, name) of Some m \<Rightarrow> m | None \<Rightarrow> Map.empty"
  have m: "?m k = claimed claims (table_id_of t) name k" for k
    by (auto simp: claimed_def split: option.splits)
  obtain ids where ids: "table_lookup_unique t name key = Ok ids"
    using assms by (auto simp: bind_res_eq_Ok)
  then have "\<not> list_ex (\<lambda>owner. owner \<notin> set allowed) (filter (\<lambda>q. released (table_id_of t, q) = None) ids)"
    using assms by (auto simp: Let_def simp del: list_ex_iff split: if_splits)
  then have own: "\<forall>q \<in> set ids. released (table_id_of t, q) = None \<longrightarrow> q \<in> set allowed"
    by (auto simp: list_ex_iff)
  with ids have rest: "(case ?m key of
            Some other \<Rightarrow> if other \<noteq> rid then Err AlreadyExists
              else claim_keys t rid allowed released keys (claims((table_id_of t, name) \<mapsto> ?m))
          | None \<Rightarrow> claim_keys t rid allowed released keys
                (claims((table_id_of t, name) \<mapsto> ?m(key \<mapsto> rid)))) = Ok claims'"
    using assms by (auto simp: Let_def list_ex_iff split: if_splits)
  show ?thesis
  proof (cases "?m key")
    case None
    then show ?thesis
      using ids own rest m
      by (intro exI [of _ ids] exI [of _ "claims((table_id_of t, name) \<mapsto> ?m(key \<mapsto> rid))"])
        (auto simp: claimed_def)
  next
    case (Some other)
    then show ?thesis
      using ids own rest m
      by (intro exI [of _ ids] exI [of _ "claims((table_id_of t, name) \<mapsto> ?m)"])
        (auto simp: claimed_def split: if_splits)
  qed
qed

lemma claim_keys_Ok:
  assumes "claim_keys t rid allowed released keys claims = Ok claims'"
  shows "(\<forall>tid n k v. claimed claims tid n k = Some v \<longrightarrow> claimed claims' tid n k = Some v) \<and>
    (\<forall>(n, k) \<in> set keys. claimed claims' (table_id_of t) n k = Some rid \<and>
      (\<exists>ids. table_lookup_unique t n k = Ok ids \<and>
         (\<forall>q \<in> set ids. released (table_id_of t, q) = None \<longrightarrow> q \<in> set allowed)))"
  using assms
proof (induction keys arbitrary: claims)
  case Nil
  then show ?case by simp
next
  case (Cons p keys)
  obtain name key where p: "p = (name, key)" by (cases p)
  from claim_keys_step [OF Cons.prems [unfolded p]] obtain ids claims1 where
    head: "table_lookup_unique t name key = Ok ids"
      "\<forall>q \<in> set ids. released (table_id_of t, q) = None \<longrightarrow> q \<in> set allowed"
    and rest: "claim_keys t rid allowed released keys claims1 = Ok claims'"
    and old: "\<forall>v. claimed claims (table_id_of t) name key = Some v \<longrightarrow> v = rid"
    and upd: "\<forall>tid n k. claimed claims1 tid n k =
        (if (tid, n, k) = (table_id_of t, name, key) then Some rid else claimed claims tid n k)"
    by blast
  note IH = Cons.IH [OF rest]
  have "claimed claims' tid n k = Some v" if "claimed claims tid n k = Some v" for tid n k v
  proof -
    have "claimed claims1 tid n k = Some v" using that old upd by auto
    then show ?thesis using IH by blast
  qed
  moreover have "claimed claims' (table_id_of t) name key = Some rid"
    using IH upd by auto
  ultimately show ?case using IH head p by auto
qed

text \<open>What \<open>validate_writes\<close> has checked of one write.\<close>

definition write_checked :: "table_store \<Rightarrow> released_keys \<Rightarrow> row_key \<times> write_entry \<Rightarrow> bool" where
  "write_checked st released p \<longleftrightarrow>
     (case p of ((tid, rid), e) \<Rightarrow> \<forall>r. entry_row e = Some r \<longrightarrow>
        (\<exists>t. table_by_id st tid = Some t \<and>
           (\<not> is_insert e \<longrightarrow> table_rows t rid \<noteq> None) \<and> row_conforms (table_schema_of t) r \<and>
           (\<forall>ix \<in> set (table_indexes t). is_unique_ix ix \<longrightarrow>
              (\<forall>q \<in> set (index_lookup ix (project (ix_columns ix) r)).
                 released (tid, q) = None \<longrightarrow> \<not> is_insert e \<and> q = rid))))"

definition claims_agree :: "table_store \<Rightarrow> claimed_keys \<Rightarrow> row_key \<times> write_entry \<Rightarrow> bool" where
  "claims_agree st claims p \<longleftrightarrow>
     (case p of ((tid, rid), e) \<Rightarrow> \<forall>r t ix v. entry_row e = Some r \<longrightarrow> table_by_id st tid = Some t \<longrightarrow>
        ix \<in> set (table_indexes t) \<longrightarrow> is_unique_ix ix \<longrightarrow>
        claimed claims tid (ix_name ix) (project (ix_columns ix) r) = Some v \<longrightarrow> v = rid)"

definition apart :: "table_store \<Rightarrow> write_map \<Rightarrow> bool" where
  "apart st es \<longleftrightarrow>
     (\<forall>tid p q e f r s t ix. ((tid, p), e) \<in> set es \<longrightarrow> ((tid, q), f) \<in> set es \<longrightarrow>
        entry_row e = Some r \<longrightarrow> entry_row f = Some s \<longrightarrow> table_by_id st tid = Some t \<longrightarrow>
        ix \<in> set (table_indexes t) \<longrightarrow> is_unique_ix ix \<longrightarrow>
        project (ix_columns ix) r = project (ix_columns ix) s \<longrightarrow> p = q)"

definition store_plain :: "table_store \<Rightarrow> bool" where
  "store_plain st \<longleftrightarrow> store_wf st \<and> (\<forall>tid t. table_by_id st tid = Some t \<longrightarrow> no_reserved t)"

lemma table_by_id_wf: "store_wf st \<Longrightarrow> table_by_id st tid = Some t \<Longrightarrow> table_wf t \<and> table_id_of t = tid"
  using table_by_id_iff [of st tid t] store_wfD(1) by auto

lemma validate_writes_step:
  assumes plain: "store_plain st" and r: "entry_row e = Some r"
    and ok: "validate_writes st released (((tid, rid), e) # es) claims = Ok ()"
  shows "write_checked st released ((tid, rid), e) \<and> claims_agree st claims ((tid, rid), e) \<and>
    (\<exists>claims'. validate_writes st released es claims' = Ok () \<and>
      (\<forall>tid n k v. claimed claims tid n k = Some v \<longrightarrow> claimed claims' tid n k = Some v) \<and>
      (\<forall>t. table_by_id st tid = Some t \<longrightarrow> (\<forall>ix \<in> set (table_indexes t). is_unique_ix ix \<longrightarrow>
         claimed claims' tid (ix_name ix) (project (ix_columns ix) r) = Some rid)))"
proof -
  from ok r obtain t keys claims' where t: "table_by_id st tid = Some t"
    and live: "is_insert e \<or> storage_contains (tb_storage t) rid"
    and keys: "unique_keys t r = Ok keys"
    and claim: "claim_keys t rid (if is_insert e then [] else [rid]) released keys claims = Ok claims'"
    and rest: "validate_writes st released es claims' = Ok ()"
    by (auto simp: find_table_def bind_res_eq_Ok Let_def split: if_splits)
  have wf: "table_wf t" "table_id_of t = tid" "no_reserved t"
    using plain table_by_id_wf t by (auto simp: store_plain_def)
  obtain keys' where k: "unique_keys t r = (if row_conforms (table_schema_of t) r then Ok keys' else Err InvalidArgument)"
      "row_conforms (table_schema_of t) r \<longrightarrow>
        set keys' = {(ix_name ix, project (ix_columns ix) r) | ix. ix \<in> set (table_indexes t) \<and> is_unique_ix ix}"
    using unique_keys_eq [OF wf(1)] by blast
  then have conf: "row_conforms (table_schema_of t) r" and
    set: "set keys = {(ix_name ix, project (ix_columns ix) r) | ix. ix \<in> set (table_indexes t) \<and> is_unique_ix ix}"
    using keys by (auto split: if_splits)
  note c = claim_keys_Ok [OF claim, unfolded wf(2)]
  have own: "claimed claims' tid (ix_name ix) (project (ix_columns ix) r) = Some rid \<and>
      (\<forall>q \<in> set (index_lookup ix (project (ix_columns ix) r)).
         released (tid, q) = None \<longrightarrow> \<not> is_insert e \<and> q = rid)"
    if "ix \<in> set (table_indexes t)" "is_unique_ix ix" for ix
  proof -
    have "(ix_name ix, project (ix_columns ix) r) \<in> set keys" using that set by auto
    with c have "claimed claims' tid (ix_name ix) (project (ix_columns ix) r) = Some rid"
      "\<exists>ids. table_lookup_unique t (ix_name ix) (project (ix_columns ix) r) = Ok ids \<and>
         (\<forall>q \<in> set ids. released (tid, q) = None \<longrightarrow> q \<in> set (if is_insert e then [] else [rid]))"
      by auto
    then show ?thesis
      using lookup_unique_own [OF wf(1,3) that conf] by (auto split: if_splits)
  qed
  have "write_checked st released ((tid, rid), e)"
    using t r live conf own by (auto simp: write_checked_def storage_contains_def)
  moreover have "claims_agree st claims ((tid, rid), e)"
    unfolding claims_agree_def prod.case using t r own c by (metis option.inject)
  ultimately show ?thesis using rest c own t by auto
qed

lemma validate_writes_Ok:
  assumes plain: "store_plain st" and "validate_writes st released es claims = Ok ()"
  shows "(\<forall>p \<in> set es. write_checked st released p \<and> claims_agree st claims p) \<and> apart st es"
  using assms(2)
proof (induction es arbitrary: claims)
  case Nil
  then show ?case by (simp add: apart_def)
next
  case (Cons p es)
  obtain tid rid e where p: "p = ((tid, rid), e)" by (metis prod.collapse)
  show ?case
  proof (cases "entry_row e")
    case None
    then have rest: "validate_writes st released es claims = Ok ()" using Cons.prems by (simp add: p)
    have "write_checked st released p" "claims_agree st claims p"
      using None by (auto simp: p write_checked_def claims_agree_def)
    moreover have "apart st (p # es)"
      using Cons.IH [OF rest] None unfolding apart_def p by (auto simp del: split_paired_All)
    ultimately show ?thesis using Cons.IH [OF rest] by simp
  next
    case (Some r)
    from validate_writes_step [OF plain Some, of released tid rid es claims] Cons.prems
    obtain claims' where head: "write_checked st released p" "claims_agree st claims p"
      and rest: "validate_writes st released es claims' = Ok ()"
      and mono: "\<forall>tid n k v. claimed claims tid n k = Some v \<longrightarrow> claimed claims' tid n k = Some v"
      and mine: "\<forall>t. table_by_id st tid = Some t \<longrightarrow> (\<forall>ix \<in> set (table_indexes t). is_unique_ix ix \<longrightarrow>
         claimed claims' tid (ix_name ix) (project (ix_columns ix) r) = Some rid)"
      by (auto simp: p)
    note IH = Cons.IH [OF rest]
    have tail: "rid = q" if "((tid, q), f) \<in> set es" "entry_row f = Some s" "table_by_id st tid = Some t"
        "ix \<in> set (table_indexes t)" "is_unique_ix ix" "project (ix_columns ix) r = project (ix_columns ix) s"
      for q f s t ix
      using IH that mine by (fastforce simp: claims_agree_def)
    have "apart st (p # es)"
      using IH tail Some unfolding apart_def p by (auto simp del: split_paired_All)
    moreover have "claims_agree st claims q" if "q \<in> set es" for q
      using IH that mono by (fastforce simp: claims_agree_def)
    ultimately show ?thesis using IH head by auto
  qed
qed

lemma validate_deletes_Ok:
  assumes "validate_deletes st es released = Ok released'"
  shows "(\<forall>k. released' k \<noteq> None \<longleftrightarrow> released k \<noteq> None \<or> (k, WDelete) \<in> set es) \<and>
    (\<forall>tid rid. ((tid, rid), WDelete) \<in> set es \<longrightarrow>
       (\<exists>t. table_by_id st tid = Some t \<and> table_rows t rid \<noteq> None))"
  using assms
proof (induction es arbitrary: released)
  case Nil
  then show ?case by simp
next
  case (Cons p es)
  obtain tid rid e where p: "p = ((tid, rid), e)" by (metis prod.collapse)
  show ?case
  proof (cases "e = WDelete")
    case False
    then show ?thesis using Cons.IH [of released] Cons.prems by (auto simp: p)
  next
    case True
    then obtain t keys where t: "table_by_id st tid = Some t" "table_rows t rid \<noteq> None"
      and rest: "validate_deletes st es (released((tid, rid) \<mapsto> keys)) = Ok released'"
      using Cons.prems
      by (auto simp: p find_table_def bind_res_eq_Ok storage_contains_def split: if_splits option.splits)
    show ?thesis using Cons.IH [OF rest] t True by (auto simp: p)
  qed
qed

section \<open>The plan\<close>

definition deleted :: "write_map \<Rightarrow> table_id \<Rightarrow> row_id \<Rightarrow> bool" where
  "deleted es tid rid \<longleftrightarrow> ((tid, rid), WDelete) \<in> set es"

definition entry_fits :: "table_store \<Rightarrow> write_map \<Rightarrow> row_key \<times> write_entry \<Rightarrow> bool" where
  "entry_fits st es p \<longleftrightarrow>
     (case p of ((tid, rid), e) \<Rightarrow> \<exists>t. table_by_id st tid = Some t \<and>
        (\<not> is_insert e \<longrightarrow> table_rows t rid \<noteq> None) \<and>
        (\<forall>r. entry_row e = Some r \<longrightarrow> row_conforms (table_schema_of t) r \<and>
           (\<forall>ix q s. ix \<in> set (table_indexes t) \<longrightarrow> is_unique_ix ix \<longrightarrow> table_rows t q = Some s \<longrightarrow>
              project (ix_columns ix) (sr_row s) = project (ix_columns ix) r \<longrightarrow>
              \<not> deleted es tid q \<longrightarrow> \<not> is_insert e \<and> q = rid)))"

definition plan_ok :: "table_store \<Rightarrow> write_map \<Rightarrow> bool" where
  "plan_ok st es \<longleftrightarrow> om_wf es \<and> (\<forall>p \<in> set es. entry_fits st es p) \<and> apart st es"

lemma apartD:
  assumes "apart st es" and "((tid, p), e) \<in> set es" and "((tid, q), f) \<in> set es"
    and "entry_row e = Some r" and "entry_row f = Some s" and "table_by_id st tid = Some t"
    and "ix \<in> set (table_indexes t)" and "is_unique_ix ix"
    and "project (ix_columns ix) r = project (ix_columns ix) s"
  shows "p = q"
  using assms unfolding apart_def by blast

lemma entry_fitsD:
  assumes "entry_fits st es ((tid, rid), e)" and "table_by_id st tid = Some t"
  shows "is_insert e \<or> table_rows t rid \<noteq> None"
    and "entry_row e = Some r \<Longrightarrow> row_conforms (table_schema_of t) r"
    and "entry_row e = Some r \<Longrightarrow> ix \<in> set (table_indexes t) \<Longrightarrow> is_unique_ix ix \<Longrightarrow>
      table_rows t q = Some s \<Longrightarrow> project (ix_columns ix) (sr_row s) = project (ix_columns ix) r \<Longrightarrow>
      \<not> deleted es tid q \<Longrightarrow> \<not> is_insert e \<and> q = rid"
  using assms unfolding entry_fits_def prod.case by auto

lemma validate_plan:
  assumes plain: "store_plain st" and ws: "ws_wf (tx_writes tx)" and ok: "validate st tx = Ok ()"
  shows "plan_ok st (ws_entries (tx_writes tx))"
proof -
  let ?es = "ws_entries (tx_writes tx)"
  from ok obtain released where rel: "validate_deletes st ?es Map.empty = Ok released"
    and wr: "validate_writes st released ?es Map.empty = Ok ()"
    by (auto simp: validate_def bind_res_eq_Ok)
  note D = validate_deletes_Ok [OF rel] and W = validate_writes_Ok [OF plain wr]
  have relD: "released (tid, q) = None \<longleftrightarrow> \<not> deleted ?es tid q" for tid q
  proof -
    have "released (tid, q) \<noteq> None \<longleftrightarrow> deleted ?es tid q"
      using D unfolding deleted_def by blast
    then show ?thesis by blast
  qed
  have "entry_fits st ?es p" if p: "p \<in> set ?es" for p
  proof -
    obtain tid rid e where pe: "p = ((tid, rid), e)" by (metis prod.collapse)
    show ?thesis
    proof (cases "entry_row e")
      case None
      then have "e = WDelete" by (cases e) auto
      then show ?thesis using D p by (fastforce simp: pe entry_fits_def)
    next
      case (Some r)
      have "write_checked st released p" using W p by blast
      then obtain t where t: "table_by_id st tid = Some t" "\<not> is_insert e \<longrightarrow> table_rows t rid \<noteq> None"
          "row_conforms (table_schema_of t) r"
        and own: "\<forall>ix \<in> set (table_indexes t). is_unique_ix ix \<longrightarrow>
              (\<forall>q \<in> set (index_lookup ix (project (ix_columns ix) r)).
                 released (tid, q) = None \<longrightarrow> \<not> is_insert e \<and> q = rid)"
        using Some by (auto simp: write_checked_def pe)
      have wf: "table_wf t" using plain t table_by_id_wf by (auto simp: store_plain_def)
      have "\<not> is_insert e \<and> q = rid" if "ix \<in> set (table_indexes t)" "is_unique_ix ix"
        "table_rows t q = Some s" "project (ix_columns ix) (sr_row s) = project (ix_columns ix) r"
        "\<not> deleted ?es tid q" for ix q s
        using own that index_lookup_rows(2) [OF table_wf_index [OF wf that(1)]] relD by blast
      with t Some show ?thesis by (auto simp: entry_fits_def pe)
    qed
  qed
  then show ?thesis using W ws_entries_wf(1) [OF ws] by (simp add: plan_ok_def)
qed

section \<open>Applying it\<close>

text \<open>A row after the updates among \<open>ws\<close>.\<close>

definition new_row :: "write_map \<Rightarrow> row_key \<Rightarrow> row \<Rightarrow> row" where
  "new_row ws k old = (case om_get ws k of Some (WUpdate r) \<Rightarrow> r | _ \<Rightarrow> old)"

lemma new_row_Nil [simp]: "new_row [] k = (\<lambda>old. old)"
  by (simp add: new_row_def fun_eq_iff)

lemma new_row_snoc:
  "om_get ws k = None \<Longrightarrow> new_row (ws @ [(k', e)]) k = (if k = k' then
     (case e of WUpdate r \<Rightarrow> \<lambda>old. r | _ \<Rightarrow> (\<lambda>old. old)) else new_row ws k)"
  "k \<noteq> k' \<or> \<not> (\<exists>r. e = WUpdate r) \<Longrightarrow> new_row (ws @ [(k', e)]) k = new_row ws k"
  by (auto simp: new_row_def map_add_def fun_eq_iff split: option.splits write_entry.splits)

text \<open>The rows at new ids are the inserted ones; a table without writes is left alone.\<close>

definition fresh_rows :: "write_map \<Rightarrow> table_id \<Rightarrow> nexum_table \<Rightarrow> nexum_table \<Rightarrow> bool" where
  "fresh_rows ws tid t t' \<longleftrightarrow>
     (\<forall>r. (\<exists>q. ((tid, q), WInsert r) \<in> set ws) \<longleftrightarrow> (\<exists>rid. next_id t \<le> rid \<and> table_get t' rid = Some r))"

definition idle :: "write_map \<Rightarrow> table_id \<Rightarrow> nexum_table \<Rightarrow> nexum_table \<Rightarrow> bool" where
  "idle es tid t t' \<longleftrightarrow> (tid \<notin> fst ` fst ` set es \<longrightarrow> t' = t)"

lemma fresh_rows_other:
  "k \<noteq> tid \<or> \<not> is_insert e \<Longrightarrow> fresh_rows (ws @ [((k, q), e)]) tid t t' = fresh_rows ws tid t t'"
  by (auto simp: fresh_rows_def)

lemma fresh_rows_old:
  assumes "fresh_rows ws tid t t'" and "rid < next_id t" and "table_get t'' = (table_get t')(rid := x)"
  shows "fresh_rows ws tid t t''"
proof -
  have "(\<exists>rid. next_id t \<le> rid \<and> table_get t'' rid = Some r)
      \<longleftrightarrow> (\<exists>rid. next_id t \<le> rid \<and> table_get t' rid = Some r)" for r
    using assms(2,3) by (auto simp: not_le [symmetric])
  then show ?thesis using assms(1) by (simp add: fresh_rows_def)
qed

lemma fresh_rows_new:
  assumes "fresh_rows ws tid t t'" and "next_id t \<le> n" and "table_get t' n = None"
    and "table_get t'' = (table_get t')(n \<mapsto> r)"
  shows "fresh_rows (ws @ [((tid, q), WInsert r)]) tid t t''"
proof -
  have "(\<exists>rid. next_id t \<le> rid \<and> table_get t'' rid = Some s)
      \<longleftrightarrow> s = r \<or> (\<exists>rid. next_id t \<le> rid \<and> table_get t' rid = Some s)" for s
    using assms(2,3) unfolding assms(4) by (auto, metis option.distinct(1))
  moreover have "(\<exists>p. ((tid, p), WInsert s) \<in> set (ws @ [((tid, q), WInsert r)]))
      \<longleftrightarrow> s = r \<or> (\<exists>p. ((tid, p), WInsert s) \<in> set ws)" for s
    by auto
  ultimately show ?thesis using assms(1) by (simp add: fresh_rows_def del: set_append)
qed

lemma idle_mono: "idle es tid t t' \<Longrightarrow> set es \<subseteq> set es' \<Longrightarrow> idle es' tid t t'"
  unfolding idle_def by blast

lemma idle_mine: "((tid, rid), e) \<in> set es \<Longrightarrow> idle es tid t t'"
  unfolding idle_def by force

text \<open>The table \<open>t\<close> before the commit and \<open>t'\<close> after the deletions of \<open>ds\<close> and the writes of \<open>ws\<close>.\<close>

definition tracks :: "write_map \<Rightarrow> write_map \<Rightarrow> table_id \<Rightarrow> nexum_table \<Rightarrow> nexum_table \<Rightarrow> bool" where
  "tracks ds ws tid t t' \<longleftrightarrow>
     table_wf t' \<and> same_shape t t' \<and> logs (tb_storage t) (tb_storage t') \<and> relogs t t' \<and>
     next_id t \<le> next_id t' \<and> unat (next_id t') \<le> unat (next_id t) + length ws \<and>
     (\<forall>rid < next_id t. table_get t' rid =
        (if deleted ds tid rid then None
         else map_option (new_row ws (tid, rid)) (table_get t rid))) \<and>
     fresh_rows ws tid t t' \<and> idle (ds @ ws) tid t t'"

definition store_tracks :: "write_map \<Rightarrow> write_map \<Rightarrow> table_store \<Rightarrow> table_store \<Rightarrow> bool" where
  "store_tracks ds ws st st' \<longleftrightarrow>
     store_wf st' \<and> next_table_id st' = next_table_id st \<and>
     next_transaction_id st' = next_transaction_id st \<and>
     (\<forall>tid. rel_option (tracks ds ws tid) (table_by_id st tid) (table_by_id st' tid))"

lemma tracks_idle: "tracks ds ws tid t t' \<Longrightarrow> idle (ds @ ws) tid t t'"
  by (simp add: tracks_def)

lemma tracks_fresh: "tracks ds ws tid t t' \<Longrightarrow> fresh_rows ws tid t t'"
  by (simp add: tracks_def)

lemma tracks_refl:
  assumes wf: "table_wf t"
  shows "tracks [] [] tid t t"
  using storage_wfD(2) [of "tb_storage t"] wf
  by (auto simp: tracks_def deleted_def option.map_ident not_le [symmetric] table_get_rows
      fresh_rows_def idle_def)

lemma store_tracks_refl:
  assumes "store_wf st"
  shows "store_tracks [] [] st st"
proof -
  have "rel_option (tracks [] [] tid) (table_by_id st tid) (table_by_id st tid)" for tid
    using table_by_id_wf [OF assms] tracks_refl by (cases "table_by_id st tid") auto
  then show ?thesis using assms by (simp add: store_tracks_def)
qed

lemma store_tracks_get:
  assumes "store_tracks ds ws st st'" and "table_by_id st tid = Some t"
  shows "\<exists>t'. table_by_id st' tid = Some t' \<and> tracks ds ws tid t t'"
proof -
  have "rel_option (tracks ds ws tid) (table_by_id st tid) (table_by_id st' tid)"
    using assms(1) by (simp add: store_tracks_def)
  then show ?thesis using assms(2) by (auto elim: option.rel_cases)
qed

text \<open>Advancing both lists by one entry that this table does not see changes nothing.\<close>

lemma tracks_skip:
  assumes "tracks ds ws tid t t'"
  shows "k \<noteq> tid \<or> e \<noteq> WDelete \<Longrightarrow> tracks (ds @ [((k, q), e)]) ws tid t t'"
    and "k \<noteq> tid \<or> e = WDelete \<Longrightarrow> tracks ds (ws @ [((k, q), e)]) tid t t'"
proof -
  assume "k \<noteq> tid \<or> e \<noteq> WDelete"
  then have "deleted (ds @ [((k, q), e)]) tid = deleted ds tid" by (auto simp: deleted_def fun_eq_iff)
  moreover have "idle ((ds @ [((k, q), e)]) @ ws) tid t t'"
    by (rule idle_mono [OF tracks_idle [OF assms]]) auto
  ultimately show "tracks (ds @ [((k, q), e)]) ws tid t t'" using assms by (simp add: tracks_def)
next
  assume skip: "k \<noteq> tid \<or> e = WDelete"
  then have "new_row (ws @ [((k, q), e)]) (tid, rid) = new_row ws (tid, rid)" for rid
    by (intro new_row_snoc(2)) auto
  moreover have "fresh_rows (ws @ [((k, q), e)]) tid t t'"
    using tracks_fresh [OF assms] fresh_rows_other [of k tid e ws q t t'] skip by auto
  moreover have "idle (ds @ ws @ [((k, q), e)]) tid t t'"
    by (rule idle_mono [OF tracks_idle [OF assms]]) auto
  ultimately show "tracks ds (ws @ [((k, q), e)]) tid t t'"
    using assms by (simp add: tracks_def)
qed

lemma tracks_wf: "tracks ds ws tid t t' \<Longrightarrow> table_wf t'"
  by (simp add: tracks_def)

text \<open>One deletion.\<close>

lemma tracks_delete:
  assumes tr: "tracks ds [] tid t t'" and wf: "table_wf t" and live: "table_rows t rid \<noteq> None"
    and new: "\<not> deleted ds tid rid"
  shows "\<exists>t''. table_delete rid t' = (Ok (), t'') \<and> tracks (ds @ [((tid, rid), WDelete)]) [] tid t t''"
proof -
  have lt: "rid < next_id t" using live storage_wfD(2) [of "tb_storage t"] wf by auto
  have "table_get t' rid \<noteq> None" using tr lt live new by (auto simp: tracks_def table_get_rows)
  then have "table_rows t' rid \<noteq> None" by (auto simp: table_get_rows)
  from table_delete_ok [OF tracks_wf [OF tr] this] obtain t'' where
    t'': "table_delete rid t' = (Ok (), t'')" "table_get t'' = (table_get t')(rid := None)"
      "next_id t'' = next_id t'" "same_shape t' t''" "logs (tb_storage t') (tb_storage t'')"
    by blast
  have "table_wf t''" using table_delete_wf [OF tracks_wf [OF tr], of rid] t''(1) by simp
  moreover have "deleted (ds @ [((tid, rid), WDelete)]) tid q \<longleftrightarrow> q = rid \<or> deleted ds tid q" for q
    by (auto simp: deleted_def)
  moreover have "fresh_rows [] tid t t''"
    using tr fresh_rows_old [OF _ lt t''(2)] by (simp add: tracks_def)
  moreover have "idle ((ds @ [((tid, rid), WDelete)]) @ []) tid t t''"
    by (rule idle_mine [of tid rid WDelete]) simp
  moreover have "same_shape t t''" "logs (tb_storage t) (tb_storage t'')" "relogs t t''"
    using tr same_shape_trans [OF _ t''(4)] logs_trans [OF _ t''(5)]
      relogs_trans [OF _ relogs_delete [OF tracks_wf [OF tr] t''(1)]] by (auto simp: tracks_def)
  ultimately have "tracks (ds @ [((tid, rid), WDelete)]) [] tid t t''"
    using tr t''(2,3) lt by (simp add: tracks_def)
  with t'' show ?thesis by blast
qed

text \<open>Any row that holds a unique key of the next write is the write's own target.\<close>

lemma tracks_no_conflict:
  assumes plan: "plan_ok st es" and mem: "((tid, rid), e) \<in> set es" and r: "entry_row e = Some r"
    and t: "table_by_id st tid = Some t" and tr: "tracks es ws tid t t'" and sub: "set ws \<subseteq> set es"
    and new: "(tid, rid) \<notin> fst ` set ws"
    and ix: "ix \<in> set (table_indexes t')" "is_unique_ix ix"
    and row: "table_get t' q = Some s" "project (ix_columns ix) s = project (ix_columns ix) r"
  shows "\<not> is_insert e \<and> q = rid"
proof -
  have "index_shape ix \<in> set (map index_shape (table_indexes t))"
    using tr ix(1) by (metis image_eqI list.set_map same_shape_def tracks_def)
  then obtain ix0 where ix0: "ix0 \<in> set (table_indexes t)" "ix_columns ix0 = ix_columns ix" "is_unique_ix ix0"
    using ix(2) by (auto simp: index_shape_def)
  have apart: "p = rid" if "((tid, p), f) \<in> set ws" "entry_row f = Some s" for p f
  proof (rule apartD)
    show "apart st es" using plan by (simp add: plan_ok_def)
    show "((tid, p), f) \<in> set es" using that(1) sub by blast
    show "project (ix_columns ix0) s = project (ix_columns ix0) r" using row(2) ix0(2) by simp
  qed (fact that(2) mem r t ix0(1) ix0(3))+
  have no: "((tid, rid), f) \<notin> set ws" for f using new by force
  show ?thesis
  proof (cases "q < next_id t")
    case True
    then have "\<not> deleted es tid q" and "map_option (new_row ws (tid, q)) (table_get t q) = Some s"
      using tr row(1) by (auto simp: tracks_def split: if_splits)
    then obtain old where old: "\<not> deleted es tid q" "table_rows t q = Some old" "new_row ws (tid, q) (sr_row old) = s"
      by (auto simp: table_get_rows)
    show ?thesis
    proof (cases "\<exists>r'. om_get ws (tid, q) = Some (WUpdate r')")
      case True
      then have "((tid, q), WUpdate s) \<in> set ws" using old(3) by (auto simp: new_row_def dest: map_of_SomeD)
      moreover from this have "q = rid" by (rule apart) simp
      ultimately show ?thesis using no by blast
    next
      case False
      then have "sr_row old = s" using old(3) by (auto simp: new_row_def split: option.splits write_entry.splits)
      moreover have "entry_fits st es ((tid, rid), e)" using plan mem by (simp add: plan_ok_def)
      ultimately show ?thesis
        using entry_fitsD(3) [OF _ t r ix0(1,3) old(2) _ old(1), of rid] row(2) ix0(2) by simp
    qed
  next
    case False
    then have "\<exists>p. ((tid, p), WInsert s) \<in> set ws"
      using tr row(1) by (auto simp: tracks_def fresh_rows_def not_less)
    then obtain p where "((tid, p), WInsert s) \<in> set ws" by blast
    moreover from this have "p = rid" by (rule apart) simp
    ultimately show ?thesis using no by blast
  qed
qed

lemma tracks_no_conflicts:
  assumes "plan_ok st es" and "((tid, rid), e) \<in> set es" and "entry_row e = Some r"
    and "table_by_id st tid = Some t" and "tracks es ws tid t t'" and "set ws \<subseteq> set es"
    and "(tid, rid) \<notin> fst ` set ws"
  shows "is_insert e \<Longrightarrow> \<not> insert_conflict t' r" and "\<not> update_conflict t' rid r"
  using tracks_no_conflict [OF assms] unfolding insert_conflict_def update_conflict_def
  by (auto simp: table_get_rows)

definition has_room :: "table_store \<Rightarrow> nat \<Rightarrow> bool" where
  "has_room st n \<longleftrightarrow> (\<forall>tid t. table_by_id st tid = Some t \<longrightarrow> unat (next_id t) + n < 2 ^ 64)"

lemma tracks_insert:
  assumes plan: "plan_ok st es" and mem: "((tid, rid), WInsert r) \<in> set es"
    and t: "table_by_id st tid = Some t" and tr: "tracks es ws tid t t'" and sub: "set ws \<subseteq> set es"
    and new: "(tid, rid) \<notin> fst ` set ws" and room: "unat (next_id t) + Suc (length ws) < 2 ^ 64"
  shows "\<exists>n t''. table_insert r t' = (Ok n, t'') \<and> tracks es (ws @ [((tid, rid), WInsert r)]) tid t t''"
proof -
  have shape: "same_shape t t'" and le: "next_id t \<le> next_id t'"
    and cnt: "unat (next_id t') \<le> unat (next_id t) + length ws"
    using tr by (auto simp: tracks_def)
  have conf: "row_conforms (table_schema_of t') r"
    using plan mem t shape by (fastforce simp: plan_ok_def entry_fits_def same_shape_def)
  have "\<not> insert_conflict t' r"
    using tracks_no_conflicts(1) [OF plan mem _ t tr sub new] by simp
  from table_insert_ok [OF tracks_wf [OF tr] conf this] obtain t'' where
    t'': "table_insert r t' = (Ok (next_id t'), t'')" "table_get t'' = (table_get t')(next_id t' \<mapsto> r)"
      "next_id t'' = next_id t' + 1" "same_shape t' t''" "logs (tb_storage t') (tb_storage t'')"
    by blast
  have left: "next_id t' \<noteq> - 1"
  proof
    assume "next_id t' = - 1"
    then have "unat (next_id t') = 2 ^ 64 - 1"
      by (simp add: unsigned_minus_1_eq_mask mask_eq_exp_minus_1)
    then show False using cnt room by simp
  qed
  then have inc: "unat (next_id t' + 1) = Suc (unat (next_id t'))"
    using unat_version_next [of "next_id t'"] by (simp add: version_next_def)
  have "table_wf t''"
    using table_insert_wf [OF tracks_wf [OF tr], of r] left t''(1) by (simp add: ids_left_def)
  moreover have "next_id t \<le> next_id t''" "unat (next_id t'') \<le> unat (next_id t) + length (ws @ [((tid, rid), WInsert r)])"
    using le cnt inc by (simp_all add: t''(3) word_le_nat_alt)
  moreover have "new_row (ws @ [((tid, rid), WInsert r)]) (tid, q) = new_row ws (tid, q)" for q
    by (rule new_row_snoc(2)) simp
  moreover have "fresh_rows (ws @ [((tid, rid), WInsert r)]) tid t t''"
    using tr le t''(2) storage_wf_next [of "tb_storage t'"] tracks_wf [OF tr]
    by (intro fresh_rows_new) (auto simp: tracks_def table_get_rows)
  moreover have "idle (es @ ws @ [((tid, rid), WInsert r)]) tid t t''"
    using mem by (intro idle_mine) auto
  moreover have "table_get t'' q = table_get t' q" if "q < next_id t" for q
    using that le t''(2) by auto
  ultimately have "tracks es (ws @ [((tid, rid), WInsert r)]) tid t t''"
    using tr same_shape_trans [OF shape t''(4)] logs_trans [OF _ t''(5)]
      relogs_trans [OF _ relogs_insert [OF tracks_wf [OF tr] _ t''(1)]] left
    by (simp add: tracks_def ids_left_def)
  with t'' show ?thesis by blast
qed

lemma tracks_update:
  assumes plan: "plan_ok st es" and mem: "((tid, rid), WUpdate r) \<in> set es"
    and t: "table_by_id st tid = Some t" and wf: "table_wf t" and tr: "tracks es ws tid t t'"
    and sub: "set ws \<subseteq> set es" and new: "(tid, rid) \<notin> fst ` set ws"
  shows "\<exists>t''. table_update rid r t' = (Ok (), t'') \<and> tracks es (ws @ [((tid, rid), WUpdate r)]) tid t t''"
proof -
  have shape: "same_shape t t'" using tr by (simp add: tracks_def)
  have fits: "entry_fits st es ((tid, rid), WUpdate r)" using plan mem by (simp add: plan_ok_def)
  have conf: "row_conforms (table_schema_of t') r" and live: "table_rows t rid \<noteq> None"
    using fits t shape by (auto simp: entry_fits_def same_shape_def)
  have lt: "rid < next_id t" using live storage_wfD(2) [of "tb_storage t"] wf by auto
  have "\<not> deleted es tid rid"
    using plan mem om_wf_distinct by (metis deleted_def eq_key_imp_eq_value plan_ok_def write_entry.distinct(5))
  then have "table_get t' rid = map_option (new_row ws (tid, rid)) (table_get t rid)"
    using tr lt by (simp add: tracks_def)
  then have "table_rows t' rid \<noteq> None"
    using live by (auto simp: table_get_rows)
  from table_update_ok [OF tracks_wf [OF tr] conf this
      tracks_no_conflicts(2) [OF plan mem _ t tr sub new]] obtain t'' where
    t'': "table_update rid r t' = (Ok (), t'')" "table_get t'' = (table_get t')(rid \<mapsto> r)"
      "next_id t'' = next_id t'" "same_shape t' t''" "logs (tb_storage t') (tb_storage t'')"
    by auto
  have "table_wf t''" using table_update_wf [OF tracks_wf [OF tr], of rid r] t''(1) by simp
  moreover have "om_get ws (tid, rid) = None" using new by (simp add: om_get_None)
  then have "new_row (ws @ [((tid, rid), WUpdate r)]) (tid, q) = (if q = rid then (\<lambda>old. r) else new_row ws (tid, q))" for q
    using new_row_snoc(1) [of ws "(tid, rid)" "(tid, rid)" "WUpdate r"]
      new_row_snoc(2) [of "(tid, q)" "(tid, rid)" "WUpdate r" ws] by auto
  moreover obtain old where "table_get t rid = Some old" using live by (auto simp: table_get_rows)
  moreover have "fresh_rows (ws @ [((tid, rid), WUpdate r)]) tid t t''"
    using tr fresh_rows_old [OF _ lt t''(2)] by (simp add: tracks_def fresh_rows_other)
  moreover have "idle (es @ ws @ [((tid, rid), WUpdate r)]) tid t t''"
    using mem by (intro idle_mine) auto
  moreover have "same_shape t t''" "logs (tb_storage t) (tb_storage t'')" "relogs t t''"
    using tr same_shape_trans [OF _ t''(4)] logs_trans [OF _ t''(5)]
      relogs_trans [OF _ relogs_update [OF tracks_wf [OF tr] t''(1)]] by (auto simp: tracks_def)
  ultimately have "tracks es (ws @ [((tid, rid), WUpdate r)]) tid t t''"
    using tr t''(2,3) lt \<open>\<not> deleted es tid rid\<close> by (simp add: tracks_def)
  with t'' show ?thesis by blast
qed

section \<open>The two loops\<close>

lemma store_tracks_step:
  assumes tr: "store_tracks ds ws st st'" and t: "table_by_id st tid = Some t"
    and keep: "keeps_identity f" and t': "table_by_id st' tid = Some t'" and ok: "f t' = (Ok x, t'')"
    and mine: "tracks ds' ws' tid t t''"
    and others: "\<And>q u u'. q \<noteq> tid \<Longrightarrow> tracks ds ws q u u' \<Longrightarrow> tracks ds' ws' q u u'"
  shows "\<exists>st''. expect_on tid f st' = (Ok (), st'') \<and> store_tracks ds' ws' st st''"
proof -
  have wf: "store_wf st'" using tr by (simp add: store_tracks_def)
  from expect_on_ok [OF wf keep t' ok tracks_wf [OF mine]] obtain st'' where
    st'': "expect_on tid f st' = (Ok (), st'')" "store_wf st''" "next_table_id st'' = next_table_id st'"
      "next_transaction_id st'' = next_transaction_id st'" "table_by_id st'' = (table_by_id st')(tid \<mapsto> t'')"
    by blast
  have "rel_option (tracks ds' ws' q) (table_by_id st q) (table_by_id st'' q)" for q
  proof (cases "q = tid")
    case True
    then show ?thesis using t mine st''(5) by simp
  next
    case False
    have "rel_option (tracks ds ws q) (table_by_id st q) (table_by_id st' q)"
      using tr by (simp add: store_tracks_def)
    then have "rel_option (tracks ds' ws' q) (table_by_id st q) (table_by_id st' q)"
      by (rule option.rel_mono_strong) (rule others [OF False])
    with False show ?thesis using st''(5) by simp
  qed
  with tr st'' show ?thesis by (auto simp: store_tracks_def)
qed

lemma store_tracks_mono:
  assumes "store_tracks ds ws st st'" and "\<And>q u u'. tracks ds ws q u u' \<Longrightarrow> tracks ds' ws' q u u'"
  shows "store_tracks ds' ws' st st'"
  using assms unfolding store_tracks_def by (metis option.rel_mono_strong)

lemma apply_delete_step:
  assumes wf: "store_wf st" and plan: "plan_ok st es" and tr: "store_tracks ds [] st st'"
    and split: "es = ds @ p # rest"
  shows "\<exists>st''. apply_delete p st' = (Ok (), st'') \<and> store_tracks (ds @ [p]) [] st st''"
proof -
  obtain tid rid e where p: "p = ((tid, rid), e)" by (metis prod.collapse)
  show ?thesis
  proof (cases "e = WDelete")
    case False
    then have "apply_delete p st' = (Ok (), st')" by (cases e) (auto simp: apply_delete_def p)
    moreover have "store_tracks (ds @ [p]) [] st st'"
      using False by (intro store_tracks_mono [OF tr]) (auto simp: p intro: tracks_skip(1))
    ultimately show ?thesis by blast
  next
    case True
    have fits: "entry_fits st es p" using plan split by (simp add: plan_ok_def)
    then obtain t where t: "table_by_id st tid = Some t" by (auto simp: p entry_fits_def)
    have live: "table_rows t rid \<noteq> None"
      using entry_fitsD(1) [OF fits [unfolded p] t] True by simp
    have "distinct (map fst es)" using plan om_wf_distinct by (auto simp: plan_ok_def)
    then have "\<not> deleted ds tid rid" by (force simp: split p deleted_def)
    moreover obtain t' where t': "table_by_id st' tid = Some t'" "tracks ds [] tid t t'"
      using store_tracks_get [OF tr t] by blast
    ultimately obtain t'' where t'': "table_delete rid t' = (Ok (), t'')"
        "tracks (ds @ [((tid, rid), WDelete)]) [] tid t t''"
      using tracks_delete live table_by_id_wf [OF wf t] by blast
    from store_tracks_step [OF tr t table_delete_keeps t'(1) t''(1) t''(2)]
    show ?thesis by (auto simp: apply_delete_def p True intro: tracks_skip(1))
  qed
qed

lemma apply_write_step:
  assumes wf: "store_wf st" and plan: "plan_ok st es" and room: "has_room st (length es)"
    and tr: "store_tracks es ws st st'" and split: "es = ws @ p # rest"
  shows "\<exists>st''. apply_write p st' = (Ok (), st'') \<and> store_tracks es (ws @ [p]) st st''"
proof -
  obtain tid rid e where p: "p = ((tid, rid), e)" by (metis prod.collapse)
  have fits: "entry_fits st es p" using plan split by (simp add: plan_ok_def)
  then obtain t where t: "table_by_id st tid = Some t" by (auto simp: p entry_fits_def)
  obtain t' where t': "table_by_id st' tid = Some t'" "tracks es ws tid t t'"
    using store_tracks_get [OF tr t] by blast
  have mem: "((tid, rid), e) \<in> set es" and sub: "set ws \<subseteq> set es" by (auto simp: split p)
  have "distinct (map fst es)" using plan om_wf_distinct by (auto simp: plan_ok_def)
  then have new: "(tid, rid) \<notin> fst ` set ws" by (force simp: split p)
  have "unat (next_id t) + length es < 2 ^ 64" using room t by (auto simp: has_room_def)
  then have room': "unat (next_id t) + Suc (length ws) < 2 ^ 64" by (simp add: split)
  have others: "tracks es (ws @ [p]) q u u'" if "q \<noteq> tid" "tracks es ws q u u'" for q u u'
    using that by (auto simp: p intro: tracks_skip(2))
  show ?thesis
  proof (cases e)
    case (WInsert r)
    from tracks_insert [OF plan mem [unfolded WInsert] t t'(2) sub new room'] obtain n t'' where
      "table_insert r t' = (Ok n, t'')" "tracks es (ws @ [((tid, rid), WInsert r)]) tid t t''" by blast
    from store_tracks_step [OF tr t table_insert_keeps t'(1) this] others show ?thesis
      by (auto simp: apply_write_def p WInsert)
  next
    case (WUpdate r)
    from tracks_update [OF plan mem [unfolded WUpdate] t _ t'(2) sub new] table_by_id_wf [OF wf t]
    obtain t'' where
      "table_update rid r t' = (Ok (), t'')" "tracks es (ws @ [((tid, rid), WUpdate r)]) tid t t''" by blast
    from store_tracks_step [OF tr t table_update_keeps t'(1) this] others show ?thesis
      by (auto simp: apply_write_def p WUpdate)
  next
    case WDelete
    have "store_tracks es (ws @ [p]) st st'"
      using WDelete by (intro store_tracks_mono [OF tr]) (auto simp: p intro: tracks_skip(2))
    then show ?thesis by (simp add: apply_write_def p WDelete)
  qed
qed

text \<open>A loop whose every step succeeds and keeps a relation with the processed prefix.\<close>

lemma for_each_ok:
  assumes step: "\<And>xs x rest s. all = xs @ x # rest \<Longrightarrow> P xs s \<Longrightarrow> \<exists>s'. f x s = (Ok (), s') \<and> P (xs @ [x]) s'"
    and "P pre s" and "all = pre @ xs"
  shows "\<exists>s'. for_each f xs s = (Ok (), s') \<and> P all s'"
  using assms(2,3)
proof (induction xs arbitrary: pre s)
  case Nil
  then show ?case by simp
next
  case (Cons x xs)
  obtain s' where "f x s = (Ok (), s')" "P (pre @ [x]) s'"
    using step [OF Cons.prems(2,1)] by blast
  then show ?case using Cons.IH [of "pre @ [x]" s'] Cons.prems(2) by simp
qed

lemma apply_writes_ok:
  assumes wf: "store_wf st" and plan: "plan_ok st (ws_entries (tx_writes tx))"
    and room: "has_room st (length (ws_entries (tx_writes tx)))"
  shows "\<exists>st'. apply_writes tx st = (Ok (), st') \<and>
    store_tracks (ws_entries (tx_writes tx)) (ws_entries (tx_writes tx)) st st'"
proof -
  let ?es = "ws_entries (tx_writes tx)"
  have "\<exists>s. for_each apply_delete ?es st = (Ok (), s) \<and> store_tracks ?es [] st s"
  proof (rule for_each_ok [where P = "\<lambda>ds s. store_tracks ds [] st s" and pre = "[]"])
    fix xs x rest s assume "?es = xs @ x # rest" "store_tracks xs [] st s"
    then show "\<exists>s'. apply_delete x s = (Ok (), s') \<and> store_tracks (xs @ [x]) [] st s'"
      using apply_delete_step [OF wf plan] by blast
  qed (use store_tracks_refl [OF wf] in simp_all)
  then obtain st1 where st1: "for_each apply_delete ?es st = (Ok (), st1)" "store_tracks ?es [] st st1" by blast
  have "\<exists>s. for_each apply_write ?es st1 = (Ok (), s) \<and> store_tracks ?es ?es st s"
  proof (rule for_each_ok [where P = "\<lambda>ws s. store_tracks ?es ws st s" and pre = "[]"])
    fix xs x rest s assume "?es = xs @ x # rest" "store_tracks ?es xs st s"
    then show "\<exists>s'. apply_write x s = (Ok (), s') \<and> store_tracks ?es (xs @ [x]) st s'"
      using apply_write_step [OF wf plan room] by blast
  qed (use st1 in simp_all)
  with st1(1) show ?thesis by (auto simp: apply_writes_def)
qed

section \<open>Collecting the changes\<close>

lemma base_lengths_ok:
  assumes "\<forall>tid \<in> set tids. table_by_id st tid \<noteq> None"
  shows "base_lengths st tids
    = Ok (map (\<lambda>tid. (tid, length (st_changes (tb_storage (the (table_by_id st tid)))))) tids)"
  using assms by (induction tids) auto

lemma table_drain_fields:
  "fst (table_drain_changes t) = st_changes (tb_storage t)"
  "snd (table_drain_changes t) = t\<lparr>tb_storage := (tb_storage t)\<lparr>st_changes := []\<rparr>\<rparr>"
  by (simp_all add: table_drain_changes_def storage_drain_changes_def)

definition appended :: "table_store \<Rightarrow> table_id \<times> nat \<Rightarrow> change list" where
  "appended st p = drop (snd p) (st_changes (tb_storage (the (table_by_id st (fst p)))))"

definition drained :: "table_id set \<Rightarrow> table_store \<Rightarrow> table_id \<rightharpoonup> nexum_table" where
  "drained T st q =
     (if q \<in> T then map_option (\<lambda>t. snd (table_drain_changes t)) (table_by_id st q) else table_by_id st q)"

lemma collect_changes_ok:
  assumes "store_wf st" and "distinct (map fst bases)"
    and "\<forall>p \<in> set bases. table_by_id st (fst p) \<noteq> None"
  shows "\<exists>st'. collect_changes bases st = (Ok (concat (map (appended st) bases)), st') \<and>
    store_wf st' \<and> next_table_id st' = next_table_id st \<and> next_transaction_id st' = next_transaction_id st \<and>
    table_by_id st' = drained (fst ` set bases) st"
  using assms
proof (induction bases arbitrary: st)
  case Nil
  then show ?case by (simp add: drained_def fun_eq_iff)
next
  case (Cons p bases)
  obtain tid base where p: "p = (tid, base)" by (cases p)
  obtain t where t: "table_by_id st tid = Some t" using Cons.prems(3) by (auto simp: p)
  let ?st = "snd (with_table_mut tid table_drain_changes st)"
  have step: "with_table_mut tid table_drain_changes st = (Some (st_changes (tb_storage t)), ?st)"
    using t by (simp add: with_table_mut_def table_drain_fields)
  have get: "table_by_id ?st = drained {tid} st"
    by (rule ext) (simp add: with_table_mut_get [OF table_drain_keeps] drained_def)
  have wf: "store_wf ?st"
  proof (rule with_table_mut_wf [OF Cons.prems(1)])
    fix u assume "table_by_id st tid = Some u"
    then have "table_wf u" using table_by_id_wf [OF Cons.prems(1)] by blast
    then show "table_wf (snd (table_drain_changes u)) \<and> table_name_of (snd (table_drain_changes u)) = table_name_of u"
      using table_drain_wf by (simp add: table_drain_fields)
  qed (simp add: table_drain_fields)
  have cnt: "next_table_id ?st = next_table_id st" "next_transaction_id ?st = next_transaction_id st"
    by (simp_all add: with_table_mut_def t)
  have tid: "fst q \<noteq> tid" if "q \<in> set bases" for q using that Cons.prems(2) by (auto simp: p)
  have ex: "\<forall>q \<in> set bases. table_by_id ?st (fst q) \<noteq> None"
    using Cons.prems(3) tid by (simp add: get drained_def)
  have dist: "distinct (map fst bases)" using Cons.prems(2) by simp
  from Cons.IH [OF wf dist ex] obtain st' where
    rec: "collect_changes bases ?st = (Ok (concat (map (appended ?st) bases)), st')"
    and st': "store_wf st'" "next_table_id st' = next_table_id ?st" "next_transaction_id st' = next_transaction_id ?st"
      "table_by_id st' = drained (fst ` set bases) ?st"
    by (elim exE conjE) (rule that)
  have same: "map (appended ?st) bases = map (appended st) bases"
    by (rule map_cong [OF refl]) (simp add: appended_def get drained_def tid)
  have "collect_changes (p # bases) st = (Ok (concat (map (appended st) (p # bases))), st')"
    unfolding p collect_changes.simps
    by (subst step) (simp add: rec [unfolded same] t appended_def [of st "(tid, base)"])
  moreover have "table_by_id st' = drained (fst ` set (p # bases)) st"
  proof
    fix q
    have "tid \<notin> fst ` set bases" using tid by (metis imageE)
    then show "table_by_id st' q = drained (fst ` set (p # bases)) st q"
      by (cases "q = tid") (simp_all add: st'(4) drained_def [of "fst ` set bases"] get drained_def p)
  qed
  ultimately show ?case using st'(1-3) cnt by (intro exI [of _ st']) simp
qed

section \<open>Commit\<close>

text \<open>What a commit leaves of one table: \<open>t\<close> before, \<open>t'\<close> after, \<open>cs\<close> the changes it returned.\<close>

definition committed :: "write_map \<Rightarrow> change list \<Rightarrow> table_id \<Rightarrow> nexum_table \<Rightarrow> nexum_table \<Rightarrow> bool" where
  "committed es cs tid t t' \<longleftrightarrow>
     same_shape t t' \<and> next_id t \<le> next_id t' \<and> fresh_rows es tid t t' \<and>
     (\<forall>rid < next_id t. table_get t' rid =
        (if deleted es tid rid then None else map_option (new_row es (tid, rid)) (table_get t rid))) \<and>
     table_rows t' = fold apply_change (filter (\<lambda>c. ch_table c = tid) cs) (table_rows t) \<and>
     changes_fit (table_schema_of t) (filter (\<lambda>c. ch_table c = tid) cs) (table_rows t) \<and>
     replayed (filter (\<lambda>c. ch_table c = tid) cs) t t'"

lemma ws_tables_set: "set (ws_tables ws) = fst ` fst ` set (ws_entries ws)" "distinct (ws_tables ws)"
  by (force simp: ws_tables_def)+

lemma filter_concat_one:
  assumes "distinct xs" and "\<And>x. x \<in> set xs \<Longrightarrow> \<forall>c \<in> set (f x). k c = x"
  shows "filter (\<lambda>c. k c = x) (concat (map f xs)) = (if x \<in> set xs then f x else [])"
  using assms
proof (induction xs)
  case (Cons y xs)
  have "filter (\<lambda>c. k c = x) (f y) = (if x = y then f y else [])"
    using Cons.prems(2) [of y] by (auto simp: filter_id_conv filter_empty_conv)
  with Cons show ?case by auto
qed simp

lemma tracks_appended:
  assumes "tracks ds ws tid t t1" and "table_by_id st1 tid = Some t1"
  shows "table_rows t1 = fold apply_change (appended st1 (tid, length (st_changes (tb_storage t)))) (table_rows t)"
    and "\<forall>c \<in> set (appended st1 (tid, length (st_changes (tb_storage t)))). ch_table c = table_id_of t"
    and "replayed (appended st1 (tid, length (st_changes (tb_storage t)))) t t1"
    and "changes_fit (table_schema_of t) (appended st1 (tid, length (st_changes (tb_storage t)))) (table_rows t)"
proof -
  have "logs (tb_storage t) (tb_storage t1)" and rel: "relogs t t1" using assms(1) by (simp_all add: tracks_def)
  then obtain cs where "st_changes (tb_storage t1) = st_changes (tb_storage t) @ cs"
    "table_rows t1 = fold apply_change cs (table_rows t)" "\<forall>c \<in> set cs. ch_table c = table_id_of t"
    "changes_fit (table_schema_of t) cs (table_rows t)"
    by (auto simp: logs_def)
  moreover from this have "appended st1 (tid, length (st_changes (tb_storage t))) = cs"
    using assms(2) by (simp add: appended_def)
  moreover from this calculation rel have "replayed cs t t1" by (auto simp: relogs_def)
  ultimately show "table_rows t1 = fold apply_change (appended st1 (tid, length (st_changes (tb_storage t)))) (table_rows t)"
    and "\<forall>c \<in> set (appended st1 (tid, length (st_changes (tb_storage t)))). ch_table c = table_id_of t"
    and "replayed (appended st1 (tid, length (st_changes (tb_storage t)))) t t1"
    and "changes_fit (table_schema_of t) (appended st1 (tid, length (st_changes (tb_storage t)))) (table_rows t)"
    by simp_all
qed

lemma same_shape_drain: "same_shape t (snd (table_drain_changes t))"
  by (simp add: same_shape_def table_drain_fields table_indexes_def)

lemma replayed_drain: "replayed cs t t' \<Longrightarrow> replayed cs t (snd (table_drain_changes t'))"
proof -
  have "covers (snd (table_drain_changes t')) u" if cov: "covers t' u" for u
  proof -
    have "table_wf (snd (table_drain_changes t'))"
      using table_drain_wf covers_fields(4) [OF cov] .
    with cov show ?thesis by (auto simp: covers_def table_drain_fields)
  qed
  then show "replayed cs t t' \<Longrightarrow> replayed cs t (snd (table_drain_changes t'))"
    unfolding replayed_def by blast
qed

lemma tracks_committed:
  assumes "tracks es es tid t t1" and "t' = t1 \<or> t' = snd (table_drain_changes t1)"
    and "table_rows t1 = fold apply_change (filter (\<lambda>c. ch_table c = tid) cs) (table_rows t)"
    and "replayed (filter (\<lambda>c. ch_table c = tid) cs) t t1"
    and "changes_fit (table_schema_of t) (filter (\<lambda>c. ch_table c = tid) cs) (table_rows t)"
  shows "committed es cs tid t t'"
proof -
  have "table_get t' = table_get t1" "table_rows t' = table_rows t1" "next_id t' = next_id t1"
    using assms(2) by (auto simp: table_drain_fields table_get_rows fun_eq_iff)
  moreover have "same_shape t t'"
    using assms(1,2) same_shape_trans [OF _ same_shape_drain] by (auto simp: tracks_def)
  moreover have "replayed (filter (\<lambda>c. ch_table c = tid) cs) t t'"
    using assms(2,4) replayed_drain by blast
  ultimately show ?thesis
    using assms(1,3,5) by (simp add: committed_def tracks_def fresh_rows_def)
qed

lemma commit_ok:
  assumes plain: "store_plain st" and ws: "ws_wf (tx_writes tx)"
    and room: "has_room st (length (ws_entries (tx_writes tx)))" and ok: "validate st tx = Ok ()"
  shows "\<exists>cs st'. commit tx st = (Ok cs, st') \<and> store_wf st' \<and>
    next_table_id st' = next_table_id st \<and> next_transaction_id st' = next_transaction_id st \<and>
    (\<forall>c \<in> set cs. table_by_id st (ch_table c) \<noteq> None) \<and>
    (\<forall>tid. rel_option (committed (ws_entries (tx_writes tx)) cs tid) (table_by_id st tid) (table_by_id st' tid))"
proof -
  let ?es = "ws_entries (tx_writes tx)" and ?T = "ws_tables (tx_writes tx)"
  have wf: "store_wf st" using plain by (simp add: store_plain_def)
  have plan: "plan_ok st ?es" by (rule validate_plan [OF plain ws ok])
  obtain st1 where st1: "apply_writes tx st = (Ok (), st1)" "store_tracks ?es ?es st st1"
    using apply_writes_ok [OF wf plan room] by blast
  have ex: "\<exists>t. table_by_id st tid = Some t" if "tid \<in> set ?T" for tid
    using that plan by (force simp: ws_tables_set plan_ok_def entry_fits_def)
  let ?len = "\<lambda>tid. length (st_changes (tb_storage (the (table_by_id st tid))))"
  let ?bases = "map (\<lambda>tid. (tid, ?len tid)) ?T"
  have bases: "base_lengths st ?T = Ok ?bases" using ex by (intro base_lengths_ok) fastforce
  have wf1: "store_wf st1" using st1(2) by (simp add: store_tracks_def)
  have ex1: "\<forall>p \<in> set ?bases. table_by_id st1 (fst p) \<noteq> None"
    using ex store_tracks_get [OF st1(2)] by fastforce
  have "distinct (map fst ?bases)" by (simp add: o_def ws_tables_set(2))
  from collect_changes_ok [OF wf1 this ex1] obtain st' where
    col: "collect_changes ?bases st1 = (Ok (concat (map (appended st1) ?bases)), st')"
    and st': "store_wf st'" "next_table_id st' = next_table_id st1" "next_transaction_id st' = next_transaction_id st1"
      "table_by_id st' = drained (fst ` set ?bases) st1"
    by (elim exE conjE) (rule that)
  let ?cs = "concat (map (\<lambda>tid. appended st1 (tid, ?len tid)) ?T)"
  have commit: "commit tx st = (Ok ?cs, st')"
    using col by (simp add: commit_def ok bases st1(1) o_def)
  have each: "\<forall>c \<in> set (appended st1 (tid, ?len tid)). ch_table c = tid" if T: "tid \<in> set ?T" for tid
  proof -
    obtain t t1 where t: "table_by_id st tid = Some t" "table_by_id st1 tid = Some t1" "tracks ?es ?es tid t t1"
      using ex [OF T] store_tracks_get [OF st1(2)] by blast
    then show ?thesis using tracks_appended(2) [OF t(3,2)] table_by_id_wf [OF wf t(1)] by simp
  qed
  note mine = filter_concat_one [OF ws_tables_set(2) each]
  have "rel_option (committed ?es ?cs tid) (table_by_id st tid) (table_by_id st' tid)" for tid
  proof (cases "table_by_id st tid")
    case None
    moreover have "rel_option (tracks ?es ?es tid) (table_by_id st tid) (table_by_id st1 tid)"
      using st1(2) by (simp add: store_tracks_def)
    ultimately show ?thesis by (simp add: st'(4) drained_def)
  next
    case (Some t)
    obtain t1 where t1: "table_by_id st1 tid = Some t1" "tracks ?es ?es tid t t1"
      using store_tracks_get [OF st1(2) Some] by blast
    define t' where "t' = (if tid \<in> set ?T then snd (table_drain_changes t1) else t1)"
    have st't: "table_by_id st' tid = Some t'"
      using t1(1) by (simp add: st'(4) drained_def t'_def image_image)
    have "table_rows t1 = fold apply_change (filter (\<lambda>c. ch_table c = tid) ?cs) (table_rows t) \<and>
        replayed (filter (\<lambda>c. ch_table c = tid) ?cs) t t1 \<and>
        changes_fit (table_schema_of t) (filter (\<lambda>c. ch_table c = tid) ?cs) (table_rows t)"
    proof (cases "tid \<in> set ?T")
      case True
      then show ?thesis using tracks_appended(1,3,4) [OF t1(2,1)] Some by (simp add: mine)
    next
      case False
      then have "t1 = t" using tracks_idle [OF t1(2)] by (simp add: idle_def ws_tables_set)
      with False show ?thesis by (simp add: mine)
    qed
    then have "committed ?es ?cs tid t t'"
      by (intro tracks_committed [OF t1(2)]) (simp_all add: t'_def)
    then show ?thesis using Some st't by simp
  qed
  moreover have "\<forall>c \<in> set ?cs. table_by_id st (ch_table c) \<noteq> None" using each ex by fastforce
  ultimately show ?thesis
    using commit st' st1(2) by (intro exI [of _ ?cs] exI [of _ st']) (simp add: store_tracks_def)
qed

section \<open>A failed commit\<close>

lemma lookup_unique_not_Panic:
  assumes "table_wf t"
  shows "table_lookup_unique t name key \<noteq> Panic"
proof -
  have ok: "validate_key t ix key \<noteq> Panic" if "ix \<in> set (table_indexes t)" for ix
    using validate_key_if [OF table_wf_index [OF assms that]] by simp
  show ?thesis
    using ok table_indexes_mem [of t]
    by (cases "tb_primary t"; cases "map_of (tb_indexes t) name")
      (simp_all add: table_lookup_unique_def bind_res_not_Panic)
qed

lemma unique_keys_not_Panic: "table_wf t \<Longrightarrow> unique_keys t r \<noteq> Panic"
  using unique_keys_eq [of t r] by (auto split: if_splits)

lemma claim_keys_not_Panic:
  "table_wf t \<Longrightarrow> claim_keys t rid allowed released keys claims \<noteq> Panic"
proof (induction keys arbitrary: claims)
  case (Cons p keys)
  then show ?case
    by (cases p) (simp add: bind_res_not_Panic lookup_unique_not_Panic Let_def split: option.splits)
qed simp

lemma validate_deletes_not_Panic:
  assumes wf: "store_wf st"
  shows "validate_deletes st es released \<noteq> Panic"
proof (induction es arbitrary: released)
  case (Cons p es)
  obtain tid rid e where p: "p = ((tid, rid), e)" by (metis prod.collapse)
  show ?case
  proof (cases "table_by_id st tid")
    case None
    then show ?thesis using Cons.IH by (simp add: p find_table_def)
  next
    case (Some t)
    then have "table_wf t" using table_by_id_wf [OF wf] by blast
    then show ?thesis
      using Some Cons.IH unique_keys_not_Panic [of t]
      by (auto simp: p find_table_def bind_res_not_Panic storage_contains_def table_get_rows split: option.splits)
  qed
qed simp

lemma validate_writes_not_Panic:
  assumes wf: "store_wf st"
  shows "validate_writes st released es claims \<noteq> Panic"
proof (induction es arbitrary: claims)
  case (Cons p es)
  obtain tid rid e where p: "p = ((tid, rid), e)" by (metis prod.collapse)
  show ?case
  proof (cases "table_by_id st tid")
    case None
    then show ?thesis using Cons.IH by (simp add: p find_table_def split: option.splits)
  next
    case (Some t)
    then have "table_wf t" using table_by_id_wf [OF wf] by blast
    then show ?thesis
      using Some Cons.IH unique_keys_not_Panic [of t] claim_keys_not_Panic [of t]
      by (auto simp: p find_table_def bind_res_not_Panic Let_def split: option.splits)
  qed
qed simp

lemma find_table_not_Panic: "find_table st tid \<noteq> Panic"
  by (simp add: find_table_def ok_or_def split: option.splits)

lemma validate_not_Panic:
  assumes "store_wf st"
  shows "validate st tx \<noteq> Panic"
proof -
  have "validate_tables st os \<noteq> Panic" for os
    unfolding validate_tables_def
    by (rule all_res_not_Panic) (auto simp: bind_res_eq_Panic find_table_not_Panic split: if_splits)
  moreover have "validate_reads st os \<noteq> Panic" for os
    unfolding validate_reads_def
    by (rule all_res_not_Panic) (auto simp: bind_res_eq_Panic find_table_not_Panic split: if_splits)
  ultimately show ?thesis
    using validate_deletes_not_Panic [OF assms] validate_writes_not_Panic [OF assms]
    by (simp add: validate_def bind_res_not_Panic)
qed

text \<open>A commit that reports an error has not touched the store.\<close>

lemma commit_failed:
  assumes "store_plain st" and "ws_wf (tx_writes tx)"
    and "has_room st (length (ws_entries (tx_writes tx)))"
  shows "(\<exists>e. validate st tx = Err e \<and> commit tx st = (Err e, st)) \<or>
    (validate st tx = Ok () \<and> (\<exists>cs st'. commit tx st = (Ok cs, st')))"
proof (cases "validate st tx")
  case (Ok u)
  then show ?thesis using commit_ok [OF assms] by auto
next
  case (Err e)
  then show ?thesis by (simp add: commit_def)
next
  case Panic
  then show ?thesis using validate_not_Panic assms(1) by (simp add: store_plain_def)
qed

text \<open>What a successful validation says about the reads: every observation still holds.\<close>

lemma validate_reads_current:
  assumes "validate st tx = Ok ()"
  shows "\<forall>((tid, rid), observed) \<in> set (rs_entries (tx_reads tx)).
      \<exists>t. table_by_id st tid = Some t \<and> table_version_of t rid = observed"
    and "\<forall>(tid, epoch) \<in> set (rs_tables (tx_reads tx)).
      \<exists>t. table_by_id st tid = Some t \<and> table_epoch t = epoch"
  using assms
  by (auto simp: validate_def bind_res_eq_Ok validate_tables_def validate_reads_def all_res_Ok find_table_def
      split: if_splits)

section \<open>The state machine\<close>

text \<open>\<open>tx_call\<close>: one call of the handle that asks for an active transaction (or is \<^verbatim>\<open>abort\<close>), against some store.
  \<open>tx_step\<close> is any call of the handle: \<^verbatim>\<open>rollback\<close> does not look at the state of the transaction.\<close>

inductive tx_call :: "transaction \<Rightarrow> transaction \<Rightarrow> bool" where
  "tx_call tx (snd (tx_get st name rid tx))"
| "tx_call tx (snd (tx_contains st name rid tx))"
| "tx_call tx (snd (tx_scan st name tx))"
| "tx_call tx (snd (tx_lookup_unique st name index_name key tx))"
| "tx_call tx (snd (tx_lookup_index st name index_name key tx))"
| "tx_call tx (snd (tx_insert st name r tx))"
| "tx_call tx (snd (tx_update st name rid r tx))"
| "tx_call tx (snd (tx_delete st name rid tx))"
| "tx_call tx (snd (branch_of parent tx))"
| "tx_call tx (snd (tx_absorb child tx))"
| "tx_call tx (snd (tx_abort tx))"
| "tx_call tx (fst (snd (tx_commit tx st)))"

inductive tx_step :: "transaction \<Rightarrow> transaction \<Rightarrow> bool" where
  call: "tx_step tx tx'" if "tx_call tx tx'"
| rollback: "tx_step tx tx'" if "tx_rollback sn tx = Ok tx'"

lemmas tx_op_defs =
  tx_get_def tx_contains_def tx_scan_def tx_lookup_unique_def tx_lookup_index_def tx_insert_def
  tx_update_def tx_delete_def branch_of_def tx_absorb_def

lemma inactive_refused:
  assumes "tx_state tx \<noteq> Active"
  shows "\<exists>e. ensure_active tx = Err e \<and> e \<in> {AlreadyCommitted, AlreadyAborted}"
  using assms by (cases "tx_state tx") (simp_all add: ensure_active_def)

lemma tx_call_inactive:
  assumes "tx_call tx tx'" and "tx_state tx \<noteq> Active"
  shows "tx' = tx"
proof -
  obtain e where "ensure_active tx = Err e" using inactive_refused [OF assms(2)] by blast
  with assms show ?thesis
    by (cases rule: tx_call.cases)
      (auto simp: tx_op_defs tx_commit_def tx_abort_def split: transaction_state.splits)
qed

lemma tx_rollback_fields:
  assumes "tx_rollback sn tx = Ok tx'"
  shows "tx_state tx' = tx_state tx" and "tx_id tx' = tx_id tx" and "tx_writes tx' = sn_writes sn"
  using assms by (auto simp: tx_rollback_def bind_res_eq_Ok)

lemma tx_steps_inactive:
  assumes "tx_step\<^sup>*\<^sup>* tx tx'" and "tx_state tx \<noteq> Active"
  shows "tx_state tx' = tx_state tx \<and> tx_id tx' = tx_id tx"
  using assms
  by (induction rule: rtranclp_induct) (auto elim!: tx_step.cases dest: tx_call_inactive simp: tx_rollback_fields)

lemma inactive_commit:
  assumes "tx_state tx \<noteq> Active"
  shows "\<exists>e \<in> {AlreadyCommitted, AlreadyAborted}. tx_commit tx st = (Err e, tx, st)"
  using inactive_refused [OF assms] by (auto simp: tx_commit_def)

end
