(* ===== verification/Tx_Invariant.thy ===== *)
theory Tx_Invariant
  imports Tx_Commit
begin

text \<open>
  The invariant of a transaction handle, kept by every operation of \<^verbatim>\<open>transaction.rs\<close>, and what a
  transaction sees of its own writes.
\<close>

definition tx_wf :: "transaction \<Rightarrow> bool" where
  "tx_wf tx \<longleftrightarrow> ws_wf (tx_writes tx) \<and> rs_wf (tx_reads tx) \<and> om_wf (tx_provisional tx)"

lemma tx_new_wf [wf_intros]: "tx_wf (tx_new tid)"
  by (simp add: tx_wf_def tx_new_def ws_wf_def write_set_new_def read_set_new_wf)

lemma observe_wf [wf_intros]:
  "tx_wf tx \<Longrightarrow> tx_wf (observe_row t rid tx)" "tx_wf tx \<Longrightarrow> tx_wf (observe_table t tx)"
  "tx_wf tx \<Longrightarrow> tx_wf (capture_version t rid b tx)"
  by (simp_all add: tx_wf_def observe_row_def observe_table_def capture_version_def rs_record_wf rs_record_table_wf)

lemma tx_reads_wf [wf_intros]:
  assumes "tx_wf tx"
  shows "tx_wf (snd (tx_get st name rid tx))" and "tx_wf (snd (tx_contains st name rid tx))"
    and "tx_wf (snd (tx_scan st name tx))" and "tx_wf (snd (tx_lookup_unique st name ix key tx))"
    and "tx_wf (snd (tx_lookup_index st name ix key tx))"
  using assms
  by (simp_all add: tx_get_def tx_contains_def tx_scan_def tx_lookup_unique_def tx_lookup_index_def
      try_res_def observe_wf split: res.splits option.splits)

lemma tx_set_writes_wf: "tx_wf tx \<Longrightarrow> ws_wf ws \<Longrightarrow> tx_wf (tx\<lparr>tx_writes := ws\<rparr>)"
  by (simp add: tx_wf_def)

lemma tx_writes_wf: "tx_wf tx \<Longrightarrow> ws_wf (tx_writes tx)"
  by (simp add: tx_wf_def)

lemma tx_insert_wf [wf_intros]:
  assumes wf: "tx_wf tx"
  shows "tx_wf (snd (tx_insert st name r tx))"
proof -
  have ws: "ws_wf (snd (ws_insert tid rid r (tx_writes tx)))" for tid rid
    by (rule ws_ops_wf(1) [OF tx_writes_wf [OF wf]])
  have "tx_wf (tx\<lparr>tx_provisional := om_put tid n (tx_provisional tx),
      tx_writes := snd (ws_insert tid rid r (tx_writes tx))\<rparr>)" for tid n rid
    using wf ws by (simp add: tx_wf_def om_wf_put)
  then show ?thesis
    using wf by (simp add: tx_insert_def Let_def try_res_def case_prod_beta split: res.splits)
qed

lemma tx_update_wf [wf_intros]:
  assumes wf: "tx_wf tx"
  shows "tx_wf (snd (tx_update st name rid r tx))"
  using wf tx_set_writes_wf [OF wf ws_ops_wf(2) [OF tx_writes_wf [OF wf]]]
  by (simp add: tx_update_def Let_def try_res_def case_prod_beta observe_wf(3) split: res.splits)

lemma tx_delete_wf [wf_intros]:
  assumes wf: "tx_wf tx"
  shows "tx_wf (snd (tx_delete st name rid tx))"
  using wf tx_set_writes_wf [OF wf ws_ops_wf(3) [OF tx_writes_wf [OF wf]]]
  by (simp add: tx_delete_def Let_def try_res_def case_prod_beta observe_wf(3) split: res.splits)

lemma fold_entry_wf: "om_wf m \<Longrightarrow> om_wf (fold fold_entry xs m)"
  by (rule fold_wf) (auto simp: fold_entry_def om_wf_put om_wf_del split: option.splits write_entry.splits)

lemma ws_branch_wf [wf_intros]: "ws_wf ws \<Longrightarrow> ws_wf (ws_branch ws)"
  by (auto simp: ws_wf_def ws_branch_def intro: fold_entry_wf split: option.splits)

lemma ws_absorb_wf [wf_intros]: "ws_wf ws \<Longrightarrow> ws_wf (ws_absorb child ws)"
  unfolding ws_absorb_def
  by (auto intro!: fold_wf [where P = ws_wf] absorb_entry_wf ws_set_wf split: prod.splits)

lemma raise_counters_wf: "om_wf m \<Longrightarrow> om_wf (fold raise_counter xs m)"
  by (rule fold_wf) (auto simp: raise_counter_def Let_def om_wf_put)

lemma tx_nested_wf [wf_intros]:
  assumes "tx_wf tx" and "tx_wf other"
  shows "tx_wf (snd (branch_of other tx))" and "tx_wf (snd (tx_absorb other tx))"
  using assms
  by (simp_all add: branch_of_def tx_absorb_def try_res_def tx_wf_def ws_branch_wf ws_absorb_wf
      rs_absorb_wf raise_counters_wf split: res.splits)

lemma tx_end_wf [wf_intros]:
  assumes "tx_wf tx"
  shows "tx_wf (snd (tx_abort tx))" and "tx_wf (fst (snd (tx_commit tx st)))"
  using assms by (auto simp: tx_abort_def tx_commit_def tx_wf_def
      split: transaction_state.splits res.splits prod.splits)

text \<open>Every state of a handle that starts fresh, with nested handles that are themselves sound.\<close>

lemma rs_truncate_wf:
  assumes wf: "rs_wf rs" and ok: "rs_truncate_to n rs = Ok rs'"
  shows "rs_wf rs'"
proof -
  let ?o = "rs_insert_order rs"
  have rs': "rs' = rs\<lparr>rs_entries := fold om_del (drop n ?o) (rs_entries rs), rs_insert_order := take n ?o\<rparr>"
    using ok by (auto simp: rs_truncate_to_def split: if_splits)
  have o: "distinct (take n ?o @ drop n ?o)" "set ?o = fst ` set (rs_entries rs)"
    using wf by (simp_all add: rs_wf_def)
  have "set ?o = set (take n ?o) \<union> set (drop n ?o)" by (metis append_take_drop_id set_append)
  then have "om_get (fold om_del (drop n ?o) (rs_entries rs)) k = None \<longleftrightarrow> k \<notin> set (take n ?o)" for k
    using o om_get_None [of "rs_entries rs" k] by (auto simp: om_get_fold_del simp del: append_take_drop_id)
  then have "fst ` set (fold om_del (drop n ?o) (rs_entries rs)) = set (take n ?o)"
    using om_get_None [of "fold om_del (drop n ?o) (rs_entries rs)"] by blast
  with wf o show ?thesis by (simp add: rs' rs_wf_def om_wf_fold_del)
qed

lemma tx_rollback_wf [wf_intros]:
  assumes "tx_wf tx" and "tx_wf old" and "tx_rollback (tx_snapshot_of old) tx = Ok tx'"
  shows "tx_wf tx'"
  using assms rs_truncate_wf by (auto simp: tx_rollback_def tx_snapshot_of_def tx_wf_def bind_res_eq_Ok)

inductive tx_reach :: "transaction \<Rightarrow> bool" where
  fresh: "tx_reach (tx_new tid)"
| read: "tx_reach tx \<Longrightarrow> tx_reach (snd (tx_get st name rid tx))"
| probe: "tx_reach tx \<Longrightarrow> tx_reach (snd (tx_contains st name rid tx))"
| scan: "tx_reach tx \<Longrightarrow> tx_reach (snd (tx_scan st name tx))"
| unique: "tx_reach tx \<Longrightarrow> tx_reach (snd (tx_lookup_unique st name ix key tx))"
| look: "tx_reach tx \<Longrightarrow> tx_reach (snd (tx_lookup_index st name ix key tx))"
| ins: "tx_reach tx \<Longrightarrow> tx_reach (snd (tx_insert st name r tx))"
| upd: "tx_reach tx \<Longrightarrow> tx_reach (snd (tx_update st name rid r tx))"
| del: "tx_reach tx \<Longrightarrow> tx_reach (snd (tx_delete st name rid tx))"
| branch: "tx_reach tx \<Longrightarrow> tx_reach parent \<Longrightarrow> tx_reach (snd (branch_of parent tx))"
| absorb: "tx_reach tx \<Longrightarrow> tx_reach child \<Longrightarrow> tx_reach (snd (tx_absorb child tx))"
| rollback: "tx_reach tx \<Longrightarrow> tx_reach old \<Longrightarrow> tx_rollback (tx_snapshot_of old) tx = Ok tx' \<Longrightarrow> tx_reach tx'"
| abort: "tx_reach tx \<Longrightarrow> tx_reach (snd (tx_abort tx))"
| commit: "tx_reach tx \<Longrightarrow> tx_reach (fst (snd (tx_commit tx st)))"

lemma tx_reach_wf: "tx_reach tx \<Longrightarrow> tx_wf tx"
proof (induction rule: tx_reach.induct)
  case (rollback tx old tx')
  from tx_rollback_wf [OF rollback.IH rollback.hyps(3)] show ?case .
qed (assumption | rule tx_new_wf tx_reads_wf tx_insert_wf tx_update_wf tx_delete_wf tx_nested_wf tx_end_wf)+

section \<open>Reading one's own writes\<close>

lemma tx_update_visible:
  assumes wf: "tx_wf tx" and ok: "tx_update st name rid r tx = (Ok (), tx')"
  shows "fst (tx_get st name rid tx') = Ok (Some r)"
proof -
  let ?upd = "\<lambda>t. ws_update (table_id_of t) rid (is_provisional rid) r (tx_writes tx)"
  obtain t where act: "ensure_active tx = Ok ()" and t: "resolve_table st name = Ok t"
    and upd: "fst (?upd t) = Ok ()"
    and tx': "tx' = capture_version t rid (\<not> ws_contains (tx_writes tx) (table_id_of t) rid)
      (tx\<lparr>tx_writes := snd (?upd t)\<rparr>)"
    using ok by (auto simp: tx_update_def try_res_Ok Let_def case_prod_beta)
  have f: "tx_writes tx' = snd (?upd t)" "tx_state tx' = tx_state tx"
    by (simp_all add: tx' capture_version_def observe_row_def)
  have "?upd t = (Ok (), snd (?upd t))" using upd by (simp add: prod_eq_iff)
  from ws_update_view [OF tx_writes_wf [OF wf] this, of "table_id_of t" rid]
  have "\<exists>e. ws_get (snd (?upd t)) (table_id_of t) rid = Some e \<and> entry_row e = Some r"
    by (auto split: option.splits write_entry.splits)
  moreover have "ensure_active tx' = Ok ()" using act f by (simp add: ensure_active_def)
  ultimately show ?thesis using t f by (auto simp: tx_get_def)
qed

lemma tx_insert_visible:
  assumes wf: "tx_wf tx" and ok: "tx_insert st name r tx = (Ok rid, tx')"
  shows "fst (tx_get st name rid tx') = Ok (Some r)" and "is_provisional rid"
proof -
  let ?ins = "\<lambda>t. ws_insert (table_id_of t) rid r (tx_writes tx)"
  obtain t n where act: "ensure_active tx = Ok ()" and t: "resolve_table st name = Ok t"
    and ins: "fst (?ins t) = Ok ()" and rid: "rid = provisional_row_id n"
    and tx': "tx_writes tx' = snd (?ins t)" "tx_state tx' = tx_state tx"
    using ok by (auto simp: tx_insert_def try_res_Ok Let_def case_prod_beta)
  have "ws_get (snd (?ins t)) (table_id_of t) rid = Some (WInsert r)"
    using ins tx_writes_wf [OF wf] by (auto simp: ws_insert_def ws_get_set split: if_splits)
  moreover have "ensure_active tx' = Ok ()" using act tx' by (simp add: ensure_active_def)
  ultimately show "fst (tx_get st name rid tx') = Ok (Some r)" using t tx' by (auto simp: tx_get_def)
  have "bit (and rid provisional_flag) 63"
    by (simp add: rid provisional_row_id_def provisional_flag_def bit_simps)
  then show "is_provisional rid" by (auto simp: is_provisional_def)
qed

section \<open>What user code can do to a transaction\<close>

text \<open>User code that holds a transaction only reads and writes through it: the transaction keeps its
  identity and state, stays reachable, and its row observations grow.\<close>

definition tx_grows :: "transaction \<Rightarrow> transaction \<Rightarrow> bool" where
  "tx_grows tx tx' \<longleftrightarrow>
     tx_id tx' = tx_id tx \<and> tx_state tx' = tx_state tx \<and> (tx_reach tx \<longrightarrow> tx_reach tx') \<and>
     (rs_wf (tx_reads tx) \<longrightarrow> rs_extends (tx_reads tx) (tx_reads tx'))"

lemma rs_extends_refl: "rs_wf rs \<Longrightarrow> rs_extends rs rs"
  by (simp add: rs_extends_def)

lemma tx_grows_refl [simp, intro]: "tx_grows tx tx"
  by (simp add: tx_grows_def rs_extends_refl)

lemma tx_grows_trans [trans]:
  assumes "tx_grows a b" and "tx_grows b c"
  shows "tx_grows a c"
proof -
  have "rs_extends (tx_reads a) (tx_reads c)" if "rs_wf (tx_reads a)"
  proof -
    have ab: "rs_extends (tx_reads a) (tx_reads b)" using assms(1) that by (simp add: tx_grows_def)
    then have "rs_extends (tx_reads b) (tx_reads c)" using assms(2) by (simp add: tx_grows_def rs_extends_def)
    with ab show ?thesis by (auto simp: rs_extends_def)
  qed
  with assms show ?thesis by (simp add: tx_grows_def)
qed

lemma tx_growsI:
  assumes "tx_id tx' = tx_id tx" "tx_state tx' = tx_state tx" "tx_reach tx \<Longrightarrow> tx_reach tx'"
    and "tx_reads tx' = tx_reads tx \<or> (\<exists>tid rid v. tx_reads tx' = rs_record tid rid v (tx_reads tx)) \<or>
      (\<exists>tid v. tx_reads tx' = rs_record_table tid v (tx_reads tx))"
  shows "tx_grows tx tx'"
proof -
  have "rs_extends (tx_reads tx) (tx_reads tx')" if "rs_wf (tx_reads tx)"
    using assms(4) rs_extends_refl [OF that] rs_record_extends [OF rs_extends_refl [OF that]]
      rs_record_table_extends [OF rs_extends_refl [OF that]] by (elim disjE exE) simp_all
  with assms(1-3) show ?thesis by (simp add: tx_grows_def)
qed

lemmas tx_user_defs = tx_get_def tx_contains_def tx_scan_def tx_lookup_unique_def tx_lookup_index_def
  tx_insert_def tx_update_def tx_delete_def observe_row_def observe_table_def capture_version_def Let_def try_res_def

lemma tx_user_grows:
  "tx_grows tx (snd (tx_get st name rid tx))" "tx_grows tx (snd (tx_contains st name rid tx))"
  "tx_grows tx (snd (tx_scan st name tx))" "tx_grows tx (snd (tx_lookup_unique st name ix key tx))"
  "tx_grows tx (snd (tx_lookup_index st name ix key tx))" "tx_grows tx (snd (tx_insert st name r tx))"
  "tx_grows tx (snd (tx_update st name rid r tx))" "tx_grows tx (snd (tx_delete st name rid tx))"
proof -
  show "tx_grows tx (snd (tx_get st name rid tx))"
    by (rule tx_growsI, (auto simp: tx_user_defs split: res.splits option.splits)[2], erule tx_reach.read)
      (auto simp: tx_user_defs split: res.splits option.splits)
  show "tx_grows tx (snd (tx_contains st name rid tx))"
    by (rule tx_growsI, (auto simp: tx_user_defs split: res.splits option.splits)[2], erule tx_reach.probe)
      (auto simp: tx_user_defs split: res.splits option.splits)
  show "tx_grows tx (snd (tx_scan st name tx))"
    by (rule tx_growsI, (auto simp: tx_user_defs split: res.splits option.splits)[2], erule tx_reach.scan)
      (auto simp: tx_user_defs split: res.splits option.splits)
  show "tx_grows tx (snd (tx_lookup_unique st name ix key tx))"
    by (rule tx_growsI, (auto simp: tx_user_defs split: res.splits option.splits)[2], erule tx_reach.unique)
      (auto simp: tx_user_defs split: res.splits option.splits)
  show "tx_grows tx (snd (tx_lookup_index st name ix key tx))"
    by (rule tx_growsI, (auto simp: tx_user_defs split: res.splits option.splits)[2], erule tx_reach.look)
      (auto simp: tx_user_defs split: res.splits option.splits)
  show "tx_grows tx (snd (tx_insert st name r tx))"
    by (rule tx_growsI, (auto simp: tx_user_defs split: res.splits option.splits prod.splits)[2], erule tx_reach.ins)
      (auto simp: tx_user_defs split: res.splits option.splits prod.splits)
  show "tx_grows tx (snd (tx_update st name rid r tx))"
    by (rule tx_growsI, (auto simp: tx_user_defs split: res.splits option.splits prod.splits)[2], erule tx_reach.upd)
      (auto simp: tx_user_defs split: res.splits option.splits prod.splits)
  show "tx_grows tx (snd (tx_delete st name rid tx))"
    by (rule tx_growsI, (auto simp: tx_user_defs split: res.splits option.splits prod.splits)[2], erule tx_reach.del)
      (auto simp: tx_user_defs split: res.splits option.splits prod.splits)
qed

text \<open>Rolling back to a snapshot never panics, restores the writes exactly, and is itself such a step.\<close>

lemma tx_rollback_grown:
  assumes wf: "tx_wf old" and grown: "tx_grows old tx"
  shows "\<exists>tx'. tx_rollback (tx_snapshot_of old) tx = Ok tx' \<and> tx_grows old tx' \<and>
    tx_writes tx' = tx_writes old \<and> tx_provisional tx' = tx_provisional old \<and>
    rs_insert_order (tx_reads tx') = rs_insert_order (tx_reads old)"
proof -
  have rs: "rs_wf (tx_reads old)" using wf by (simp add: tx_wf_def)
  with grown have ext: "rs_extends (tx_reads old) (tx_reads tx)" by (simp add: tx_grows_def)
  obtain reads where r: "rs_truncate_to (rs_entry_count (tx_reads old)) (tx_reads tx) = Ok reads" "rs_wf reads"
    "rs_insert_order reads = rs_insert_order (tx_reads old)"
    using rs_truncate_extends [OF rs ext] by blast
  let ?tx = "tx\<lparr>tx_writes := tx_writes old, tx_reads := reads, tx_provisional := tx_provisional old\<rparr>"
  have ok: "tx_rollback (tx_snapshot_of old) tx = Ok ?tx"
    by (simp add: tx_rollback_def tx_snapshot_of_def r)
  moreover have "tx_grows old ?tx"
    using grown r tx_reach.rollback [OF _ _ ok] by (auto simp: tx_grows_def rs_extends_def)
  ultimately show ?thesis using r(3) by auto
qed

end
