(* ===== verification/Storage_History.thy ===== *)
theory Storage_History
  imports Storage_Table
begin

text \<open>
  Histories of a storage table: any sequence of calls of its mutating operations. The two facts
  the optimistic transaction engine rests on are proved here. If a table's mutation epoch is the
  same before and after a history, the rows are the same; if a row's version is the same before
  and after, the row is the same (and it has not been deleted and recreated). Both hold for
  histories short enough that no 64-bit counter wraps.
\<close>

datatype storage_op = SInsert row | SUpdate row_id row | SDelete row_id | SDrain

fun storage_exec :: "storage_op \<Rightarrow> storage_table \<Rightarrow> storage_table" where
  "storage_exec (SInsert r) s = snd (storage_insert r s)"
| "storage_exec (SUpdate rid r) s = snd (storage_update rid r s)"
| "storage_exec (SDelete rid) s = snd (storage_delete rid s)"
| "storage_exec SDrain s = snd (storage_drain_changes s)"

definition storage_run :: "storage_op list \<Rightarrow> storage_table \<Rightarrow> storage_table" where
  "storage_run ops s = fold storage_exec ops s"

lemma storage_run_simps [simp]:
  "storage_run [] s = s"
  "storage_run (x # ops) s = storage_run ops (storage_exec x s)"
  by (simp_all add: storage_run_def)

text \<open>The epoch advances with every change of the rows.\<close>

lemma storage_exec_epoch:
  "st_epoch (storage_exec x s) = st_epoch s \<and> st_rows (storage_exec x s) = st_rows s \<or>
   st_epoch (storage_exec x s) = st_epoch s + 1"
  by (cases x) (auto simp: storage_insert_eq storage_update_eq storage_delete_eq
      storage_drain_changes_def version_next_def split: option.splits)

lemma storage_run_epoch:
  "\<exists>k \<le> length ops. st_epoch (storage_run ops s) = st_epoch s + word_of_nat k \<and>
     (k = 0 \<longrightarrow> st_rows (storage_run ops s) = st_rows s)"
proof (induction ops arbitrary: s)
  case Nil
  then show ?case by simp
next
  case (Cons x ops)
  let ?t = "storage_exec x s"
  from Cons.IH [of ?t] obtain k where k: "k \<le> length ops"
    "st_epoch (storage_run ops ?t) = st_epoch ?t + word_of_nat k"
    "k = 0 \<longrightarrow> st_rows (storage_run ops ?t) = st_rows ?t"
    by blast
  from storage_exec_epoch [of x s] show ?case
  proof
    assume "st_epoch ?t = st_epoch s \<and> st_rows ?t = st_rows s"
    with k show ?thesis by (intro exI [of _ k]) auto
  next
    assume "st_epoch ?t = st_epoch s + 1"
    with k show ?thesis by (intro exI [of _ "Suc k"]) (auto simp: algebra_simps)
  qed
qed

lemma epoch_unchanged_rows_unchanged:
  assumes "length ops < 2 ^ 64" and "st_epoch (storage_run ops s) = st_epoch s"
  shows "st_rows (storage_run ops s) = st_rows s"
proof -
  obtain k where k: "k \<le> length ops" "st_epoch (storage_run ops s) = st_epoch s + word_of_nat k"
    "k = 0 \<longrightarrow> st_rows (storage_run ops s) = st_rows s"
    using storage_run_epoch by blast
  with assms(2) have "(word_of_nat k :: u64) = 0" by simp
  moreover have "unat (word_of_nat k :: u64) = k"
    using k(1) assms(1) by (intro of_nat_inverse [OF refl]) simp
  ultimately have "k = 0" by simp
  with k(3) show ?thesis by simp
qed

text \<open>One step, seen from a row that exists before it.\<close>

definition row_later :: "nat \<Rightarrow> stored_row \<Rightarrow> stored_row option \<Rightarrow> bool" where
  "row_later n stored now \<longleftrightarrow>
     (case now of None \<Rightarrow> True
      | Some later \<Rightarrow> \<exists>k \<le> n. sr_version later = sr_version stored + word_of_nat k \<and>
          (k = 0 \<longrightarrow> later = stored))"

lemma storage_exec_bounds:
  assumes "storage_wf s" and "ids_left s"
  shows "storage_wf (storage_exec x s)"
    and "st_next_row_id s \<le> st_next_row_id (storage_exec x s)"
    and "unat (st_next_row_id (storage_exec x s)) \<le> Suc (unat (st_next_row_id s))"
proof -
  show "storage_wf (storage_exec x s)"
    using assms by (cases x) (simp_all add: wf_intros)
  have "unat (st_next_row_id s + 1) = Suc (unat (st_next_row_id s))"
    using assms(2) unat_version_next [of "st_next_row_id s"]
    by (simp add: ids_left_def version_next_def)
  then show "st_next_row_id s \<le> st_next_row_id (storage_exec x s)"
    and "unat (st_next_row_id (storage_exec x s)) \<le> Suc (unat (st_next_row_id s))"
    by (cases x; auto simp: storage_insert_eq storage_update_eq storage_delete_eq
        storage_drain_changes_def word_le_nat_alt split: option.splits)+
qed

lemma storage_exec_row:
  assumes "storage_wf s" and "storage_rows s rid = Some stored"
  shows "storage_rows (storage_exec x s) rid = None \<or>
         (\<exists>later. storage_rows (storage_exec x s) rid = Some later \<and>
            (later = stored \<or> sr_version later = sr_version stored + 1))"
proof -
  have om: "om_wf (st_rows s)" using assms(1) by simp
  have "rid \<noteq> st_next_row_id s"
    using storage_wfD(2) [OF assms] by simp
  then show ?thesis
    using assms(2)
    by (cases x) (auto simp: storage_insert_eq storage_update_eq storage_delete_eq
        storage_drain_changes_def om_get_put [OF om] om_get_del version_next_def
        split: option.splits)
qed

lemma storage_exec_absent:
  assumes "storage_wf s" and "storage_rows s rid = None" and "rid < st_next_row_id s"
  shows "storage_rows (storage_exec x s) rid = None"
proof -
  have om: "om_wf (st_rows s)" using assms(1) by simp
  show ?thesis
    using assms(2,3)
    by (cases x) (auto simp: storage_insert_eq storage_update_eq storage_delete_eq
        storage_drain_changes_def om_get_put [OF om] om_get_del split: option.splits)
qed

text \<open>The invariant of a history: enough row ids are left for what is still to come.\<close>

definition history_ok :: "storage_table \<Rightarrow> nat \<Rightarrow> bool" where
  "history_ok s n \<longleftrightarrow> storage_wf s \<and> unat (st_next_row_id s) + n < 2 ^ 64"

lemma history_ok_ids_left: "history_ok s (Suc n) \<Longrightarrow> ids_left s"
  by (auto simp: history_ok_def ids_left_def unsigned_minus_1_eq_mask mask_eq_exp_minus_1)

lemma history_ok_exec: "history_ok s (Suc n) \<Longrightarrow> history_ok (storage_exec x s) n"
  using storage_exec_bounds [of s x] history_ok_ids_left [of s n]
  by (auto simp: history_ok_def)

lemma storage_run_absent:
  assumes "history_ok s (length ops)" and "storage_rows s rid = None" and "rid < st_next_row_id s"
  shows "storage_rows (storage_run ops s) rid = None"
  using assms
proof (induction ops arbitrary: s)
  case Nil
  then show ?case by simp
next
  case (Cons x ops)
  have ok: "history_ok s (Suc (length ops))" using Cons.prems(1) by simp
  then have wf: "storage_wf s" "ids_left s"
    using history_ok_ids_left by (auto simp: history_ok_def)
  have "storage_rows (storage_exec x s) rid = None"
    using Cons.prems wf(1) by (intro storage_exec_absent)
  moreover have "rid < st_next_row_id (storage_exec x s)"
    using Cons.prems(3) storage_exec_bounds(2) [OF wf, of x] by simp
  ultimately show ?case
    using Cons.IH [OF history_ok_exec [OF ok]] by simp
qed

lemma storage_run_row:
  assumes "history_ok s (length ops)" and "storage_rows s rid = Some stored"
  shows "row_later (length ops) stored (storage_rows (storage_run ops s) rid)"
  using assms
proof (induction ops arbitrary: s stored)
  case Nil
  then show ?case by (simp add: row_later_def)
next
  case (Cons x ops)
  have ok: "history_ok s (Suc (length ops))" using Cons.prems(1) by simp
  then have wf: "storage_wf s" "ids_left s"
    using history_ok_ids_left by (auto simp: history_ok_def)
  let ?t = "storage_exec x s"
  note ok' = history_ok_exec [OF ok, of x]
  from storage_exec_row [OF wf(1) Cons.prems(2), of x] show ?case
  proof
    assume gone: "storage_rows ?t rid = None"
    have "rid < st_next_row_id ?t"
      using storage_wfD(2) [OF wf(1) Cons.prems(2)] storage_exec_bounds(2) [OF wf, of x] by simp
    with storage_run_absent [OF ok' gone] show ?thesis
      by (simp add: row_later_def)
  next
    assume "\<exists>later. storage_rows ?t rid = Some later \<and>
              (later = stored \<or> sr_version later = sr_version stored + 1)"
    then obtain later where later: "storage_rows ?t rid = Some later"
      and v: "later = stored \<or> sr_version later = sr_version stored + 1" by blast
    have IH: "row_later (length ops) later (storage_rows (storage_run ops ?t) rid)"
      using Cons.IH [OF ok' later] .
    show ?thesis
    proof (cases "storage_rows (storage_run ops ?t) rid")
      case None
      then show ?thesis by (simp add: row_later_def)
    next
      case (Some final)
      with IH obtain k where k: "k \<le> length ops"
        "sr_version final = sr_version later + word_of_nat k" "k = 0 \<longrightarrow> final = later"
        by (auto simp: row_later_def)
      from v show ?thesis
      proof
        assume "later = stored"
        with k Some show ?thesis by (auto simp: row_later_def intro!: exI [of _ k])
      next
        assume "sr_version later = sr_version stored + 1"
        with k Some show ?thesis
          by (auto simp: row_later_def algebra_simps intro!: exI [of _ "Suc k"])
      qed
    qed
  qed
qed

lemma version_unchanged_row_unchanged:
  assumes ok: "history_ok s (length ops)"
    and same: "storage_version_of (storage_run ops s) rid = storage_version_of s rid"
  shows "storage_get (storage_run ops s) rid = storage_get s rid"
proof (cases "storage_rows s rid")
  case None
  with same show ?thesis by (simp add: storage_version_of_def storage_get_def)
next
  case (Some stored)
  with same obtain final where final: "storage_rows (storage_run ops s) rid = Some final"
    and v: "sr_version final = sr_version stored"
    by (auto simp: storage_version_of_def)
  from storage_run_row [OF ok Some] final obtain k where k: "k \<le> length ops"
    "sr_version final = sr_version stored + word_of_nat k" "k = 0 \<longrightarrow> final = stored"
    by (auto simp: row_later_def)
  with v have "(word_of_nat k :: u64) = 0" by simp
  moreover have "unat (word_of_nat k :: u64) = k"
    using k(1) ok by (intro of_nat_inverse [OF refl]) (simp add: history_ok_def)
  ultimately have "k = 0" by simp
  with k(3) final Some show ?thesis by (simp add: storage_get_def)
qed

end
