(* ===== verification/Core_Binary.thy ===== *)
theory Core_Binary
  imports Core_Schema
begin

text \<open>
  \<^verbatim>\<open>nexum-core/src/binary.rs\<close>: the deterministic little-endian encoding of integers, strings,
  values, rows and schemas. An encoder returns the bytes it appends to \<^verbatim>\<open>out\<close>; a decoder returns
  the value and the unread rest of the cursor. The pairs are interpretations of the locale
  \<open>codec\<close>, whose lemmas give the round trips.
\<close>

section \<open>Fixed-width little-endian integers\<close>

definition to_le :: "nat \<Rightarrow> 'a::len word \<Rightarrow> u8 list" where
  "to_le n w = map (\<lambda>i. ucast (drop_bit (8 * i) w)) [0..<n]"

fun from_le :: "u8 list \<Rightarrow> 'a::len word" where
  "from_le [] = 0"
| "from_le (b # bs) = or (ucast b) (push_bit 8 (from_le bs))"

lemma length_to_le [simp]: "length (to_le n w) = n"
  by (simp add: to_le_def)

lemma bit_from_le:
  "bit (from_le bs :: 'a::len word) k \<longleftrightarrow>
     k < LENGTH('a) \<and> k div 8 < length bs \<and> bit (bs ! (k div 8)) (k mod 8)"
proof (induction bs arbitrary: k)
  case Nil
  then show ?case by simp
next
  case (Cons b bs)
  show ?case
  proof (cases "k < 8")
    case True
    then show ?thesis
      by (auto simp: bit_or_iff bit_ucast_iff bit_push_bit_iff Cons.IH)
  next
    case False
    then have k: "k div 8 = Suc ((k - 8) div 8)" "(k - 8) mod 8 = k mod 8"
      by (simp_all add: le_div_geq le_mod_geq)
    from False have "\<not> bit b k"
      by (auto dest: bit_imp_le_length)
    with False k show ?thesis
      by (auto simp: bit_or_iff bit_ucast_iff bit_push_bit_iff Cons.IH)
  qed
qed

lemma from_le_to_le:
  assumes "LENGTH('a) = 8 * n"
  shows "from_le (to_le n w) = (w :: 'a::len word)"
proof (rule bit_word_eqI)
  fix k assume k: "k < LENGTH('a)"
  then have "k div 8 < n" using assms by simp
  then have "bit (to_le n w ! (k div 8)) (k mod 8) \<longleftrightarrow> bit w (8 * (k div 8) + k mod 8)"
    by (simp add: to_le_def bit_ucast_iff bit_drop_bit_eq)
  with k \<open>k div 8 < n\<close> show "bit (from_le (to_le n w) :: 'a word) k = bit w k"
    by (simp add: bit_from_le)
qed

lemma from_le_to_le_widths [simp]:
  "from_le (to_le 2 (a :: u16)) = a"
  "from_le (to_le 4 (b :: u32)) = b"
  "from_le (to_le 8 (c :: u64)) = c"
  by (simp_all add: from_le_to_le)

definition take_bytes :: "nat \<Rightarrow> u8 list decoder" where
  "take_bytes n c = (if length c < n then Err Internal else Ok (take n c, drop n c))"

lemma take_bytes_append [codec_simps]: "length bs = n \<Longrightarrow> take_bytes n (bs @ c) = Ok (bs, c)"
  by (auto simp: take_bytes_def)

lemma take_bytes_not_Panic [simp]: "take_bytes n c \<noteq> Panic"
  by (simp add: take_bytes_def)

definition put_u64 :: "u64 \<Rightarrow> u8 list" where
  "put_u64 v = to_le 8 v"

definition get_u64 :: "u64 decoder" where
  "get_u64 c = bind_res (take_bytes 8 c) (\<lambda>(bs, c). Ok (from_le bs, c))"

definition take_byte :: "u8 decoder" where
  "take_byte c = bind_res (take_bytes 1 c) (\<lambda>(bs, c). Ok (hd bs, c))"

definition short :: "u16 decoder" where
  "short c = bind_res (take_bytes 2 c) (\<lambda>(bs, c). Ok (from_le bs, c))"

definition quad :: "u32 decoder" where
  "quad c = bind_res (take_bytes 4 c) (\<lambda>(bs, c). Ok (from_le bs, c))"

definition long :: "u64 decoder" where
  "long c = bind_res (take_bytes 8 c) (\<lambda>(bs, c). Ok (from_le bs, c))"

lemma fixed_width_enc [codec_simps]:
  "take_byte (b # c) = Ok (b, c)"
  "get_u64 (to_le 8 (x :: u64) @ c) = Ok (x, c)"
  "short (to_le 2 (h :: u16) @ c) = Ok (h, c)"
  "quad (to_le 4 (q :: u32) @ c) = Ok (q, c)"
  "long (to_le 8 (x :: u64) @ c) = Ok (x, c)"
  by (simp_all add: take_byte_def get_u64_def short_def quad_def long_def take_bytes_append)
     (simp add: take_bytes_def)

lemma fixed_width_not_Panic [simp]:
  "take_byte c \<noteq> Panic" "get_u64 c \<noteq> Panic" "short c \<noteq> Panic" "quad c \<noteq> Panic"
  "long c \<noteq> Panic"
  by (auto simp: take_byte_def get_u64_def short_def quad_def long_def bind_res_not_Panic)

interpretation u64c: codec put_u64 get_u64 "\<lambda>_. True"
  by unfold_locales (simp add: put_u64_def codec_simps)

section \<open>Length-prefixed bytes and strings\<close>

definition len_u64 :: "'a list \<Rightarrow> u64" where
  "len_u64 xs = word_of_nat (length xs)"

lemma unat_len_u64: "length xs < 2 ^ 64 \<Longrightarrow> unat (len_u64 xs) = length xs"
  by (simp add: len_u64_def of_nat_inverse)

definition put_bytes :: "u8 list \<Rightarrow> u8 list" where
  "put_bytes bs = put_u64 (len_u64 bs) @ bs"

definition get_bytes :: "u8 list decoder" where
  "get_bytes c = bind_res (get_u64 c) (\<lambda>(len, c). take_bytes (unat len) c)"

definition byte_of_char :: "char \<Rightarrow> u8" where
  "byte_of_char x = word_of_nat (of_char x)"

definition char_of_byte :: "u8 \<Rightarrow> char" where
  "char_of_byte b = char_of (unat b)"

lemma unat_byte_of_char: "unat (byte_of_char x) = of_char x"
proof -
  have "(of_char x :: nat) < 256"
    using of_char_mod_256 [of x, where 'a = nat] by (metis mod_less_divisor zero_less_numeral)
  then show ?thesis by (simp add: byte_of_char_def of_nat_inverse)
qed

lemma char_byte_inverse [simp]: "char_of_byte (byte_of_char x) = x"
  by (simp add: char_of_byte_def unat_byte_of_char)

definition put_str :: "string \<Rightarrow> u8 list" where
  "put_str s = put_bytes (map byte_of_char s)"

definition get_str :: "string decoder" where
  "get_str c = bind_res (get_bytes c) (\<lambda>(bs, c).
     if utf8_bytes (map unat bs) then Ok (map char_of_byte bs, c) else Err Internal)"

definition get_string :: "string decoder" where
  "get_string c = bind_res (get_bytes c) (\<lambda>(bs, c).
     if utf8_bytes (map unat bs) then Ok (map char_of_byte bs, c) else Err Internal)"

lemma get_bytes_not_Panic [simp]: "get_bytes c \<noteq> Panic"
  by (auto simp: get_bytes_def bind_res_not_Panic)

lemma get_str_not_Panic [simp]: "get_str c \<noteq> Panic"
  by (auto simp: get_str_def bind_res_not_Panic)

interpretation bytesc: codec put_bytes get_bytes "\<lambda>bs. alloc_fits 1 (length bs)"
proof unfold_locales
  fix x rest assume "alloc_fits 1 (length (x :: u8 list))"
  then have "unat (len_u64 x) = length x"
    by (rule unat_len_u64 [OF alloc_fits_u64]) simp
  then show "get_bytes (put_bytes x @ rest) = Ok (x, rest)"
    by (simp add: get_bytes_def put_bytes_def u64c.dec_enc take_bytes_append)
qed

interpretation strc: codec put_str get_str str_ok
proof unfold_locales
  fix s rest assume s: "str_ok s"
  have "get_bytes (put_str s @ rest) = Ok (map byte_of_char s, rest)"
    using s unfolding put_str_def by (intro bytesc.dec_enc) (simp add: str_ok_def)
  with s show "get_str (put_str s @ rest) = Ok (s, rest)"
    by (simp add: get_str_def str_ok_def utf8_def o_def unat_byte_of_char)
qed

lemma get_string_eq: "get_string = get_str"
  by (simp add: fun_eq_iff get_string_def get_str_def)

definition put_bool :: "bool \<Rightarrow> u8 list" where
  "put_bool b = [if b then 1 else 0]"

definition get_bool :: "bool decoder" where
  "get_bool c = bind_res (take_byte c) (\<lambda>(b, c).
     if b = 0 then Ok (False, c) else if b = 1 then Ok (True, c) else Err Internal)"

interpretation boolc: codec put_bool get_bool "\<lambda>_. True"
  by unfold_locales (simp add: put_bool_def get_bool_def codec_simps)

lemma get_bool_not_Panic [simp]: "get_bool c \<noteq> Panic"
  by (auto simp: get_bool_def bind_res_not_Panic)

section \<open>Column types\<close>

fun column_type_tag :: "column_type \<Rightarrow> u8" where
  "column_type_tag TyBool = 0"
| "column_type_tag TyI8 = 1"
| "column_type_tag TyI16 = 2"
| "column_type_tag TyI32 = 3"
| "column_type_tag TyI64 = 4"
| "column_type_tag TyU8 = 5"
| "column_type_tag TyU16 = 6"
| "column_type_tag TyU32 = 7"
| "column_type_tag TyU64 = 8"
| "column_type_tag TyF32 = 9"
| "column_type_tag TyF64 = 10"
| "column_type_tag TyString = 11"
| "column_type_tag TyBytes = 12"

definition column_type_from_tag :: "u8 \<Rightarrow> column_type res" where
  "column_type_from_tag t =
     (if t = 0 then Ok TyBool
      else if t = 1 then Ok TyI8
      else if t = 2 then Ok TyI16
      else if t = 3 then Ok TyI32
      else if t = 4 then Ok TyI64
      else if t = 5 then Ok TyU8
      else if t = 6 then Ok TyU16
      else if t = 7 then Ok TyU32
      else if t = 8 then Ok TyU64
      else if t = 9 then Ok TyF32
      else if t = 10 then Ok TyF64
      else if t = 11 then Ok TyString
      else if t = 12 then Ok TyBytes
      else Err Internal)"

lemma column_type_from_tag_tag [codec_simps]: "column_type_from_tag (column_type_tag ty) = Ok ty"
  by (cases ty) (simp_all add: column_type_from_tag_def)

lemma column_type_from_tag_not_Panic [simp]: "column_type_from_tag t \<noteq> Panic"
  by (simp add: column_type_from_tag_def)

definition put_column_type :: "column_type \<Rightarrow> u8 list" where
  "put_column_type ty = [column_type_tag ty]"

definition get_column_type :: "column_type decoder" where
  "get_column_type c = bind_res (take_byte c) (\<lambda>(t, c).
     bind_res (column_type_from_tag t) (\<lambda>ty. Ok (ty, c)))"

interpretation ctypec: codec put_column_type get_column_type "\<lambda>_. True"
  by unfold_locales (simp add: put_column_type_def get_column_type_def codec_simps)

lemma get_column_type_not_Panic [simp]: "get_column_type c \<noteq> Panic"
  by (auto simp: get_column_type_def bind_res_not_Panic)

section \<open>Values, versions and rows\<close>

fun put_value :: "value_t \<Rightarrow> u8 list" where
  "put_value (VBool v) = put_column_type TyBool @ put_bool v"
| "put_value (VI8 v) = put_column_type TyI8 @ [v]"
| "put_value (VI16 v) = put_column_type TyI16 @ to_le 2 v"
| "put_value (VI32 v) = put_column_type TyI32 @ to_le 4 v"
| "put_value (VI64 v) = put_column_type TyI64 @ to_le 8 v"
| "put_value (VU8 v) = put_column_type TyU8 @ [v]"
| "put_value (VU16 v) = put_column_type TyU16 @ to_le 2 v"
| "put_value (VU32 v) = put_column_type TyU32 @ to_le 4 v"
| "put_value (VU64 v) = put_column_type TyU64 @ to_le 8 v"
| "put_value (VF32 v) = put_column_type TyF32 @ to_le 4 v"
| "put_value (VF64 v) = put_column_type TyF64 @ to_le 8 v"
| "put_value (VString v) = put_column_type TyString @ put_str v"
| "put_value (VBytes v) = put_column_type TyBytes @ put_bytes v"

definition map_fst :: "('a \<Rightarrow> 'b) \<Rightarrow> ('a \<times> 'c) res \<Rightarrow> ('b \<times> 'c) res" where
  "map_fst f m = bind_res m (\<lambda>(x, c). Ok (f x, c))"

lemma map_fst_Ok [simp]: "map_fst f (Ok (x, c)) = Ok (f x, c)"
  by (simp add: map_fst_def)

lemma map_fst_not_Panic [simp]: "map_fst f m \<noteq> Panic \<longleftrightarrow> m \<noteq> Panic"
  by (cases m) (auto simp: map_fst_def)

definition get_value :: "value_t decoder" where
  "get_value c = bind_res (get_column_type c) (\<lambda>(ty, c).
     (case ty of
        TyBool \<Rightarrow> map_fst VBool (get_bool c)
      | TyI8 \<Rightarrow> map_fst VI8 (take_byte c)
      | TyI16 \<Rightarrow> map_fst VI16 (short c)
      | TyI32 \<Rightarrow> map_fst VI32 (quad c)
      | TyI64 \<Rightarrow> map_fst VI64 (long c)
      | TyU8 \<Rightarrow> map_fst VU8 (take_byte c)
      | TyU16 \<Rightarrow> map_fst VU16 (short c)
      | TyU32 \<Rightarrow> map_fst VU32 (quad c)
      | TyU64 \<Rightarrow> map_fst VU64 (long c)
      | TyF32 \<Rightarrow> map_fst VF32 (quad c)
      | TyF64 \<Rightarrow> map_fst VF64 (long c)
      | TyString \<Rightarrow> map_fst VString (get_str c)
      | TyBytes \<Rightarrow> map_fst VBytes (get_bytes c)))"

interpretation valuec: codec put_value get_value value_ok
proof unfold_locales
  fix v rest assume "value_ok v"
  then show "get_value (put_value v @ rest) = Ok (v, rest)"
    by (cases v) (simp_all add: get_value_def codec_simps ctypec.dec_enc boolc.dec_enc
        strc.dec_enc bytesc.dec_enc)
qed

lemma get_value_not_Panic [simp]: "get_value c \<noteq> Panic"
  by (auto simp: get_value_def bind_res_not_Panic split: column_type.splits)

definition put_version :: "version \<Rightarrow> u8 list" where
  "put_version v = put_u64 v"

definition get_version :: "version decoder" where
  "get_version c = get_u64 c"

interpretation versionc: codec put_version get_version "\<lambda>_. True"
  by unfold_locales (simp add: put_version_def get_version_def u64c.dec_enc)

definition put_row :: "row \<Rightarrow> u8 list" where
  "put_row r = put_u64 (len_u64 (row_values r)) @ concat (map put_value (row_values r))"

text \<open>The count comes from the input; \<^verbatim>\<open>try_reserve\<close> turns one that no allocation can hold into an
  error.\<close>

definition get_row :: "row decoder" where
  "get_row c = bind_res (get_u64 c) (\<lambda>(count, c).
     if \<not> alloc_fits size_of_value (unat count) then Err Internal
     else map_fst Row (get_n get_value (unat count) c))"

lemma unat_len_alloc: "alloc_fits k (length xs) \<Longrightarrow> 0 < k \<Longrightarrow> unat (len_u64 xs) = length xs"
  by (intro unat_len_u64 alloc_fits_u64 [of k])

interpretation rowc: codec put_row get_row row_ok
proof unfold_locales
  fix r rest assume "row_ok r"
  then have vs: "\<forall>v \<in> set (row_values r). value_ok v"
    and fits: "alloc_fits size_of_value (length (row_values r))"
    by (auto simp: row_ok_def)
  from fits have "unat (len_u64 (row_values r)) = length (row_values r)"
    by (rule unat_len_alloc) (simp add: size_of_value_def)
  with vs fits show "get_row (put_row r @ rest) = Ok (r, rest)"
    by (simp add: get_row_def put_row_def u64c.dec_enc valuec.get_n_enc)
qed

lemma get_row_not_Panic [simp]: "get_row c \<noteq> Panic"
  by (auto simp: get_row_def bind_res_not_Panic get_n_not_Panic)

section \<open>Schemas\<close>

definition put_strs :: "string list \<Rightarrow> u8 list" where
  "put_strs names = put_u64 (len_u64 names) @ concat (map put_str names)"

definition put_column :: "column_def \<Rightarrow> u8 list" where
  "put_column c = put_str (cd_name c) @ put_column_type (cd_ty c)"

definition put_index :: "index_def \<Rightarrow> u8 list" where
  "put_index i = put_str (idf_name i) @ put_bool (idf_unique i) @ put_strs (idf_columns i)"

definition put_schema :: "table_schema \<Rightarrow> u8 list" where
  "put_schema s =
     put_str (ts_name s) @
     put_u64 (len_u64 (ts_columns s)) @ concat (map put_column (ts_columns s)) @
     put_bool (ts_primary_key s \<noteq> None) @
     (case ts_primary_key s of None \<Rightarrow> [] | Some pk \<Rightarrow> put_strs pk) @
     put_u64 (len_u64 (ts_indexes s)) @ concat (map put_index (ts_indexes s))"

text \<open>\<^verbatim>\<open>Vec::with_capacity(count)\<close> for a vector of boxed strings (16 bytes each) panics when the
  capacity overflows \<^verbatim>\<open>isize::MAX\<close> bytes.\<close>

definition get_strs :: "string list decoder" where
  "get_strs c = bind_res (get_u64 c) (\<lambda>(count, c).
     if \<not> alloc_fits 16 (unat count) then Panic else get_n get_str (unat count) c)"

fun get_columns_loop :: "nat \<Rightarrow> schema_builder \<Rightarrow> schema_builder decoder" where
  "get_columns_loop 0 b c = Ok (b, c)"
| "get_columns_loop (Suc n) b c =
     bind_res (get_str c) (\<lambda>(name, c).
     bind_res (get_column_type c) (\<lambda>(ty, c).
     get_columns_loop n (builder_column name ty b) c))"

fun get_indexes_loop :: "nat \<Rightarrow> schema_builder \<Rightarrow> schema_builder decoder" where
  "get_indexes_loop 0 b c = Ok (b, c)"
| "get_indexes_loop (Suc n) b c =
     bind_res (get_str c) (\<lambda>(name, c).
     bind_res (get_bool c) (\<lambda>(unique, c).
     bind_res (get_strs c) (\<lambda>(columns, c).
     get_indexes_loop n
       (if unique then builder_unique_index name columns b else builder_index name columns b) c)))"

definition get_primary :: "schema_builder \<Rightarrow> schema_builder decoder" where
  "get_primary b c = bind_res (get_bool c) (\<lambda>(has_primary, c).
     if has_primary
     then bind_res (get_strs c) (\<lambda>(names, c). Ok (builder_primary_key names b, c))
     else Ok (b, c))"

definition get_schema :: "table_schema decoder" where
  "get_schema c =
     bind_res (get_str c) (\<lambda>(name, c).
     bind_res (get_u64 c) (\<lambda>(column_count, c).
     bind_res (get_columns_loop (unat column_count) (builder_new name) c) (\<lambda>(b, c).
     bind_res (get_primary b c) (\<lambda>(b, c).
     bind_res (get_u64 c) (\<lambda>(index_count, c).
     bind_res (get_indexes_loop (unat index_count) b c) (\<lambda>(b, c).
     bind_res (build b) (\<lambda>s. Ok (s, c))))))))"

text \<open>What the types of a schema in memory guarantee, next to the builder's own checks.\<close>

definition strs_ok :: "string list \<Rightarrow> bool" where
  "strs_ok names \<longleftrightarrow> (\<forall>s \<in> set names. str_ok s) \<and> alloc_fits 16 (length names)"

definition schema_ok :: "table_schema \<Rightarrow> bool" where
  "schema_ok s \<longleftrightarrow>
     schema_valid s \<and> ids_positional (ts_columns s) \<and> str_ok (ts_name s) \<and>
     strs_ok (map cd_name (ts_columns s)) \<and>
     (\<forall>pk. ts_primary_key s = Some pk \<longrightarrow> strs_ok pk) \<and>
     strs_ok (map idf_name (ts_indexes s)) \<and>
     (\<forall>i \<in> set (ts_indexes s). strs_ok (idf_columns i))"

interpretation strsc: codec put_strs get_strs strs_ok
proof unfold_locales
  fix names rest assume "strs_ok names"
  then have ok: "\<forall>s \<in> set names. str_ok s" and fits: "alloc_fits 16 (length names)"
    by (auto simp: strs_ok_def)
  from fits have "unat (len_u64 names) = length names"
    by (rule unat_len_alloc) simp
  with ok fits show "get_strs (put_strs names @ rest) = Ok (names, rest)"
    by (simp add: get_strs_def put_strs_def u64c.dec_enc strc.get_n_enc)
qed

lemma get_columns_loop_enc:
  assumes "\<forall>c \<in> set cs. str_ok (cd_name c)"
    and "map cd_id cs = map word_of_nat [length (sb_columns b)..<length (sb_columns b) + length cs]"
  shows "get_columns_loop (length cs) b (concat (map put_column cs) @ rest)
           = Ok (b\<lparr>sb_columns := sb_columns b @ cs\<rparr>, rest)"
  using assms
proof (induction cs arbitrary: b)
  case Nil
  then show ?case by simp
next
  case (Cons c cs)
  let ?b = "builder_column (cd_name c) (cd_ty c) b"
  have id: "cd_id c = word_of_nat (length (sb_columns b))"
    and ids: "map cd_id cs = map word_of_nat [Suc (length (sb_columns b))..<
                Suc (length (sb_columns b) + length cs)]"
    using Cons.prems(2) by (simp_all add: upt_conv_Cons del: upt_Suc)
  from id have b: "sb_columns ?b = sb_columns b @ [c]"
    by (simp add: builder_column_def)
  have "get_columns_loop (length cs) ?b (concat (map put_column cs) @ rest)
          = Ok (?b\<lparr>sb_columns := sb_columns ?b @ cs\<rparr>, rest)"
    using Cons.prems(1) ids b by (intro Cons.IH) (simp_all del: upt_Suc)
  with b Cons.prems(1) show ?case
    by (simp add: put_column_def [of c] strc.dec_enc ctypec.dec_enc) (simp add: builder_column_def)
qed

lemma get_indexes_loop_enc:
  assumes "\<forall>i \<in> set is. str_ok (idf_name i) \<and> strs_ok (idf_columns i)"
  shows "get_indexes_loop (length is) b (concat (map put_index is) @ rest)
           = Ok (b\<lparr>sb_indexes := sb_indexes b @ is\<rparr>, rest)"
  using assms
proof (induction "is" arbitrary: b)
  case Nil
  then show ?case by simp
next
  case (Cons i "is")
  then show ?case
    by (simp add: put_index_def strc.dec_enc boolc.dec_enc strsc.dec_enc
        builder_index_def builder_unique_index_def)
qed

lemma get_primary_enc:
  assumes "\<forall>pk. key = Some pk \<longrightarrow> strs_ok pk" and "sb_primary_key b = None"
  shows "get_primary b (put_bool (key \<noteq> None) @
           (case key of None \<Rightarrow> [] | Some pk \<Rightarrow> put_strs pk) @ rest)
           = Ok (b\<lparr>sb_primary_key := key\<rparr>, rest)"
  using assms
  by (cases key) (simp_all add: get_primary_def boolc.dec_enc strsc.dec_enc builder_primary_key_def)

interpretation schemac: codec put_schema get_schema schema_ok
proof unfold_locales
  fix s rest assume ok: "schema_ok s"
  let ?b = "\<lparr>sb_name = ts_name s, sb_columns = ts_columns s,
             sb_primary_key = ts_primary_key s, sb_indexes = ts_indexes s\<rparr>"
  have len: "unat (len_u64 (ts_columns s)) = length (ts_columns s)"
    "unat (len_u64 (ts_indexes s)) = length (ts_indexes s)"
    using ok by (auto simp: schema_ok_def strs_ok_def intro!: unat_len_alloc [of 16])
  have cols: "get_columns_loop (length (ts_columns s)) (builder_new (ts_name s))
      (concat (map put_column (ts_columns s)) @ c)
      = Ok ((builder_new (ts_name s))\<lparr>sb_columns := ts_columns s\<rparr>, c)" for c
    using ok get_columns_loop_enc [of "ts_columns s" "builder_new (ts_name s)" c]
    by (simp add: schema_ok_def strs_ok_def ids_positional_def builder_new_def)
  have idx: "get_indexes_loop (length (ts_indexes s)) b (concat (map put_index (ts_indexes s)) @ c)
      = Ok (b\<lparr>sb_indexes := sb_indexes b @ ts_indexes s\<rparr>, c)" for b c
    using ok by (intro get_indexes_loop_enc) (auto simp: schema_ok_def strs_ok_def)
  have pk: "get_primary ((builder_new (ts_name s))\<lparr>sb_columns := ts_columns s\<rparr>)
      (put_bool (ts_primary_key s \<noteq> None) @
       (case ts_primary_key s of None \<Rightarrow> [] | Some pk \<Rightarrow> put_strs pk) @ c)
      = Ok (\<lparr>sb_name = ts_name s, sb_columns = ts_columns s,
             sb_primary_key = ts_primary_key s, sb_indexes = []\<rparr>, c)" for c
    using ok by (subst get_primary_enc) (auto simp: schema_ok_def builder_new_def)
  have "build ?b = Ok s"
    using ok by (cases s) (simp add: build_Ok schema_of_def schema_ok_def)
  then show "get_schema (put_schema s @ rest) = Ok (s, rest)"
    using ok unfolding get_schema_def put_schema_def
    by (simp add: strc.dec_enc u64c.dec_enc len cols pk idx schema_ok_def del: not_None_eq)
qed

end
