(* ===== verification/Storage_Snapshot.thy ===== *)
theory Storage_Snapshot
  imports Storage_Table Core_Binary
begin

text \<open>
  \<^verbatim>\<open>nexum-storage/src/snapshot.rs\<close>: the byte encoding of a captured table. Decoding checks every row
  against the schema, that row ids are strictly ascending, and that they stay below the row-id
  counter. The pair is a \<open>codec\<close>; composed with capture and restore it brings a table back exactly.
\<close>

definition put_state_row :: "row_id \<times> row \<times> version \<Rightarrow> u8 list" where
  "put_state_row p = (case p of (rid, r, v) \<Rightarrow> put_u64 rid @ put_row r @ put_version v)"

definition state_encode :: "table_state \<Rightarrow> u8 list" where
  "state_encode st =
     put_u64 (tst_id st) @
     put_schema (tst_schema st) @
     put_u64 (len_u64 (tst_rows st)) @
     concat (map put_state_row (tst_rows st)) @
     put_u64 (tst_next_row_id st) @
     put_version (tst_epoch st)"

fun decode_rows ::
    "table_schema \<Rightarrow> u64 option \<Rightarrow> nat \<Rightarrow> (row_id \<times> row \<times> version) list decoder" where
  "decode_rows schema last_id 0 c = Ok ([], c)"
| "decode_rows schema last_id (Suc n) c =
     bind_res (get_u64 c) (\<lambda>(rid, c).
     bind_res (get_row c) (\<lambda>(r, c).
     bind_res (get_version c) (\<lambda>(v, c).
     bind_res (validate_row schema (row_values r)) (\<lambda>_.
       if (case last_id of None \<Rightarrow> False | Some previous \<Rightarrow> rid \<le> previous) then Err Internal
       else bind_res (decode_rows schema (Some rid) n c) (\<lambda>(rows, c).
              Ok ((rid, r, v) # rows, c))))))"

text \<open>\<^verbatim>\<open>Vec::with_capacity(row_count)\<close> over \<^verbatim>\<open>(RowId, Row, Version)\<close>, 40 bytes each.\<close>

definition state_decode :: "table_state decoder" where
  "state_decode c =
     bind_res (get_u64 c) (\<lambda>(tid, c).
     bind_res (get_schema c) (\<lambda>(schema, c).
     bind_res (get_u64 c) (\<lambda>(row_count, c).
       if \<not> alloc_fits 40 (unat row_count) then Panic
       else
     bind_res (decode_rows schema None (unat row_count) c) (\<lambda>(rows, c).
     bind_res (get_u64 c) (\<lambda>(next_row_id, c).
       if rows \<noteq> [] \<and> next_row_id \<le> fst (last rows) then Err Internal
       else
     bind_res (get_version c) (\<lambda>(epoch, c).
       Ok (\<lparr>tst_id = tid, tst_schema = schema, tst_rows = rows, tst_next_row_id = next_row_id,
            tst_epoch = epoch\<rparr>, c)))))))"

definition state_rows_ok :: "table_schema \<Rightarrow> (row_id \<times> row \<times> version) list \<Rightarrow> bool" where
  "state_rows_ok schema rows \<longleftrightarrow>
     (\<forall>(rid, r, v) \<in> set rows. row_ok r \<and> row_conforms schema r) \<and>
     sorted_wrt (<) (map fst rows)"

definition state_ok :: "table_state \<Rightarrow> bool" where
  "state_ok st \<longleftrightarrow>
     schema_ok (tst_schema st) \<and> state_rows_ok (tst_schema st) (tst_rows st) \<and>
     alloc_fits 40 (length (tst_rows st)) \<and>
     (\<forall>p \<in> set (tst_rows st). fst p < tst_next_row_id st)"

lemma decode_rows_enc:
  assumes "state_rows_ok schema rows"
    and "\<forall>p. last_id = Some p \<longrightarrow> (\<forall>q \<in> set rows. p < fst q)"
  shows "decode_rows schema last_id (length rows) (concat (map put_state_row rows) @ rest)
           = Ok (rows, rest)"
  using assms
proof (induction rows arbitrary: last_id)
  case Nil
  then show ?case by simp
next
  case (Cons p rows)
  obtain rid r v where p: "p = (rid, r, v)" by (cases p)
  have r: "row_ok r" "row_conforms schema r" and rows: "state_rows_ok schema rows"
    and above: "\<forall>q \<in> set rows. rid < fst q"
    using Cons.prems(1) by (auto simp: state_rows_ok_def p)
  have "\<not> (case last_id of None \<Rightarrow> False | Some previous \<Rightarrow> rid \<le> previous)"
    using Cons.prems(2) by (auto simp: p split: option.splits)
  moreover have "decode_rows schema (Some rid) (length rows) (concat (map put_state_row rows) @ rest)
      = Ok (rows, rest)"
    using rows above by (intro Cons.IH) auto
  ultimately show ?case
    using r by (simp add: p put_state_row_def [of "(rid, r, v)"] u64c.dec_enc rowc.dec_enc
        versionc.dec_enc validate_row_if)
qed

interpretation statec: codec state_encode state_decode state_ok
proof unfold_locales
  fix st rest assume ok: "state_ok st"
  have len: "unat (len_u64 (tst_rows st)) = length (tst_rows st)"
    using ok by (intro unat_len_alloc [of 40]) (auto simp: state_ok_def)
  have rows: "decode_rows (tst_schema st) None (length (tst_rows st))
      (concat (map put_state_row (tst_rows st)) @ c) = Ok (tst_rows st, c)" for c
    using ok by (intro decode_rows_enc) (auto simp: state_ok_def)
  have bound: "\<not> (tst_rows st \<noteq> [] \<and> tst_next_row_id st \<le> fst (last (tst_rows st)))"
    using ok by (cases "tst_rows st = []") (auto simp: state_ok_def not_le)
  show "state_decode (state_encode st @ rest) = Ok (st, rest)"
    using ok bound
    by (simp add: state_decode_def state_encode_def u64c.dec_enc schemac.dec_enc versionc.dec_enc
        len rows state_ok_def)
qed

text \<open>What decoding accepts satisfies the checks, whatever the bytes.\<close>

lemma decode_rows_sound:
  assumes "decode_rows schema last_id n c = Ok (rows, rest)"
  shows "(\<forall>(rid, r, v) \<in> set rows. row_conforms schema r) \<and> sorted_wrt (<) (map fst rows) \<and>
     (\<forall>p. last_id = Some p \<longrightarrow> (\<forall>q \<in> set rows. p < fst q))"
  using assms
proof (induction schema last_id n c arbitrary: rows rest rule: decode_rows.induct)
  case (1 schema last_id c)
  then show ?case by simp
next
  case (2 schema last_id n c)
  then obtain rid c1 r c2 v c3 rows' where
    steps: "get_u64 c = Ok (rid, c1)" "get_row c1 = Ok (r, c2)" "get_version c2 = Ok (v, c3)"
      "validate_row schema (row_values r) = Ok ()"
    and asc: "\<not> (case last_id of None \<Rightarrow> False | Some previous \<Rightarrow> rid \<le> previous)"
    and rec: "decode_rows schema (Some rid) n c3 = Ok (rows', rest)"
    and rows: "rows = (rid, r, v) # rows'"
    by (auto simp: bind_res_eq_Ok split: if_splits prod.splits)
  from 2(1) [OF asc rec]
  have IH: "(\<forall>(rid, r, v) \<in> set rows'. row_conforms schema r) \<and> sorted_wrt (<) (map fst rows') \<and>
     (\<forall>p. Some rid = Some p \<longrightarrow> (\<forall>q \<in> set rows'. p < fst q))" .
  have "row_conforms schema r"
    using steps(4) by (simp add: validate_row_if split: if_splits)
  with IH asc rows show ?case
    by (auto split: option.splits intro: less_trans simp: not_le)
qed

lemma get_schema_valid: "get_schema c = Ok (s, rest) \<Longrightarrow> schema_valid s"
  by (auto simp: get_schema_def bind_res_eq_Ok build_Ok split: prod.splits)

lemma state_decode_valid:
  assumes "state_decode c = Ok (st, rest)"
  shows "(\<forall>(rid, r, v) \<in> set (tst_rows st). row_conforms (tst_schema st) r \<and> rid < tst_next_row_id st) \<and>
    sorted_wrt (<) (map fst (tst_rows st)) \<and> schema_valid (tst_schema st)"
proof -
  obtain c1 c2 n c3 c4 where s: "get_schema c1 = Ok (tst_schema st, c2)"
    and rows: "decode_rows (tst_schema st) None n c3 = Ok (tst_rows st, c4)"
    and bound: "\<not> (tst_rows st \<noteq> [] \<and> tst_next_row_id st \<le> fst (last (tst_rows st)))"
    using assms by (auto simp: state_decode_def bind_res_eq_Ok split: prod.splits if_splits)
  note sound = decode_rows_sound [OF rows]
  have "rid < tst_next_row_id st" if "(rid, r, v) \<in> set (tst_rows st)" for rid r v
  proof -
    have ne: "map fst (tst_rows st) \<noteq> []" using that by auto
    have "sorted (map fst (tst_rows st))" using sound by (simp add: strict_sorted_iff)
    then have "rid \<le> last (map fst (tst_rows st))"
      using that ne by (metis (no_types, lifting) fst_conv image_eqI list.set_map sorted_wrt_le_last)
    also have "\<dots> < tst_next_row_id st" using bound ne by (simp add: last_map not_le)
    finally show ?thesis .
  qed
  with sound get_schema_valid [OF s] show ?thesis by auto
qed

end
