(* ===== verification/Nexum_Examples.thy ===== *)
theory Nexum_Examples
  imports Tx_Invariant Storage_History Storage_Snapshot
begin

text \<open>
  A small store on which the properties of the root theory are evaluated: one table \<open>units\<close> with a
  primary key and a secondary index, one committed row, and a transaction that updates it and inserts
  another.
\<close>

definition ex_builder :: schema_builder where
  "ex_builder = builder_index ''by_owner'' [''owner''] (builder_primary_key [''id'']
     (builder_column ''owner'' TyU64 (builder_column ''id'' TyU64 (builder_new ''units''))))"

definition ex_schema :: table_schema where
  "ex_schema = schema_of ex_builder"

definition ex_row :: "u64 \<Rightarrow> u64 \<Rightarrow> row" where
  "ex_row i owner = Row [VU64 i, VU64 owner]"

definition ex_store :: table_store where
  "ex_store = snd (with_table_mut 0 (table_insert (ex_row 1 10)) (snd (create_table ex_schema store_new)))"

definition ex_table :: nexum_table where
  "ex_table = the (table_by_id ex_store 0)"

definition ex_tx :: transaction where
  "ex_tx = snd (tx_insert ex_store ''units'' (ex_row 2 20)
            (snd (tx_update ex_store ''units'' 0 (ex_row 1 11) (fst (tx_begin ex_store)))))"

text \<open>The same store after another transaction inserted a row.\<close>

definition ex_store_later :: table_store where
  "ex_store_later = snd (with_table_mut 0 (table_insert (ex_row 3 30)) ex_store)"

definition ex_table_later :: nexum_table where
  "ex_table_later = the (table_by_id ex_store_later 0)"

definition ex_tx_moved :: transaction where
  "ex_tx_moved = snd (tx_update ex_store ''units'' 0 (ex_row 1 11) (fst (tx_begin ex_store)))"

text \<open>A schema whose unique secondary index bears the reserved name of the primary key, a store with
  one row, and a transaction that inserts a row with the same indexed value.\<close>

definition ex_bad_builder :: schema_builder where
  "ex_bad_builder = builder_unique_index ''primary'' [''owner''] (builder_primary_key [''id'']
     (builder_column ''owner'' TyU64 (builder_column ''id'' TyU64 (builder_new ''units''))))"

definition ex_bad_store :: table_store where
  "ex_bad_store = snd (with_table_mut 0 (table_insert (ex_row 1 10))
     (snd (create_table (schema_of ex_bad_builder) store_new)))"

definition ex_bad_tx :: transaction where
  "ex_bad_tx = snd (tx_insert ex_bad_store ''units'' (ex_row 2 10) (fst (tx_begin ex_bad_store)))"

lemma ex_valid: "validate ex_store ex_tx = Ok ()"
  by code_simp

lemma ex_schema_valid: "schema_valid ex_schema"
proof -
  have "is_ok (build ex_builder)" by code_simp
  then show ?thesis unfolding ex_schema_def using build_Ok by (metis is_ok_iff)
qed

lemma ex_ids: "map (\<lambda>(n, t). (n, table_id_of t, next_id t, map fst (tb_indexes t))) (ts_tables ex_store)
    = [(''units'', 0, 1, [''by_owner''])]"
  by code_simp

lemma ex_store_wf: "store_wf ex_store"
  unfolding ex_store_def
proof (rule with_table_mut_wf)
  show wf: "store_wf (snd (create_table ex_schema store_new))"
    by (rule create_table_wf [OF store_new_wf]) (simp add: store_new_def)
  show "table_id_of (snd (table_insert (ex_row 1 10) t)) = table_id_of t" for t
    using table_insert_keeps by (simp add: keeps_identity_def)
  fix t assume t: "table_by_id (snd (create_table ex_schema store_new)) 0 = Some t"
  have "map_option next_id (table_by_id (snd (create_table ex_schema store_new)) 0) = Some 0" by code_simp
  then have "ids_left (tb_storage t)" using t by (simp add: ids_left_def)
  then show "table_wf (snd (table_insert (ex_row 1 10) t)) \<and>
      table_name_of (snd (table_insert (ex_row 1 10) t)) = table_name_of t"
    using table_by_id_wf [OF wf t] table_insert_wf table_insert_keeps by (simp add: keeps_identity_def)
qed

lemma ex_tables:
  assumes "table_by_id ex_store tid = Some t"
  shows "next_id t = 1" and "no_reserved t" and "tid = 0"
proof -
  obtain name where mem: "(name, t) \<in> set (ts_tables ex_store)" and tid: "table_id_of t = tid"
    using assms table_by_id_iff [OF ex_store_wf] by blast
  from imageI [OF mem, of "\<lambda>(n, t). (n, table_id_of t, next_id t, map fst (tb_indexes t))"]
  have "(name, table_id_of t, next_id t, map fst (tb_indexes t)) \<in> set [(''units'', 0, 1, [''by_owner''])]"
    unfolding ex_ids [symmetric] by simp
  then have f: "next_id t = 1" "map fst (tb_indexes t) = [''by_owner'']" "table_id_of t = 0" by simp_all
  from f(1) show "next_id t = 1" .
  from f(2) show "no_reserved t" unfolding no_reserved_def primary_name_def by simp
  from f(3) tid show "tid = 0" by simp
qed

lemma ex_store_plain: "store_plain ex_store"
  using ex_store_wf ex_tables(2) by (simp add: store_plain_def)

lemma ex_room: "n < 100 \<Longrightarrow> has_room ex_store n"
  unfolding has_room_def using ex_tables(1) by auto

lemma ex_writes: "ws_wf (tx_writes ex_tx)" "ws_base (tx_writes ex_tx) = None"
    "length (ws_entries (tx_writes ex_tx)) = 2" "tx_state ex_tx = Active"
proof -
  show b: "ws_base (tx_writes ex_tx) = None" by code_simp
  have "om_wf (ws_own (tx_writes ex_tx))" by code_simp
  with b show "ws_wf (tx_writes ex_tx)" by (simp add: ws_wf_def)
  show "length (ws_entries (tx_writes ex_tx)) = 2" by code_simp
  show "tx_state ex_tx = Active" by code_simp
qed

lemma ex_table: "table_by_id ex_store 0 = Some ex_table"
proof -
  have "table_by_id ex_store 0 \<noteq> None" by code_simp
  then show ?thesis by (auto simp: ex_table_def)
qed

lemma ex_table_wf: "table_wf ex_table"
  using table_by_id_wf [OF ex_store_wf ex_table] by simp

lemma ex_tx_wf: "tx_wf ex_tx"
  unfolding ex_tx_def tx_begin_def alloc_transaction_id_def by (simp add: tx_insert_wf tx_update_wf tx_new_wf)

lemma ex_schema_fields:
  "ts_name ex_schema = ''units''" "ts_primary_key ex_schema = Some [''id'']"
  "map cd_name (ts_columns ex_schema) = [''id'', ''owner'']" "map idf_name (ts_indexes ex_schema) = [''by_owner'']"
  "map idf_columns (ts_indexes ex_schema) = [[''owner'']]"
  "map cd_ty (ts_columns ex_schema) = [TyU64, TyU64]" "ids_positional (ts_columns ex_schema)"
  by code_simp+

lemma ex_schema_ok: "schema_ok ex_schema"
proof -
  have "idf_columns ` set (ts_indexes ex_schema) = {[''owner'']}"
    using arg_cong [OF ex_schema_fields(5), of set] by simp
  then have "idf_columns i = [''owner'']" if "i \<in> set (ts_indexes ex_schema)" for i
    using that by blast
  then show ?thesis
    using ex_schema_valid
    by (simp add: schema_ok_def ex_schema_fields strs_ok_def str_ok_def utf8_def alloc_fits_def isize_max_def)
qed

lemma ex_row_ok: "row_ok (ex_row i owner)"
  by (simp add: row_ok_def ex_row_def alloc_fits_def isize_max_def size_of_value_def)

lemma ex_state_fields:
  "table_schema_of ex_table = ex_schema"
  "tst_rows (table_state_of ex_table) = [(0, ex_row 1 10, 0)]"
  "tst_next_row_id (table_state_of ex_table) = 1"
  by code_simp+

lemma ex_state_ok: "state_ok (table_state_of ex_table)"
  by (simp add: state_ok_def state_rows_ok_def ex_state_fields ex_schema_ok ex_row_ok alloc_fits_def
      isize_max_def row_conforms_def ex_schema_fields)
    (simp add: ex_row_def)

end
