(* ===== verification/Core_Crc.thy ===== *)
theory Core_Crc
  imports Nexum_Prelude
begin

unbundle bit_operations_syntax

text \<open>
  \<^verbatim>\<open>nexum-core/src/binary.rs\<close>, CRC-32: the table-driven incremental hasher, and the bit-serial
  division by the reflected polynomial \<open>0xEDB88320\<close> that it optimises. The lemmas show that the two
  compute the same checksum on every input, that the hasher can be fed in pieces, and that the
  checksum of a message determines a flipped bit.
\<close>

section \<open>The table\<close>

definition crc_shift :: "u32 \<Rightarrow> u32" where
  "crc_shift crc = (if crc AND 1 \<noteq> 0 then drop_bit 1 crc XOR 0xEDB88320 else drop_bit 1 crc)"

definition crc_entry :: "nat \<Rightarrow> u32" where
  "crc_entry i = (crc_shift ^^ 8) (word_of_nat i)"

definition build_crc_table :: "u32 list" where
  "build_crc_table = map crc_entry [0..<256]"

section \<open>The hasher\<close>

record crc32_hasher =
  crc_state :: u32

definition crc32_new :: crc32_hasher where
  "crc32_new = \<lparr>crc_state = 0xFFFFFFFF\<rparr>"

definition crc_byte :: "u32 \<Rightarrow> u8 \<Rightarrow> u32" where
  "crc_byte crc byte =
     build_crc_table ! unat ((crc XOR ucast byte) AND 0xFF) XOR drop_bit 8 crc"

fun crc32_chain :: "u8 list \<Rightarrow> crc32_hasher \<Rightarrow> crc32_hasher" where
  "crc32_chain [] h = h"
| "crc32_chain (b # bs) h = crc32_chain bs (h\<lparr>crc_state := crc_byte (crc_state h) b\<rparr>)"

definition crc32_finalize :: "crc32_hasher \<Rightarrow> u32" where
  "crc32_finalize h = crc_state h XOR 0xFFFFFFFF"

definition crc32 :: "u8 list \<Rightarrow> u32" where
  "crc32 bs = crc32_finalize (crc32_chain bs crc32_new)"

section \<open>The bit-serial reference\<close>

definition crc_byte_ref :: "u32 \<Rightarrow> u8 \<Rightarrow> u32" where
  "crc_byte_ref crc byte = (crc_shift ^^ 8) (crc XOR ucast byte)"

definition crc32_ref :: "u8 list \<Rightarrow> u32" where
  "crc32_ref bs = fold (\<lambda>b crc. crc_byte_ref crc b) bs 0xFFFFFFFF XOR 0xFFFFFFFF"

section \<open>Equivalence\<close>

lemma xor_right_cancel: "x XOR z = y XOR z \<longleftrightarrow> x = (y :: u32)"
  by (metis xor.assoc xor.right_neutral xor_self_eq)

lemma crc_shift_bit:
  "crc_shift x = (if bit x 0 then drop_bit 1 x XOR 0xEDB88320 else drop_bit 1 x)"
  by (simp add: crc_shift_def and_one_eq bit_0 odd_iff_mod_2_eq_one)

text \<open>One step of the division is linear over exclusive or, so any number of steps is.\<close>

lemma crc_shift_xor: "crc_shift (x XOR y) = crc_shift x XOR crc_shift y"
  by (rule bit_word_eqI) (auto simp: crc_shift_bit bit_simps)

lemma crc_shift_pow_xor: "(crc_shift ^^ n) (x XOR y) = (crc_shift ^^ n) x XOR (crc_shift ^^ n) y"
  by (induction n) (simp_all add: crc_shift_xor)

text \<open>On a word whose low \<open>n\<close> bits are clear, \<open>n\<close> steps only shift.\<close>

lemma crc_shift_pow_clear: "\<forall>i < n. \<not> bit x i \<Longrightarrow> (crc_shift ^^ n) x = drop_bit n x"
proof (induction n arbitrary: x)
  case 0
  then show ?case by simp
next
  case (Suc n)
  then have step: "crc_shift x = drop_bit 1 x"
    by (simp add: crc_shift_bit)
  have "(crc_shift ^^ n) (drop_bit 1 x) = drop_bit n (drop_bit 1 x)"
    using Suc.prems by (intro Suc.IH) (simp add: bit_drop_bit_eq)
  then show ?case
    by (simp add: funpow_Suc_right step drop_bit_drop_bit del: funpow.simps(2))
qed

lemma split_low_byte: "(x :: u32) = (x AND 0xFF) XOR push_bit 8 (drop_bit 8 x)"
proof -
  have "x AND 0xFF = take_bit 8 x"
    by (simp add: take_bit_eq_mask mask_eq_exp_minus_1)
  moreover have "take_bit 8 x XOR push_bit 8 (drop_bit 8 x) = x"
    by (rule bit_word_eqI) (auto simp: bit_simps)
  ultimately show ?thesis by simp
qed

lemma low_byte_less: "unat ((x :: u32) AND 0xFF) < 256"
proof -
  have "x AND 0xFF = take_bit 8 x"
    by (simp add: take_bit_eq_mask mask_eq_exp_minus_1)
  then show ?thesis
    using take_bit_nat_less_exp [of 8 "unat x"] by (simp add: unsigned_take_bit_eq)
qed

lemma crc_table_entry: "build_crc_table ! unat ((x :: u32) AND 0xFF) = (crc_shift ^^ 8) (x AND 0xFF)"
  using low_byte_less [of x] by (simp add: build_crc_table_def crc_entry_def)

lemma crc_byte_eq: "crc_byte crc b = crc_byte_ref crc b"
proof -
  let ?z = "crc XOR ucast b"
  have drop: "drop_bit 8 ?z = drop_bit 8 crc"
    by (rule bit_word_eqI) (auto simp: bit_simps dest: bit_imp_le_length)
  have "crc_byte_ref crc b = (crc_shift ^^ 8) ((?z AND 0xFF) XOR push_bit 8 (drop_bit 8 ?z))"
    using split_low_byte [of ?z] by (simp add: crc_byte_ref_def)
  also have "\<dots> = (crc_shift ^^ 8) (?z AND 0xFF) XOR drop_bit 8 (push_bit 8 (drop_bit 8 ?z))"
    unfolding crc_shift_pow_xor
    by (subst (2) crc_shift_pow_clear) (simp_all add: bit_simps)
  also have "drop_bit 8 (push_bit 8 (drop_bit 8 ?z)) = drop_bit 8 crc"
    unfolding drop by (rule bit_word_eqI) (auto simp: bit_simps dest: bit_imp_le_length)
  finally show ?thesis
    by (simp add: crc_byte_def crc_table_entry)
qed

lemma crc32_chain_state:
  "crc_state (crc32_chain bs h) = fold (\<lambda>b crc. crc_byte_ref crc b) bs (crc_state h)"
  by (induction bs h rule: crc32_chain.induct) (simp_all add: crc_byte_eq)

lemma crc32_eq_ref: "crc32 bs = crc32_ref bs"
  by (simp add: crc32_def crc32_ref_def crc32_finalize_def crc32_chain_state crc32_new_def)

lemma crc32_chain_append: "crc32_chain (xs @ ys) h = crc32_chain ys (crc32_chain xs h)"
  by (induction xs h rule: crc32_chain.induct) simp_all

section \<open>Error detection\<close>

text \<open>A step is injective: the polynomial has its top bit set, so the bit shifted out is still
  visible in bit 31.\<close>

lemma crc_shift_zero:
  assumes "crc_shift z = 0"
  shows "z = 0"
proof -
  have "bit (crc_shift z) 31 \<longleftrightarrow> bit z 0"
    by (auto simp: crc_shift_bit bit_simps dest: bit_imp_le_length)
  with assms have z0: "\<not> bit z 0" by simp
  with assms have "drop_bit 1 z = 0"
    by (simp add: crc_shift_bit)
  then have "\<not> bit (drop_bit 1 z) k" for k
    by simp
  then have zk: "\<not> bit z (Suc k)" for k
    by (simp add: bit_drop_bit_eq)
  show ?thesis
  proof (rule bit_word_eqI)
    fix k show "bit z k = bit 0 k"
      using z0 zk by (cases k) simp_all
  qed
qed

lemma crc_shift_inj: "crc_shift x = crc_shift y \<Longrightarrow> x = y"
  using crc_shift_zero [of "x XOR y"] xor_right_cancel [of x y y] by (simp add: crc_shift_xor)

lemma crc_shift_pow_inj: "(crc_shift ^^ n) x = (crc_shift ^^ n) y \<Longrightarrow> x = y"
  by (induction n) (auto dest: crc_shift_inj)

lemma crc_byte_ref_inj_state: "crc_byte_ref x b = crc_byte_ref y b \<Longrightarrow> x = y"
  unfolding crc_byte_ref_def by (drule crc_shift_pow_inj) (simp add: xor_right_cancel)

lemma crc_byte_ref_inj_byte: "crc_byte_ref x a = crc_byte_ref x b \<Longrightarrow> a = b"
proof -
  assume "crc_byte_ref x a = crc_byte_ref x b"
  then have "(ucast a :: u32) = ucast b"
    unfolding crc_byte_ref_def
    using crc_shift_pow_inj xor_right_cancel by (metis xor.commute)
  then have eq: "bit (ucast a :: u32) k = bit (ucast b :: u32) k" for k
    by simp
  have "bit a k = bit b k" if "k < 8" for k
    using eq [of k] that by (simp add: bit_ucast_iff)
  then show "a = b"
    by (intro bit_word_eqI) simp
qed

lemma crc_fold_inj:
  "fold (\<lambda>b crc. crc_byte_ref crc b) bs x = fold (\<lambda>b crc. crc_byte_ref crc b) bs y \<Longrightarrow> x = y"
  by (induction bs arbitrary: x y) (auto dest: crc_byte_ref_inj_state)

lemma crc32_detects_byte:
  assumes "crc32 (xs @ a # ys) = crc32 (xs @ b # ys)"
  shows "a = b"
proof -
  from assms have "crc32_ref (xs @ a # ys) = crc32_ref (xs @ b # ys)"
    by (simp add: crc32_eq_ref)
  then have "fold (\<lambda>b crc. crc_byte_ref crc b) ys (crc_byte_ref (fold (\<lambda>b crc. crc_byte_ref crc b) xs
               0xFFFFFFFF) a) = fold (\<lambda>b crc. crc_byte_ref crc b) ys
               (crc_byte_ref (fold (\<lambda>b crc. crc_byte_ref crc b) xs 0xFFFFFFFF) b)"
    by (simp add: crc32_ref_def xor_right_cancel)
  then show ?thesis
    by (rule crc_byte_ref_inj_byte [OF crc_fold_inj])
qed

end
