(* ===== verification/Wal_Record.thy ===== *)
theory Wal_Record
  imports Storage_Snapshot Core_Crc
begin

text \<open>
  \<^verbatim>\<open>nexum-wal/src/wal.rs\<close>, the record layer: the payload encoding of a change, and the length-framed,
  checksummed record. \<open>parse_frame\<close> is the pure meaning of reading a record at the start of a byte
  string; the lemmas show that it reads back every written record, reports a proper prefix of one as
  an incomplete tail, and refuses a record with one byte of its kind, payload or checksum altered.
\<close>

section \<open>Change payloads\<close>

fun change_kind_tag :: "change_kind \<Rightarrow> u8" where
  "change_kind_tag CInsert = 1"
| "change_kind_tag CUpdate = 2"
| "change_kind_tag CDelete = 3"

definition change_kind_from_tag :: "u8 \<Rightarrow> change_kind res" where
  "change_kind_from_tag t =
     (if t = 1 then Ok CInsert else if t = 2 then Ok CUpdate else if t = 3 then Ok CDelete
      else Err Internal)"

definition wal_take_byte :: "u8 decoder" where
  "wal_take_byte c = (case c of [] \<Rightarrow> Err Internal | b # rest \<Rightarrow> Ok (b, rest))"

definition put_opt_row :: "row option \<Rightarrow> u8 list" where
  "put_opt_row r = (case r of Some r \<Rightarrow> 1 # put_row r | None \<Rightarrow> [0])"

definition get_opt_row :: "row option decoder" where
  "get_opt_row c = bind_res (wal_take_byte c) (\<lambda>(flag, c).
     if flag = 0 then Ok (None, c)
     else if flag = 1 then map_fst Some (get_row c)
     else Err Internal)"

definition put_opt_version :: "version option \<Rightarrow> u8 list" where
  "put_opt_version v = (case v of Some v \<Rightarrow> 1 # put_u64 v | None \<Rightarrow> [0])"

definition get_opt_version :: "version option decoder" where
  "get_opt_version c = bind_res (wal_take_byte c) (\<lambda>(flag, c).
     if flag = 0 then Ok (None, c)
     else if flag = 1 then map_fst Some (get_u64 c)
     else Err Internal)"

definition encode_change :: "change \<Rightarrow> u8 list" where
  "encode_change c =
     put_u64 (ch_table c) @ [change_kind_tag (ch_kind c)] @ put_u64 (ch_row_id c) @
     put_opt_row (ch_old_row c) @ put_opt_row (ch_new_row c) @
     put_opt_version (ch_old_version c) @ put_opt_version (ch_new_version c)"

definition decode_change :: "u8 list \<Rightarrow> change res" where
  "decode_change payload =
     bind_res (get_u64 payload) (\<lambda>(table_id, c).
     bind_res (wal_take_byte c) (\<lambda>(tag, c).
     bind_res (change_kind_from_tag tag) (\<lambda>kind.
     bind_res (get_u64 c) (\<lambda>(rid, c).
     bind_res (get_opt_row c) (\<lambda>(old_row, c).
     bind_res (get_opt_row c) (\<lambda>(new_row, c).
     bind_res (get_opt_version c) (\<lambda>(old_version, c).
     bind_res (get_opt_version c) (\<lambda>(new_version, c).
       (case kind of
          CInsert \<Rightarrow>
            bind_res (ok_or Internal new_row) (\<lambda>new_row.
            bind_res (ok_or Internal new_version) (\<lambda>new_version.
              Ok (change_insert table_id rid new_row new_version)))
        | CUpdate \<Rightarrow>
            bind_res (ok_or Internal old_row) (\<lambda>old_row.
            bind_res (ok_or Internal old_version) (\<lambda>old_version.
            bind_res (ok_or Internal new_row) (\<lambda>new_row.
            bind_res (ok_or Internal new_version) (\<lambda>new_version.
              Ok (change_update table_id rid old_row old_version new_row new_version)))))
        | CDelete \<Rightarrow>
            bind_res (ok_or Internal old_row) (\<lambda>old_row.
            bind_res (ok_or Internal old_version) (\<lambda>old_version.
              Ok (change_delete table_id rid old_row old_version))))))))))))"

definition decode_tx_id :: "u8 list \<Rightarrow> transaction_id res" where
  "decode_tx_id payload = bind_res (get_u64 payload) (\<lambda>(tid, c). Ok tid)"

definition decode_commit :: "u8 list \<Rightarrow> (transaction_id \<times> u64) res" where
  "decode_commit payload =
     bind_res (get_u64 payload) (\<lambda>(tid, c).
     bind_res (get_u64 c) (\<lambda>(count, c). Ok (tid, count)))"

text \<open>The shapes the constructors of \<^verbatim>\<open>Change\<close> produce, with rows that fit in memory.\<close>

definition change_ok :: "change \<Rightarrow> bool" where
  "change_ok c \<longleftrightarrow>
     (\<forall>r. ch_old_row c = Some r \<or> ch_new_row c = Some r \<longrightarrow> row_ok r) \<and>
     (case ch_kind c of
        CInsert \<Rightarrow> ch_old_row c = None \<and> ch_new_row c \<noteq> None \<and> ch_old_version c = None \<and> ch_new_version c \<noteq> None
      | CUpdate \<Rightarrow> ch_old_row c \<noteq> None \<and> ch_new_row c \<noteq> None \<and> ch_old_version c \<noteq> None \<and> ch_new_version c \<noteq> None
      | CDelete \<Rightarrow> ch_old_row c \<noteq> None \<and> ch_new_row c = None \<and> ch_old_version c \<noteq> None \<and> ch_new_version c = None)"

lemma wal_take_byte_Cons [simp]: "wal_take_byte (b # c) = Ok (b, c)"
  by (simp add: wal_take_byte_def)

lemma wal_take_byte_not_Panic [simp]: "wal_take_byte c \<noteq> Panic"
  by (simp add: wal_take_byte_def split: list.splits)

interpretation optrowc: codec put_opt_row get_opt_row "\<lambda>r. \<forall>x. r = Some x \<longrightarrow> row_ok x"
  by unfold_locales (auto simp: put_opt_row_def get_opt_row_def rowc.dec_enc split: option.splits)

interpretation optverc: codec put_opt_version get_opt_version "\<lambda>_. True"
  by unfold_locales (auto simp: put_opt_version_def get_opt_version_def u64c.dec_enc split: option.splits)

lemma change_kind_tag_inverse [simp]: "change_kind_from_tag (change_kind_tag k) = Ok k"
  by (cases k) (simp_all add: change_kind_from_tag_def)

lemma decode_encode_change:
  assumes "change_ok c"
  shows "decode_change (encode_change c @ rest) = Ok c"
proof -
  have rows: "\<forall>x. ch_old_row c = Some x \<longrightarrow> row_ok x" "\<forall>x. ch_new_row c = Some x \<longrightarrow> row_ok x"
    using assms by (auto simp: change_ok_def)
  show ?thesis
    using assms unfolding decode_change_def encode_change_def
    by (simp add: u64c.dec_enc optrowc.dec_enc [OF rows(1)] optrowc.dec_enc [OF rows(2)] optverc.dec_enc)
      (cases c; auto simp: change_ok_def change_insert_def change_update_def change_delete_def
        split: change_kind.splits)
qed

lemma decode_change_not_Panic: "decode_change payload \<noteq> Panic"
proof -
  have "get_opt_row c \<noteq> Panic" "get_opt_version c \<noteq> Panic" "change_kind_from_tag t \<noteq> Panic" for c t
    by (auto simp: get_opt_row_def get_opt_version_def change_kind_from_tag_def bind_res_not_Panic)
  then show ?thesis
    unfolding decode_change_def
    by (intro bind_res_not_Panic [THEN iffD2] conjI allI impI)
      (auto simp: bind_res_not_Panic ok_or_def split: change_kind.splits option.splits prod.splits)
qed

section \<open>Framed records\<close>

definition kind_begin :: u8 where "kind_begin = 1"
definition kind_change :: u8 where "kind_change = 2"
definition kind_commit :: u8 where "kind_commit = 3"

definition write_record :: "u8 \<Rightarrow> u8 list \<Rightarrow> u8 list" where
  "write_record kind payload =
     to_le 4 (word_of_nat (length payload) :: u32) @ [kind] @ payload @ to_le 4 (crc32 (kind # payload))"

lemma length_write_record [simp]: "length (write_record kind payload) = length payload + 9"
  by (simp add: write_record_def)

datatype frame = Frame u8 "u8 list" "u8 list" | FrameEnd | FrameShort | FrameBad

definition parse_frame :: "u8 list \<Rightarrow> frame" where
  "parse_frame bs =
     (if bs = [] then FrameEnd
      else if length bs < 4 then FrameShort
      else
        let n = unat (from_le (take 4 bs) :: u32) in
        if length bs < n + 9 then FrameShort
        else
          let kind = bs ! 4; payload = take n (drop 5 bs) in
          if crc32 (kind # payload) \<noteq> from_le (take 4 (drop (5 + n) bs)) then FrameBad
          else Frame kind payload (drop (n + 9) bs))"

definition payload_fits :: "u8 list \<Rightarrow> bool" where
  "payload_fits payload \<longleftrightarrow> length payload < 2 ^ 32"

lemma to_le_4_ne [simp]: "to_le 4 x \<noteq> []"
  by (metis length_0_conv length_to_le zero_neq_numeral)

lemma parse_frame_fields:
  assumes "payload_fits payload" and "length crc = 4"
  shows "parse_frame (to_le 4 (word_of_nat (length payload) :: u32) @ [kind] @ payload @ crc @ rest)
    = (if crc32 (kind # payload) \<noteq> from_le crc then FrameBad else Frame kind payload rest)"
proof -
  have n: "unat (word_of_nat (length payload) :: u32) = length payload"
    using assms(1) by (simp add: payload_fits_def of_nat_inverse)
  have skip: "drop (5 + length payload) (kind # payload @ crc @ rest) = rest"
    using assms(2) by (simp add: numeral_eq_Suc)
  have nth: "(to_le 4 x @ [kind] @ ys) ! 4 = kind" for x :: u32 and ys :: "u8 list"
    by (simp add: nth_append)
  show ?thesis
    unfolding parse_frame_def using assms(2) nth skip by (simp add: n Let_def to_le_4_ne)
qed

lemma parse_write_record:
  "payload_fits payload \<Longrightarrow> parse_frame (write_record kind payload @ rest) = Frame kind payload rest"
  using parse_frame_fields [of payload "to_le 4 (crc32 (kind # payload))" kind rest]
  by (simp add: write_record_def)

lemma parse_frame_prefix:
  assumes "payload_fits payload" and "k < length (write_record kind payload)"
  shows "parse_frame (take k (write_record kind payload)) = (if k = 0 then FrameEnd else FrameShort)"
proof (cases "k < 4")
  case True
  with assms(2) show ?thesis by (auto simp: parse_frame_def write_record_def)
next
  case False
  have "take 4 (take k (write_record kind payload)) = to_le 4 (word_of_nat (length payload) :: u32)"
    using False by (simp add: write_record_def min_def)
  moreover have "unat (word_of_nat (length payload) :: u32) = length payload"
    using assms(1) by (simp add: payload_fits_def of_nat_inverse)
  ultimately have n: "unat (from_le (take 4 (take k (write_record kind payload))) :: u32) = length payload"
    by simp
  have len: "length (take k (write_record kind payload)) = k" using assms(2) by simp
  moreover from len False have "take k (write_record kind payload) \<noteq> []"
    by (metis length_0_conv not_less zero_less_numeral)
  ultimately show ?thesis
    using False assms(2) unfolding parse_frame_def Let_def n by simp
qed

text \<open>A record that parses is consumed from the front of the input, and leaves a shorter rest.\<close>

lemma parse_frame_Frame:
  assumes "parse_frame bs = Frame kind payload rest"
  shows "length bs = length payload + 9 + length rest" and "rest = drop (length payload + 9) bs"
  using assms by (auto simp: parse_frame_def Let_def split: if_splits)

text \<open>One altered byte after the length field is detected.\<close>

lemma from_le_inj4: "length a = 4 \<Longrightarrow> length b = 4 \<Longrightarrow> (from_le a :: u32) = from_le b \<Longrightarrow> a = b"
proof (rule nth_equalityI)
  fix i assume len: "length a = 4" "length b = 4" and eq: "(from_le a :: u32) = from_le b" and i: "i < length a"
  have "bit (a ! i) k \<longleftrightarrow> bit (b ! i) k" if "k < 8" for k
  proof -
    have "bit (from_le a :: u32) (8 * i + k) \<longleftrightarrow> bit (from_le b :: u32) (8 * i + k)" by (simp add: eq)
    then show ?thesis using that i len by (simp add: bit_from_le)
  qed
  then show "a ! i = b ! i" by (intro bit_word_eqI) simp
qed simp

lemma parse_frame_altered:
  assumes fits: "payload_fits payload" and i: "4 \<le> i" "i < length (write_record kind payload)"
    and b: "b \<noteq> write_record kind payload ! i"
  shows "parse_frame ((write_record kind payload)[i := b] @ rest) = FrameBad"
proof -
  let ?len = "to_le 4 (word_of_nat (length payload) :: u32)" and ?crc = "to_le 4 (crc32 (kind # payload))"
  let ?body = "kind # payload"
  have split: "(write_record kind payload)[i := b] = ?len @ (?body @ ?crc)[i - 4 := b]"
    using i by (simp add: write_record_def list_update_append)
  have nth: "write_record kind payload ! i = (?body @ ?crc) ! (i - 4)"
    using i by (simp add: write_record_def nth_append)
  show ?thesis
  proof (cases "i - 4 < length ?body")
    case True
    let ?new = "?body[i - 4 := b]"
    have "length ?new = Suc (length payload)" by (simp del: list_update.simps)
    then obtain k' p' where new: "?new = k' # p'" by (metis length_Suc_conv)
    have p': "length p' = length payload" using new by (metis length_Cons length_list_update Suc_inject)
    have "crc32 ?new \<noteq> crc32 ?body"
    proof
      let ?xs = "take (i - 4) ?body" and ?ys = "drop (Suc (i - 4)) ?body"
      assume "crc32 ?new = crc32 ?body"
      then have "crc32 (?xs @ b # ?ys) = crc32 (?xs @ (?body ! (i - 4)) # ?ys)"
        using True by (metis id_take_nth_drop upd_conv_take_nth_drop)
      then have "b = ?body ! (i - 4)" by (rule crc32_detects_byte)
      moreover have "(?body @ ?crc) ! (i - 4) = ?body ! (i - 4)" by (rule nth_append_left [OF True])
      ultimately show False using b nth by simp
    qed
    moreover have "(?body @ ?crc)[i - 4 := b] = ?new @ ?crc" by (rule list_update_append1 [OF True])
    ultimately have crc: "crc32 (k' # p') \<noteq> crc32 ?body"
      and upd: "(?body @ ?crc)[i - 4 := b] = (k' # p') @ ?crc"
      unfolding new by blast+
    show ?thesis
      unfolding split upd using crc parse_frame_fields [of p' ?crc k' rest] fits p'
      by (simp add: payload_fits_def)
  next
    case False
    let ?new = "?crc[i - 4 - length ?body := b]"
    have j: "i - 4 - length ?body < 4" using i False by simp
    have "?new \<noteq> ?crc"
    proof
      assume "?new = ?crc"
      then have "?crc ! (i - 4 - length ?body) = b" using j by (metis length_to_le nth_list_update_eq)
      moreover have "(?body @ ?crc) ! (i - 4) = ?crc ! (i - 4 - length ?body)"
        using False by (simp only: nth_append if_False)
      ultimately show False using b nth by simp
    qed
    then have "from_le ?new \<noteq> (from_le ?crc :: u32)" using from_le_inj4 [of ?new ?crc] by auto
    moreover have "(?body @ ?crc)[i - 4 := b] = ?body @ ?new" using False by (simp only: list_update_append if_False)
    ultimately show ?thesis
      unfolding split using parse_frame_fields [OF fits, of ?new kind rest] by simp
  qed
qed

end
