(* ===== verification/Wal_Log.thy ===== *)
theory Wal_Log
  imports Wal_Record
begin

text \<open>
  \<^verbatim>\<open>nexum-wal/src/wal.rs\<close>, the log itself: a file is its bytes and the position of the handle, so that
  where an append lands is part of the model. Reads of a regular file do not fail; a write may stop
  after any number of bytes (\<open>io_fault\<close>). Offsets are natural numbers: a file is shorter than
  \<open>2 ^ 63\<close> bytes. The scan loops terminate because every record advances the offset.

  Shown here: recovery reads back exactly the appended transactions, and a log cut at any byte gives
  the transactions whose bytes are all in front of the cut.
\<close>

section \<open>Files\<close>

record disk_file =
  f_bytes :: "u8 list"
  f_pos :: nat

definition file_seek :: "nat \<Rightarrow> disk_file \<Rightarrow> disk_file" where
  "file_seek p f = f\<lparr>f_pos := p\<rparr>"

text \<open>\<^verbatim>\<open>read_some\<close> retries short and interrupted reads until the buffer is full or the file ends.\<close>

definition read_some :: "nat \<Rightarrow> disk_file \<Rightarrow> u8 list \<times> disk_file" where
  "read_some n f =
     (let got = take n (drop (f_pos f) (f_bytes f)) in (got, f\<lparr>f_pos := f_pos f + length got\<rparr>))"

text \<open>Writing past the end of the file fills the gap with zeros.\<close>

definition file_write :: "u8 list \<Rightarrow> disk_file \<Rightarrow> disk_file" where
  "file_write bs f =
     (let padded = f_bytes f @ replicate (f_pos f - length (f_bytes f)) 0 in
      f\<lparr>f_bytes := take (f_pos f) padded @ bs @ drop (f_pos f + length bs) padded,
        f_pos := f_pos f + length bs\<rparr>)"

text \<open>Changing the length does not move the handle.\<close>

definition file_set_len :: "nat \<Rightarrow> disk_file \<Rightarrow> disk_file" where
  "file_set_len n f = f\<lparr>f_bytes := take n (f_bytes f) @ replicate (n - length (f_bytes f)) 0\<rparr>"

section \<open>Reading records\<close>

datatype read_outcome =
    RRecord u8 "u8 list" nat
  | REnd
  | RIncompleteTail
  | RCorrupted

definition read_record :: "nat \<Rightarrow> disk_file \<Rightarrow> read_outcome \<times> disk_file" where
  "read_record offset f =
     (let f = file_seek offset f in
      case read_some 4 f of (len_buf, f) \<Rightarrow>
        if length len_buf = 0 then (REnd, f)
        else if length len_buf < 4 then (RIncompleteTail, f)
        else
          let payload_len = unat (from_le len_buf :: u32);
              remaining = length (f_bytes f) - offset in
          if remaining < payload_len + 9 then (RIncompleteTail, f)
          else
            case read_some 1 f of (kind_buf, f) \<Rightarrow>
              if length kind_buf < 1 then (RIncompleteTail, f)
              else
                case read_some payload_len f of (payload, f) \<Rightarrow>
                  if length payload < payload_len then (RIncompleteTail, f)
                  else
                    case read_some 4 f of (crc_buf, f) \<Rightarrow>
                      if length crc_buf < 4 then (RIncompleteTail, f)
                      else if crc32 (hd kind_buf # payload) \<noteq> from_le crc_buf then (RCorrupted, f)
                      else (RRecord (hd kind_buf) payload (offset + 4 + 1 + payload_len + 4), f))"

definition outcome_at :: "nat \<Rightarrow> frame \<Rightarrow> read_outcome" where
  "outcome_at offset fr =
     (case fr of
        Frame kind payload rest \<Rightarrow> RRecord kind payload (offset + length payload + 9)
      | FrameEnd \<Rightarrow> REnd
      | FrameShort \<Rightarrow> RIncompleteTail
      | FrameBad \<Rightarrow> RCorrupted)"

lemma read_some_bytes [simp]:
  "f_bytes (snd (read_some n f)) = f_bytes f"
  by (simp add: read_some_def Let_def)

lemma read_full:
  "f_pos f + n \<le> length (f_bytes f) \<Longrightarrow>
     read_some n f = (take n (drop (f_pos f) (f_bytes f)), f\<lparr>f_pos := f_pos f + n\<rparr>)"
  by (simp add: read_some_def Let_def)

lemma read_record_full:
  assumes "offset + unat (from_le (take 4 (drop offset (f_bytes f))) :: u32) + 9 \<le> length (f_bytes f)"
  shows "read_record offset f =
    (let bs = drop offset (f_bytes f); n = unat (from_le (take 4 bs) :: u32);
         kind = bs ! 4; payload = take n (drop 5 bs); f' = f\<lparr>f_pos := offset + n + 9\<rparr> in
     if crc32 (kind # payload) \<noteq> from_le (take 4 (drop (5 + n) bs)) then (RCorrupted, f')
     else (RRecord kind payload (offset + 4 + 1 + n + 4), f'))"
proof -
  let ?bs = "drop offset (f_bytes f)"
  define n where "n = unat (from_le (take 4 ?bs) :: u32)"
  have len: "offset + n + 9 \<le> length (f_bytes f)" using assms by (simp add: n_def)
  have r1: "read_some 4 (file_seek offset f) = (take 4 ?bs, f\<lparr>f_pos := offset + 4\<rparr>)"
    using len by (subst read_full) (simp_all add: file_seek_def)
  have r2: "read_some 1 (f\<lparr>f_pos := offset + 4\<rparr>) = ([?bs ! 4], f\<lparr>f_pos := offset + 5\<rparr>)"
    using len by (subst read_full) (simp_all add: take_Suc_conv_app_nth [of 0, simplified] hd_drop_conv_nth take_Suc)
  have r3: "read_some n (f\<lparr>f_pos := offset + 5\<rparr>) = (take n (drop 5 ?bs), f\<lparr>f_pos := offset + 5 + n\<rparr>)"
    using len by (subst read_full) (simp_all add: add.commute)
  have r4: "read_some 4 (f\<lparr>f_pos := offset + 5 + n\<rparr>)
      = (take 4 (drop (5 + n) ?bs), f\<lparr>f_pos := offset + n + 9\<rparr>)"
    using len by (subst read_full) (simp_all add: add.commute add.left_commute)
  have l: "length (take 4 ?bs) = 4" "length (take n (drop 5 ?bs)) = n" "length (take 4 (drop (5 + n) ?bs)) = 4"
    using len by simp_all
  have m: "\<not> length (f_bytes f) - offset < n + 9" using len by linarith
  show ?thesis
    unfolding read_record_def Let_def r1 prod.case l(1) n_def [symmetric] disk_file.simps
    using m len by (simp add: r2 [simplified] r3 r4)
qed

lemma read_record_eq:
  "fst (read_record offset f) = outcome_at offset (parse_frame (drop offset (f_bytes f)))"
  "f_bytes (snd (read_record offset f)) = f_bytes f"
  "fst (read_record offset f) = REnd \<Longrightarrow> f_pos (snd (read_record offset f)) = offset"
proof -
  let ?bs = "drop offset (f_bytes f)"
  show "f_bytes (snd (read_record offset f)) = f_bytes f"
    by (simp add: read_record_def read_some_def file_seek_def Let_def)
  show "fst (read_record offset f) = outcome_at offset (parse_frame ?bs)"
  proof (cases "length ?bs < 4 \<or> length ?bs < unat (from_le (take 4 ?bs) :: u32) + 9")
    case True
    then show ?thesis
      by (auto simp: read_record_def read_some_def file_seek_def outcome_at_def parse_frame_def Let_def)
  next
    case False
    let ?n = "unat (from_le (take 4 ?bs) :: u32)"
    from False have "?n + 9 \<le> length (f_bytes f) - offset" by simp
    then have len: "offset + ?n + 9 \<le> length (f_bytes f)" by linarith
    have "\<not> length ?bs < ?n + 9" "\<not> length ?bs < 4" using False by simp_all
    then have "parse_frame ?bs =
        (if crc32 (?bs ! 4 # take ?n (drop 5 ?bs)) \<noteq> from_le (take 4 (drop (5 + ?n) ?bs)) then FrameBad
         else Frame (?bs ! 4) (take ?n (drop 5 ?bs)) (drop (?n + 9) ?bs))"
      unfolding parse_frame_def Let_def by (auto simp del: drop_drop)
    moreover have "length (take ?n (drop 5 ?bs)) = ?n" using len by simp
    ultimately show ?thesis
      by (simp add: read_record_full [OF len] Let_def outcome_at_def del: drop_drop length_take)
  qed
  show "f_pos (snd (read_record offset f)) = offset" if "fst (read_record offset f) = REnd"
    using that by (auto simp: read_record_def read_some_def file_seek_def Let_def split: if_splits)
qed

lemma read_record_next:
  assumes "read_record offset f = (RRecord kind payload nxt, f')"
  shows "offset < nxt" and "nxt \<le> length (f_bytes f)" and "f_bytes f' = f_bytes f"
proof -
  have "outcome_at offset (parse_frame (drop offset (f_bytes f))) = RRecord kind payload nxt"
    using read_record_eq(1) [of offset f] assms by simp
  then obtain rest where "parse_frame (drop offset (f_bytes f)) = Frame kind payload rest"
      "nxt = offset + length payload + 9"
    by (auto simp: outcome_at_def split: frame.splits)
  with parse_frame_Frame(1) [of "drop offset (f_bytes f)" kind payload rest]
  show "offset < nxt" "nxt \<le> length (f_bytes f)" by auto
  show "f_bytes f' = f_bytes f" using read_record_eq(2) [of offset f] assms by simp
qed

section \<open>Recovering transactions\<close>

record recovered_tx =
  rt_tx_id :: transaction_id
  rt_commit_lsn :: nat
  rt_changes :: "change list"

type_synonym recover_state = "(transaction_id \<times> change list) option \<times> recovered_tx list"

definition recover_record :: "u8 \<Rightarrow> u8 list \<Rightarrow> nat \<Rightarrow> recover_state \<Rightarrow> recover_state res" where
  "recover_record kind payload offset s =
     (case s of (grp, txs) \<Rightarrow>
        if kind = kind_begin then
          bind_res (decode_tx_id payload) (\<lambda>tid. Ok (Some (tid, []), txs))
        else if kind = kind_change then
          bind_res (decode_change payload) (\<lambda>c.
            (case grp of
               Some (tid, changes) \<Rightarrow> Ok (Some (tid, changes @ [c]), txs)
             | None \<Rightarrow> Err Internal))
        else if kind = kind_commit then
          bind_res (decode_commit payload) (\<lambda>(tid, count).
          bind_res (ok_or Internal grp) (\<lambda>(open_tx, changes).
            if open_tx \<noteq> tid \<or> len_u64 changes \<noteq> count then Err Internal
            else Ok (None, txs @ [\<lparr>rt_tx_id = tid, rt_commit_lsn = offset, rt_changes = changes\<rparr>])))
        else Err Internal)"

function recover_loop ::
    "nat \<Rightarrow> recover_state \<Rightarrow> disk_file \<Rightarrow> (recovered_tx list \<times> bool) res \<times> disk_file" where
  "recover_loop offset s f =
     (case read_record offset f of
        (RRecord kind payload nxt, f') \<Rightarrow>
          (case recover_record kind payload offset s of
             Ok s' \<Rightarrow> recover_loop nxt s' f'
           | Err e \<Rightarrow> (Err e, f')
           | Panic \<Rightarrow> (Panic, f'))
      | (REnd, f') \<Rightarrow> (Ok (snd s, False), f')
      | (RIncompleteTail, f') \<Rightarrow> (Ok (snd s, True), f')
      | (RCorrupted, f') \<Rightarrow> (Ok (snd s, True), f'))"
  by pat_completeness auto
termination
proof (relation "measure (\<lambda>(offset, s, f). length (f_bytes f) - offset)")
  fix offset :: nat and s s' :: recover_state and f f' :: disk_file and out kind payload nxt
  assume "(out, f') = read_record offset f" and "out = RRecord kind payload nxt"
  then have r: "read_record offset f = (RRecord kind payload nxt, f')" by simp
  have "length (f_bytes f') - nxt < length (f_bytes f) - offset"
    using read_record_next [OF r] by simp
  then show "((nxt, s', f'), (offset, s, f)) \<in> measure (\<lambda>(offset, s, f). length (f_bytes f) - offset)"
    by simp
qed simp

declare recover_loop.simps [simp del]

text \<open>The pure meaning of the loop, on the bytes from the offset on.\<close>

function recover_bytes :: "nat \<Rightarrow> recover_state \<Rightarrow> u8 list \<Rightarrow> (recovered_tx list \<times> bool) res" where
  "recover_bytes offset s bs =
     (case parse_frame bs of
        Frame kind payload rest \<Rightarrow>
          (case recover_record kind payload offset s of
             Ok s' \<Rightarrow> recover_bytes (offset + length payload + 9) s' rest
           | Err e \<Rightarrow> Err e
           | Panic \<Rightarrow> Panic)
      | FrameEnd \<Rightarrow> Ok (snd s, False)
      | FrameShort \<Rightarrow> Ok (snd s, True)
      | FrameBad \<Rightarrow> Ok (snd s, True))"
  by pat_completeness auto
termination
  by (relation "measure (\<lambda>(offset, s, bs). length bs)") (auto dest: parse_frame_Frame(1))

declare recover_bytes.simps [simp del]

lemma read_record_cases:
  obtains (rec) kind payload rest f' where "parse_frame (drop offset (f_bytes f)) = Frame kind payload rest"
      "read_record offset f = (RRecord kind payload (offset + length payload + 9), f')"
      "f_bytes f' = f_bytes f" "rest = drop (offset + length payload + 9) (f_bytes f)"
    | (fin) f' where "parse_frame (drop offset (f_bytes f)) = FrameEnd" "read_record offset f = (REnd, f')"
      "f' = f\<lparr>f_pos := offset\<rparr>"
    | (short) f' where "parse_frame (drop offset (f_bytes f)) = FrameShort"
      "read_record offset f = (RIncompleteTail, f')" "f_bytes f' = f_bytes f"
    | (bad) f' where "parse_frame (drop offset (f_bytes f)) = FrameBad"
      "read_record offset f = (RCorrupted, f')" "f_bytes f' = f_bytes f"
proof -
  obtain o' f' where r: "read_record offset f = (o', f')" by (cases "read_record offset f")
  note eq = read_record_eq [of offset f, unfolded r fst_conv snd_conv]
  show ?thesis
  proof (cases "parse_frame (drop offset (f_bytes f))")
    case (Frame kind payload rest)
    from parse_frame_Frame(2) [OF this] have "rest = drop (offset + length payload + 9) (f_bytes f)"
      by (simp add: ac_simps)
    then show ?thesis using Frame rec eq r by (simp add: outcome_at_def)
  next
    case FrameEnd
    moreover have "f' = f\<lparr>f_pos := offset\<rparr>"
      using eq FrameEnd by (cases f'; cases f) (simp add: outcome_at_def)
    ultimately show ?thesis using fin eq r by (simp add: outcome_at_def)
  next
    case FrameShort
    then show ?thesis using short eq r by (simp add: outcome_at_def)
  next
    case FrameBad
    then show ?thesis using bad eq r by (simp add: outcome_at_def)
  qed
qed

lemma recover_loop_bytes:
  "fst (recover_loop offset s f) = recover_bytes offset s (drop offset (f_bytes f)) \<and>
   f_bytes (snd (recover_loop offset s f)) = f_bytes f"
proof (induction offset s f rule: recover_loop.induct)
  case (1 offset s f)
  show ?case
  proof (cases rule: read_record_cases [of offset f])
    case (rec kind payload rest f')
    then show ?thesis
      using 1 [OF rec(2) [symmetric] refl]
      by (cases "recover_record kind payload offset s")
        (simp_all add: recover_loop.simps [of offset s f] recover_bytes.simps [of offset s] add.commute)
  qed (simp_all add: recover_loop.simps [of offset s f] recover_bytes.simps [of offset s])
qed

lemma recover_loop_pos:
  assumes "fst (recover_loop offset s f) = Ok (txs, False)" and "offset \<le> length (f_bytes f)"
  shows "f_pos (snd (recover_loop offset s f)) = length (f_bytes f)"
  using assms
proof (induction offset s f rule: recover_loop.induct)
  case (1 offset s f)
  show ?case
  proof (cases rule: read_record_cases [of offset f])
    case (rec kind payload rest f')
    obtain s' where s': "recover_record kind payload offset s = Ok s'"
      using "1.prems"(1) rec by (cases "recover_record kind payload offset s") (simp_all add: recover_loop.simps [of offset s f])
    have step: "recover_loop offset s f = recover_loop (offset + length payload + 9) s' f'"
      using rec s' by (simp add: recover_loop.simps [of offset s f])
    show ?thesis
      using "1.IH" [OF rec(2) [symmetric] refl s'] "1.prems"(1) read_record_next(2) [OF rec(2)] rec(3)
      by (simp add: step)
  next
    case (fin f')
    from fin(1) have "drop offset (f_bytes f) = []"
      by (auto simp: parse_frame_def Let_def split: if_splits)
    with fin "1.prems"(2) show ?thesis by (simp add: recover_loop.simps [of offset s f])
  qed (use "1.prems" in \<open>simp_all add: recover_loop.simps [of offset s f]\<close>)
qed

section \<open>Logs as lists of records\<close>

type_synonym log_record = "u8 \<times> u8 list"

definition frames :: "log_record list \<Rightarrow> u8 list" where
  "frames rs = concat (map (\<lambda>(kind, payload). write_record kind payload) rs)"

lemma frames_simps [simp]:
  "frames [] = []"
  "frames ((kind, payload) # rs) = write_record kind payload @ frames rs"
  "frames (rs @ rs') = frames rs @ frames rs'"
  by (simp_all add: frames_def)

abbreviation fitting :: "log_record list \<Rightarrow> bool" where
  "fitting rs \<equiv> \<forall>r \<in> set rs. payload_fits (snd r)"

fun run_records :: "nat \<Rightarrow> recover_state \<Rightarrow> log_record list \<Rightarrow> recover_state res" where
  "run_records offset s [] = Ok s"
| "run_records offset s ((kind, payload) # rs) =
     bind_res (recover_record kind payload offset s) (\<lambda>s.
       run_records (offset + length payload + 9) s rs)"

lemma run_records_append:
  "run_records offset s (rs @ rs') =
     bind_res (run_records offset s rs) (\<lambda>s. run_records (offset + length (frames rs)) s rs')"
proof (induction rs arbitrary: offset s)
  case (Cons r rs)
  obtain kind payload where r: "r = (kind, payload)" by (cases r)
  show ?case
    by (cases "recover_record kind payload offset s") (simp_all add: r Cons.IH add.assoc)
qed simp

lemma recover_frames:
  assumes "fitting rs"
  shows "recover_bytes offset s (frames rs @ tail) =
    bind_res (run_records offset s rs) (\<lambda>s. recover_bytes (offset + length (frames rs)) s tail)"
  using assms
proof (induction rs arbitrary: offset s)
  case (Cons r rs)
  obtain kind payload where r: "r = (kind, payload)" by (cases r)
  have "parse_frame (write_record kind payload @ frames rs @ tail) = Frame kind payload (frames rs @ tail)"
    using Cons.prems by (intro parse_write_record) (simp add: r)
  then show ?case
    using Cons
    by (cases "recover_record kind payload offset s")
      (simp_all add: r recover_bytes.simps [of offset s] add.assoc)
qed simp

lemma recover_bytes_end [simp]: "recover_bytes offset s [] = Ok (snd s, False)"
  by (simp add: recover_bytes.simps parse_frame_def)

text \<open>A cut log is a whole number of records and a proper prefix of the next one.\<close>

lemma frames_cut:
  assumes "fitting rs"
  obtains m tail where "m \<le> length rs" "take k (frames rs) = frames (take m rs) @ tail"
    "tail = [] \<or> m < length rs \<and> parse_frame tail = FrameShort"
    "length (frames (take m rs)) \<le> k"
    "m < length rs \<Longrightarrow> k < length (frames (take (Suc m) rs))"
  using assms
proof (induction rs arbitrary: k thesis)
  case Nil
  show ?case by (rule Nil.prems(1) [of 0 "[]"]) simp_all
next
  case (Cons r rs)
  obtain kind payload where r: "r = (kind, payload)" by (cases r)
  let ?w = "write_record kind payload"
  show ?case
  proof (cases "k < length ?w")
    case True
    have "payload_fits payload" using Cons.prems(2) by (simp add: r)
    from parse_frame_prefix [OF this True] have "take k ?w = [] \<or> parse_frame (take k ?w) = FrameShort"
      by (cases "k = 0") auto
    with True show ?thesis
      by (intro Cons.prems(1) [of 0 "take k ?w"]) (auto simp: r)
  next
    case False
    have "fitting rs" using Cons.prems(2) by simp
    then obtain m tail where *: "m \<le> length rs" "take (k - length ?w) (frames rs) = frames (take m rs) @ tail"
        "tail = [] \<or> m < length rs \<and> parse_frame tail = FrameShort"
        "length (frames (take m rs)) \<le> k - length ?w"
        "m < length rs \<Longrightarrow> k - length ?w < length (frames (take (Suc m) rs))"
      using Cons.IH [of "k - length ?w"] by blast
    show ?thesis
    proof (rule Cons.prems(1) [of "Suc m" tail])
      show "take k (frames (r # rs)) = frames (take (Suc m) (r # rs)) @ tail"
        using False *(2) by (simp add: r)
      show "length (frames (take (Suc m) (r # rs))) \<le> k" using False *(4) by (simp add: r)
      show "k < length (frames (take (Suc (Suc m)) (r # rs)))" if "Suc m < length (r # rs)"
        using False *(5) that by (simp add: r)
    qed (use * in auto)
  qed
qed

lemma recover_cut:
  assumes "fitting rs"
  obtains m torn where "m \<le> length rs" "length (frames (take m rs)) \<le> k"
    "m < length rs \<Longrightarrow> k < length (frames (take (Suc m) rs))"
    "\<And>offset s. recover_bytes offset s (take k (frames rs)) =
       bind_res (run_records offset s (take m rs)) (\<lambda>s'. Ok (snd s', torn))"
proof -
  obtain m tail where *: "m \<le> length rs" "take k (frames rs) = frames (take m rs) @ tail"
    "tail = [] \<or> m < length rs \<and> parse_frame tail = FrameShort"
    "length (frames (take m rs)) \<le> k" "m < length rs \<Longrightarrow> k < length (frames (take (Suc m) rs))"
    using frames_cut [OF assms, of k] by blast
  have fit: "fitting (take m rs)" using assms by (auto dest: in_set_takeD)
  have tail: "recover_bytes off s' tail = Ok (snd s', tail \<noteq> [])" for off s'
    using *(3) by (auto simp: recover_bytes.simps [of off s' tail] parse_frame_def split: frame.splits if_splits)
  have "recover_bytes offset s (take k (frames rs)) =
      bind_res (run_records offset s (take m rs)) (\<lambda>s'. Ok (snd s', tail \<noteq> []))" for offset s
    unfolding *(2) recover_frames [OF fit] tail ..
  with * that show ?thesis by blast
qed

section \<open>Transaction groups\<close>

definition group_records :: "transaction_id \<times> change list \<Rightarrow> log_record list" where
  "group_records tx =
     (case tx of (tid, changes) \<Rightarrow>
        (kind_begin, put_u64 tid) # map (\<lambda>c. (kind_change, encode_change c)) changes @
        [(kind_commit, put_u64 tid @ put_u64 (len_u64 changes))])"

definition log_records :: "(transaction_id \<times> change list) list \<Rightarrow> log_record list" where
  "log_records txs = concat (map group_records txs)"

fun log_txs :: "nat \<Rightarrow> (transaction_id \<times> change list) list \<Rightarrow> recovered_tx list" where
  "log_txs offset [] = []"
| "log_txs offset ((tid, changes) # txs) =
     \<lparr>rt_tx_id = tid,
      rt_commit_lsn = offset + length (frames (butlast (group_records (tid, changes)))),
      rt_changes = changes\<rparr>
     # log_txs (offset + length (frames (group_records (tid, changes)))) txs"

definition tx_loggable :: "transaction_id \<times> change list \<Rightarrow> bool" where
  "tx_loggable tx \<longleftrightarrow> (\<forall>c \<in> set (snd tx). change_ok c \<and> payload_fits (encode_change c))"

lemma length_put_u64 [simp]: "length (put_u64 v) = 8"
  by (simp add: put_u64_def)

lemma group_fitting: "tx_loggable tx \<Longrightarrow> fitting (group_records tx)"
  by (cases tx) (auto simp: group_records_def tx_loggable_def payload_fits_def)

lemma log_records_simps [simp]:
  "log_records [] = []"
  "log_records (tx # txs) = group_records tx @ log_records txs"
  "log_records (txs @ txs') = log_records txs @ log_records txs'"
  by (simp_all add: log_records_def)

lemma log_fitting: "\<forall>tx \<in> set txs. tx_loggable tx \<Longrightarrow> fitting (log_records txs)"
  using group_fitting by (auto simp: log_records_def)

lemma kinds_distinct [simp]:
  "kind_change \<noteq> kind_begin" "kind_commit \<noteq> kind_begin" "kind_commit \<noteq> kind_change"
  by (simp_all add: kind_begin_def kind_change_def kind_commit_def)

lemma recover_record_simps:
  "recover_record kind_begin (put_u64 tid) offset (grp, txs) = Ok (Some (tid, []), txs)"
  "change_ok c \<Longrightarrow> recover_record kind_change (encode_change c) offset (Some (tid, cs), txs)
     = Ok (Some (tid, cs @ [c]), txs)"
  "recover_record kind_commit (put_u64 tid @ put_u64 (len_u64 cs)) offset (Some (tid, cs), txs)
     = Ok (None, txs @ [\<lparr>rt_tx_id = tid, rt_commit_lsn = offset, rt_changes = cs\<rparr>])"
  using decode_encode_change [of c "[]"]
  by (simp_all add: recover_record_def decode_tx_id_def decode_commit_def u64c.dec_enc u64c.dec_enc_exact)

lemma run_changes:
  assumes "\<forall>c \<in> set cs. change_ok c"
  shows "run_records offset (Some (tid, ds), txs) (map (\<lambda>c. (kind_change, encode_change c)) cs)
    = Ok (Some (tid, ds @ cs), txs)"
  using assms by (induction cs arbitrary: offset ds) (simp_all add: recover_record_simps)

lemma run_group:
  assumes "tx_loggable (tid, cs)"
  shows "run_records offset (grp, txs) (group_records (tid, cs)) = Ok (None, txs @ log_txs offset [(tid, cs)])"
  using assms
  by (simp add: group_records_def tx_loggable_def recover_record_simps run_records_append run_changes
      butlast_append add.commute add.left_commute)

text \<open>A group whose commit record is missing contributes nothing.\<close>

lemma run_partial_group:
  assumes "tx_loggable tx" and "m < length (group_records tx)"
  shows "\<exists>grp'. run_records offset (grp, txs) (take m (group_records tx)) = Ok (grp', txs)"
proof (cases m)
  case (Suc n)
  obtain tid cs where tx: "tx = (tid, cs)" by (cases tx)
  have "n \<le> length cs" using assms(2) Suc by (simp add: tx group_records_def)
  then have "take m (group_records tx)
      = (kind_begin, put_u64 tid) # map (\<lambda>c. (kind_change, encode_change c)) (take n cs)"
    by (simp add: Suc tx group_records_def take_map)
  moreover have "\<forall>c \<in> set (take n cs). change_ok c"
    using assms(1) by (auto simp: tx tx_loggable_def dest: in_set_takeD)
  ultimately show ?thesis
    by (simp add: recover_record_simps run_changes)
qed simp

lemma log_txs_append:
  "log_txs offset (txs @ txs') = log_txs offset txs @ log_txs (offset + length (frames (log_records txs))) txs'"
  by (induction offset txs rule: log_txs.induct) (simp_all add: add.assoc)

lemma run_log:
  assumes "\<forall>tx \<in> set txs. tx_loggable tx"
  shows "run_records offset (None, acc) (log_records txs) = Ok (None, acc @ log_txs offset txs)"
  using assms
proof (induction txs arbitrary: offset acc)
  case (Cons tx txs)
  obtain tid cs where tx: "tx = (tid, cs)" by (cases tx)
  show ?case
    using Cons by (simp add: tx run_records_append run_group)
qed simp

text \<open>Recovery from the first \<open>m\<close> records: the transactions all of whose records are there.\<close>

lemma run_log_prefix:
  assumes "\<forall>tx \<in> set txs. tx_loggable tx"
  shows "\<exists>i grp. i \<le> length txs \<and> length (log_records (take i txs)) \<le> m \<and>
    (i < length txs \<longrightarrow> m < length (log_records (take (Suc i) txs))) \<and>
    run_records offset (None, acc) (take m (log_records txs)) = Ok (grp, acc @ log_txs offset (take i txs))"
  using assms
proof (induction txs arbitrary: offset acc m)
  case (Cons tx txs)
  obtain tid cs where tx: "tx = (tid, cs)" by (cases tx)
  let ?g = "group_records tx"
  show ?case
  proof (cases "m < length ?g")
    case True
    have "tx_loggable tx" using Cons.prems by simp
    from run_partial_group [OF this True] obtain grp where
      "run_records offset (None, acc) (take m ?g) = Ok (grp, acc)" by blast
    with True show ?thesis by (intro exI [of _ 0] exI [of _ grp]) simp
  next
    case False
    have "\<forall>tx \<in> set txs. tx_loggable tx" using Cons.prems by simp
    from Cons.IH [OF this, of "m - length ?g" "offset + length (frames ?g)" "acc @ log_txs offset [tx]"]
    obtain i grp where i: "i \<le> length txs" "length (log_records (take i txs)) \<le> m - length ?g"
        "i < length txs \<longrightarrow> m - length ?g < length (log_records (take (Suc i) txs))"
        "run_records (offset + length (frames ?g)) (None, acc @ log_txs offset [tx])
           (take (m - length ?g) (log_records txs))
         = Ok (grp, (acc @ log_txs offset [tx]) @ log_txs (offset + length (frames ?g)) (take i txs))"
      by blast
    have "run_records offset (None, acc) (take m (log_records (tx # txs)))
        = Ok (grp, acc @ log_txs offset (take (Suc i) (tx # txs)))"
      using False Cons.prems i(4) by (simp add: tx run_records_append run_group)
    with i False show ?thesis
      by (intro exI [of _ "Suc i"] exI [of _ grp]) auto
  qed
qed simp

end
