(* ===== verification/Wal_Journal.thy ===== *)
theory Wal_Journal
  imports Wal_Log
begin

text \<open>
  \<^verbatim>\<open>nexum-wal/src/wal.rs\<close>, the type \<^verbatim>\<open>Wal\<close>: create, open (with the repair of a torn tail), append and
  recover. \<open>log_state now rs w\<close> says that the file is a header and the records \<open>rs\<close>, with the handle
  at its end, which is what every append relies on. The last section shows where that fails: the
  truncation after a failed append leaves the handle behind the new end of the file.
\<close>

section \<open>The log and its operations\<close>

datatype durability_policy = Flush | Sync

text \<open>What the device does to one append: everything succeeds, or the write or the following flush
  fails after \<open>n\<close> bytes reached the file, and the truncation back succeeds or not.\<close>

datatype io_fault = IoOk | IoFail nat bool

record wal =
  w_file :: disk_file
  w_next_lsn :: nat
  w_policy :: durability_policy
  w_truncated_on_open :: bool

definition header_magic :: "u8 list" where
  "header_magic = [0x4E, 0x45, 0x58, 0x57]"

definition format_version :: u32 where
  "format_version = 1"

definition header_len :: nat where
  "header_len = 16"

definition header_bytes :: "u64 \<Rightarrow> u8 list" where
  "header_bytes now = header_magic @ to_le 4 format_version @ put_u64 now"

definition write_header :: "u64 \<Rightarrow> wal \<Rightarrow> wal" where
  "write_header now w = w\<lparr>w_file := file_write (header_bytes now) (file_seek 0 (w_file w))\<rparr>"

definition wal_create :: "u64 \<Rightarrow> durability_policy \<Rightarrow> wal" where
  "wal_create now policy =
     write_header now
       \<lparr>w_file = \<lparr>f_bytes = [], f_pos = 0\<rparr>, w_next_lsn = header_len, w_policy = policy,
        w_truncated_on_open = False\<rparr>"

function scan_records :: "nat \<Rightarrow> disk_file \<Rightarrow> nat \<times> disk_file" where
  "scan_records offset f =
     (case read_record offset f of
        (RRecord kind payload nxt, f') \<Rightarrow> scan_records nxt f'
      | (REnd, f') \<Rightarrow> (offset, f')
      | (RIncompleteTail, f') \<Rightarrow> (offset, f')
      | (RCorrupted, f') \<Rightarrow> (offset, f'))"
  by pat_completeness auto
termination
proof (relation "measure (\<lambda>(offset, f). length (f_bytes f) - offset)")
  fix offset :: nat and f f' :: disk_file and out kind payload nxt
  assume "(out, f') = read_record offset f" and "out = RRecord kind payload nxt"
  then have r: "read_record offset f = (RRecord kind payload nxt, f')" by simp
  have "length (f_bytes f') - nxt < length (f_bytes f) - offset"
    using read_record_next [OF r] by simp
  then show "((nxt, f'), (offset, f)) \<in> measure (\<lambda>(offset, f). length (f_bytes f) - offset)"
    by simp
qed simp

declare scan_records.simps [simp del]

text \<open>\<open>disk\<close> is the content of the file at the path, \<open>None\<close> when it cannot be opened.\<close>

definition wal_open :: "u64 \<Rightarrow> durability_policy \<Rightarrow> u8 list option \<Rightarrow> wal res" where
  "wal_open now policy disk =
     (case disk of
        None \<Rightarrow> Err NotFound
      | Some bytes \<Rightarrow>
          let f = \<lparr>f_bytes = bytes, f_pos = 0\<rparr> in
          if length bytes = 0 then
            Ok (write_header now
              \<lparr>w_file = f, w_next_lsn = header_len, w_policy = policy, w_truncated_on_open = False\<rparr>)
          else if length bytes < header_len then Err Internal
          else
            case read_some header_len (file_seek 0 f) of (header, f) \<Rightarrow>
              if take 4 header \<noteq> header_magic then Err Internal
              else if from_le (take 4 (drop 4 header)) \<noteq> format_version then Err Internal
              else
                case scan_records header_len f of (last_valid, f) \<Rightarrow>
                  let truncated = (last_valid \<noteq> length (f_bytes f)) in
                  Ok \<lparr>w_file = (if truncated then file_set_len last_valid f else f),
                      w_next_lsn = last_valid, w_policy = policy,
                      w_truncated_on_open = truncated\<rparr>)"

definition put_framed :: "u8 \<Rightarrow> u8 list \<Rightarrow> u8 list \<times> nat \<Rightarrow> u8 list \<times> nat" where
  "put_framed kind payload p =
     (case p of (buf, cursor) \<Rightarrow>
        (buf @ write_record kind payload, cursor + (4 + 1 + length payload + 4)))"

definition wal_append ::
    "transaction_id \<Rightarrow> change list \<Rightarrow> io_fault \<Rightarrow> wal \<Rightarrow> nat res \<times> wal" where
  "wal_append tid changes fault w =
     (let start = w_next_lsn w;
          p = put_framed kind_begin (put_u64 tid) ([], start);
          p = fold (\<lambda>c. put_framed kind_change (encode_change c)) changes p;
          commit_lsn = snd p in
      case put_framed kind_commit (put_u64 tid @ put_u64 (len_u64 changes)) p of (buf, cursor) \<Rightarrow>
        (case fault of
           IoOk \<Rightarrow>
             (Ok commit_lsn, w\<lparr>w_file := file_write buf (w_file w), w_next_lsn := cursor\<rparr>)
         | IoFail n truncates \<Rightarrow>
             let f = file_write (take n buf) (w_file w) in
             (Err Internal, w\<lparr>w_file := (if truncates then file_set_len start f else f)\<rparr>)))"

definition wal_recover_changes :: "wal \<Rightarrow> (recovered_tx list \<times> bool) res \<times> wal" where
  "wal_recover_changes w =
     (case recover_loop header_len (None, []) (file_seek header_len (w_file w)) of
        (res, f) \<Rightarrow> (res, w\<lparr>w_file := f\<rparr>))"

section \<open>What an append relies on\<close>

definition log_state :: "u64 \<Rightarrow> log_record list \<Rightarrow> wal \<Rightarrow> bool" where
  "log_state now rs w \<longleftrightarrow>
     fitting rs \<and> f_bytes (w_file w) = header_bytes now @ frames rs \<and>
     w_next_lsn w = length (f_bytes (w_file w)) \<and> f_pos (w_file w) = length (f_bytes (w_file w))"

lemma length_header [simp]: "length (header_bytes now) = 16"
  by (simp add: header_bytes_def header_magic_def)

lemma file_write_end:
  "f_pos f = length (f_bytes f) \<Longrightarrow>
     file_write bs f = f\<lparr>f_bytes := f_bytes f @ bs, f_pos := length (f_bytes f) + length bs\<rparr>"
  by (simp add: file_write_def Let_def)

lemma wal_create_state: "log_state now [] (wal_create now policy)"
  by (simp add: log_state_def wal_create_def write_header_def file_seek_def file_write_def header_len_def Let_def)

lemma put_framed_changes:
  "fold (\<lambda>c. put_framed kind_change (encode_change c)) cs (buf, cursor)
     = (buf @ frames (map (\<lambda>c. (kind_change, encode_change c)) cs),
        cursor + length (frames (map (\<lambda>c. (kind_change, encode_change c)) cs)))"
  by (induction cs arbitrary: buf cursor) (simp_all add: put_framed_def)

lemma wal_append_eq:
  "wal_append tid cs fault w =
     (case fault of
        IoOk \<Rightarrow>
          (Ok (w_next_lsn w + length (frames (butlast (group_records (tid, cs))))),
           w\<lparr>w_file := file_write (frames (group_records (tid, cs))) (w_file w),
             w_next_lsn := w_next_lsn w + length (frames (group_records (tid, cs)))\<rparr>)
      | IoFail n truncates \<Rightarrow>
          let f = file_write (take n (frames (group_records (tid, cs)))) (w_file w) in
          (Err Internal, w\<lparr>w_file := (if truncates then file_set_len (w_next_lsn w) f else f)\<rparr>))"
  unfolding wal_append_def Let_def put_framed_def [of kind_begin] prod.case put_framed_changes
  by (simp add: put_framed_def group_records_def butlast_append add.commute add.left_commute
      split: io_fault.splits)

lemma wal_append_state:
  assumes "log_state now rs w" and "tx_loggable (tid, cs)"
  shows "\<exists>w'. wal_append tid cs IoOk w
      = (Ok (w_next_lsn w + length (frames (butlast (group_records (tid, cs))))), w') \<and>
    log_state now (rs @ group_records (tid, cs)) w' \<and> w_truncated_on_open w' = w_truncated_on_open w"
  using assms group_fitting [OF assms(2)]
  by (auto simp: wal_append_eq log_state_def file_write_end)

lemma drop_header [simp]: "drop header_len (header_bytes now @ bs) = bs"
  by (simp add: header_len_def)

lemma wal_recover_bytes:
  assumes "f_bytes (w_file w) = header_bytes now @ bs"
  shows "fst (wal_recover_changes w) = recover_bytes header_len (None, []) bs"
    and "f_bytes (w_file (snd (wal_recover_changes w))) = f_bytes (w_file w)"
  using recover_loop_bytes [of header_len "(None, [])" "file_seek header_len (w_file w)"] assms
  by (simp_all add: wal_recover_changes_def file_seek_def header_len_def case_prod_beta)

lemma wal_recover_pos:
  assumes "fst (wal_recover_changes w) = Ok (txs, False)" and "header_len \<le> length (f_bytes (w_file w))"
  shows "f_pos (w_file (snd (wal_recover_changes w))) = length (f_bytes (w_file w))"
  using recover_loop_pos [of header_len "(None, [])" "file_seek header_len (w_file w)" txs] assms
  by (simp add: wal_recover_changes_def file_seek_def case_prod_beta)

lemma wal_recover_keeps:
  "w_next_lsn (snd (wal_recover_changes w)) = w_next_lsn w"
  "w_truncated_on_open (snd (wal_recover_changes w)) = w_truncated_on_open w"
  by (simp_all add: wal_recover_changes_def split: prod.splits)

lemma wal_recover_state:
  assumes bytes: "f_bytes (w_file w) = header_bytes now @ frames rs" and fit: "fitting rs"
    and lsn: "w_next_lsn w = length (f_bytes (w_file w))"
    and run: "run_records header_len (None, []) rs = Ok (grp, txs)"
  shows "\<exists>w'. wal_recover_changes w = (Ok (txs, False), w') \<and> log_state now rs w' \<and>
    w_truncated_on_open w' = w_truncated_on_open w"
proof -
  have res: "fst (wal_recover_changes w) = Ok (txs, False)"
    using wal_recover_bytes(1) [OF bytes] recover_frames [OF fit, of header_len "(None, [])" "[]"] run by simp
  moreover have "log_state now rs (snd (wal_recover_changes w))"
    using wal_recover_pos [OF res] wal_recover_bytes(2) [OF bytes] bytes fit lsn
    by (simp add: log_state_def wal_recover_keeps header_len_def)
  ultimately show ?thesis
    using wal_recover_keeps(2) by (metis prod.collapse)
qed

text \<open>A run of acknowledged appends.\<close>

definition append_all :: "(transaction_id \<times> change list) list \<Rightarrow> wal \<Rightarrow> wal" where
  "append_all txs w = fold (\<lambda>(tid, cs) w. snd (wal_append tid cs IoOk w)) txs w"

lemma append_all_state:
  assumes "log_state now rs w" and "\<forall>tx \<in> set txs. tx_loggable tx"
  shows "log_state now (rs @ log_records txs) (append_all txs w)"
  using assms
proof (induction txs arbitrary: rs w)
  case (Cons tx txs)
  obtain tid cs where tx: "tx = (tid, cs)" by (cases tx)
  have "tx_loggable (tid, cs)" using Cons.prems by (simp add: tx)
  from wal_append_state [OF Cons.prems(1) this] obtain lsn w' where
    w': "wal_append tid cs IoOk w = (Ok lsn, w')" "log_state now (rs @ group_records tx) w'"
    by (auto simp: tx)
  have "append_all (tx # txs) w = append_all txs w'" by (simp add: append_all_def tx w'(1))
  with Cons.IH [OF w'(2)] Cons.prems(2) show ?case by simp
qed (simp add: append_all_def)

lemma log_txs_fields: "map (\<lambda>t. (rt_tx_id t, rt_changes t)) (log_txs offset txs) = txs"
  by (induction offset txs rule: log_txs.induct) simp_all

section \<open>Opening a log that was cut\<close>

lemma scan_records_frames:
  assumes "fitting rs" and "tail = [] \<or> parse_frame tail = FrameShort"
    and "drop offset (f_bytes f) = frames rs @ tail" and "offset \<le> length (f_bytes f)"
  shows "fst (scan_records offset f) = offset + length (frames rs) \<and>
    f_bytes (snd (scan_records offset f)) = f_bytes f \<and>
    (tail = [] \<longrightarrow> f_pos (snd (scan_records offset f)) = offset + length (frames rs))"
  using assms
proof (induction rs arbitrary: offset f)
  case Nil
  show ?case
  proof (cases rule: read_record_cases [of offset f])
    case (rec kind payload rest f')
    with Nil.prems have False by (auto simp: parse_frame_def)
    then show ?thesis ..
  next
    case (short f')
    with Nil.prems have "tail \<noteq> []" by (auto simp: parse_frame_def)
    with short show ?thesis by (simp add: scan_records.simps [of offset f])
  qed (use Nil.prems in \<open>auto simp: scan_records.simps [of offset f] parse_frame_def\<close>)
next
  case (Cons r rs)
  obtain kind payload where r: "r = (kind, payload)" by (cases r)
  have parse: "parse_frame (drop offset (f_bytes f)) = Frame kind payload (frames rs @ tail)"
    using Cons.prems parse_write_record [of payload kind "frames rs @ tail"] by (simp add: r)
  show ?case
  proof (cases rule: read_record_cases [of offset f])
    case (rec kind' payload' rest f')
    from rec(1) parse have eq: "kind' = kind" "payload' = payload" "rest = frames rs @ tail" by simp_all
    have le: "offset + length payload + 9 \<le> length (f_bytes f')"
      using read_record_next(2) [OF rec(2)] rec(3) eq by simp
    have fit: "fitting rs" using Cons.prems(1) by simp
    have "drop (offset + length payload + 9) (f_bytes f') = frames rs @ tail"
      using rec(3,4) eq(2,3) by metis
    from Cons.IH [OF fit Cons.prems(2) this le] show ?thesis
      using rec eq by (simp add: scan_records.simps [of offset f] r add.assoc)
  qed (use parse in simp_all)
qed

lemma header_checks:
  "take 4 (header_bytes now) = header_magic"
  "from_le (take 4 (drop 4 (header_bytes now))) = format_version"
  by (simp_all add: header_bytes_def header_magic_def)

lemma wal_open_frames:
  assumes fit: "fitting rs" and tail: "tail = [] \<or> parse_frame tail = FrameShort"
  shows "\<exists>w. wal_open now' policy (Some (header_bytes now @ frames rs @ tail)) = Ok w \<and>
    f_bytes (w_file w) = header_bytes now @ frames rs \<and> w_next_lsn w = length (f_bytes (w_file w)) \<and>
    w_truncated_on_open w = (tail \<noteq> []) \<and> (tail = [] \<longrightarrow> log_state now rs w)"
proof -
  let ?bytes = "header_bytes now @ frames rs @ tail"
  let ?f = "\<lparr>f_bytes = ?bytes, f_pos = 16\<rparr>"
  have read: "read_some header_len (file_seek 0 \<lparr>f_bytes = ?bytes, f_pos = 0\<rparr>) = (header_bytes now, ?f)"
    by (simp add: read_some_def file_seek_def header_len_def Let_def)
  define f1 where "f1 = snd (scan_records header_len ?f)"
  have "drop header_len (f_bytes ?f) = frames rs @ tail" "header_len \<le> length (f_bytes ?f)"
    by (simp_all add: header_len_def)
  from scan_records_frames [OF fit tail this]
  have scan: "scan_records header_len ?f = (header_len + length (frames rs), f1)"
      "f_bytes f1 = ?bytes" "tail = [] \<longrightarrow> f_pos f1 = header_len + length (frames rs)"
    by (auto simp: f1_def prod_eq_iff)
  have long: "?bytes \<noteq> []" "\<not> length ?bytes < header_len"
    by (auto simp: header_len_def dest: arg_cong [of _ _ length])
  let ?torn = "header_len + length (frames rs) \<noteq> length ?bytes"
  have "wal_open now' policy (Some ?bytes) =
      Ok \<lparr>w_file = (if ?torn then file_set_len (header_len + length (frames rs)) f1 else f1),
          w_next_lsn = header_len + length (frames rs), w_policy = policy, w_truncated_on_open = ?torn\<rparr>"
    using long unfolding wal_open_def option.case Let_def disk_file.simps read prod.case scan(1,2) header_checks
    by simp
  moreover have "?torn \<longleftrightarrow> tail \<noteq> []" by (simp add: header_len_def)
  ultimately show ?thesis
    using fit scan(2,3) by (auto simp: log_state_def file_set_len_def header_len_def)
qed

text \<open>A log of records cut anywhere behind its header: opening keeps the whole records, and after
  recovery the handle is where the next append belongs.\<close>

lemma wal_reopen:
  assumes fit: "fitting rs"
    and run: "\<And>m. \<exists>s. run_records header_len (None, []) (take m rs) = Ok s"
  shows "\<exists>m w w' grp txs. m \<le> length rs \<and> length (frames (take m rs)) \<le> k \<and>
    (m < length rs \<longrightarrow> k < length (frames (take (Suc m) rs))) \<and>
    wal_open now' policy (Some (take (header_len + k) (header_bytes now @ frames rs))) = Ok w \<and>
    run_records header_len (None, []) (take m rs) = Ok (grp, txs) \<and>
    wal_recover_changes w = (Ok (txs, False), w') \<and> log_state now (take m rs) w'"
proof -
  obtain m tail where *: "m \<le> length rs" "take k (frames rs) = frames (take m rs) @ tail"
    "tail = [] \<or> m < length rs \<and> parse_frame tail = FrameShort"
    "length (frames (take m rs)) \<le> k" "m < length rs \<Longrightarrow> k < length (frames (take (Suc m) rs))"
    using frames_cut [OF fit, of k] by blast
  have fit': "fitting (take m rs)" using fit by (auto dest: in_set_takeD)
  have tail: "tail = [] \<or> parse_frame tail = FrameShort" using *(3) by blast
  have cut: "take (header_len + k) (header_bytes now @ frames rs) = header_bytes now @ frames (take m rs) @ tail"
    by (simp add: header_len_def *(2))
  obtain w where w: "wal_open now' policy (Some (header_bytes now @ frames (take m rs) @ tail)) = Ok w"
      "f_bytes (w_file w) = header_bytes now @ frames (take m rs)" "w_next_lsn w = length (f_bytes (w_file w))"
    using wal_open_frames [OF fit' tail] by blast
  obtain grp txs where s: "run_records header_len (None, []) (take m rs) = Ok (grp, txs)"
    using run [of m] by auto
  obtain w' where "wal_recover_changes w = (Ok (txs, False), w')" "log_state now (take m rs) w'"
    using wal_recover_state [OF w(2) fit' w(3) s] by blast
  with * w(1) s show ?thesis unfolding cut by blast
qed

text \<open>The same for a log of transactions: those whose bytes lie in front of the cut survive.\<close>

lemma frames_take_le: "frames (take m rs) = take (length (frames (take m rs))) (frames rs)"
  by (metis append_eq_conv_conj append_take_drop_id frames_simps(3))

lemma length_frames_mono: "m \<le> n \<Longrightarrow> length (frames (take m rs)) \<le> length (frames (take n rs))"
  by (metis frames_simps(3) le_add1 le_add_diff_inverse length_append take_add)

lemma log_records_take:
  "log_records (take i txs) = take (length (log_records (take i txs))) (log_records txs)"
  by (metis append_eq_conv_conj append_take_drop_id log_records_simps(3))

lemma wal_reopen_log:
  assumes ok: "\<forall>tx \<in> set txs. tx_loggable tx"
  shows "\<exists>i w w' rs. i \<le> length txs \<and> length (frames (log_records (take i txs))) \<le> k \<and>
    (i < length txs \<longrightarrow> k < length (frames (log_records (take (Suc i) txs)))) \<and>
    wal_open now' policy (Some (take (header_len + k) (header_bytes now @ frames (log_records txs)))) = Ok w \<and>
    wal_recover_changes w = (Ok (log_txs header_len (take i txs), False), w') \<and> log_state now rs w'"
proof -
  let ?rs = "log_records txs"
  have fit: "fitting ?rs" by (rule log_fitting [OF ok])
  have run: "\<exists>s. run_records header_len (None, []) (take m ?rs) = Ok s" for m
    using run_log_prefix [OF ok, of m header_len "[]"] by blast
  obtain m w w' grp ts where m: "m \<le> length ?rs" "length (frames (take m ?rs)) \<le> k"
      "m < length ?rs \<longrightarrow> k < length (frames (take (Suc m) ?rs))"
      and w: "wal_open now' policy (Some (take (header_len + k) (header_bytes now @ frames ?rs))) = Ok w"
      and ts: "run_records header_len (None, []) (take m ?rs) = Ok (grp, ts)"
      and w': "wal_recover_changes w = (Ok (ts, False), w')" "log_state now (take m ?rs) w'"
    using wal_reopen [OF fit run, of k now' policy now] by blast
  obtain i grp' where i: "i \<le> length txs" "length (log_records (take i txs)) \<le> m"
      "i < length txs \<longrightarrow> m < length (log_records (take (Suc i) txs))"
      "run_records header_len (None, []) (take m ?rs) = Ok (grp', log_txs header_len (take i txs))"
    using run_log_prefix [OF ok, of m header_len "[]"] by auto
  have "length (frames (log_records (take i txs))) \<le> length (frames (take m ?rs))"
    by (subst log_records_take) (rule length_frames_mono [OF i(2)])
  moreover have "k < length (frames (log_records (take (Suc i) txs)))" if "i < length txs"
  proof -
    have lt: "m < length (log_records (take (Suc i) txs))" using i(3) that by blast
    have "length (log_records (take (Suc i) txs)) \<le> length ?rs"
      by (subst log_records_take) simp
    with lt have "k < length (frames (take (Suc m) ?rs))" using m(3) by simp
    also have "\<dots> \<le> length (frames (log_records (take (Suc i) txs)))"
      using lt by (subst log_records_take) (intro length_frames_mono, simp)
    finally show ?thesis .
  qed
  ultimately show ?thesis using i(1,4) m(2) w w' ts by fastforce
qed

section \<open>Altered records\<close>

lemma recover_altered:
  assumes bytes: "f_bytes (w_file w)
      = header_bytes now @ frames rs @ (write_record kind payload)[i := b] @ rest"
    and fit: "fitting rs" "payload_fits payload" and run: "run_records header_len (None, []) rs = Ok (grp, txs)"
    and i: "4 \<le> i" "i < length (write_record kind payload)" "b \<noteq> write_record kind payload ! i"
  shows "fst (wal_recover_changes w) = Ok (txs, True)"
  using wal_recover_bytes(1) [OF bytes] run parse_frame_altered [OF fit(2) i, of rest]
  by (simp add: recover_frames [OF fit(1)] recover_bytes.simps [of _ _ "(write_record kind payload)[i := b] @ rest"])

section \<open>A failed append\<close>

lemma append_failed_bytes:
  assumes "log_state now rs w"
  shows "\<exists>w'. wal_append tid cs (IoFail n True) w = (Err Internal, w') \<and>
    f_bytes (w_file w') = f_bytes (w_file w) \<and> w_next_lsn w' = w_next_lsn w \<and>
    f_pos (w_file w') = w_next_lsn w + min n (length (frames (group_records (tid, cs))))"
  using assms by (auto simp: wal_append_eq log_state_def file_write_end file_set_len_def)

text \<open>The next append leaves a gap: after a failure that wrote one byte, an acknowledged
  transaction is not read back.\<close>

lemma gap_short:
  "parse_frame (0 # frames (group_records (tid, []))) = FrameShort"
proof -
  have len: "length (frames (group_records (tid, []))) = 42"
    by (simp add: group_records_def)
  have "to_le 4 (8 :: u32) = [8, 0, 0, 0]" by code_simp
  then have "take 4 (0 # frames (group_records (tid, []))) = [0, 8, 0, 0]"
    by (simp add: group_records_def write_record_def)
  then have "unat (from_le (take 4 (0 # frames (group_records (tid, [])))) :: u32) = 2048"
    by simp
  with len show ?thesis by (simp add: parse_frame_def Let_def)
qed

lemma append_after_failure_lost:
  assumes "log_state now rs w" and "run_records header_len (None, []) rs = Ok (grp, txs)"
    and "wal_append tid1 cs1 (IoFail 1 True) w = (Err Internal, w1)"
    and "wal_append tid2 [] IoOk w1 = (Ok lsn, w2)"
  shows "fst (wal_recover_changes w2) = Ok (txs, True)"
proof -
  have "length (frames (group_records (tid1, cs1))) \<noteq> 0" by (simp add: group_records_def)
  then have pos: "f_bytes (w_file w1) = header_bytes now @ frames rs"
      "f_pos (w_file w1) = length (header_bytes now @ frames rs) + 1"
    using append_failed_bytes [OF assms(1), of tid1 cs1 1] assms(1,3)
    by (auto simp: log_state_def min_def Suc_le_eq)
  have "f_bytes (w_file w2) = header_bytes now @ frames rs @ 0 # frames (group_records (tid2, []))"
    using assms(4) pos by (auto simp: wal_append_eq file_write_def Let_def)
  moreover have fit: "fitting rs" using assms(1) by (simp add: log_state_def)
  ultimately show ?thesis
    using wal_recover_bytes(1) [of w2 now] assms(2)
    by (simp add: recover_frames [OF fit] recover_bytes.simps [of _ _ "0 # _"] gap_short)
qed

end
