(* ===== verification/Wal_Snapshot.thy ===== *)
theory Wal_Snapshot
  imports Wal_Journal Table_Store
begin

text \<open>
  \<^verbatim>\<open>nexum-wal/src/snapshot.rs\<close>: snapshot files. A directory is an association list from file names to
  contents, in the unspecified order of \<^verbatim>\<open>read_dir\<close>. A snapshot is written to a temporary sibling and
  renamed; a failed write leaves at most the temporary file, which the search for the latest snapshot
  ignores.
\<close>

section \<open>Decimal numbers in file names\<close>

definition digit_char :: "nat \<Rightarrow> char" where
  "digit_char d = char_of (48 + d)"

fun show_nat :: "nat \<Rightarrow> string" where
  "show_nat n = (if n < 10 then [digit_char n] else show_nat (n div 10) @ [digit_char (n mod 10)])"

declare show_nat.simps [simp del]

fun parse_digits :: "nat \<Rightarrow> string \<Rightarrow> nat option" where
  "parse_digits acc [] = Some acc"
| "parse_digits acc (x # xs) =
     (let d = (of_char x :: nat) in
      if 48 \<le> d \<and> d \<le> 57 then
        (let acc = acc * 10 + (d - 48) in if acc < 2 ^ 64 then parse_digits acc xs else None)
      else None)"

text \<open>\<^verbatim>\<open>str::parse::<u64>\<close>: decimal digits with an optional leading plus sign, no overflow.\<close>

definition parse_u64 :: "string \<Rightarrow> u64 option" where
  "parse_u64 s =
     (let ds = (case s of x # xs \<Rightarrow> if of_char x = (43 :: nat) then xs else s | [] \<Rightarrow> []) in
      if ds = [] then None else map_option word_of_nat (parse_digits 0 ds))"

definition snapshot_prefix :: string where
  "snapshot_prefix = ''snapshot-''"

definition snapshot_suffix :: string where
  "snapshot_suffix = ''.snap''"

definition snapshot_file_name :: "u64 \<Rightarrow> string" where
  "snapshot_file_name lsn = snapshot_prefix @ show_nat (unat lsn) @ snapshot_suffix"

definition snapshot_tmp_name :: "u64 \<Rightarrow> string" where
  "snapshot_tmp_name lsn = snapshot_prefix @ show_nat (unat lsn) @ ''.tmp''"

definition starts_with :: "string \<Rightarrow> string \<Rightarrow> bool" where
  "starts_with pre s \<longleftrightarrow> take (length pre) s = pre"

definition ends_with :: "string \<Rightarrow> string \<Rightarrow> bool" where
  "ends_with suf s \<longleftrightarrow> starts_with (rev suf) (rev s)"

definition strip_prefix :: "string \<Rightarrow> string \<Rightarrow> string option" where
  "strip_prefix pre s = (if starts_with pre s then Some (drop (length pre) s) else None)"

definition strip_suffix :: "string \<Rightarrow> string \<Rightarrow> string option" where
  "strip_suffix suf s = map_option rev (strip_prefix (rev suf) (rev s))"

section \<open>Snapshots\<close>

record snapshot =
  snap_lsn :: u64
  snap_next_table_id :: u64
  snap_next_transaction_id :: u64
  snap_created_at :: u64
  snap_tables :: "table_state list"

definition snapshot_capture :: "u64 \<Rightarrow> table_store \<Rightarrow> u64 \<Rightarrow> snapshot" where
  "snapshot_capture now st lsn =
     \<lparr>snap_lsn = lsn, snap_next_table_id = next_table_id st,
      snap_next_transaction_id = next_transaction_id st, snap_created_at = now,
      snap_tables = snapshot_tables st\<rparr>"

definition snapshot_magic :: "u8 list" where
  "snapshot_magic = [0x4E, 0x45, 0x58, 0x53]"

definition snapshot_version :: u32 where
  "snapshot_version = 1"

definition snapshot_header :: "snapshot \<Rightarrow> u8 list" where
  "snapshot_header s =
     snapshot_magic @ to_le 4 snapshot_version @ put_u64 (snap_lsn s) @ put_u64 (snap_next_table_id s) @
     put_u64 (snap_next_transaction_id s) @ put_u64 (snap_created_at s)"

definition put_framed_state :: "table_state \<Rightarrow> u8 list" where
  "put_framed_state state =
     (let bytes = state_encode state in to_le 4 (word_of_nat (length bytes) :: u32) @ bytes)"

definition snapshot_body :: "snapshot \<Rightarrow> u8 list" where
  "snapshot_body s = concat (map put_framed_state (snap_tables s))"

definition snapshot_bytes :: "snapshot \<Rightarrow> u8 list" where
  "snapshot_bytes s =
     (let header = snapshot_header s; body = snapshot_body s in
      header @ to_le 4 (crc32 header) @ to_le 8 (len_u64 body) @ body @ to_le 4 (crc32 body))"

type_synonym directory = "(string \<times> u8 list) list"

text \<open>What the operating system does with a write: all of it succeeds; the directory or the temporary
  file cannot be created; or the first \<open>n\<close> bytes reach the temporary file and a later call fails (a failing
  \<^verbatim>\<open>sync_all\<close> or \<^verbatim>\<open>rename\<close> leaves all of them).\<close>

datatype snapshot_fault = SnapOk | SnapNotCreated | SnapFail nat

definition snapshot_write :: "snapshot \<Rightarrow> snapshot_fault \<Rightarrow> directory \<Rightarrow> string res \<times> directory" where
  "snapshot_write s fault dir =
     (let final_path = snapshot_file_name (snap_lsn s); tmp_path = snapshot_tmp_name (snap_lsn s) in
      case fault of
        SnapNotCreated \<Rightarrow> (Err Internal, dir)
      | SnapFail n \<Rightarrow> (Err Internal, AList.update tmp_path (take n (snapshot_bytes s)) dir)
      | SnapOk \<Rightarrow> (Ok final_path, AList.update final_path (snapshot_bytes s) (AList.delete tmp_path dir)))"

function read_states :: "u8 list \<Rightarrow> table_state list res" where
  "read_states c =
     (if c = [] then Ok []
      else
        (case take_bytes 4 c of
           Err e \<Rightarrow> Err e
         | Panic \<Rightarrow> Panic
         | Ok (len_buf, c1) \<Rightarrow>
             (case take_bytes (unat (from_le len_buf :: u32)) c1 of
                Err e \<Rightarrow> Err e
              | Panic \<Rightarrow> Panic
              | Ok (state_bytes, c2) \<Rightarrow>
                  bind_res (state_decode state_bytes) (\<lambda>(state, rest).
                  bind_res (read_states c2) (\<lambda>states. Ok (state # states))))))"
  by pat_completeness auto
termination
  by (relation "measure length") (auto simp: take_bytes_def split: if_splits)

declare read_states.simps [simp del]

definition snapshot_read :: "u8 list \<Rightarrow> snapshot res" where
  "snapshot_read bytes =
     bind_res (take_bytes 4 bytes) (\<lambda>(magic, c).
     if magic \<noteq> snapshot_magic then Err Internal
     else
     bind_res (take_bytes 4 c) (\<lambda>(version_buf, c).
     if from_le version_buf \<noteq> snapshot_version then Err Internal
     else
     bind_res (get_u64 c) (\<lambda>(lsn, c).
     bind_res (get_u64 c) (\<lambda>(next_tid, c).
     bind_res (get_u64 c) (\<lambda>(next_txid, c).
     bind_res (get_u64 c) (\<lambda>(created_at, c).
     bind_res (take_bytes 4 c) (\<lambda>(header_crc, c).
     if crc32 (take 40 bytes) \<noteq> from_le header_crc then Err Internal
     else
     bind_res (get_u64 c) (\<lambda>(body_len, c).
     bind_res (take_bytes (unat body_len) c) (\<lambda>(body, c).
     bind_res (take_bytes 4 c) (\<lambda>(body_crc, c).
     if crc32 body \<noteq> from_le body_crc then Err Internal
     else
     bind_res (read_states body) (\<lambda>states.
       Ok \<lparr>snap_lsn = lsn, snap_next_table_id = next_tid, snap_next_transaction_id = next_txid,
           snap_created_at = created_at, snap_tables = states\<rparr>)))))))))))"

section \<open>Finding the latest snapshot\<close>

definition snapshot_name_lsn :: "string \<Rightarrow> u64 option" where
  "snapshot_name_lsn name =
     (if \<not> starts_with snapshot_prefix name \<or> \<not> ends_with snapshot_suffix name \<or> ends_with ''.tmp'' name
      then None
      else Option.bind (Option.bind (strip_prefix snapshot_prefix name) (strip_suffix snapshot_suffix)) parse_u64)"

fun find_latest_loop ::
    "directory \<Rightarrow> (u64 \<times> string \<times> snapshot) option \<Rightarrow> (u64 \<times> string \<times> snapshot) option res" where
  "find_latest_loop [] best = Ok best"
| "find_latest_loop ((name, bytes) # entries) best =
     (case snapshot_name_lsn name of
        None \<Rightarrow> find_latest_loop entries best
      | Some lsn \<Rightarrow>
          (case snapshot_read bytes of
             Panic \<Rightarrow> Panic
           | Err e \<Rightarrow> find_latest_loop entries best
           | Ok s \<Rightarrow>
               find_latest_loop entries
                 (if (case best of None \<Rightarrow> True | Some (best_lsn, _) \<Rightarrow> best_lsn < lsn)
                  then Some (lsn, name, s) else best)))"

text \<open>\<open>None\<close> for a directory that cannot be read.\<close>

definition find_latest :: "directory option \<Rightarrow> (string \<times> snapshot) option res" where
  "find_latest dir =
     (case dir of
        None \<Rightarrow> Ok None
      | Some entries \<Rightarrow> bind_res (find_latest_loop entries None) (\<lambda>best. Ok (map_option snd best)))"

section \<open>Round trips\<close>

lemma digit_char_code: "d < 10 \<Longrightarrow> of_char (digit_char d) = 48 + d"
  by (simp add: digit_char_def)

lemma show_nat_ne: "show_nat n \<noteq> []"
  by (subst show_nat.simps) simp

lemma parse_digits_snoc:
  "parse_digits acc (xs @ [x]) = Option.bind (parse_digits acc xs) (\<lambda>a. parse_digits a [x])"
  by (induction acc xs rule: parse_digits.induct) (simp_all add: Let_def)

lemma parse_show_nat: "n < 2 ^ 64 \<Longrightarrow> parse_digits 0 (show_nat n) = Some n"
proof (induction n rule: show_nat.induct)
  case (1 n)
  show ?case
  proof (cases "n < 10")
    case True
    then show ?thesis by (subst show_nat.simps) (simp add: digit_char_code Let_def)
  next
    case False
    have "n div 10 < 2 ^ 64" using 1(2) by (rule le_less_trans [OF div_le_dividend])
    with False 1 have "parse_digits 0 (show_nat (n div 10)) = Some (n div 10)" by blast
    moreover have "n mod 10 < 10" by simp
    ultimately show ?thesis
      using False 1(2) by (subst show_nat.simps) (simp add: parse_digits_snoc digit_char_code Let_def)
  qed
qed

lemma show_nat_hd: "of_char (hd (show_nat n)) \<noteq> (43 :: nat)"
proof (induction n rule: show_nat.induct)
  case (1 n)
  show ?case
    using 1 show_nat_ne
    by (cases "n < 10") (subst show_nat.simps; simp add: digit_char_code hd_append)+
qed

lemma parse_show: "parse_u64 (show_nat (unat x)) = Some x"
proof -
  have "unat x < 2 ^ 64" using unsigned_less [of x, where ?'a = nat] by simp
  moreover obtain a as where "show_nat (unat x) = a # as" using show_nat_ne by (cases "show_nat (unat x)") auto
  moreover from this have "of_char a \<noteq> (43 :: nat)" using show_nat_hd [of "unat x"] by simp
  ultimately show ?thesis
    using parse_show_nat [of "unat x"] by (simp add: parse_u64_def Let_def)
qed

lemma strip_append [simp]:
  "strip_prefix pre (pre @ s) = Some s" "strip_suffix suf (s @ suf) = Some s"
  "starts_with pre (pre @ s)" "ends_with suf (s @ suf)"
  by (simp_all add: strip_prefix_def strip_suffix_def starts_with_def ends_with_def)

lemma snapshot_name_lsn_file: "snapshot_name_lsn (snapshot_file_name lsn) = Some lsn"
proof -
  have "ends_with snapshot_suffix (snapshot_prefix @ show_nat (unat lsn) @ snapshot_suffix)"
    using strip_append(4) [of snapshot_suffix "snapshot_prefix @ show_nat (unat lsn)"] by simp
  moreover have "\<not> ends_with ''.tmp'' (snapshot_prefix @ show_nat (unat lsn) @ snapshot_suffix)"
    by (simp add: ends_with_def starts_with_def snapshot_suffix_def)
  ultimately show ?thesis
    by (simp add: snapshot_name_lsn_def snapshot_file_name_def parse_show)
qed

lemma snapshot_name_lsn_tmp: "snapshot_name_lsn (snapshot_tmp_name lsn) = None"
proof -
  have "\<not> ends_with snapshot_suffix (snapshot_prefix @ show_nat (unat lsn) @ ''.tmp'')"
    by (simp add: ends_with_def starts_with_def snapshot_suffix_def)
  then show ?thesis by (simp add: snapshot_name_lsn_def snapshot_tmp_name_def)
qed

definition snapshot_ok :: "snapshot \<Rightarrow> bool" where
  "snapshot_ok s \<longleftrightarrow>
     (\<forall>state \<in> set (snap_tables s). state_ok state \<and> length (state_encode state) < 2 ^ 32) \<and>
     length (snapshot_body s) < 2 ^ 64"

lemma read_states_body:
  assumes "\<forall>state \<in> set states. state_ok state \<and> length (state_encode state) < 2 ^ 32"
  shows "read_states (concat (map put_framed_state states)) = Ok states"
  using assms
proof (induction states)
  case Nil
  then show ?case by (simp add: read_states.simps)
next
  case (Cons state states)
  let ?b = "state_encode state"
  have n: "unat (word_of_nat (length ?b) :: u32) = length ?b"
    using Cons.prems by (simp add: of_nat_inverse)
  have d: "state_decode ?b = Ok (state, [])" using Cons.prems by (intro statec.dec_enc_exact) simp
  let ?rest = "concat (map put_framed_state states)"
  have "concat (map put_framed_state (state # states)) =
    to_le 4 (word_of_nat (length ?b) :: u32) @ ?b @ ?rest"
    by (simp add: put_framed_state_def Let_def)
  moreover have "to_le 4 (word_of_nat (length ?b) :: u32) @ ?b @ ?rest \<noteq> []"
    using length_to_le [of 4 "word_of_nat (length ?b) :: u32"] by (metis Nil_is_append_conv list.size(3) zero_neq_numeral)
  ultimately show ?case
    using Cons by (simp add: read_states.simps [of "to_le 4 (word_of_nat (length ?b) :: u32) @ ?b @ ?rest"]
        take_bytes_append n d)
qed

lemma snapshot_read_bytes:
  assumes "snapshot_ok s"
  shows "snapshot_read (snapshot_bytes s) = Ok s"
proof -
  let ?h = "snapshot_header s" and ?b = "snapshot_body s"
  have n: "unat (len_u64 ?b) = length ?b" using assms by (intro unat_len_u64) (simp add: snapshot_ok_def)
  have states: "read_states ?b = Ok (snap_tables s)"
    using assms by (simp add: snapshot_body_def snapshot_ok_def read_states_body)
  have h40: "take 40 (snapshot_bytes s) = ?h"
    by (simp add: snapshot_bytes_def Let_def snapshot_header_def snapshot_magic_def)
  have m: "length snapshot_magic = 4" by (simp add: snapshot_magic_def)
  have last: "take_bytes 4 (to_le 4 (crc32 ?b)) = Ok (to_le 4 (crc32 ?b), [])"
    using take_bytes_append [of "to_le 4 (crc32 ?b)" 4 "[]"] by simp
  show ?thesis
    unfolding snapshot_read_def h40
    by (simp add: snapshot_bytes_def Let_def snapshot_header_def [of s] m take_bytes_append u64c.dec_enc
        fixed_width_enc n states last)
qed

text \<open>The search returns a readable snapshot with the highest number among the readable ones.\<close>

definition candidate :: "string \<times> u8 list \<Rightarrow> (u64 \<times> string \<times> snapshot) option" where
  "candidate p =
     (case snapshot_name_lsn (fst p) of
        None \<Rightarrow> None
      | Some lsn \<Rightarrow> (case snapshot_read (snd p) of Ok s \<Rightarrow> Some (lsn, fst p, s) | _ \<Rightarrow> None))"

definition better ::
    "(u64 \<times> string \<times> snapshot) option \<Rightarrow> (u64 \<times> string \<times> snapshot) option
     \<Rightarrow> (u64 \<times> string \<times> snapshot) option" where
  "better best c =
     (case c of
        None \<Rightarrow> best
      | Some (lsn, x) \<Rightarrow>
          if (case best of None \<Rightarrow> True | Some (best_lsn, _) \<Rightarrow> best_lsn < lsn) then c else best)"

lemma find_latest_loop_Cons:
  "find_latest_loop (p # entries) best =
     (if snapshot_name_lsn (fst p) \<noteq> None \<and> snapshot_read (snd p) = Panic then Panic
      else find_latest_loop entries (better best (candidate p)))"
  by (cases p) (simp add: candidate_def better_def split: option.splits res.splits)

lemma better_le:
  assumes "best = Some x \<or> c = Some x"
  obtains r where "better best c = Some r" "fst x \<le> fst r"
proof -
  have "\<exists>r. better best c = Some r \<and> fst x \<le> fst r"
    using assms by (cases best; cases c) (auto simp: better_def not_less)
  with that show thesis by blast
qed

lemma find_latest_loop_best:
  assumes "find_latest_loop entries best = Ok res"
  shows "res = best \<or> (\<exists>p \<in> set entries. candidate p = res \<and> res \<noteq> None)"
    and "best = Some c \<or> (\<exists>p \<in> set entries. candidate p = Some c) \<Longrightarrow> \<exists>r. res = Some r \<and> fst c \<le> fst r"
proof -
  show "res = best \<or> (\<exists>p \<in> set entries. candidate p = res \<and> res \<noteq> None)"
    using assms
  proof (induction entries arbitrary: best)
    case (Cons p entries)
    then have rec: "find_latest_loop entries (better best (candidate p)) = Ok res"
      by (simp add: find_latest_loop_Cons del: find_latest_loop.simps(2) split: if_splits)
    have "better best (candidate p) = best \<or> better best (candidate p) = candidate p \<and> candidate p \<noteq> None"
      by (auto simp: better_def split: option.splits)
    with Cons.IH [OF rec] show ?case by auto
  qed simp
  show "\<exists>r. res = Some r \<and> fst c \<le> fst r" if "best = Some c \<or> (\<exists>p \<in> set entries. candidate p = Some c)"
    using assms that
  proof (induction entries arbitrary: best c)
    case (Cons p entries)
    then have rec: "find_latest_loop entries (better best (candidate p)) = Ok res"
      by (simp add: find_latest_loop_Cons del: find_latest_loop.simps(2) split: if_splits)
    show ?case
    proof (cases "\<exists>q \<in> set entries. candidate q = Some c")
      case True
      with Cons.IH [OF rec] show ?thesis by blast
    next
      case False
      with Cons.prems(2) have "best = Some c \<or> candidate p = Some c" by auto
      then obtain r where "better best (candidate p) = Some r" "fst c \<le> fst r" by (rule better_le)
      with Cons.IH [OF rec, of r] show ?thesis by (auto intro: order_trans)
    qed
  qed auto
qed

text \<open>A snapshot that was written is found again when no other file claims its number or a higher one; a
  write that failed leaves the search where it was.\<close>

definition outdated :: "u64 \<Rightarrow> string \<times> u8 list \<Rightarrow> bool" where
  "outdated lsn p \<longleftrightarrow>
     (case snapshot_name_lsn (fst p) of None \<Rightarrow> True | Some l \<Rightarrow> l < lsn \<and> snapshot_read (snd p) \<noteq> Panic)"

lemma candidate_written:
  "snapshot_ok s \<Longrightarrow> candidate (snapshot_file_name (snap_lsn s), snapshot_bytes s)
     = Some (snap_lsn s, snapshot_file_name (snap_lsn s), s)"
  by (simp add: candidate_def snapshot_name_lsn_file snapshot_read_bytes)

lemma candidate_outdated: "outdated lsn p \<Longrightarrow> candidate p = Some c \<Longrightarrow> fst c < lsn"
  by (auto simp: candidate_def outdated_def split: option.splits res.splits)

lemma find_latest_loop_total:
  assumes "\<forall>p \<in> set entries. snapshot_name_lsn (fst p) = None \<or> snapshot_read (snd p) \<noteq> Panic"
  shows "\<exists>res. find_latest_loop entries best = Ok res"
  using assms
  by (induction entries arbitrary: best) (auto simp: find_latest_loop_Cons simp del: find_latest_loop.simps(2))

lemma find_latest_highest:
  assumes s: "(name, bytes) \<in> set entries" "snapshot_name_lsn name = Some lsn" "snapshot_read bytes = Ok s"
    and others: "\<forall>p \<in> set entries. fst p \<noteq> name \<longrightarrow> outdated lsn p" and dist: "distinct (map fst entries)"
  shows "find_latest (Some entries) = Ok (Some (name, s))"
proof -
  have same: "p = (name, bytes)" if "p \<in> set entries" "fst p = name" for p
    using that s(1) dist by (metis eq_key_imp_eq_value prod.collapse)
  have "\<exists>res. find_latest_loop entries None = Ok res"
    using others s(3) same by (intro find_latest_loop_total) (force simp: outdated_def split: option.splits)
  then obtain res where res: "find_latest_loop entries None = Ok res" ..
  have c: "candidate (name, bytes) = Some (lsn, name, s)" using s(2,3) by (simp add: candidate_def)
  obtain r where r: "res = Some r" "lsn \<le> fst r"
  proof -
    have "\<exists>p \<in> set entries. candidate p = Some (lsn, name, s)" using s(1) c by blast
    with find_latest_loop_best(2) [OF res, of "(lsn, name, s)"] that show thesis by auto
  qed
  obtain p where p: "p \<in> set entries" "candidate p = Some r"
    using find_latest_loop_best(1) [OF res] r(1) by auto
  have "fst p = name" using others p candidate_outdated [of lsn p r] r(2) by fastforce
  with same p c have "r = (lsn, name, s)" by auto
  with res r(1) show ?thesis by (simp add: find_latest_def)
qed

lemma update_mem: "p \<in> set (AList.update k v al) \<Longrightarrow> p = (k, v) \<or> p \<in> set al"
  by (induction al) (auto split: if_splits)

lemma find_latest_written:
  assumes s: "snapshot_ok s"
    and others: "\<forall>p \<in> set dir. fst p \<noteq> snapshot_file_name (snap_lsn s) \<longrightarrow> outdated (snap_lsn s) p"
    and dist: "distinct (map fst dir)"
    and ok: "snapshot_write s SnapOk dir = (Ok path, dir')"
  shows "find_latest (Some dir') = Ok (Some (path, s))"
proof -
  let ?name = "snapshot_file_name (snap_lsn s)"
  have path: "path = ?name" and dir': "dir' = AList.update ?name (snapshot_bytes s) (AList.delete (snapshot_tmp_name (snap_lsn s)) dir)"
    using ok by (auto simp: snapshot_write_def Let_def)
  have dist': "distinct (map fst dir')"
    unfolding dir' by (intro distinct_update distinct_delete dist)
  have mem: "(?name, snapshot_bytes s) \<in> set dir'"
    by (rule map_of_SomeD) (simp add: dir' update_conv')
  have others': "\<forall>p \<in> set dir'. fst p \<noteq> ?name \<longrightarrow> outdated (snap_lsn s) p"
    using others by (auto simp: dir' AList.delete_eq dest!: update_mem)
  show ?thesis
    unfolding path
    using find_latest_highest [OF mem snapshot_name_lsn_file snapshot_read_bytes [OF s] others' dist'] .
qed

lemma find_latest_loop_ignored:
  assumes "snapshot_name_lsn name = None"
  shows "find_latest_loop (AList.update name bytes entries) best = find_latest_loop entries best"
  using assms
  by (induction entries arbitrary: best)
    (auto simp: find_latest_loop_Cons candidate_def better_def simp del: find_latest_loop.simps(2))

lemma find_latest_failed_write:
  assumes "fault \<noteq> SnapOk"
  shows "find_latest (Some (snd (snapshot_write s fault dir))) = find_latest (Some dir)"
  using assms
  by (cases fault) (simp_all add: snapshot_write_def Let_def find_latest_def find_latest_loop_ignored
      snapshot_name_lsn_tmp)

end
