(* ===== verification/Wal_Recovery.thy ===== *)
theory Wal_Recovery
  imports Wal_Snapshot Tx_Commit Tx_Invariant
begin

text \<open>
  \<^verbatim>\<open>nexum-wal/src/recovery.rs\<close>: the newest readable snapshot is restored into an empty store and the
  committed transactions the log holds after it are replayed through the table operations. The theory
  shows that the result is the store the commits had built, up to the change buffers.
\<close>

section \<open>Recovery\<close>

record recovered_snapshot =
  rcs_path :: string
  rcs_lsn :: u64
  rcs_tables :: nat

record recovery_report =
  rep_snapshot :: "recovered_snapshot option"
  rep_replayed_txs :: nat
  rep_replayed_changes :: nat
  rep_truncated_tail :: bool

definition report_new :: recovery_report where
  "report_new =
     \<lparr>rep_snapshot = None, rep_replayed_txs = 0, rep_replayed_changes = 0, rep_truncated_tail = False\<rparr>"

fun replay_txs ::
    "u64 \<Rightarrow> recovered_tx list \<Rightarrow> u64 option \<Rightarrow> recovery_report \<Rightarrow> table_store
     \<Rightarrow> (u64 option \<times> recovery_report) res \<times> table_store" where
  "replay_txs snapshot_lsn [] max_tx_id report st = (Ok (max_tx_id, report), st)"
| "replay_txs snapshot_lsn (tx # txs) max_tx_id report st =
     (if rt_commit_lsn tx < unat snapshot_lsn then replay_txs snapshot_lsn txs max_tx_id report st
      else
        (case for_each replay_change (rt_changes tx) st of (res, st) \<Rightarrow>
           try_res res st (\<lambda>_.
             let raw = rt_tx_id tx in
             replay_txs snapshot_lsn txs
               (Some (case max_tx_id of None \<Rightarrow> raw | Some current \<Rightarrow> max current raw))
               (report\<lparr>rep_replayed_changes := rep_replayed_changes report + length (rt_changes tx),
                       rep_replayed_txs := rep_replayed_txs report + 1\<rparr>) st)))"

definition restore_latest ::
    "directory option \<Rightarrow> recovery_report \<Rightarrow> table_store \<Rightarrow> (u64 \<times> recovery_report) res \<times> table_store" where
  "restore_latest dir report st =
     try_res (find_latest dir) st (\<lambda>found.
       case found of
         None \<Rightarrow> (Ok (0, report), st)
       | Some (path, s) \<Rightarrow>
           let report = report\<lparr>rep_snapshot :=
                 Some \<lparr>rcs_path = path, rcs_lsn = snap_lsn s, rcs_tables = length (snap_tables s)\<rparr>\<rparr> in
           (case store_restore (snap_tables s) (snap_next_table_id s) (snap_next_transaction_id s) st of
              (res, st) \<Rightarrow> try_res res st (\<lambda>_. (Ok (snap_lsn s, report), st))))"

definition recover ::
    "directory option \<Rightarrow> wal \<Rightarrow> table_store \<Rightarrow> recovery_report res \<times> wal \<times> table_store" where
  "recover dir w st =
     (case restore_latest dir report_new st of (res, st) \<Rightarrow>
        try_res res (w, st) (\<lambda>(snapshot_lsn, report).
          (case wal_recover_changes w of (res, w) \<Rightarrow>
             try_res res (w, st) (\<lambda>(txs, truncated).
               let report = report\<lparr>rep_truncated_tail := w_truncated_on_open w \<or> truncated\<rparr> in
               (case replay_txs snapshot_lsn txs None report st of (res, st) \<Rightarrow>
                  try_res res (w, st) (\<lambda>(max_tx_id, report).
                    let st = (case max_tx_id of
                                Some last_id \<Rightarrow> advance_transaction_id (last_id + 1) st
                              | None \<Rightarrow> st) in
                    (Ok report, w, snd (store_drain_changes st))))))))"

section \<open>Replay at the level of the store\<close>

text \<open>The part of a store that no row operation changes.\<close>

definition outline :: "table_store \<Rightarrow> (string \<times> table_id \<times> table_schema) list \<times> u64 \<times> u64" where
  "outline st = (map (\<lambda>(name, t). (name, table_id_of t, table_schema_of t)) (ts_tables st),
                 next_table_id st, next_transaction_id st)"

lemma outline_fields:
  assumes "outline st' = outline st"
  shows "map fst (ts_tables st') = map fst (ts_tables st)"
    and "map (\<lambda>p. table_id_of (snd p)) (ts_tables st') = map (\<lambda>p. table_id_of (snd p)) (ts_tables st)"
    and "map (\<lambda>p. (fst p, table_id_of (snd p), table_name_of (snd p))) (ts_tables st')
       = map (\<lambda>p. (fst p, table_id_of (snd p), table_name_of (snd p))) (ts_tables st)"
    and "next_table_id st' = next_table_id st" and "next_transaction_id st' = next_transaction_id st"
proof -
  have m: "map (\<lambda>(name, t). (name, table_id_of t, table_schema_of t)) (ts_tables st')
      = map (\<lambda>(name, t). (name, table_id_of t, table_schema_of t)) (ts_tables st)"
    using assms by (simp add: outline_def)
  show "map fst (ts_tables st') = map fst (ts_tables st)"
    using arg_cong [OF m, of "map fst"] by (simp add: comp_def split_def)
  show "map (\<lambda>p. table_id_of (snd p)) (ts_tables st') = map (\<lambda>p. table_id_of (snd p)) (ts_tables st)"
    using arg_cong [OF m, of "map (fst \<circ> snd)"] by (simp add: comp_def split_def)
  show "map (\<lambda>p. (fst p, table_id_of (snd p), table_name_of (snd p))) (ts_tables st')
       = map (\<lambda>p. (fst p, table_id_of (snd p), table_name_of (snd p))) (ts_tables st)"
    using arg_cong [OF m, of "map (\<lambda>(n, i, s). (n, i, ts_name s))"] by (simp add: comp_def split_def)
qed (use assms in \<open>simp_all add: outline_def\<close>)

lemma find_distinct:
  "distinct (map f xs) \<Longrightarrow> x \<in> set xs \<Longrightarrow> find (\<lambda>y. f y = f x) xs = Some x"
  by (induction xs) auto

lemma outline_wf:
  assumes wf: "store_wf st" and out: "outline st' = outline st"
    and tables: "\<And>tid t. table_by_id st' tid = Some t \<Longrightarrow> table_wf t"
  shows "store_wf st'"
proof -
  have dist: "distinct (map (\<lambda>p. table_id_of (snd p)) (ts_tables st'))"
    using wf outline_fields(2) [OF out] by (simp add: store_wf_def)
  have "table_wf t \<and> table_name_of t = name \<and> table_id_of t < next_table_id st'"
    if mem: "(name, t) \<in> set (ts_tables st')" for name t
  proof -
    have "find (\<lambda>u. table_id_of u = table_id_of t) (map snd (ts_tables st')) = Some t"
      using mem dist by (intro find_distinct) (force simp: comp_def)+
    then have "table_wf t" by (intro tables [of "table_id_of t"]) (simp add: table_by_id_def)
    moreover have "(name, table_id_of t, table_name_of t)
        \<in> set (map (\<lambda>p. (fst p, table_id_of (snd p), table_name_of (snd p))) (ts_tables st))"
      unfolding outline_fields(3) [OF out, symmetric] using mem by force
    then obtain u where "(name, u) \<in> set (ts_tables st)" "table_id_of u = table_id_of t"
        "table_name_of u = table_name_of t" by auto
    ultimately show ?thesis using store_wfD [OF wf] outline_fields(4) [OF out] by metis
  qed
  then show ?thesis
    using wf dist outline_fields(1) [OF out] by (auto simp: store_wf_def om_wf_def)
qed

lemma update_by_id_outline:
  assumes "\<And>t. table_id_of (f t) = table_id_of t" and "\<And>t. table_schema_of (f t) = table_schema_of t"
  shows "map (\<lambda>(name, t). (name, table_id_of t, table_schema_of t)) (update_table_by_id tid f ts)
    = map (\<lambda>(name, t). (name, table_id_of t, table_schema_of t)) ts"
  using assms by (induction tid f ts rule: update_table_by_id.induct) auto

lemma with_table_mut_outline:
  assumes "keeps_identity f"
  shows "outline (snd (with_table_mut tid f st)) = outline st"
  using assms by (auto simp: outline_def with_table_mut_def keeps_identity_def update_by_id_outline split: option.splits)

lemma replay_on_result:
  "snd (replay_on c t) \<in> {t, snd (table_insert (the (ch_new_row c)) t),
     snd (table_update (ch_row_id c) (the (ch_new_row c)) t), snd (table_delete (ch_row_id c) t)}"
proof (cases "ch_kind c")
  case CInsert
  obtain res t' where i: "table_insert (the (ch_new_row c)) t = (res, t')" by fastforce
  show ?thesis
    by (cases "ch_new_row c"; cases res) (use CInsert i in \<open>simp_all add: replay_on_def\<close>)
next
  case CUpdate
  then show ?thesis by (cases "ch_new_row c") (simp_all add: replay_on_def split_def)
next
  case CDelete
  then show ?thesis by (simp add: replay_on_def split_def)
qed

lemma replay_on_keeps: "keeps_identity (replay_on c)"
proof -
  have "table_id_of (snd (replay_on c t)) = table_id_of t \<and>
      table_schema_of (snd (replay_on c t)) = table_schema_of t" for t
    using replay_on_result [of c t] table_insert_keeps table_update_keeps table_delete_keeps
    by (auto simp: keeps_identity_def)
  then show ?thesis by (simp add: keeps_identity_def)
qed

lemma replay_change_step:
  assumes t: "table_by_id u (ch_table c) = Some t" and ok: "replay_on c t = (Ok (), t')"
  shows "\<exists>u'. replay_change c u = (Ok (), u') \<and> outline u' = outline u \<and>
    table_by_id u' = (table_by_id u)(ch_table c \<mapsto> t')"
proof -
  let ?u = "snd (with_table_mut (ch_table c) (replay_on c) u)"
  have "replay_change c u = (Ok (), ?u)"
    using t ok by (simp add: replay_change_def with_table_mut_def)
  moreover have "table_by_id ?u = (table_by_id u)(ch_table c \<mapsto> t')"
    using t ok by (auto simp: with_table_mut_get [OF replay_on_keeps])
  ultimately show ?thesis using with_table_mut_outline [OF replay_on_keeps] by blast
qed

text \<open>The changes of several tables, one after the other, do to each table what its own changes do.\<close>

abbreviation own :: "table_id \<Rightarrow> change list \<Rightarrow> change list" where
  "own tid cs \<equiv> filter (\<lambda>c. ch_table c = tid) cs"

lemma for_each_Ok_Cons:
  "for_each f (x # xs) s = (Ok (), s'') \<longleftrightarrow> (\<exists>s'. f x s = (Ok (), s') \<and> for_each f xs s' = (Ok (), s''))"
  by (cases "f x s"; cases "fst (f x s)") auto

lemma replay_changes_split:
  assumes "\<forall>c \<in> set cs. table_by_id u (ch_table c) \<noteq> None"
    and "\<And>tid t. table_by_id u tid = Some t \<Longrightarrow> for_each replay_on (own tid cs) t = (Ok (), g tid t)"
  shows "\<exists>u'. for_each replay_change cs u = (Ok (), u') \<and> outline u' = outline u \<and>
    (\<forall>tid. table_by_id u' tid = map_option (g tid) (table_by_id u tid))"
  using assms
proof (induction cs arbitrary: u g)
  case Nil
  have "table_by_id u tid = map_option (g tid) (table_by_id u tid)" for tid
    using Nil.prems(2) [of tid] by (cases "table_by_id u tid") auto
  then show ?case by auto
next
  case (Cons c cs)
  let ?k = "ch_table c"
  obtain t where t: "table_by_id u ?k = Some t" using Cons.prems(1) by auto
  obtain t1 where t1: "replay_on c t = (Ok (), t1)" "for_each replay_on (own ?k cs) t1 = (Ok (), g ?k t)"
    using Cons.prems(2) [OF t] by (auto simp: for_each_Ok_Cons simp del: for_each.simps(2))
  obtain u1 where u1: "replay_change c u = (Ok (), u1)" "outline u1 = outline u"
      "table_by_id u1 = (table_by_id u)(?k \<mapsto> t1)"
    using replay_change_step [OF t t1(1)] by blast
  let ?g = "\<lambda>tid x. if tid = ?k then g ?k t else g tid x"
  have "\<exists>u'. for_each replay_change cs u1 = (Ok (), u') \<and> outline u' = outline u1 \<and>
    (\<forall>tid. table_by_id u' tid = map_option (?g tid) (table_by_id u1 tid))"
  proof (rule Cons.IH)
    show "\<forall>c \<in> set cs. table_by_id u1 (ch_table c) \<noteq> None" using Cons.prems(1) u1(3) by auto
    show "for_each replay_on (own tid cs) x = (Ok (), ?g tid x)" if "table_by_id u1 tid = Some x" for tid x
      using that t1(2) Cons.prems(2) [of tid x] by (auto simp: u1(3) split: if_splits)
  qed
  then obtain u' where u': "for_each replay_change cs u1 = (Ok (), u')" "outline u' = outline u1"
      "\<forall>tid. table_by_id u' tid = map_option (?g tid) (table_by_id u1 tid)" by blast
  have "table_by_id u' tid = map_option (g tid) (table_by_id u tid)" for tid
    using u'(3) t by (auto simp: u1(3))
  with u' u1 show ?case by (auto simp: for_each_Ok_Cons simp del: for_each.simps(2))
qed

section \<open>A store and its recovered copy\<close>

definition store_covers :: "table_store \<Rightarrow> table_store \<Rightarrow> bool" where
  "store_covers st u \<longleftrightarrow>
     store_wf st \<and> store_wf u \<and> next_table_id u = next_table_id st \<and>
     (\<forall>tid. rel_option covers (table_by_id st tid) (table_by_id u tid))"

lemma covers_step:
  assumes "replayed cs t t'" and "covers t u"
  shows "for_each replay_on cs u = (Ok (), snd (for_each replay_on cs u))"
    and "covers t' (snd (for_each replay_on cs u))"
  using assms unfolding replayed_def by (metis snd_conv)+

lemma commit_replayed:
  assumes plain: "store_plain st" and ws: "ws_wf (tx_writes tx)"
    and room: "has_room st (length (ws_entries (tx_writes tx)))" and ok: "commit tx st = (Ok cs, st')"
    and cov: "store_covers st u"
  shows "\<exists>u'. for_each replay_change cs u = (Ok (), u') \<and> store_covers st' u' \<and>
    next_transaction_id u' = next_transaction_id u"
proof -
  have "validate st tx = Ok ()" using commit_failed [OF plain ws room] ok by auto
  then obtain es where c: "store_wf st'" "next_table_id st' = next_table_id st"
      "\<forall>c \<in> set cs. table_by_id st (ch_table c) \<noteq> None"
      "\<And>tid. rel_option (committed es cs tid) (table_by_id st tid) (table_by_id st' tid)"
    using commit_ok [OF plain ws room] ok by auto
  have u: "store_wf u" "next_table_id u = next_table_id st"
      "\<And>tid. rel_option covers (table_by_id st tid) (table_by_id u tid)"
    using cov by (simp_all add: store_covers_def)
  let ?g = "\<lambda>tid x. snd (for_each replay_on (own tid cs) x)"
  have step: "for_each replay_on (own tid cs) x = (Ok (), ?g tid x) \<and>
      (\<exists>t'. table_by_id st' tid = Some t' \<and> covers t' (?g tid x))" if x: "table_by_id u tid = Some x" for tid x
  proof -
    obtain t where t: "table_by_id st tid = Some t" "covers t x"
      using u(3) [of tid] x by (auto simp: option_rel_Some2)
    then obtain t' where "table_by_id st' tid = Some t'" "replayed (own tid cs) t t'"
      using c(4) [of tid] by (auto simp: option_rel_Some1 committed_def)
    with covers_step [OF _ t(2)] show ?thesis by blast
  qed
  have "\<exists>u'. for_each replay_change cs u = (Ok (), u') \<and> outline u' = outline u \<and>
    (\<forall>tid. table_by_id u' tid = map_option (?g tid) (table_by_id u tid))"
  proof (rule replay_changes_split)
    show "\<forall>c \<in> set cs. table_by_id u (ch_table c) \<noteq> None"
    proof
      fix c assume "c \<in> set cs"
      then obtain t where "table_by_id st (ch_table c) = Some t" using c(3) by auto
      then show "table_by_id u (ch_table c) \<noteq> None" using u(3) [of "ch_table c"] by (auto simp: option_rel_Some1)
    qed
  qed (use step in blast)
  then obtain u' where u': "for_each replay_change cs u = (Ok (), u')" "outline u' = outline u"
    "\<And>tid. table_by_id u' tid = map_option (?g tid) (table_by_id u tid)" by blast
  have rel: "rel_option covers (table_by_id st' tid) (table_by_id u' tid)" for tid
  proof (cases "table_by_id u tid")
    case None
    then have "table_by_id st' tid = None" using u(3) [of tid] c(4) [of tid] by simp
    with None show ?thesis by (simp add: u'(3))
  next
    case (Some x)
    with step [of tid x] show ?thesis by (auto simp: u'(3))
  qed
  have "store_wf u'"
  proof (rule outline_wf [OF u(1) u'(2)])
    fix tid x assume "table_by_id u' tid = Some x"
    with rel [of tid] show "table_wf x" by (auto simp: option_rel_Some2 covers_def)
  qed
  with rel u'(1) c(1,2) u(2) outline_fields(4,5) [OF u'(2)] show ?thesis by (auto simp: store_covers_def)
qed

section \<open>Histories\<close>

text \<open>What happens to a store between two moments, with the transactions that committed in between:
  identifiers are handed out, buffers drained, transactions that any sequence of transaction operations
  built commit.\<close>

inductive history :: "table_store \<Rightarrow> (transaction_id \<times> change list) list \<Rightarrow> table_store \<Rightarrow> bool"
  for st0 where
  h_start: "history st0 [] st0"
| h_begin: "history st0 txs (snd (alloc_transaction_id st))" if "history st0 txs st" "next_transaction_id st \<noteq> - 1"
| h_drain: "history st0 txs (snd (store_drain_changes st))" if "history st0 txs st"
| h_commit: "history st0 (txs @ [(tx_id tx, cs)]) st'"
    if "history st0 txs st" "tx_reach tx" "tx_id tx < next_transaction_id st"
      "has_room st (length (ws_entries (tx_writes tx)))" "tx_commit tx st = (Ok cs, tx', st')"

lemma history_trans:
  assumes "history b ys c" and "history a xs b"
  shows "history a (xs @ ys) c"
  using assms
proof (induction ys c rule: history.induct)
  case (h_commit txs st tx cs tx' st')
  then show ?case using history.h_commit [of a "xs @ txs" st tx cs tx' st'] by simp
qed (auto intro: history.intros)

lemma history_prefix:
  assumes "history a txs c" and "i \<le> length txs"
  shows "\<exists>b. history a (take i txs) b \<and> history b (drop i txs) c"
  using assms
proof (induction txs c rule: history.induct)
  case (h_commit txs st tx cs tx' st')
  show ?case
  proof (cases "i \<le> length txs")
    case True
    with h_commit obtain b where "history a (take i txs) b" "history b (drop i txs) st" by blast
    with True h_commit(2-5) show ?thesis by (auto intro: history.h_commit)
  next
    case False
    with h_commit.prems have "i = Suc (length txs)" by simp
    with history.h_commit [OF h_commit(1-5)] show ?thesis by (auto intro: h_start)
  qed
qed (auto intro: history.intros)

lemma tx_commit_commit: "tx_commit tx st = (Ok cs, tx', st') \<Longrightarrow> commit tx st = (Ok cs, st')"
  by (auto simp: tx_commit_def split: res.splits prod.splits)

lemma drain_by_id:
  "table_by_id (snd (store_drain_changes st)) tid = map_option (\<lambda>t. snd (table_drain_changes t)) (table_by_id st tid)"
proof -
  have "find (\<lambda>t. table_id_of t = tid) (map (\<lambda>t. snd (table_drain_changes t)) ts)
      = map_option (\<lambda>t. snd (table_drain_changes t)) (find (\<lambda>t. table_id_of t = tid) ts)" for ts
    by (induction ts) (auto simp: table_drain_fields)
  from this [of "map snd (ts_tables st)"] show ?thesis
    by (simp add: table_by_id_def store_drain_changes_def comp_def split_def)
qed

lemma alloc_by_id: "table_by_id (snd (alloc_transaction_id st)) = table_by_id st"
  by (simp add: fun_eq_iff table_by_id_def alloc_transaction_id_def)

lemma alloc_wf: "store_wf st \<Longrightarrow> store_wf (snd (alloc_transaction_id st))"
  by (simp add: store_wf_def alloc_transaction_id_def)

lemma history_plain:
  assumes "history st0 txs st" and "store_plain st0"
  shows "store_plain st"
  using assms
proof (induction txs st rule: history.induct)
  case (h_begin txs st)
  then show ?case by (simp add: store_plain_def alloc_by_id alloc_wf)
next
  case (h_drain txs st)
  then have plain: "store_plain st" by simp
  have "no_reserved (snd (table_drain_changes t))" if "table_by_id st tid = Some t" for tid t
    using plain that unfolding store_plain_def no_reserved_def table_drain_fields by force
  then show ?case
    using plain store_drain_wf by (auto simp: store_plain_def drain_by_id)
next
  case (h_commit txs st tx cs tx' st')
  note ws = tx_writes_wf [OF tx_reach_wf [OF h_commit(2)]]
  have plain: "store_plain st" using h_commit by simp
  have ok: "commit tx st = (Ok cs, st')" using h_commit(5) by (rule tx_commit_commit)
  have "validate st tx = Ok ()" using commit_failed [OF plain ws h_commit(4)] ok by auto
  then have c: "store_wf st'" "\<And>tid. rel_option (committed (ws_entries (tx_writes tx)) cs tid)
      (table_by_id st tid) (table_by_id st' tid)"
    using commit_ok [OF plain ws h_commit(4)] ok by auto
  have "no_reserved t'" if t': "table_by_id st' tid = Some t'" for tid t'
  proof -
    obtain t where "table_by_id st tid = Some t" "same_shape t t'"
      using c(2) [of tid] t' by (auto simp: option_rel_Some2 committed_def)
    with plain show ?thesis by (auto simp: store_plain_def no_reserved_def same_shape_def)
  qed
  with c(1) show ?case by (auto simp: store_plain_def)
qed

lemma history_ids:
  assumes "history st0 txs st" and "store_plain st0"
  shows "next_transaction_id st0 \<le> next_transaction_id st"
    and "\<forall>(tid, cs) \<in> set txs. tid < next_transaction_id st"
proof -
  have "next_transaction_id st0 \<le> next_transaction_id st \<and> (\<forall>(tid, cs) \<in> set txs. tid < next_transaction_id st)"
    using assms
  proof (induction txs st rule: history.induct)
    case (h_begin txs st)
    have "next_transaction_id st < next_transaction_id st + 1" 
      using h_begin(2) version_next_greater [of "next_transaction_id st"] by (simp add: version_next_def)
    with h_begin show ?case by (fastforce simp: alloc_transaction_id_def)
  next
    case (h_commit txs st tx cs tx' st')
    note ws = tx_writes_wf [OF tx_reach_wf [OF h_commit(2)]]
    note plain = history_plain [OF h_commit(1,7)]
    have "next_transaction_id st' = next_transaction_id st"
      using commit_ok [OF plain ws h_commit(4)] commit_failed [OF plain ws h_commit(4)]
        tx_commit_commit [OF h_commit(5)] by auto
    with h_commit show ?case by auto
  qed (auto simp: store_drain_changes_def)
  then show "next_transaction_id st0 \<le> next_transaction_id st"
    and "\<forall>(tid, cs) \<in> set txs. tid < next_transaction_id st" by auto
qed

lemma covers_drained: "covers t u \<Longrightarrow> covers (snd (table_drain_changes t)) u"
  using table_drain_wf [of t] by (auto simp: covers_def table_drain_fields)

lemma history_replayed:
  assumes "history st0 txs st" and "store_plain st0" and "store_covers st0 u"
  shows "\<exists>u'. for_each replay_change (concat (map snd txs)) u = (Ok (), u') \<and> store_covers st u' \<and>
    next_transaction_id u' = next_transaction_id u"
  using assms
proof (induction txs st rule: history.induct)
  case (h_begin txs st)
  then show ?case by (auto simp: store_covers_def alloc_by_id alloc_wf) (auto simp: alloc_transaction_id_def)
next
  case (h_drain txs st)
  then obtain u' where u': "for_each replay_change (concat (map snd txs)) u = (Ok (), u')" "store_covers st u'"
      "next_transaction_id u' = next_transaction_id u" by blast
  have "rel_option covers (table_by_id (snd (store_drain_changes st)) tid) (table_by_id u' tid)" for tid
    using u'(2) covers_drained
    by (cases "table_by_id st tid"; cases "table_by_id u' tid")
      (auto simp: store_covers_def drain_by_id dest!: spec [where x = tid])
  then have "store_covers (snd (store_drain_changes st)) u'"
    using u'(2) store_drain_wf by (auto simp: store_covers_def store_drain_changes_def)
  with u' show ?case by auto
next
  case (h_commit txs st tx cs tx' st')
  then obtain u' where u': "for_each replay_change (concat (map snd txs)) u = (Ok (), u')" "store_covers st u'"
      "next_transaction_id u' = next_transaction_id u" by blast
  with commit_replayed [OF history_plain [OF h_commit(1) h_commit.prems(1)]
      tx_writes_wf [OF tx_reach_wf [OF h_commit(2)]] h_commit(4) tx_commit_commit [OF h_commit(5)] u'(2)]
  show ?case by (auto simp: for_each_append)
qed auto

section \<open>The replay loop\<close>

lemma replay_txs_skip:
  assumes "\<forall>tx \<in> set txs. rt_commit_lsn tx < unat lsn"
  shows "replay_txs lsn (txs @ rest) mx report st = replay_txs lsn rest mx report st"
  using assms by (induction txs) auto

lemma replay_txs_run:
  assumes "\<forall>tx \<in> set txs. \<not> rt_commit_lsn tx < unat lsn"
    and "for_each replay_change (concat (map rt_changes txs)) st = (Ok (), st')"
  shows "\<exists>mx' report'. replay_txs lsn txs mx report st = (Ok (mx', report'), st') \<and>
    (\<forall>tx \<in> set txs. \<exists>m. mx' = Some m \<and> rt_tx_id tx \<le> m) \<and>
    (\<forall>m. mx' = Some m \<longrightarrow> mx = Some m \<or> (\<exists>tx \<in> set txs. rt_tx_id tx = m)) \<and>
    (\<forall>m. mx = Some m \<longrightarrow> (\<exists>m'. mx' = Some m' \<and> m \<le> m')) \<and>
    rep_replayed_txs report' = rep_replayed_txs report + length txs \<and>
    rep_replayed_changes report' = rep_replayed_changes report + length (concat (map rt_changes txs)) \<and>
    rep_snapshot report' = rep_snapshot report \<and> rep_truncated_tail report' = rep_truncated_tail report"
  using assms
proof (induction txs arbitrary: mx report st)
  case (Cons tx txs)
  obtain st1 where st1: "for_each replay_change (rt_changes tx) st = (Ok (), st1)"
      "for_each replay_change (concat (map rt_changes txs)) st1 = (Ok (), st')"
    using Cons.prems(2) by (auto simp: for_each_append try_res_Ok split: prod.splits)
  let ?m = "case mx of None \<Rightarrow> rt_tx_id tx | Some current \<Rightarrow> max current (rt_tx_id tx)"
  let ?r = "report\<lparr>rep_replayed_changes := rep_replayed_changes report + length (rt_changes tx),
                    rep_replayed_txs := rep_replayed_txs report + 1\<rparr>"
  have eq: "replay_txs lsn (tx # txs) mx report st = replay_txs lsn txs (Some ?m) ?r st1"
    using Cons.prems(1) st1(1) by (simp add: Let_def)
  have le: "rt_tx_id tx \<le> ?m" "\<And>m. mx = Some m \<Longrightarrow> m \<le> ?m" by (auto split: option.splits)
  have src: "?m = rt_tx_id tx \<or> mx = Some ?m" by (auto simp: max_def split: option.splits)
  obtain mx' report' where IH: "replay_txs lsn txs (Some ?m) ?r st1 = (Ok (mx', report'), st')"
      "\<forall>tx \<in> set txs. \<exists>m. mx' = Some m \<and> rt_tx_id tx \<le> m"
      "\<forall>m. mx' = Some m \<longrightarrow> ?m = m \<or> (\<exists>tx \<in> set txs. rt_tx_id tx = m)"
      "\<exists>m'. mx' = Some m' \<and> ?m \<le> m'"
      "rep_replayed_txs report' = rep_replayed_txs ?r + length txs"
      "rep_replayed_changes report' = rep_replayed_changes ?r + length (concat (map rt_changes txs))"
      "rep_snapshot report' = rep_snapshot ?r" "rep_truncated_tail report' = rep_truncated_tail ?r"
    using Cons.IH [OF _ st1(2), of "Some ?m" ?r] Cons.prems(1) by auto
  show ?case
    using eq IH le src by (intro exI [of _ mx'] exI [of _ report']) (auto intro: order_trans)
qed auto

lemma log_txs_range:
  "tx \<in> set (log_txs offset txs) \<Longrightarrow> offset \<le> rt_commit_lsn tx \<and> rt_commit_lsn tx < offset + length (frames (log_records txs))"
proof (induction offset txs rule: log_txs.induct)
  case (2 offset tid changes txs)
  have "length (frames (butlast (group_records (tid, changes)))) < length (frames (group_records (tid, changes)))"
    by (simp add: group_records_def butlast_append write_record_def)
  with 2 show ?case by fastforce
qed simp

lemma log_txs_changes: "map rt_changes (log_txs offset txs) = map snd txs" "map rt_tx_id (log_txs offset txs) = map fst txs"
  by (induction offset txs rule: log_txs.induct) auto

section \<open>Snapshots and the log together\<close>

definition lsn_at :: "(transaction_id \<times> change list) list \<Rightarrow> nat" where
  "lsn_at txs = header_len + length (frames (log_records txs))"

lemma lsn_at_mono: "i \<le> j \<Longrightarrow> lsn_at (take i txs) \<le> lsn_at (take j txs)"
  by (auto simp: lsn_at_def take_add dest!: le_Suc_ex)

lemma store_covers_refl: "store_wf st \<Longrightarrow> store_covers st st"
  by (auto simp: store_covers_def rel_option_iff split: option.splits dest: table_by_id_wf intro: covers_refl)

lemma restored_covers:
  assumes wf: "store_wf st"
  shows "store_covers st (st\<lparr>ts_tables := map (\<lambda>(name, t). (name, the_table (table_state_of t))) (ts_tables st)\<rparr>)"
    (is "store_covers st ?u")
proof -
  let ?f = "\<lambda>t. the_table (table_state_of t)"
  have "find (\<lambda>t. table_id_of t = tid) (map ?f ts) = map_option ?f (find (\<lambda>t. table_id_of t = tid) ts)"
    if "\<forall>t \<in> set ts. table_wf t" for ts tid
    using that by (induction ts) (auto simp: the_table_capture(2))
  moreover have "\<forall>t \<in> set (map snd (ts_tables st)). table_wf t" using store_wfD(1) [OF wf] by auto
  ultimately have "find (\<lambda>t. table_id_of t = tid) (map ?f (map snd (ts_tables st)))
      = map_option ?f (find (\<lambda>t. table_id_of t = tid) (map snd (ts_tables st)))" for tid by blast
  then have by_id: "table_by_id ?u tid = map_option ?f (table_by_id st tid)" for tid
    by (simp add: table_by_id_def comp_def split_def)
  have "covers t (?f t)" if "table_by_id st tid = Some t" for tid t
  proof -
    have t: "table_wf t" using table_by_id_wf [OF wf that] by simp
    have "unique_columns (?f t) \<subseteq> unique_columns t"
      using the_table_capture(4) [OF t] by (auto simp: unique_columns_def index_shape_def)
    with t the_table_capture(2,3) [OF t] show ?thesis by (auto simp: covers_def)
  qed
  then have "rel_option covers (table_by_id st tid) (table_by_id ?u tid)" for tid
    by (auto simp: by_id rel_option_iff split: option.splits)
  with wf restored_wf [OF wf] show ?thesis by (simp add: store_covers_def)
qed

text \<open>A running server: its store, its log and its snapshot directory, with the transactions committed so
  far. A commit is appended to the log before anything else happens; a snapshot may be taken at any time
  and its write may fail.\<close>

inductive running ::
    "table_store \<Rightarrow> u64 \<Rightarrow> (transaction_id \<times> change list) list \<Rightarrow> table_store \<Rightarrow> wal \<Rightarrow> directory \<Rightarrow> bool"
  for st0 now where
  boot: "running st0 now [] st0 (wal_create now policy) []"
| begin_tx: "running st0 now txs (snd (alloc_transaction_id st)) w dir"
    if "running st0 now txs st w dir" "next_transaction_id st \<noteq> - 1"
| drain: "running st0 now txs (snd (store_drain_changes st)) w dir" if "running st0 now txs st w dir"
| commit: "running st0 now (txs @ [(tx_id tx, cs)]) st' w' dir"
    if "running st0 now txs st w dir" "tx_reach tx" "tx_id tx < next_transaction_id st"
      "has_room st (length (ws_entries (tx_writes tx)))" "tx_commit tx st = (Ok cs, tx', st')"
      "tx_loggable (tx_id tx, cs)" "wal_append (tx_id tx) cs IoOk w = (Ok lsn, w')"
| snap: "running st0 now txs st w (snd (snapshot_write s fault dir))"
    if "running st0 now txs st w dir" "s = snapshot_capture when st (word_of_nat (w_next_lsn w))"
      "snapshot_ok s" "w_next_lsn w < 2 ^ 64"

definition snapshot_of ::
    "table_store \<Rightarrow> (transaction_id \<times> change list) list \<Rightarrow> table_store \<Rightarrow> snapshot \<Rightarrow> bool" where
  "snapshot_of st0 txs st s \<longleftrightarrow>
     (\<exists>i st1 when. i \<le> length txs \<and> history st0 (take i txs) st1 \<and> history st1 (drop i txs) st \<and>
        s = snapshot_capture when st1 (snap_lsn s) \<and> unat (snap_lsn s) = lsn_at (take i txs))"

lemma snapshot_of_extend:
  assumes "snapshot_of st0 txs st s" and "history st txs' st'"
  shows "snapshot_of st0 (txs @ txs') st' s"
proof -
  obtain i st1 "when" where i: "i \<le> length txs" "history st0 (take i txs) st1" "history st1 (drop i txs) st"
      "s = snapshot_capture when st1 (snap_lsn s)" "unat (snap_lsn s) = lsn_at (take i txs)"
    using assms(1) unfolding snapshot_of_def by blast
  have "history st1 (drop i txs @ txs') st'" by (rule history_trans [OF assms(2) i(3)])
  with i show ?thesis
    unfolding snapshot_of_def by (intro exI [of _ i] exI [of _ st1] exI [of _ "when"]) simp
qed

lemma running_inv:
  assumes "running st0 now txs st w dir"
  shows "history st0 txs st \<and> log_state now (log_records txs) w \<and> (\<forall>tx \<in> set txs. tx_loggable tx) \<and>
    (\<forall>p \<in> set dir. snapshot_name_lsn (fst p) = None \<or> (\<exists>s. snapshot_ok s \<and> snd p = snapshot_bytes s \<and> snapshot_of st0 txs st s))"
  using assms
proof (induction txs st w dir rule: running.induct)
  case (boot policy)
  then show ?case by (simp add: wal_create_state h_start)
next
  case (begin_tx txs st w dir)
  have "history st [] (snd (alloc_transaction_id st))" by (rule h_begin [OF h_start begin_tx(2)])
  with begin_tx snapshot_of_extend show ?case by (fastforce intro: history.h_begin)
next
  case (drain txs st w dir)
  have "history st [] (snd (store_drain_changes st))" by (rule h_drain [OF h_start])
  with drain snapshot_of_extend show ?case by (fastforce intro: history.h_drain)
next
  case (commit txs st w dir tx cs tx' st' lsn w')
  have one: "history st [(tx_id tx, cs)] st'" using h_commit [OF h_start commit(2-5)] by simp
  have "log_state now (log_records (txs @ [(tx_id tx, cs)])) w'"
    using wal_append_state [of now "log_records txs" w "tx_id tx" cs] commit by simp
  with commit one snapshot_of_extend [OF _ one] show ?case by (fastforce intro: history.h_commit)
next
  case (snap txs st w dir s "when" fault)
  have "unat (word_of_nat (w_next_lsn w) :: u64) = w_next_lsn w" using snap(4) by (simp add: of_nat_inverse)
  moreover have "w_next_lsn w = lsn_at txs"
    using snap by (simp add: log_state_def lsn_at_def header_len_def)
  ultimately have mine: "snapshot_of st0 txs st s"
    using snap unfolding snapshot_of_def
    by (intro exI [of _ "length txs"] exI [of _ st] exI [of _ "when"]) (simp add: snapshot_capture_def h_start)
  have "snapshot_name_lsn (fst p) = None \<or> (\<exists>s. snapshot_ok s \<and> snd p = snapshot_bytes s \<and> snapshot_of st0 txs st s)"
    if p: "p \<in> set (snd (snapshot_write s fault dir))" for p
  proof (cases "p \<in> set dir")
    case True
    with snap show ?thesis by blast
  next
    case False
    then have "p = (snapshot_file_name (snap_lsn s), snapshot_bytes s) \<or> fst p = snapshot_tmp_name (snap_lsn s)"
      using p by (cases fault) (auto simp: snapshot_write_def Let_def AList.delete_eq dest!: update_mem)
    with mine snap(3) snapshot_name_lsn_tmp show ?thesis by auto
  qed
  with snap show ?case by blast
qed

text \<open>The restored store is the one the snapshot was taken of; without a snapshot it is the initial
  store.\<close>

lemma found_snapshot:
  assumes "\<forall>p \<in> set dir. snapshot_name_lsn (fst p) = None \<or> (\<exists>s. snapshot_ok s \<and> snd p = snapshot_bytes s \<and> P s)"
  shows "find_latest (Some dir) = Ok None \<or> (\<exists>path s. find_latest (Some dir) = Ok (Some (path, s)) \<and> P s)"
proof -
  have "\<forall>p \<in> set dir. snapshot_name_lsn (fst p) = None \<or> snapshot_read (snd p) \<noteq> Panic"
    using assms by (fastforce simp: snapshot_read_bytes)
  then obtain res where res: "find_latest_loop dir None = Ok res" using find_latest_loop_total by blast
  show ?thesis
  proof (cases res)
    case None
    with res show ?thesis by (simp add: find_latest_def)
  next
    case (Some r)
    then obtain p where p: "p \<in> set dir" "candidate p = Some r" using find_latest_loop_best(1) [OF res] by auto
    then obtain s where s: "snapshot_ok s" "snd p = snapshot_bytes s" "P s"
      using assms by (fastforce simp: candidate_def)
    then have "snd (snd r) = s" using p(2) by (auto simp: candidate_def snapshot_read_bytes split: option.splits)
    with res Some s(3) show ?thesis by (cases r) (auto simp: find_latest_def)
  qed
qed

definition recovery_base :: "directory \<Rightarrow> table_store \<Rightarrow> table_store" where
  "recovery_base dir st0 = (if find_latest (Some dir) = Ok None then st0 else store_new)"

lemma restore_latest_running:
  assumes plain: "store_plain st0" and run: "running st0 now txs st w dir"
  shows "\<exists>lsn report u i st1. restore_latest (Some dir) report_new (recovery_base dir st0) = (Ok (lsn, report), u) \<and>
    i \<le> length txs \<and> history st0 (take i txs) st1 \<and> history st1 (drop i txs) st \<and> store_covers st1 u \<and>
    next_transaction_id u = next_transaction_id st1 \<and> unat lsn \<le> lsn_at (take i txs) \<and>
    (i = 0 \<or> unat lsn = lsn_at (take i txs))"
proof -
  have hist: "history st0 txs st" and "find_latest (Some dir) = Ok None \<or>
      (\<exists>path s. find_latest (Some dir) = Ok (Some (path, s)) \<and> snapshot_of st0 txs st s)"
    using running_inv [OF run] found_snapshot [of dir "snapshot_of st0 txs st"] by blast+
  then consider (none) "find_latest (Some dir) = Ok None"
    | (found) path s where "find_latest (Some dir) = Ok (Some (path, s))" "snapshot_of st0 txs st s" by blast
  then show ?thesis
  proof cases
    case none
    then have "restore_latest (Some dir) report_new (recovery_base dir st0) = (Ok (0, report_new), st0)"
      by (simp add: restore_latest_def recovery_base_def)
    moreover have "store_covers st0 st0" using plain by (intro store_covers_refl) (simp add: store_plain_def)
    ultimately show ?thesis
      using hist by (intro exI [of _ 0] exI [of _ report_new] exI [of _ st0] exI [of _ "0 :: nat"]) (simp add: h_start)
  next
    case found
    obtain i st1 "when" where i: "i \<le> length txs" "history st0 (take i txs) st1" "history st1 (drop i txs) st"
        "s = snapshot_capture when st1 (snap_lsn s)" "unat (snap_lsn s) = lsn_at (take i txs)"
      using found(2) unfolding snapshot_of_def by blast
    have wf: "store_wf st1" using history_plain [OF i(2) plain] by (simp add: store_plain_def)
    let ?u = "st1\<lparr>ts_tables := map (\<lambda>(name, t). (name, the_table (table_state_of t))) (ts_tables st1)\<rparr>"
    have "snap_tables s = snapshot_tables st1" "snap_next_table_id s = next_table_id st1"
        "snap_next_transaction_id s = next_transaction_id st1"
      using i(4) by (metis snapshot_capture_def snapshot.select_convs)+
    then obtain report where "restore_latest (Some dir) report_new (recovery_base dir st0) = (Ok (snap_lsn s, report), ?u)"
      by (simp add: restore_latest_def recovery_base_def found(1) store_restore_tables [OF wf] Let_def)
    with i restored_covers [OF wf] show ?thesis
      by (intro exI [of _ "snap_lsn s"] exI [of _ report] exI [of _ ?u] exI [of _ i] exI [of _ st1]) simp
  qed
qed

lemma replay_txs_log:
  assumes plain: "store_plain st1" and hist: "history st1 (drop i txs) st" and i: "i \<le> length txs"
    and cov: "store_covers st1 u" and lsn: "unat lsn \<le> lsn_at (take i txs)" "i = 0 \<or> unat lsn = lsn_at (take i txs)"
    and j: "j \<le> length txs"
  shows "\<exists>mx report' u' st2. replay_txs lsn (log_txs header_len (take j txs)) None report u = (Ok (mx, report'), u') \<and>
    history st1 (take (j - i) (drop i txs)) st2 \<and> (length txs \<le> max i j \<longrightarrow> st2 = st) \<and> store_covers st2 u' \<and>
    next_transaction_id u' = next_transaction_id u \<and>
    (\<forall>(tid, cs) \<in> set (take (j - i) (drop i txs)). \<exists>m. mx = Some m \<and> tid \<le> m) \<and>
    (\<forall>m. mx = Some m \<longrightarrow> m \<in> fst ` set (take (j - i) (drop i txs)))"
proof -
  let ?old = "take (min i j) txs" and ?new = "take (j - i) (drop i txs)"
  obtain st2 where st2: "history st1 ?new st2" "length txs \<le> max i j \<longrightarrow> st2 = st"
  proof (cases "length txs \<le> max i j")
    case True
    then have "?new = drop i txs" using i by (auto simp: max_def split: if_splits)
    with hist that show thesis by auto
  next
    case False
    then have "j - i \<le> length (drop i txs)" using j by simp
    with history_prefix [OF hist] that False show thesis by blast
  qed
  obtain u' where u': "for_each replay_change (concat (map snd ?new)) u = (Ok (), u')" "store_covers st2 u'"
      "next_transaction_id u' = next_transaction_id u"
    using history_replayed [OF st2(1) plain cov] by blast
  have split: "take j txs = ?old @ ?new"
    by (cases "i \<le> j") (simp_all add: min_def take_add [symmetric])
  have old: "\<forall>tx \<in> set (log_txs header_len ?old). rt_commit_lsn tx < unat lsn"
  proof (cases "i = 0")
    case False
    have le: "lsn_at ?old \<le> unat lsn" using lsn_at_mono [of "min i j" i txs] False lsn(2) by simp
    show ?thesis
    proof
      fix tx assume "tx \<in> set (log_txs header_len ?old)"
      then show "rt_commit_lsn tx < unat lsn" using log_txs_range [of tx header_len ?old] le by (simp add: lsn_at_def)
    qed
  qed simp
  have new: "\<forall>tx \<in> set (log_txs (lsn_at ?old) ?new). \<not> rt_commit_lsn tx < unat lsn"
  proof
    fix tx assume tx: "tx \<in> set (log_txs (lsn_at ?old) ?new)"
    then have "i \<le> j" by (cases "i \<le> j") simp_all
    with log_txs_range [OF tx] lsn(1) show "\<not> rt_commit_lsn tx < unat lsn" by (simp add: min_def)
  qed
  have "replay_txs lsn (log_txs header_len (take j txs)) None report u
      = replay_txs lsn (log_txs (lsn_at ?old) ?new) None report u"
    unfolding split log_txs_append lsn_at_def by (rule replay_txs_skip [OF old])
  moreover obtain mx report' where mx: "replay_txs lsn (log_txs (lsn_at ?old) ?new) None report u = (Ok (mx, report'), u')"
      "\<forall>tx \<in> set (log_txs (lsn_at ?old) ?new). \<exists>m. mx = Some m \<and> rt_tx_id tx \<le> m"
      "\<forall>m. mx = Some m \<longrightarrow> (\<exists>tx \<in> set (log_txs (lsn_at ?old) ?new). rt_tx_id tx = m)"
    using replay_txs_run [OF new, of u u' None report] u'(1) by (auto simp: log_txs_changes)
  moreover have ids: "rt_tx_id ` set (log_txs (lsn_at ?old) ?new) = fst ` set ?new"
    using arg_cong [OF log_txs_changes(2) [of "lsn_at ?old" ?new], of set] by simp
  have "\<exists>m. mx = Some m \<and> tid \<le> m" if "(tid, cs) \<in> set ?new" for tid cs
  proof -
    have "tid \<in> rt_tx_id ` set (log_txs (lsn_at ?old) ?new)" unfolding ids using that by (rule rev_image_eqI) simp
    with mx(2) show ?thesis by blast
  qed
  moreover have "m \<in> fst ` set ?new" if "mx = Some m" for m
    unfolding ids [symmetric] using mx(3) that by blast
  ultimately show ?thesis
    using st2 u' by (intro exI [of _ mx] exI [of _ report'] exI [of _ u'] exI [of _ st2]) auto
qed

lemma store_covers_drain:
  assumes "store_covers st u"
  shows "store_covers st (snd (store_drain_changes u))"
proof -
  have "covers t (snd (table_drain_changes x))" if "covers t x" for t x
    using that table_drain_wf [of x] by (auto simp: covers_def table_drain_fields)
  then have "rel_option covers (table_by_id st tid) (table_by_id (snd (store_drain_changes u)) tid)" for tid
    using assms
    by (cases "table_by_id st tid"; cases "table_by_id u tid")
      (auto simp: store_covers_def drain_by_id dest!: spec [where x = tid])
  with assms store_drain_wf show ?thesis by (auto simp: store_covers_def store_drain_changes_def)
qed

lemma store_covers_advance: "store_covers st u \<Longrightarrow> store_covers st (advance_transaction_id n u)"
  by (auto simp: store_covers_def advance_transaction_id_def store_wf_def table_by_id_def)

definition finish_recovery :: "u64 option \<Rightarrow> table_store \<Rightarrow> table_store" where
  "finish_recovery mx st =
     snd (store_drain_changes (case mx of Some last_id \<Rightarrow> advance_transaction_id (last_id + 1) st | None \<Rightarrow> st))"

lemma finish_recovery_fields:
  "store_covers st u \<Longrightarrow> store_covers st (finish_recovery mx u)"
  "fst (store_drain_changes (finish_recovery mx u)) = []"
  "next_transaction_id (finish_recovery mx u)
     = (case mx of Some m \<Rightarrow> max (next_transaction_id u) (m + 1) | None \<Rightarrow> next_transaction_id u)"
  by (simp_all add: finish_recovery_def store_drain_changes_eq(2) store_covers_drain store_covers_advance
      split: option.splits) (auto simp: store_drain_changes_def advance_transaction_id_def)

lemma below_succ: "(a :: u64) < b \<Longrightarrow> a < a + 1"
  using version_next_greater [of a] word_order.extremum_strict [of b] by (cases "a = - 1") (auto simp: version_next_def)

lemma recover_running:
  assumes plain: "store_plain st0" and run: "running st0 now txs st w dir"
  shows "\<exists>w1 report w2 u j st2.
    wal_open now' policy (Some (take (header_len + k) (f_bytes (w_file w)))) = Ok w1 \<and>
    recover (Some dir) w1 (recovery_base dir st0) = (Ok report, w2, u) \<and>
    j \<le> length txs \<and> (\<forall>m \<le> length txs. length (frames (log_records (take m txs))) \<le> k \<longrightarrow> m \<le> j) \<and>
    history st0 (take j txs) st2 \<and> (j = length txs \<longrightarrow> st2 = st) \<and> store_covers st2 u \<and>
    fst (store_drain_changes u) = [] \<and> (\<forall>(tid, cs) \<in> set (take j txs). tid < next_transaction_id u) \<and>
    (\<exists>rs. log_state now rs w2)"
proof -
  have bytes: "f_bytes (w_file w) = header_bytes now @ frames (log_records txs)" and
    loggable: "\<forall>tx \<in> set txs. tx_loggable tx"
    using running_inv [OF run] by (auto simp: log_state_def)
  obtain j w1 w2 rs where j: "j \<le> length txs" "j < length txs \<longrightarrow> k < length (frames (log_records (take (Suc j) txs)))"
      "wal_open now' policy (Some (take (header_len + k) (f_bytes (w_file w)))) = Ok w1"
      "wal_recover_changes w1 = (Ok (log_txs header_len (take j txs), False), w2)" "log_state now rs w2"
    using wal_reopen_log [OF loggable, of k now' policy now] unfolding bytes by blast
  obtain lsn report u i st1 where i:
      "restore_latest (Some dir) report_new (recovery_base dir st0) = (Ok (lsn, report), u)"
      "i \<le> length txs" "history st0 (take i txs) st1" "history st1 (drop i txs) st" "store_covers st1 u"
      "next_transaction_id u = next_transaction_id st1" "unat lsn \<le> lsn_at (take i txs)"
      "i = 0 \<or> unat lsn = lsn_at (take i txs)"
    using restore_latest_running [OF plain run] by blast
  let ?rep = "report\<lparr>rep_truncated_tail := w_truncated_on_open w2 \<or> False\<rparr>"
  let ?new = "take (j - i) (drop i txs)"
  obtain mx report' u' st2 where r:
      "replay_txs lsn (log_txs header_len (take j txs)) None ?rep u = (Ok (mx, report'), u')"
      "history st1 ?new st2" "length txs \<le> max i j \<longrightarrow> st2 = st" "store_covers st2 u'"
      "next_transaction_id u' = next_transaction_id u"
      "\<forall>(tid, cs) \<in> set ?new. \<exists>m. mx = Some m \<and> tid \<le> m" "\<forall>m. mx = Some m \<longrightarrow> m \<in> fst ` set ?new"
    using replay_txs_log [OF history_plain [OF i(3) plain] i(4,2,5,7,8) j(1), of ?rep] by blast
  have rec: "recover (Some dir) w1 (recovery_base dir st0) = (Ok report', w2, finish_recovery mx u')"
    by (simp add: recover_def i(1) j(4) r(1) [simplified] Let_def finish_recovery_def)
  have split: "take (max i j) txs = take i txs @ ?new"
    by (cases "i \<le> j") (simp_all add: max_def take_add [symmetric])
  have hist: "history st0 (take (max i j) txs) st2" unfolding split by (rule history_trans [OF r(2) i(3)])
  have "m \<le> max i j" if "m \<le> length txs" "length (frames (log_records (take m txs))) \<le> k" for m
  proof (rule ccontr)
    assume "\<not> m \<le> max i j"
    with that(1) have "j < length txs" "lsn_at (take (Suc j) txs) \<le> lsn_at (take m txs)"
      using lsn_at_mono [of "Suc j" m txs] by auto
    with j(2) that(2) show False by (simp add: lsn_at_def)
  qed
  moreover have "tid < next_transaction_id (finish_recovery mx u')" if tx: "(tid, cs) \<in> set (take (max i j) txs)" for tid cs
  proof (cases "(tid, cs) \<in> set (take i txs)")
    case True
    then have "tid < next_transaction_id u'" using history_ids(2) [OF i(3) plain] r(5) i(6) by auto
    then show ?thesis by (auto simp: finish_recovery_fields(3) less_max_iff_disj split: option.splits)
  next
    case False
    with tx split have "(tid, cs) \<in> set ?new" by auto
    then obtain m where m: "mx = Some m" "tid \<le> m" using r(6) by auto
    then obtain cs' where "(m, cs') \<in> set ?new" using r(7) by force
    then have "m < m + 1"
      using history_ids(2) [OF r(2) history_plain [OF i(3) plain]] below_succ by blast
    with m show ?thesis by (auto simp: finish_recovery_fields(3) less_max_iff_disj)
  qed
  moreover have "max i j \<le> length txs" using i(2) j(1) by simp
  ultimately show ?thesis
    using j(3,5) rec hist r(3) finish_recovery_fields(1) [OF r(4)] finish_recovery_fields(2) [of mx u']
    by (intro exI [of _ w1] exI [of _ report'] exI [of _ w2] exI [of _ "finish_recovery mx u'"]
        exI [of _ "max i j"] exI [of _ st2]) auto
qed

section \<open>A log shorter than its snapshot\<close>

text \<open>The snapshot's position is compared with positions of commit records. When the log ends in front of
  the position of the newest snapshot (an unsynced log that a power failure cut, while the snapshot file
  was synced), transactions appended afterwards lie in front of it too and are skipped by the next
  recovery, although their appends succeeded.\<close>

lemma short_log_skipped:
  assumes st: "log_state now (log_records txs) w" "w_truncated_on_open w = False"
    and ok: "\<forall>tx \<in> set txs. tx_loggable tx" "tx_loggable (tid, cs)"
    and s: "find_latest dir = Ok (Some (path, s))"
      "store_restore (snap_tables s) (snap_next_table_id s) (snap_next_transaction_id s) store_new = (Ok (), st)"
    and short: "lsn_at (txs @ [(tid, cs)]) \<le> unat (snap_lsn s)"
    and app: "wal_append tid cs IoOk w = (Ok lsn, w1)"
  shows "\<exists>report w2. recover dir w1 store_new = (Ok report, w2, snd (store_drain_changes st)) \<and>
    rep_replayed_txs report = 0 \<and> \<not> rep_truncated_tail report"
proof -
  let ?txs = "txs @ [(tid, cs)]"
  have st1: "log_state now (log_records ?txs) w1" "w_truncated_on_open w1 = False"
    using wal_append_state [OF st(1) ok(2)] app st(2) by auto
  have run: "run_records header_len (None, []) (log_records ?txs) = Ok (None, log_txs header_len ?txs)"
    using run_log [of ?txs header_len "[]"] ok by simp
  obtain w2 where w2: "wal_recover_changes w1 = (Ok (log_txs header_len ?txs, False), w2)"
      "w_truncated_on_open w2 = w_truncated_on_open w1"
    using wal_recover_state [OF _ _ _ run, of w1 now] st1(1) unfolding log_state_def by blast
  have skip: "replay_txs (snap_lsn s) (log_txs header_len ?txs) None report st' = (Ok (None, report), st')" for report st'
  proof -
    have "\<forall>tx \<in> set (log_txs header_len ?txs). rt_commit_lsn tx < unat (snap_lsn s)"
      using log_txs_range [of _ header_len ?txs] short by (fastforce simp: lsn_at_def)
    then show ?thesis using replay_txs_skip [of "log_txs header_len ?txs" "snap_lsn s" "[]"] by simp
  qed
  show ?thesis
    by (simp add: recover_def restore_latest_def s w2 st1(2) skip Let_def report_new_def)
qed

end
