(* ===== verification/Nexum_Runs.thy ===== *)
theory Nexum_Runs
  imports Nexum_Examples Wal_Recovery
begin

text \<open>A small run of the whole system, for the witnesses: one transaction is begun, committed
  and logged.\<close>

definition ex_begun :: table_store where
  "ex_begun = snd (alloc_transaction_id ex_store)"

definition ex_changes :: "change list" where
  "ex_changes = [change_update 0 0 (ex_row 1 10) 0 (ex_row 1 11) 1, change_insert 0 1 (ex_row 2 20) 0]"

definition ex_wal :: wal where
  "ex_wal = snd (wal_append 0 ex_changes IoOk (wal_create 0 Sync))"

definition ex_after :: table_store where
  "ex_after = snd (snd (tx_commit ex_tx ex_begun))"

lemma ex_commit: "fst (tx_commit ex_tx ex_begun) = Ok ex_changes"
  by code_simp

lemma ex_tx_reach: "tx_reach ex_tx"
  unfolding ex_tx_def by (intro tx_reach.ins tx_reach.upd) (simp add: tx_begin_def split_def tx_reach.fresh)

lemma ex_loggable: "tx_loggable (0, ex_changes)"
  using ex_row_ok [unfolded ex_row_def]
  by (auto simp: tx_loggable_def ex_changes_def change_ok_def change_insert_def change_update_def payload_fits_def
      encode_change_def put_opt_row_def put_opt_version_def put_row_def ex_row_def put_column_type_def)

lemma ex_running: "running ex_store 0 [(0, ex_changes)] ex_after ex_wal []"
proof -
  have next0: "next_transaction_id ex_store = 0" "tx_id ex_tx = 0" by code_simp+
  have b: "running ex_store 0 [] ex_begun (wal_create 0 Sync) []"
    unfolding ex_begun_def by (rule running.begin_tx [OF running.boot]) (simp add: next0)
  have room: "has_room ex_begun (length (ws_entries (tx_writes ex_tx)))"
    using ex_room [of 2] by (simp add: ex_writes(3) has_room_def ex_begun_def alloc_by_id)
  obtain tx' st' where c: "tx_commit ex_tx ex_begun = (Ok ex_changes, tx', st')"
    using ex_commit by (cases "tx_commit ex_tx ex_begun") (auto simp: prod_eq_iff)
  obtain lsn w' where w: "wal_append (tx_id ex_tx) ex_changes IoOk (wal_create 0 Sync) = (Ok lsn, w')"
    by (simp add: wal_append_eq)
  have "tx_id ex_tx < next_transaction_id ex_begun"
    by (simp add: next0 ex_begun_def alloc_transaction_id_def)
  from running.commit [OF b ex_tx_reach this room c _ w] show ?thesis
    using ex_loggable c w by (simp add: next0 ex_after_def ex_wal_def)
qed

end
