(* ===== verification/Storage_Columnar.thy ===== *)
theory Storage_Columnar
  imports Storage_Table
begin

text \<open>
  \<^verbatim>\<open>nexum-storage/src/columnar.rs\<close>: the column-oriented mirror of a table. Each column is a list
  indexed by a dense slot; a hash map gives the slot of a row id. \<open>columnar_abs\<close> is the finite map
  the store represents and \<open>columnar_wf\<close> its invariant; insert, update and the swap-remove delete
  are shown to be the map operations. Slots are \<^verbatim>\<open>u32\<close>, so the laws ask for fewer than \<open>2 ^ 32\<close> rows.
\<close>

record columnar_store =
  row_id_to_slot :: "row_id \<rightharpoonup> u32"
  slot_to_row_id :: "row_id list"
  cs_columns :: "value_t list list"
  cs_versions :: "version list"
  num_columns :: nat

definition columnar_new :: "nat \<Rightarrow> columnar_store" where
  "columnar_new n =
     \<lparr>row_id_to_slot = Map.empty, slot_to_row_id = [], cs_columns = replicate n [],
      cs_versions = [], num_columns = n\<rparr>"

text \<open>\<^verbatim>\<open>RowRef::get\<close> and \<^verbatim>\<open>RowRef::into_owned\<close> at a slot.\<close>

definition row_ref_get :: "columnar_store \<Rightarrow> nat \<Rightarrow> nat \<Rightarrow> value_t option" where
  "row_ref_get cs slot i =
     (if i < num_columns cs then Some (cs_columns cs ! i ! slot) else None)"

definition row_ref_into_owned :: "columnar_store \<Rightarrow> nat \<Rightarrow> row" where
  "row_ref_into_owned cs slot = Row (map (\<lambda>c. cs_columns cs ! c ! slot) [0..<num_columns cs])"

definition columnar_scan :: "columnar_store \<Rightarrow> (row_id \<times> row) list" where
  "columnar_scan cs =
     map (\<lambda>slot. (slot_to_row_id cs ! slot, row_ref_into_owned cs slot))
       [0..<length (slot_to_row_id cs)]"

definition columnar_get :: "columnar_store \<Rightarrow> row_id \<Rightarrow> row option" where
  "columnar_get cs rid = map_option (\<lambda>slot. row_ref_into_owned cs (unat slot)) (row_id_to_slot cs rid)"

definition columnar_version_of :: "columnar_store \<Rightarrow> row_id \<Rightarrow> version option" where
  "columnar_version_of cs rid = map_option (\<lambda>slot. cs_versions cs ! unat slot) (row_id_to_slot cs rid)"

text \<open>Pushing a row: one value per column, the missing ones padded with \<^verbatim>\<open>Value::I64(0)\<close>.\<close>

fun push_columns :: "value_t list \<Rightarrow> value_t list list \<Rightarrow> value_t list list" where
  "push_columns vs [] = []"
| "push_columns [] (c # cs) = (c @ [VI64 0]) # push_columns [] cs"
| "push_columns (v # vs) (c # cs) = (c @ [v]) # push_columns vs cs"

definition columnar_insert :: "row_id \<Rightarrow> row \<Rightarrow> version \<Rightarrow> columnar_store \<Rightarrow> columnar_store" where
  "columnar_insert rid r v cs =
     (let slot = word_of_nat (length (slot_to_row_id cs)) in
      cs\<lparr>row_id_to_slot := (row_id_to_slot cs)(rid \<mapsto> slot),
         slot_to_row_id := slot_to_row_id cs @ [rid],
         cs_columns := push_columns (row_values r) (cs_columns cs),
         cs_versions := cs_versions cs @ [v]\<rparr>)"

fun set_columns :: "nat \<Rightarrow> value_t list \<Rightarrow> value_t list list \<Rightarrow> value_t list list" where
  "set_columns slot vs [] = []"
| "set_columns slot [] (c # cs) = c # cs"
| "set_columns slot (v # vs) (c # cs) = c[slot := v] # set_columns slot vs cs"

definition columnar_update :: "row_id \<Rightarrow> row \<Rightarrow> version \<Rightarrow> columnar_store \<Rightarrow> columnar_store" where
  "columnar_update rid r v cs =
     (case row_id_to_slot cs rid of
        None \<Rightarrow> cs
      | Some slot32 \<Rightarrow>
          let slot = unat slot32 in
          cs\<lparr>cs_columns := set_columns slot (row_values r) (cs_columns cs),
             cs_versions := (cs_versions cs)[slot := v]\<rparr>)"

definition swap_pop :: "nat \<Rightarrow> 'a list \<Rightarrow> 'a list" where
  "swap_pop slot xs = butlast (xs[slot := last xs, length xs - 1 := xs ! slot])"

definition columnar_delete :: "row_id \<Rightarrow> columnar_store \<Rightarrow> columnar_store" where
  "columnar_delete rid cs =
     (case row_id_to_slot cs rid of
        None \<Rightarrow> cs
      | Some slot32 \<Rightarrow>
          let slot = unat slot32; n = length (slot_to_row_id cs) - 1;
              removed = (row_id_to_slot cs)(rid := None) in
          if slot \<noteq> n then
            cs\<lparr>slot_to_row_id := swap_pop slot (slot_to_row_id cs),
               cs_columns := map (swap_pop slot) (cs_columns cs),
               cs_versions := swap_pop slot (cs_versions cs),
               row_id_to_slot := removed(slot_to_row_id cs ! n \<mapsto> word_of_nat slot)\<rparr>
          else
            cs\<lparr>slot_to_row_id := butlast (slot_to_row_id cs),
               cs_columns := map butlast (cs_columns cs),
               cs_versions := butlast (cs_versions cs),
               row_id_to_slot := removed\<rparr>)"

definition columnar_from_rows :: "nat \<Rightarrow> (row_id, stored_row) omap \<Rightarrow> columnar_store" where
  "columnar_from_rows n rows =
     fold (\<lambda>(rid, stored) cs. columnar_insert rid (sr_row stored) (sr_version stored) cs) rows
       (columnar_new n)"

section \<open>Invariant and abstraction\<close>

definition columnar_wf :: "columnar_store \<Rightarrow> bool" where
  "columnar_wf cs \<longleftrightarrow>
     length (cs_columns cs) = num_columns cs \<and>
     (\<forall>c \<in> set (cs_columns cs). length c = length (slot_to_row_id cs)) \<and>
     length (cs_versions cs) = length (slot_to_row_id cs) \<and>
     length (slot_to_row_id cs) \<le> 2 ^ 32 \<and>
     distinct (slot_to_row_id cs) \<and>
     (\<forall>rid slot. row_id_to_slot cs rid = Some slot \<longleftrightarrow>
        unat slot < length (slot_to_row_id cs) \<and> slot_to_row_id cs ! unat slot = rid)"

definition columnar_abs :: "columnar_store \<Rightarrow> row_id \<rightharpoonup> stored_row" where
  "columnar_abs cs rid =
     map_option (\<lambda>slot. \<lparr>sr_row = row_ref_into_owned cs (unat slot),
                          sr_version = cs_versions cs ! unat slot\<rparr>) (row_id_to_slot cs rid)"

lemma columnar_reads_abs:
  "columnar_get cs rid = map_option sr_row (columnar_abs cs rid)"
  "columnar_version_of cs rid = map_option sr_version (columnar_abs cs rid)"
  by (simp_all add: columnar_get_def columnar_version_of_def columnar_abs_def option.map_comp o_def)

lemma columnar_new_wf [wf_intros]: "columnar_wf (columnar_new n)"
  by (auto simp: columnar_wf_def columnar_new_def)

lemma columnar_new_abs: "columnar_abs (columnar_new n) = Map.empty"
  by (simp add: fun_eq_iff columnar_abs_def columnar_new_def)

lemma length_push_columns [simp]: "length (push_columns vs cs) = length cs"
  by (induction vs cs rule: push_columns.induct) auto

lemma length_set_columns [simp]: "length (set_columns slot vs cs) = length cs"
  by (induction slot vs cs rule: set_columns.induct) auto

lemma nth_push_columns:
  "i < length cs \<Longrightarrow> push_columns vs cs ! i = cs ! i @ [if i < length vs then vs ! i else VI64 0]"
  by (induction vs cs arbitrary: i rule: push_columns.induct) (auto simp: nth_Cons split: nat.splits)

lemma nth_set_columns:
  "i < length cs \<Longrightarrow>
     set_columns slot vs cs ! i = (if i < length vs then (cs ! i)[slot := vs ! i] else cs ! i)"
  by (induction slot vs cs arbitrary: i rule: set_columns.induct) (auto simp: nth_Cons split: nat.splits)

lemma columnar_wf_col: "columnar_wf cs \<Longrightarrow> i < num_columns cs \<Longrightarrow>
    length (cs_columns cs ! i) = length (slot_to_row_id cs)"
  by (simp add: columnar_wf_def)

lemma unat_slot: "n < 2 ^ 32 \<Longrightarrow> unat (word_of_nat n :: u32) = n"
  by (intro of_nat_inverse [OF refl]) simp

lemma columnar_insert_wf [wf_intros]:
  assumes wf: "columnar_wf cs" and new: "row_id_to_slot cs rid = None"
    and small: "length (slot_to_row_id cs) < 2 ^ 32"
  shows "columnar_wf (columnar_insert rid r v cs)"
proof -
  let ?n = "length (slot_to_row_id cs)"
  have fresh: "rid \<notin> set (slot_to_row_id cs)"
  proof
    assume "rid \<in> set (slot_to_row_id cs)"
    then obtain i where "i < ?n" "slot_to_row_id cs ! i = rid" by (metis in_set_conv_nth)
    then have "row_id_to_slot cs rid = Some (word_of_nat i)"
      using wf small by (simp add: columnar_wf_def unat_slot)
    with new show False by simp
  qed
  have slot: "unat s < ?n \<or> s = word_of_nat ?n" if "unat s < Suc ?n" for s :: u32
    using that less_antisym [OF _ that] word_of_nat_eq_iff [of ?n] by (metis less_antisym of_nat_unat ucast_id)
  have cols: "\<forall>c \<in> set (push_columns (row_values r) (cs_columns cs)). length c = Suc ?n"
    using wf columnar_wf_col [OF wf]
    by (auto simp: in_set_conv_nth nth_push_columns columnar_wf_def [of cs])
  show ?thesis
    using wf small fresh slot cols unat_slot [OF small]
    by (auto simp: columnar_wf_def columnar_insert_def Let_def nth_append split: if_splits)
qed

lemma columnar_insert_abs:
  assumes wf: "columnar_wf cs" and new: "row_id_to_slot cs rid = None"
    and small: "length (slot_to_row_id cs) < 2 ^ 32" and len: "row_len r = num_columns cs"
  shows "columnar_abs (columnar_insert rid r v cs)
           = (columnar_abs cs)(rid \<mapsto> \<lparr>sr_row = r, sr_version = v\<rparr>)"
proof
  fix q
  let ?n = "length (slot_to_row_id cs)"
  have lens: "length (cs_columns cs) = num_columns cs" "length (cs_versions cs) = ?n"
    using wf by (auto simp: columnar_wf_def)
  show "columnar_abs (columnar_insert rid r v cs) q
          = ((columnar_abs cs)(rid \<mapsto> \<lparr>sr_row = r, sr_version = v\<rparr>)) q"
  proof (cases "q = rid")
    case True
    have "Row (map (\<lambda>c. push_columns (row_values r) (cs_columns cs) ! c ! ?n) [0..<num_columns cs]) = r"
      using len lens columnar_wf_col [OF wf]
      by (cases r) (auto simp: nth_push_columns row_len_def nth_append intro!: nth_equalityI)
    with True lens show ?thesis
      by (simp add: columnar_abs_def columnar_insert_def Let_def row_ref_into_owned_def
          unat_slot [OF small] nth_append)
  next
    case False
    have "row_ref_into_owned (columnar_insert rid r v cs) (unat slot) = row_ref_into_owned cs (unat slot)"
      if "row_id_to_slot cs q = Some slot" for slot
      using that wf lens columnar_wf_col [OF wf]
      by (auto simp: columnar_insert_def Let_def row_ref_into_owned_def nth_push_columns nth_append
          columnar_wf_def)
    moreover have "unat slot < ?n" if "row_id_to_slot cs q = Some slot" for slot
      using that wf by (auto simp: columnar_wf_def)
    ultimately show ?thesis
      using False lens
      by (cases "row_id_to_slot cs q")
        (auto simp: columnar_abs_def columnar_insert_def Let_def nth_append row_ref_into_owned_def)
  qed
qed


section \<open>Update\<close>

lemma columnar_slot:
  assumes "columnar_wf cs" and "row_id_to_slot cs rid = Some slot"
  shows "unat slot < length (slot_to_row_id cs)" and "slot_to_row_id cs ! unat slot = rid"
  using assms by (auto simp: columnar_wf_def)

lemma columnar_slot_inj:
  assumes "columnar_wf cs" and "row_id_to_slot cs q = Some s" and "row_id_to_slot cs rid = Some slot"
  shows "unat s = unat slot \<longleftrightarrow> q = rid"
  using assms columnar_slot by (metis option.sel)

lemma columnar_update_wf [wf_intros]:
  assumes wf: "columnar_wf cs"
  shows "columnar_wf (columnar_update rid r v cs)"
proof -
  have "length c = length (slot_to_row_id cs)"
    if "c \<in> set (set_columns slot (row_values r) (cs_columns cs))" for slot c
    using that wf columnar_wf_col [OF wf]
    by (auto simp: in_set_conv_nth nth_set_columns columnar_wf_def [of cs])
  then show ?thesis
    using wf by (auto simp: columnar_update_def Let_def columnar_wf_def split: option.splits)
qed

lemma columnar_update_abs:
  assumes wf: "columnar_wf cs" and live: "columnar_abs cs rid \<noteq> None"
    and len: "row_len r = num_columns cs"
  shows "columnar_abs (columnar_update rid r v cs)
           = (columnar_abs cs)(rid \<mapsto> \<lparr>sr_row = r, sr_version = v\<rparr>)"
proof
  fix q
  let ?n = "length (slot_to_row_id cs)"
  obtain slot where slot: "row_id_to_slot cs rid = Some slot"
    using live by (auto simp: columnar_abs_def)
  have lens: "length (cs_columns cs) = num_columns cs" "length (cs_versions cs) = ?n" "unat slot < ?n"
    using wf columnar_slot [OF wf slot] by (auto simp: columnar_wf_def)
  have row: "map (\<lambda>c. set_columns (unat slot) (row_values r) (cs_columns cs) ! c ! unat s)
        [0..<num_columns cs]
      = (if q = rid then row_values r else map (\<lambda>c. cs_columns cs ! c ! unat s) [0..<num_columns cs])"
    if q: "row_id_to_slot cs q = Some s" for s
    using lens len columnar_wf_col [OF wf] columnar_slot_inj [OF wf q slot]
    by (auto simp: nth_set_columns row_len_def intro!: nth_equalityI)
  show "columnar_abs (columnar_update rid r v cs) q
          = ((columnar_abs cs)(rid \<mapsto> \<lparr>sr_row = r, sr_version = v\<rparr>)) q"
  proof (cases "row_id_to_slot cs q")
    case None
    then show ?thesis
      using slot by (auto simp: columnar_abs_def columnar_update_def Let_def)
  next
    case (Some s)
    have "(cs_versions cs)[unat slot := v] ! unat s = (if q = rid then v else cs_versions cs ! unat s)"
      using columnar_slot_inj [OF wf Some slot] lens by (auto simp: nth_list_update)
    then show ?thesis
      using Some slot row [OF Some] lens
      by (auto simp: columnar_abs_def columnar_update_def Let_def row_ref_into_owned_def)
  qed
qed

lemma columnar_update_missing: "columnar_abs cs rid = None \<Longrightarrow> columnar_update rid r v cs = cs"
  by (auto simp: columnar_abs_def columnar_update_def)

section \<open>Swap-remove\<close>

lemma length_swap_pop [simp]: "length (swap_pop slot xs) = length xs - 1"
  by (simp add: swap_pop_def)

lemma nth_swap_pop:
  assumes "i < length xs - 1"
  shows "swap_pop slot xs ! i = (if i = slot then xs ! (length xs - 1) else xs ! i)"
proof -
  have "xs \<noteq> []" using assms by auto
  then show ?thesis
    using assms by (auto simp: swap_pop_def nth_butlast last_conv_nth)
qed

text \<open>Both branches of the deletion as one: popping the last slot is a swap with itself.\<close>

lemma swap_pop_last: "xs \<noteq> [] \<Longrightarrow> swap_pop (length xs - 1) xs = butlast xs"
  by (simp add: swap_pop_def last_conv_nth)

lemma columnar_delete_eq:
  assumes wf: "columnar_wf cs" and slot: "row_id_to_slot cs rid = Some slot"
  shows "columnar_delete rid cs =
    cs\<lparr>slot_to_row_id := swap_pop (unat slot) (slot_to_row_id cs),
       cs_columns := map (swap_pop (unat slot)) (cs_columns cs),
       cs_versions := swap_pop (unat slot) (cs_versions cs),
       row_id_to_slot :=
         (if unat slot \<noteq> length (slot_to_row_id cs) - 1
          then ((row_id_to_slot cs)(rid := None))
                 (slot_to_row_id cs ! (length (slot_to_row_id cs) - 1) \<mapsto> slot)
          else (row_id_to_slot cs)(rid := None))\<rparr>"
proof (cases "unat slot = length (slot_to_row_id cs) - 1")
  case True
  have ne: "slot_to_row_id cs \<noteq> []" "cs_versions cs \<noteq> []" "\<forall>c \<in> set (cs_columns cs). c \<noteq> []"
    using wf columnar_slot [OF wf slot] by (force simp: columnar_wf_def)+
  have "map (swap_pop (unat slot)) (cs_columns cs) = map butlast (cs_columns cs)"
    using ne(3) wf True by (auto simp: columnar_wf_def intro!: swap_pop_last [THEN trans [rotated]])
  moreover have "swap_pop (unat slot) (cs_versions cs) = butlast (cs_versions cs)"
    using ne(2) wf True swap_pop_last [of "cs_versions cs"] by (simp add: columnar_wf_def)
  ultimately show ?thesis
    using slot True swap_pop_last [OF ne(1)] by (simp add: columnar_delete_def Let_def)
next
  case False
  then show ?thesis
    using slot by (simp add: columnar_delete_def Let_def)
qed

lemma columnar_delete_slots:
  assumes wf: "columnar_wf cs" and slot: "row_id_to_slot cs rid = Some slot"
  shows "row_id_to_slot (columnar_delete rid cs) q =
    (if q = rid then None
     else if q = slot_to_row_id cs ! (length (slot_to_row_id cs) - 1) then Some slot
     else row_id_to_slot cs q)"
proof (cases "unat slot = length (slot_to_row_id cs) - 1")
  case True
  then show ?thesis
    using columnar_slot [OF wf slot] by (simp add: columnar_delete_eq [OF wf slot])
next
  case False
  have "slot_to_row_id cs ! (length (slot_to_row_id cs) - 1) \<noteq> rid"
    using False wf columnar_slot [OF wf slot]
    by (auto simp: columnar_wf_def nth_eq_iff_index_eq)
  with False show ?thesis
    by (simp add: columnar_delete_eq [OF wf slot])
qed

lemma columnar_delete_wf [wf_intros]:
  assumes wf: "columnar_wf cs"
  shows "columnar_wf (columnar_delete rid cs)"
proof (cases "row_id_to_slot cs rid")
  case None
  then show ?thesis using wf by (simp add: columnar_delete_def)
next
  case (Some slot)
  let ?ids = "slot_to_row_id cs" and ?m = "length (slot_to_row_id cs) - 1"
  have dist: "distinct ?ids" and le: "length ?ids \<le> 2 ^ 32"
    and at: "\<And>q s. row_id_to_slot cs q = Some s \<longleftrightarrow> unat s < length ?ids \<and> ?ids ! unat s = q"
    using wf by (auto simp: columnar_wf_def)
  note slot = columnar_slot [OF wf Some]
  have ids: "swap_pop (unat slot) ?ids ! i = (if i = unat slot then ?ids ! ?m else ?ids ! i)"
    if "i < ?m" for i
    using that by (rule nth_swap_pop)
  have distinct': "distinct (swap_pop (unat slot) ?ids)"
    using dist slot by (auto simp: distinct_conv_nth ids)
  have m: "?m < length ?ids" using slot by simp
  have inj: "?ids ! i = ?ids ! j \<longleftrightarrow> i = j" if "i < length ?ids" "j < length ?ids" for i j
    using that by (rule nth_eq_iff_index_eq [OF dist])
  have "row_id_to_slot (columnar_delete rid cs) q = Some s \<longleftrightarrow>
      unat s < ?m \<and> swap_pop (unat slot) ?ids ! unat s = q" for q s
  proof -
    consider "s = slot" | "s \<noteq> slot" "unat s < ?m" | "s \<noteq> slot" "\<not> unat s < ?m" by blast
    then show ?thesis
    proof cases
      case 1
      have "unat slot < ?m \<or> ?ids ! ?m = rid" using slot by (metis less_Suc_eq Suc_pred' m le_less_trans zero_le)
      moreover have "unat slot < ?m \<longrightarrow> ?ids ! ?m \<noteq> rid" using slot inj [OF m slot(1)] by auto
      ultimately show ?thesis
        using 1 at [of q slot] slot ids [of "unat slot"]
        by (auto simp: columnar_delete_slots [OF wf Some])
    next
      case 2
      then have "unat s \<noteq> unat slot" "unat s < length ?ids" by (auto simp: word_unat_eq_iff)
      then show ?thesis
        using 2 at [of q s] slot inj [of "unat s" "unat slot"] inj [OF _ m, of "unat s"] ids [of "unat s"]
        by (auto simp: columnar_delete_slots [OF wf Some])
    next
      case 3
      have "unat s = ?m" if "unat s < length ?ids" using that 3 by simp
      then show ?thesis
        using 3 at [of q s] by (auto simp: columnar_delete_slots [OF wf Some])
    qed
  qed
  moreover have "slot_to_row_id (columnar_delete rid cs) = swap_pop (unat slot) ?ids"
    "cs_columns (columnar_delete rid cs) = map (swap_pop (unat slot)) (cs_columns cs)"
    "cs_versions (columnar_delete rid cs) = swap_pop (unat slot) (cs_versions cs)"
    "num_columns (columnar_delete rid cs) = num_columns cs"
    by (simp_all add: columnar_delete_eq [OF wf Some])
  moreover have "length (cs_columns cs) = num_columns cs" "length (cs_versions cs) = length ?ids"
    "\<forall>c \<in> set (cs_columns cs). length c = length ?ids"
    using wf by (auto simp: columnar_wf_def)
  ultimately show ?thesis
    using distinct' le by (simp add: columnar_wf_def)
qed

lemma columnar_delete_abs:
  assumes wf: "columnar_wf cs"
  shows "columnar_abs (columnar_delete rid cs) = (columnar_abs cs)(rid := None)"
proof (cases "row_id_to_slot cs rid")
  case None
  then show ?thesis by (simp add: columnar_delete_def columnar_abs_def fun_eq_iff)
next
  case (Some slot)
  let ?ids = "slot_to_row_id cs" and ?m = "length (slot_to_row_id cs) - 1"
  have lens: "length (cs_columns cs) = num_columns cs" "length (cs_versions cs) = length ?ids"
    using wf by (auto simp: columnar_wf_def)
  have moved: "row_ref_into_owned (columnar_delete rid cs) (unat s)
        = row_ref_into_owned cs (if s = slot then ?m else unat s)"
      "cs_versions (columnar_delete rid cs) ! unat s = cs_versions cs ! (if s = slot then ?m else unat s)"
    if "unat s < ?m" for s
    using that lens columnar_wf_col [OF wf]
    by (auto simp: columnar_delete_eq [OF wf Some] row_ref_into_owned_def nth_swap_pop
        word_unat_eq_iff)
  have "columnar_abs (columnar_delete rid cs) q = columnar_abs cs q" if q: "q \<noteq> rid" for q
  proof (cases "row_id_to_slot (columnar_delete rid cs) q")
    case None
    with q show ?thesis
      by (auto simp: columnar_abs_def columnar_delete_slots [OF wf Some] split: if_splits)
  next
    case s: (Some s)
    have lt: "unat s < ?m"
      using columnar_slot(1) [OF columnar_delete_wf [OF wf] s] by (simp add: columnar_delete_eq [OF wf Some])
    have "\<exists>t. row_id_to_slot cs q = Some t \<and> unat t = (if s = slot then ?m else unat s)"
    proof (cases "q = ?ids ! ?m")
      case True
      have "?m < 2 ^ 32" "?m < length ?ids"
        using wf columnar_slot(1) [OF wf Some] by (auto simp: columnar_wf_def)
      then have "row_id_to_slot cs q = Some (word_of_nat ?m)"
        using wf True unat_slot [of ?m] by (simp add: columnar_wf_def del: of_nat_diff)
      with True q s \<open>?m < 2 ^ 32\<close> show ?thesis
        using unat_slot [of ?m] by (simp add: columnar_delete_slots [OF wf Some])
    next
      case False
      with q s have "row_id_to_slot cs q = Some s"
        by (simp add: columnar_delete_slots [OF wf Some])
      moreover from this q have "s \<noteq> slot"
        using columnar_slot_inj [OF wf _ Some] by auto
      ultimately show ?thesis by simp
    qed
    then show ?thesis
      using moved [OF lt] s by (auto simp: columnar_abs_def)
  qed
  then show ?thesis
    by (auto simp: fun_eq_iff columnar_abs_def columnar_delete_slots [OF wf Some])
qed

section \<open>Scans and rebuilding\<close>

text \<open>A scan yields every live row once, in slot order.\<close>

lemma columnar_scan_set:
  assumes wf: "columnar_wf cs"
  shows "(rid, r) \<in> set (columnar_scan cs) \<longleftrightarrow> columnar_get cs rid = Some r"
proof
  assume "(rid, r) \<in> set (columnar_scan cs)"
  then obtain i where i: "i < length (slot_to_row_id cs)" "slot_to_row_id cs ! i = rid"
    "r = row_ref_into_owned cs i"
    by (auto simp: columnar_scan_def)
  moreover have "i < 2 ^ 32" using i wf by (auto simp: columnar_wf_def)
  ultimately have "row_id_to_slot cs rid = Some (word_of_nat i)"
    using wf by (simp add: columnar_wf_def unat_slot)
  with i \<open>i < 2 ^ 32\<close> show "columnar_get cs rid = Some r"
    by (simp add: columnar_get_def unat_slot)
next
  assume "columnar_get cs rid = Some r"
  then show "(rid, r) \<in> set (columnar_scan cs)"
    using columnar_slot [OF wf, of rid] by (force simp: columnar_get_def columnar_scan_def)
qed

lemma columnar_scan_distinct: "columnar_wf cs \<Longrightarrow> distinct (map fst (columnar_scan cs))"
  by (simp add: columnar_scan_def o_def columnar_wf_def map_nth)

lemma columnar_insert_fields [simp]:
  "num_columns (columnar_insert rid r v cs) = num_columns cs"
  "slot_to_row_id (columnar_insert rid r v cs) = slot_to_row_id cs @ [rid]"
  by (simp_all add: columnar_insert_def Let_def)

lemma columnar_abs_None: "columnar_abs cs rid = None \<longleftrightarrow> row_id_to_slot cs rid = None"
  by (simp add: columnar_abs_def)

lemma columnar_load:
  assumes "columnar_wf cs" and "distinct (map fst rows)"
    and "\<forall>(rid, stored) \<in> set rows. row_len (sr_row stored) = num_columns cs"
    and "\<forall>p \<in> set rows. columnar_abs cs (fst p) = None"
    and "length (slot_to_row_id cs) + length rows \<le> 2 ^ 32"
  shows "columnar_wf (fold (\<lambda>(rid, stored) cs. columnar_insert rid (sr_row stored) (sr_version stored) cs)
            rows cs) \<and>
         columnar_abs (fold (\<lambda>(rid, stored) cs. columnar_insert rid (sr_row stored) (sr_version stored) cs)
            rows cs) = (\<lambda>q. case om_get rows q of Some s \<Rightarrow> Some s | None \<Rightarrow> columnar_abs cs q)"
  using assms
proof (induction rows arbitrary: cs)
  case Nil
  then show ?case by simp
next
  case (Cons p rows)
  obtain rid stored where p: "p = (rid, stored)" by (cases p)
  let ?cs = "columnar_insert rid (sr_row stored) (sr_version stored) cs"
  have new: "row_id_to_slot cs rid = None" and small: "length (slot_to_row_id cs) < 2 ^ 32"
    using Cons.prems by (auto simp: p columnar_abs_None)
  have wf: "columnar_wf ?cs"
    using Cons.prems(1) new small by (rule columnar_insert_wf)
  have abs: "columnar_abs ?cs = (columnar_abs cs)(rid \<mapsto> stored)"
    using columnar_insert_abs [OF Cons.prems(1) new small] Cons.prems(3)
    by (cases stored) (simp add: p)
  have rid: "rid \<notin> fst ` set rows" "distinct (map fst rows)"
    using Cons.prems(2) by (auto simp: p)
  have "\<forall>q \<in> set rows. columnar_abs ?cs (fst q) = None"
    using Cons.prems(4) rid by (auto simp: abs)
  note IH = Cons.IH [OF wf rid(2) _ this]
  have "om_get rows rid = None"
    using rid by (simp add: om_get_None)
  then have "(\<lambda>q. case om_get rows q of Some s \<Rightarrow> Some s | None \<Rightarrow> columnar_abs ?cs q)
      = (\<lambda>q. case om_get (p # rows) q of Some s \<Rightarrow> Some s | None \<Rightarrow> columnar_abs cs q)"
    by (auto simp: abs p fun_eq_iff split: option.splits)
  with IH Cons.prems(3,5) show ?case
    by (simp add: p)
qed

lemma columnar_new_fields: "num_columns (columnar_new n) = n" "slot_to_row_id (columnar_new n) = []"
  by (simp_all add: columnar_new_def)

text \<open>Building from the authoritative rows mirrors them.\<close>

lemma columnar_from_rows_abs:
  assumes "om_wf rows" and "\<forall>(rid, stored) \<in> set rows. row_len (sr_row stored) = n"
    and "length rows \<le> 2 ^ 32"
  shows "columnar_wf (columnar_from_rows n rows)"
    and "columnar_abs (columnar_from_rows n rows) = om_get rows"
  using columnar_load [of "columnar_new n" rows] assms
  by (auto simp: columnar_from_rows_def columnar_new_wf columnar_new_abs om_wf_distinct
      columnar_new_fields fun_eq_iff split: option.splits)

end
