(* ===== verification/Sub_View.thy ===== *)
theory Sub_View
  imports Sub_Query
begin

text \<open>
  The shared view of \<^verbatim>\<open>nexum-subscription/src/subscription.rs\<close>: the window of all matching rows in query
  order, and the delivered part, which is maintained incrementally. \<^verbatim>\<open>BTreeMap\<close> and \<^verbatim>\<open>BTreeSet\<close> over the
  query's keys are lists sorted by \<open>key_cmp\<close>, the code's \<^verbatim>\<open>Ord for Key\<close>; the tables that are only read by
  row id are a map and a set. The debug-only check of the invariant is not part of the model: the
  invariant is proved instead.
\<close>

section \<open>Sorted collections with a comparison function\<close>

fun bt_insert :: "('k \<Rightarrow> 'k \<Rightarrow> ordering) \<Rightarrow> 'k \<Rightarrow> 'v \<Rightarrow> ('k \<times> 'v) list \<Rightarrow> ('k \<times> 'v) list" where
  "bt_insert cmp k v [] = [(k, v)]"
| "bt_insert cmp k v ((k', v') # m) =
     (case cmp k k' of
        Less \<Rightarrow> (k, v) # (k', v') # m
      | Equal \<Rightarrow> (k', v) # m
      | Greater \<Rightarrow> (k', v') # bt_insert cmp k v m)"

fun bt_remove :: "('k \<Rightarrow> 'k \<Rightarrow> ordering) \<Rightarrow> 'k \<Rightarrow> ('k \<times> 'v) list \<Rightarrow> ('k \<times> 'v) list" where
  "bt_remove cmp k [] = []"
| "bt_remove cmp k ((k', v') # m) =
     (case cmp k k' of Less \<Rightarrow> (k', v') # m | Equal \<Rightarrow> m | Greater \<Rightarrow> (k', v') # bt_remove cmp k m)"

fun bt_get :: "('k \<Rightarrow> 'k \<Rightarrow> ordering) \<Rightarrow> 'k \<Rightarrow> ('k \<times> 'v) list \<Rightarrow> 'v option" where
  "bt_get cmp k [] = None"
| "bt_get cmp k ((k', v') # m) =
     (case cmp k k' of Less \<Rightarrow> None | Equal \<Rightarrow> Some v' | Greater \<Rightarrow> bt_get cmp k m)"

fun bs_insert :: "('k \<Rightarrow> 'k \<Rightarrow> ordering) \<Rightarrow> 'k \<Rightarrow> 'k list \<Rightarrow> 'k list" where
  "bs_insert cmp k [] = [k]"
| "bs_insert cmp k (k' # ks) =
     (case cmp k k' of Less \<Rightarrow> k # k' # ks | Equal \<Rightarrow> k' # ks | Greater \<Rightarrow> k' # bs_insert cmp k ks)"

fun bs_remove :: "('k \<Rightarrow> 'k \<Rightarrow> ordering) \<Rightarrow> 'k \<Rightarrow> 'k list \<Rightarrow> 'k list" where
  "bs_remove cmp k [] = []"
| "bs_remove cmp k (k' # ks) =
     (case cmp k k' of Less \<Rightarrow> k' # ks | Equal \<Rightarrow> ks | Greater \<Rightarrow> k' # bs_remove cmp k ks)"

fun bs_contains :: "('k \<Rightarrow> 'k \<Rightarrow> ordering) \<Rightarrow> 'k \<Rightarrow> 'k list \<Rightarrow> bool" where
  "bs_contains cmp k [] = False"
| "bs_contains cmp k (k' # ks) =
     (case cmp k k' of Less \<Rightarrow> False | Equal \<Rightarrow> True | Greater \<Rightarrow> bs_contains cmp k ks)"

text \<open>\<^verbatim>\<open>range((Excluded(k), Unbounded)).next()\<close>.\<close>

definition bt_after :: "('k \<Rightarrow> 'k \<Rightarrow> ordering) \<Rightarrow> 'k \<Rightarrow> 'k list \<Rightarrow> 'k option" where
  "bt_after cmp k ks = find (\<lambda>k'. cmp k k' = Less) ks"

definition last_of :: "'a list \<Rightarrow> 'a option" where
  "last_of xs = (if xs = [] then None else Some (last xs))"

definition first_of :: "'a list \<Rightarrow> 'a option" where
  "first_of xs = (case xs of [] \<Rightarrow> None | x # _ \<Rightarrow> Some x)"

section \<open>Keys and views\<close>

record vkey =
  k_sort :: "value_t option"
  k_row_id :: row_id
  k_descending :: bool

definition key_cmp :: "vkey \<Rightarrow> vkey \<Rightarrow> ordering" where
  "key_cmp a b =
     (let primary = (case (k_sort a, k_sort b) of
            (Some x, Some y) \<Rightarrow> value_cmp x y
          | (None, Some _) \<Rightarrow> Greater
          | (Some _, None) \<Rightarrow> Less
          | (None, None) \<Rightarrow> Equal);
          primary = (if k_descending a then reverse_ordering primary else primary) in
      then_with primary (cmp_of (k_row_id a) (k_row_id b)))"

record delivered_row =
  dr_row_id :: row_id
  dr_row :: row

datatype subscription_update =
    UInitial u64 "delivered_row list"
  | UInsert u64 delivered_row
  | UUpdate u64 delivered_row
  | UDelete u64 row_id
  | UStale u64
  | UResync u64 "delivered_row list"

record shared_view =
  v_query :: query
  v_compiled :: compiled_query
  v_cap :: nat
  v_window :: "(vkey \<times> row) list"
  v_row_keys :: "row_id \<rightharpoonup> vkey"
  v_visible_keys :: "vkey list"
  v_visible_ids :: "row_id set"

text \<open>\<^verbatim>\<open>usize::MAX\<close>.\<close>

definition usize_max :: nat where
  "usize_max = 2 ^ 64 - 1"

definition view_new :: "query \<Rightarrow> compiled_query \<Rightarrow> nat \<Rightarrow> shared_view" where
  "view_new q compiled max_rows =
     \<lparr>v_query = q, v_compiled = compiled,
      v_cap = min (case cq_limit compiled of Some n \<Rightarrow> n | None \<Rightarrow> usize_max) max_rows,
      v_window = [], v_row_keys = Map.empty, v_visible_keys = [], v_visible_ids = {}\<rparr>"

definition set_compiled :: "compiled_query \<Rightarrow> shared_view \<Rightarrow> shared_view" where
  "set_compiled compiled v = v\<lparr>v_compiled := compiled\<rparr>"

definition view_key_of :: "shared_view \<Rightarrow> row \<Rightarrow> row_id \<Rightarrow> vkey res" where
  "view_key_of v r rid =
     bind_res (sort_value (v_compiled v) r) (\<lambda>s.
       Ok \<lparr>k_sort = s, k_row_id = rid, k_descending = cq_descending (v_compiled v)\<rparr>)"

definition deliver :: "shared_view \<Rightarrow> row_id \<Rightarrow> row \<Rightarrow> delivered_row res" where
  "deliver v rid r = bind_res (cq_project (v_compiled v) r) (\<lambda>p. Ok \<lparr>dr_row_id = rid, dr_row = p\<rparr>)"

text \<open>The rows at the given keys, as they are delivered.\<close>

definition deliver_keys :: "shared_view \<Rightarrow> vkey list \<Rightarrow> delivered_row list res" where
  "deliver_keys v ks =
     map_res (\<lambda>k. bind_res (expect (bt_get key_cmp k (v_window v))) (\<lambda>r. deliver v (k_row_id k) r)) ks"

text \<open>The ordering is inserted into the window key by key, so the stable sort before it does not show.\<close>

definition view_rebuild :: "(row_id \<times> row) list \<Rightarrow> shared_view \<Rightarrow> (delivered_row list \<times> shared_view) res" where
  "view_rebuild rows v =
     bind_res (map_res (\<lambda>(rid, r). bind_res (view_key_of v r rid) (\<lambda>k. Ok (k, r))) rows) (\<lambda>ordered.
       let v = v\<lparr>v_window := fold (\<lambda>(k, r). bt_insert key_cmp k r) ordered [],
                 v_row_keys := fold (\<lambda>(k, r) m. m(k_row_id k \<mapsto> k)) ordered Map.empty\<rparr>;
           visible = take (v_cap v) (map fst (v_window v));
           v = v\<lparr>v_visible_keys := fold (bs_insert key_cmp) visible [],
                 v_visible_ids := set (map k_row_id visible)\<rparr> in
       bind_res (deliver_keys v visible) (\<lambda>delivered. Ok (delivered, v)))"

definition visible_rows :: "shared_view \<Rightarrow> delivered_row list res" where
  "visible_rows v = deliver_keys v (v_visible_keys v)"

section \<open>Incremental maintenance\<close>

definition view_remove :: "row_id \<Rightarrow> shared_view \<Rightarrow> vkey option \<times> shared_view" where
  "view_remove rid v =
     (case v_row_keys v rid of
        None \<Rightarrow> (None, v)
      | Some k \<Rightarrow>
          (Some k, v\<lparr>v_row_keys := (v_row_keys v)(rid := None), v_window := bt_remove key_cmp k (v_window v)\<rparr>))"

definition deliverable :: "shared_view \<Rightarrow> row_id \<Rightarrow> row res" where
  "deliverable v rid =
     bind_res (expect (v_row_keys v rid)) (\<lambda>k. expect (bt_get key_cmp k (v_window v)))"

definition next_after_visible :: "shared_view \<Rightarrow> vkey option" where
  "next_after_visible v =
     (case last_of (v_visible_keys v) of
        Some mx \<Rightarrow> bt_after key_cmp mx (map fst (v_window v))
      | None \<Rightarrow> first_of (map fst (v_window v)))"

definition backfill ::
    "u64 \<Rightarrow> shared_view \<times> subscription_update list \<Rightarrow> (shared_view \<times> subscription_update list) res" where
  "backfill seq s =
     (case s of (v, out) \<Rightarrow>
        (case next_after_visible v of
           None \<Rightarrow> Ok (v, out)
         | Some k \<Rightarrow>
             let v = v\<lparr>v_visible_ids := insert (k_row_id k) (v_visible_ids v),
                       v_visible_keys := bs_insert key_cmp k (v_visible_keys v)\<rparr> in
             bind_res (deliverable v (k_row_id k)) (\<lambda>r.
             bind_res (deliver v (k_row_id k) r) (\<lambda>d. Ok (v, out @ [UInsert seq d])))))"

definition still_visible :: "vkey \<Rightarrow> shared_view \<Rightarrow> bool" where
  "still_visible kn v =
     (case last_of (v_visible_keys v) of
        None \<Rightarrow> True
      | Some mx \<Rightarrow>
          (case bt_after key_cmp mx (map fst (v_window v)) of
             None \<Rightarrow> True
           | Some nxt \<Rightarrow> key_cmp kn nxt \<noteq> Greater))"

definition sync_window ::
    "u64 \<Rightarrow> delivered_row option \<Rightarrow> vkey option \<Rightarrow> vkey option
     \<Rightarrow> shared_view \<times> subscription_update list \<Rightarrow> (shared_view \<times> subscription_update list) res" where
  "sync_window seq update ko kn s =
     (case s of (v, out) \<Rightarrow>
        let was_visible = (case ko of Some old \<Rightarrow> bs_contains key_cmp old (v_visible_keys v) | None \<Rightarrow> False);
            v = (case ko of
                   Some old \<Rightarrow> v\<lparr>v_visible_keys := bs_remove key_cmp old (v_visible_keys v)\<rparr>
                 | None \<Rightarrow> v) in
        (case kn of
           None \<Rightarrow>
             if was_visible then
               bind_res (expect ko) (\<lambda>old.
                 let rid = k_row_id old in
                 backfill seq (v\<lparr>v_visible_ids := v_visible_ids v - {rid}\<rparr>, out @ [UDelete seq rid]))
             else Ok (v, out)
         | Some kn \<Rightarrow>
             let rid = k_row_id kn in
             if was_visible then
               if still_visible kn v then
                 Ok (v\<lparr>v_visible_keys := bs_insert key_cmp kn (v_visible_keys v)\<rparr>,
                     (case update of Some upd \<Rightarrow> out @ [UUpdate seq upd] | None \<Rightarrow> out))
               else
                 backfill seq (v\<lparr>v_visible_ids := v_visible_ids v - {rid}\<rparr>, out @ [UDelete seq rid])
             else if length (v_visible_keys v) < v_cap v \<or>
                 (case last_of (v_visible_keys v) of None \<Rightarrow> True | Some worst \<Rightarrow> key_cmp kn worst \<noteq> Greater)
             then
               let v = v\<lparr>v_visible_keys := bs_insert key_cmp kn (v_visible_keys v),
                         v_visible_ids := insert rid (v_visible_ids v)\<rparr>;
                   evicted = (if v_cap v < length (v_visible_keys v) then last_of (v_visible_keys v) else None);
                   v = (if v_cap v < length (v_visible_keys v)
                        then v\<lparr>v_visible_keys := butlast (v_visible_keys v)\<rparr> else v);
                   (v, out) = (case evicted of
                       Some k \<Rightarrow> (v\<lparr>v_visible_ids := v_visible_ids v - {k_row_id k}\<rparr>, out @ [UDelete seq (k_row_id k)])
                     | None \<Rightarrow> (v, out)) in
               bind_res (deliverable v rid) (\<lambda>r.
               bind_res (deliver v rid r) (\<lambda>d. Ok (v, out @ [UInsert seq d])))
             else Ok (v, out)))"

definition upsert ::
    "row_id \<Rightarrow> row \<Rightarrow> u64 \<Rightarrow> bool \<Rightarrow> shared_view \<times> subscription_update list
     \<Rightarrow> (shared_view \<times> subscription_update list) res" where
  "upsert rid r seq was_visible s =
     (case s of (v, out) \<Rightarrow>
        case view_remove rid v of (old, v) \<Rightarrow>
          bind_res (view_key_of v r rid) (\<lambda>k.
            let v = v\<lparr>v_row_keys := (v_row_keys v)(rid \<mapsto> k), v_window := bt_insert key_cmp k r (v_window v)\<rparr> in
            bind_res (if was_visible then bind_res (deliver v rid r) (\<lambda>d. Ok (Some d)) else Ok None) (\<lambda>update.
              sync_window seq update old (Some k) (v, out))))"

definition view_apply_change ::
    "u64 \<Rightarrow> change \<Rightarrow> shared_view \<times> subscription_update list
     \<Rightarrow> (shared_view \<times> subscription_update list) res" where
  "view_apply_change seq c s =
     (case s of (v, out) \<Rightarrow>
        let rid = ch_row_id c;
            leave = (case view_remove rid v of
                (Some old, v) \<Rightarrow> sync_window seq None (Some old) None (v, out)
              | (None, v) \<Rightarrow> Ok (v, out)) in
        (case ch_kind c of
           CInsert \<Rightarrow>
             (case ch_new_row c of
                Some r \<Rightarrow> if cq_matches (v_compiled v) r then upsert rid r seq False (v, out) else Ok (v, out)
              | None \<Rightarrow> Ok (v, out))
         | CUpdate \<Rightarrow>
             (case (ch_old_row c, ch_new_row c) of
                (Some _, Some r) \<Rightarrow>
                  let was_visible = (rid \<in> v_visible_ids v) in
                  if cq_matches (v_compiled v) r then upsert rid r seq was_visible (v, out) else leave
              | _ \<Rightarrow> Ok (v, out))
         | CDelete \<Rightarrow> leave))"

end
