(* ===== verification/Sub_Order.thy ===== *)
theory Sub_Order
  imports Sub_View
begin

text \<open>
  The order of a view's keys is total, and what the sorted collections do under any total comparison:
  the laws of a comparison are the locale \<open>comparator\<close>, interpreted by the order of the query's keys, and
  the lemmas relate removal, insertion and successor of a sorted list to its prefixes (the first \<open>n\<close>
  keys are what a view delivers).
\<close>

definition ascending :: "('k \<Rightarrow> 'k \<Rightarrow> ordering) \<Rightarrow> ('k \<Rightarrow> bool) \<Rightarrow> 'k list \<Rightarrow> bool" where
  "ascending cmp ok ks \<longleftrightarrow> sorted_wrt (\<lambda>a b. cmp a b = Less) ks \<and> (\<forall>k \<in> set ks. ok k)"

locale comparator =
  fixes cmp :: "'k \<Rightarrow> 'k \<Rightarrow> ordering" and ok :: "'k \<Rightarrow> bool"
  assumes cmp_Equal: "ok a \<Longrightarrow> ok b \<Longrightarrow> cmp a b = Equal \<longleftrightarrow> a = b"
    and cmp_Greater: "ok a \<Longrightarrow> ok b \<Longrightarrow> cmp a b = Greater \<longleftrightarrow> cmp b a = Less"
    and cmp_trans: "ok a \<Longrightarrow> ok b \<Longrightarrow> ok c \<Longrightarrow> cmp a b = Less \<Longrightarrow> cmp b c = Less \<Longrightarrow> cmp a c = Less"
begin

abbreviation asc :: "'k list \<Rightarrow> bool" where
  "asc \<equiv> ascending cmp ok"

lemma ascending_simps [simp]:
  "asc []"
  "asc (k # ks) \<longleftrightarrow> ok k \<and> (\<forall>k' \<in> set ks. cmp k k' = Less) \<and> asc ks"
  by (auto simp: ascending_def)

lemma cmp_refl: "ok a \<Longrightarrow> cmp a a = Equal"
  using cmp_Equal by simp

lemma cmp_cases:
  assumes "ok a" and "ok b"
  obtains (less) "cmp a b = Less" "a \<noteq> b" "cmp b a = Greater"
    | (same) "a = b" "cmp a b = Equal"
    | (more) "cmp a b = Greater" "a \<noteq> b" "cmp b a = Less"
proof (cases "cmp a b")
  case Less
  then have "a \<noteq> b" "cmp b a = Greater" using assms cmp_refl cmp_Greater by fastforce+
  with Less less show ?thesis by blast
next
  case Equal
  with assms cmp_Equal same show ?thesis by blast
next
  case Greater
  then have "a \<noteq> b" "cmp b a = Less" using assms cmp_refl cmp_Greater by fastforce+
  with Greater more show ?thesis by blast
qed

lemma bs_insert_set: "ok k \<Longrightarrow> asc ks \<Longrightarrow> set (bs_insert cmp k ks) = insert k (set ks)"
proof (induction ks)
  case (Cons x ks)
  then have "ok x" by simp
  from Cons.prems(1) this show ?case by (cases rule: cmp_cases) (use Cons in auto)
qed simp

lemma bs_insert_ascending: "ok k \<Longrightarrow> asc ks \<Longrightarrow> asc (bs_insert cmp k ks)"
proof (induction ks)
  case (Cons x ks)
  then have "ok x" by simp
  from Cons.prems(1) this show ?case
  proof (cases rule: cmp_cases)
    case less
    moreover have "cmp k y = Less" if "y \<in> set ks" for y
      using less that Cons.prems cmp_trans [of k x y] by (auto simp: ascending_def)
    ultimately show ?thesis using Cons.prems by simp
  next
    case same
    with Cons.prems show ?thesis by simp
  next
    case more
    with Cons show ?thesis by (auto simp: bs_insert_set)
  qed
qed simp

lemma bs_remove_eq: "ok k \<Longrightarrow> asc ks \<Longrightarrow> bs_remove cmp k ks = filter (\<lambda>x. x \<noteq> k) ks"
proof (induction ks)
  case (Cons x ks)
  then have x: "ok x" by simp
  have later: "y \<noteq> x" if "y \<in> set ks" for y using that Cons.prems(2) cmp_refl [OF x] by auto
  from Cons.prems(1) x show ?case
  proof (cases rule: cmp_cases)
    case less
    then have "\<forall>y \<in> set ks. y \<noteq> k"
      using Cons.prems cmp_refl [of k] cmp_trans [of k x] x by (metis ascending_simps(2) ordering.distinct(1))
    then have "filter (\<lambda>y. y \<noteq> k) ks = ks" by (simp add: filter_id_conv)
    with less show ?thesis by auto
  next
    case same
    moreover have "filter (\<lambda>y. y \<noteq> k) ks = ks" using later same by (simp add: filter_id_conv)
    ultimately show ?thesis by simp
  next
    case more
    with Cons show ?thesis by auto
  qed
qed simp

lemma bs_contains_eq: "ok k \<Longrightarrow> asc ks \<Longrightarrow> bs_contains cmp k ks \<longleftrightarrow> k \<in> set ks"
proof (induction ks)
  case (Cons x ks)
  then have x: "ok x" by simp
  from Cons.prems(1) x show ?case
  proof (cases rule: cmp_cases)
    case less
    then have "k \<notin> set ks"
      using Cons.prems cmp_refl [of k] cmp_trans [of k x k] x by (metis ascending_simps(2) ordering.distinct(1))
    with less show ?thesis by simp
  qed (use Cons in auto)
qed simp

lemma ascending_filter: "asc ks \<Longrightarrow> asc (filter P ks)"
  by (simp add: ascending_def sorted_wrt_filter)

lemma ascending_take: "asc ks \<Longrightarrow> asc (take n ks)"
  by (auto simp: ascending_def sorted_wrt_take dest: in_set_takeD)

lemma ascending_distinct: "asc ks \<Longrightarrow> distinct ks"
proof (induction ks)
  case (Cons k ks)
  then show ?case using cmp_refl [of k] by auto
qed simp

lemma ascending_nth:
  "asc ks \<Longrightarrow> i < j \<Longrightarrow> j < length ks \<Longrightarrow> cmp (ks ! i) (ks ! j) = Less"
  by (simp add: ascending_def sorted_wrt_iff_nth_less)

lemma filter_take_mem:
  assumes "distinct ks" and "k \<in> set (take (Suc n) ks)"
  shows "filter (\<lambda>x. x \<noteq> k) (take (Suc n) ks) = take n (filter (\<lambda>x. x \<noteq> k) ks)"
  using assms
proof (induction ks arbitrary: n)
  case (Cons x ks)
  show ?case
  proof (cases "x = k")
    case True
    with Cons.prems have "k \<notin> set ks" by simp
    then have "filter (\<lambda>y. y \<noteq> k) ks = ks" "filter (\<lambda>y. y \<noteq> k) (take n ks) = take n ks"
      by (auto simp: filter_id_conv dest: in_set_takeD)
    with True show ?thesis by simp
  next
    case False
    with Cons.prems have "k \<in> set (take n ks)" by simp
    then obtain m where m: "n = Suc m" by (cases n) auto
    with Cons False show ?thesis by simp
  qed
qed simp

lemma filter_take_other:
  assumes "k \<notin> set (take n ks)"
  shows "take n (filter (\<lambda>x. x \<noteq> k) ks) = take n ks"
  using assms
proof (induction ks arbitrary: n)
  case (Cons x ks)
  then show ?case by (cases n) auto
qed simp

lemma bt_after_nth:
  assumes "asc ks" and "i < length ks"
  shows "bt_after cmp (ks ! i) ks = (if Suc i < length ks then Some (ks ! Suc i) else None)"
  using assms
proof (induction ks arbitrary: i)
  case (Cons x ks)
  show ?case
  proof (cases i)
    case 0
    with Cons.prems show ?thesis
      by (cases ks) (auto simp: bt_after_def cmp_refl)
  next
    case (Suc j)
    with Cons.prems have "cmp (ks ! j) x = Greater"
      by (metis Suc_less_eq ascending_simps(2) cmp_Greater length_Cons nth_mem ascending_def)
    with Cons Suc show ?thesis by (simp add: bt_after_def)
  qed
qed simp

lemma bt_after_insert:
  assumes "asc ks" and "ok k" and "k \<notin> set ks" and "ok m"
  shows "bt_after cmp m (bs_insert cmp k ks) =
    (if cmp m k = Less then
       (case bt_after cmp m ks of None \<Rightarrow> Some k | Some y \<Rightarrow> if cmp k y = Less then Some k else Some y)
     else bt_after cmp m ks)"
  using assms
proof (induction ks)
  case (Cons x ks)
  then have x: "ok x" by simp
  from Cons.prems(2) x show ?case
  proof (cases rule: cmp_cases)
    case less
    then have "cmp m x = Less" if "cmp m k = Less" using that cmp_trans [of m k x] Cons.prems x by simp
    with less show ?thesis by (auto simp: bt_after_def)
  next
    case more
    with Cons show ?thesis by (auto simp: bt_after_def)
  qed (use Cons.prems in simp)
qed (simp add: bt_after_def)

text \<open>The first keys after an insertion.\<close>

lemma take_insert:
  assumes "asc ks" and "ok k" and "k \<notin> set ks"
  shows "take (Suc n) (bs_insert cmp k ks) =
    (if n < length ks \<and> cmp (ks ! n) k = Less then take (Suc n) ks else bs_insert cmp k (take n ks))"
  using assms
proof (induction ks arbitrary: n)
  case (Cons x ks)
  then have x: "ok x" by simp
  from Cons.prems(2) x show ?case
  proof (cases rule: cmp_cases)
    case less
    have "cmp ((x # ks) ! n) k \<noteq> Less" if "n < length (x # ks)"
    proof (cases n)
      case (Suc i)
      with that have "cmp x (ks ! i) = Less" "ok (ks ! i)" using Cons.prems by (auto simp: ascending_def)
      then have "cmp k (ks ! i) = Less" using cmp_trans [of k x "ks ! i"] less x Cons.prems by simp
      with Suc \<open>ok (ks ! i)\<close> Cons.prems cmp_Greater [of "ks ! i" k] show ?thesis by simp
    qed (use less in simp)
    with less show ?thesis by (cases n) auto
  next
    case more
    show ?thesis
    proof (cases n)
      case (Suc i)
      with more Cons show ?thesis by simp
    qed (use more in simp)
  qed (use Cons.prems in simp)
qed simp

lemma bs_insert_last:
  assumes "\<forall>x \<in> set ks. cmp k x = Greater"
  shows "bs_insert cmp k ks = ks @ [k]"
  using assms by (induction ks) auto

lemma length_bs_insert: "asc ks \<Longrightarrow> ok k \<Longrightarrow> k \<notin> set ks \<Longrightarrow> length (bs_insert cmp k ks) = Suc (length ks)"
proof (induction ks)
  case (Cons x ks)
  then have "ok x" by simp
  from Cons.prems(2) this show ?case by (cases rule: cmp_cases) (use Cons in auto)
qed simp

text \<open>What the view asks of its delivered part, the first \<open>n\<close> keys, when a key has been inserted into the
  window.\<close>

lemma last_of_take:
  "last_of (take n ks) = (if n = 0 \<or> ks = [] then None else if n < length ks then Some (ks ! (n - 1)) else Some (last ks))"
  by (auto simp: last_of_def last_conv_nth)

lemma bt_after_take:
  assumes "asc ks" and "last_of (take n ks) = Some mx"
  shows "bt_after cmp mx ks = (if n < length ks then Some (ks ! n) else None)" and "ok mx" and "mx \<in> set ks"
    and "n < length ks \<Longrightarrow> cmp mx (ks ! n) = Less"
proof -
  have ne: "n \<noteq> 0" "ks \<noteq> []" using assms(2) by (auto simp: last_of_take split: if_splits)
  define i where "i = min n (length ks) - 1"
  have i: "i < length ks" "mx = ks ! i" "n < length ks \<Longrightarrow> Suc i = n" "\<not> n < length ks \<Longrightarrow> Suc i = length ks"
    using assms(2) ne by (auto simp: i_def last_of_take last_conv_nth split: if_splits)
  show "bt_after cmp mx ks = (if n < length ks then Some (ks ! n) else None)"
    using bt_after_nth [OF assms(1) i(1)] i by auto
  show "mx \<in> set ks" "ok mx" using assms(1) i(1,2) by (auto simp: ascending_def)
  show "n < length ks \<Longrightarrow> cmp mx (ks ! n) = Less" using ascending_nth [OF assms(1), of i n] i by auto
qed

lemma next_prefix:
  assumes "asc ks"
  shows "(case last_of (take n ks) of Some mx \<Rightarrow> bt_after cmp mx ks | None \<Rightarrow> first_of ks)
    = (if n < length ks then Some (ks ! n) else None)"
proof (cases "last_of (take n ks)")
  case None
  then have "n = 0 \<or> ks = []" by (auto simp: last_of_take split: if_splits)
  with None show ?thesis by (cases ks) (auto simp: first_of_def)
next
  case (Some mx)
  with bt_after_take(1) [OF assms Some] show ?thesis by simp
qed

lemma still_in_prefix:
  assumes ks: "asc ks" and k: "ok k" "k \<notin> set ks" and n: "n \<noteq> 0"
  shows "(case last_of (take n ks) of
      None \<Rightarrow> True
    | Some mx \<Rightarrow> (case bt_after cmp mx (bs_insert cmp k ks) of None \<Rightarrow> True | Some nxt \<Rightarrow> cmp k nxt \<noteq> Greater))
    \<longleftrightarrow> \<not> (n < length ks \<and> cmp (ks ! n) k = Less)"
proof (cases "last_of (take n ks)")
  case None
  with n have "ks = []" by (auto simp: last_of_take split: if_splits)
  then show ?thesis using None by simp
next
  case (Some mx)
  note mx = bt_after_take [OF ks Some]
  have after: "bt_after cmp mx (bs_insert cmp k ks) =
    (if cmp mx k = Less then
       (case bt_after cmp mx ks of None \<Rightarrow> Some k | Some y \<Rightarrow> if cmp k y = Less then Some k else Some y)
     else bt_after cmp mx ks)"
    by (rule bt_after_insert [OF ks k mx(2)])
  show ?thesis
  proof (cases "n < length ks")
    case True
    let ?y = "ks ! n"
    have y: "ok ?y" "k \<noteq> ?y" using True ks k(2) by (auto simp: ascending_def)
    have "cmp mx k = Less" if "cmp ?y k = Less" using cmp_trans [OF mx(2) y(1) k(1) mx(4) [OF True] that] .
    from k(1) y(1) show ?thesis
      by (cases rule: cmp_cases) (use True Some after mx(1) y(2) \<open>cmp ?y k = Less \<Longrightarrow> cmp mx k = Less\<close> k(1) in \<open>auto simp: cmp_refl\<close>)
  qed (use Some after mx(1) k(1) in \<open>auto simp: cmp_refl\<close>)
qed

lemma enters_prefix:
  assumes ks: "asc ks" and k: "ok k" "k \<notin> set ks"
  shows "(length (take (Suc n) ks) < Suc n \<or>
      (case last_of (take (Suc n) ks) of None \<Rightarrow> True | Some worst \<Rightarrow> cmp k worst \<noteq> Greater))
    \<longleftrightarrow> \<not> (n < length ks \<and> cmp (ks ! n) k = Less)"
proof (cases "n < length ks")
  case True
  then have "last_of (take (Suc n) ks) = Some (ks ! n)"
    by (auto simp: last_of_def take_Suc_conv_app_nth)
  moreover have "ok (ks ! n)" "k \<noteq> ks ! n" using True ks k(2) by (auto simp: ascending_def)
  ultimately show ?thesis using True cmp_Greater [OF k(1)] by auto
qed auto

lemma bs_insert_snoc:
  assumes "cmp k y = Less"
  shows "bs_insert cmp k (ks @ [y]) = bs_insert cmp k ks @ [y]"
  using assms by (induction ks) (auto split: ordering.splits)

text \<open>Inserting into the first keys and dropping the last of too many gives the first keys again.\<close>

lemma evict_prefix:
  assumes ks: "asc ks" and k: "ok k" "k \<notin> set ks" and enters: "\<not> (n < length ks \<and> cmp (ks ! n) k = Less)"
  shows "Suc n < length (bs_insert cmp k (take (Suc n) ks)) \<longleftrightarrow> n < length ks"
    and "n < length ks \<Longrightarrow> bs_insert cmp k (take (Suc n) ks) = take (Suc n) (bs_insert cmp k ks) @ [ks ! n]"
    and "\<not> n < length ks \<Longrightarrow> bs_insert cmp k (take (Suc n) ks) = take (Suc n) (bs_insert cmp k ks)"
proof -
  have take: "take (Suc n) (bs_insert cmp k ks) = bs_insert cmp k (take n ks)"
    using take_insert [OF ks k] enters by auto
  have "k \<notin> set (take (Suc n) ks)" using k(2) by (auto dest: in_set_takeD)
  then show "Suc n < length (bs_insert cmp k (take (Suc n) ks)) \<longleftrightarrow> n < length ks"
    using length_bs_insert [OF ascending_take [OF ks] k(1), of "Suc n"] by auto
  show "bs_insert cmp k (take (Suc n) ks) = take (Suc n) (bs_insert cmp k ks) @ [ks ! n]" if n: "n < length ks"
  proof -
    have "ok (ks ! n)" "k \<noteq> ks ! n" using n ks k(2) by (auto simp: ascending_def)
    then have "cmp k (ks ! n) = Less" using enters n k(1) by (metis cmp_cases)
    with n show ?thesis by (simp add: take take_Suc_conv_app_nth bs_insert_snoc)
  qed
  show "bs_insert cmp k (take (Suc n) ks) = take (Suc n) (bs_insert cmp k ks)" if "\<not> n < length ks"
    using that by (simp add: take)
qed

lemma backfill_prefix:
  assumes ks: "asc ks" and n: "n < length ks"
  shows "bs_insert cmp (ks ! n) (take n ks) = take (Suc n) ks"
proof -
  have "cmp (ks ! n) x = Greater" if "x \<in> set (take n ks)" for x
  proof -
    from that obtain i where "i < n" "x = ks ! i" by (auto simp: in_set_conv_nth)
    with ks n ascending_nth [OF ks, of i n] cmp_Greater [of "ks ! n" x] show ?thesis by (auto simp: ascending_def)
  qed
  with n show ?thesis by (simp add: bs_insert_last take_Suc_conv_app_nth)
qed

text \<open>Maps.\<close>

lemma bt_keys:
  "map fst (bt_insert cmp k v m) = bs_insert cmp k (map fst m)"
  "map fst (bt_remove cmp k m) = bs_remove cmp k (map fst m)"
proof -
  show "map fst (bt_insert cmp k v m) = bs_insert cmp k (map fst m)"
    by (induction m) (auto split: ordering.splits)
  show "map fst (bt_remove cmp k m) = bs_remove cmp k (map fst m)"
    by (induction m) (auto split: ordering.splits)
qed

lemma bt_get_eq: "ok k \<Longrightarrow> asc (map fst m) \<Longrightarrow> bt_get cmp k m = map_of m k"
proof (induction m)
  case (Cons p m)
  obtain x v where p: "p = (x, v)" by (cases p)
  with Cons.prems have x: "ok x" by simp
  from Cons.prems(1) x show ?case
  proof (cases rule: cmp_cases)
    case less
    then have "k \<notin> set (map fst m)"
      using Cons.prems p cmp_refl [of k] cmp_trans [of k x k] x
      by (metis ascending_simps(2) list.simps(9) fst_conv ordering.distinct(1))
    then have "map_of m k = None" by (simp add: map_of_eq_None_iff)
    with less p show ?thesis by simp
  qed (use Cons p in auto)
qed simp

lemma bt_remove_eq: "ok k \<Longrightarrow> asc (map fst m) \<Longrightarrow> bt_remove cmp k m = filter (\<lambda>p. fst p \<noteq> k) m"
proof (induction m)
  case (Cons p m)
  obtain x v where p: "p = (x, v)" by (cases p)
  with Cons.prems have x: "ok x" by simp
  have "bs_remove cmp k (map fst (p # m)) = filter (\<lambda>x. x \<noteq> k) (map fst (p # m))"
    using Cons.prems by (intro bs_remove_eq) auto
  have later: "\<forall>q \<in> set m. fst q \<noteq> x" using Cons.prems(2) cmp_refl [OF x] p by auto
  from Cons.prems(1) x show ?case
  proof (cases rule: cmp_cases)
    case less
    then have "\<forall>q \<in> set m. fst q \<noteq> k"
      using Cons.prems p cmp_refl [of k] cmp_trans [of k x k] x by fastforce
    with less p show ?thesis by (simp add: filter_id_conv)
  next
    case same
    with later p show ?thesis by (simp add: filter_id_conv)
  qed (use Cons p in auto)
qed simp

lemma bt_insert_mem:
  "ok k \<Longrightarrow> asc (map fst m) \<Longrightarrow> k \<notin> fst ` set m \<Longrightarrow> set (bt_insert cmp k v m) = insert (k, v) (set m)"
proof (induction m)
  case (Cons p m)
  obtain x v where p: "p = (x, v)" by (cases p)
  with Cons.prems have "ok x" by simp
  from Cons.prems(1) this show ?case by (cases rule: cmp_cases) (use Cons p in auto)
qed simp

end

section \<open>The keys of a view\<close>

definition opt_rank :: "value_t option \<Rightarrow> nat \<times> nat \<times> int \<times> string \<times> u8 list" where
  "opt_rank x = (case x of None \<Rightarrow> (1, 0, 0, [], []) | Some v \<Rightarrow> (0, value_rank v))"

lemma opt_rank_inj: "opt_rank x = opt_rank y \<longleftrightarrow> x = y"
  by (auto simp: opt_rank_def value_rank_inj split: option.splits)

lemma key_cmp_rank:
  "key_cmp a b =
     then_with (if k_descending a then cmp_of (opt_rank (k_sort b)) (opt_rank (k_sort a))
                else cmp_of (opt_rank (k_sort a)) (opt_rank (k_sort b)))
       (cmp_of (k_row_id a) (k_row_id b))"
proof -
  have "(case (k_sort a, k_sort b) of
            (Some x, Some y) \<Rightarrow> value_cmp x y
          | (None, Some _) \<Rightarrow> Greater
          | (Some _, None) \<Rightarrow> Less
          | (None, None) \<Rightarrow> Equal) = cmp_of (opt_rank (k_sort a)) (opt_rank (k_sort b))"
    by (auto simp: opt_rank_def value_cmp_rank cmp_of_def split: option.splits)
  moreover have "reverse_ordering (cmp_of x y) = cmp_of y x" for x y :: "nat \<times> nat \<times> int \<times> string \<times> u8 list"
    by (auto simp: cmp_of_def)
  ultimately show ?thesis by (simp add: key_cmp_def Let_def)
qed

interpretation keys: comparator key_cmp "\<lambda>k. k_descending k = d" for d
proof unfold_locales
  fix a b c :: vkey
  assume a: "k_descending a = d" and b: "k_descending b = d"
  show "key_cmp a b = Equal \<longleftrightarrow> a = b"
    using a b by (cases a; cases b) (auto simp: key_cmp_rank opt_rank_inj)
  show "key_cmp a b = Greater \<longleftrightarrow> key_cmp b a = Less"
    using a b by (auto simp: key_cmp_rank split: if_splits)
  assume "k_descending c = d" and "key_cmp a b = Less" and "key_cmp b c = Less"
  then show "key_cmp a c = Less"
    using a b by (cases d) (auto simp: key_cmp_rank)
qed

end
