(* ===== verification/Sub_Exact.thy ===== *)
theory Sub_Exact
  imports Sub_Order
begin

text \<open>
  A view is exact: its window holds the matching rows of the table in query order, its delivered part is
  the first rows of the window, and the updates it emits turn the delivered rows before a change into
  the delivered rows after it.
\<close>

section \<open>Rows a compiled query can read\<close>

definition cq_safe :: "compiled_query \<Rightarrow> row \<Rightarrow> bool" where
  "cq_safe q r \<longleftrightarrow>
     (\<forall>i. cq_order_position q = Some i \<longrightarrow> i < row_len r) \<and>
     (\<forall>is. cq_projection q = Some is \<longrightarrow> (\<forall>i \<in> set is. i < row_len r))"

definition key_at :: "compiled_query \<Rightarrow> row \<Rightarrow> row_id \<Rightarrow> vkey" where
  "key_at q r rid =
     \<lparr>k_sort = map_option (\<lambda>i. row_values r ! i) (cq_order_position q), k_row_id = rid,
      k_descending = cq_descending q\<rparr>"

definition projected :: "compiled_query \<Rightarrow> row \<Rightarrow> row" where
  "projected q r = (case cq_projection q of None \<Rightarrow> r | Some is \<Rightarrow> Row (map (\<lambda>i. row_values r ! i) is))"

lemma key_at_simps [simp]: "k_row_id (key_at q r rid) = rid" "k_descending (key_at q r rid) = cq_descending q"
  by (simp_all add: key_at_def)

lemma view_key_of_safe: "cq_safe (v_compiled v) r \<Longrightarrow> view_key_of v r rid = Ok (key_at (v_compiled v) r rid)"
  by (auto simp: view_key_of_def sort_value_def key_at_def cq_safe_def row_get_def row_len_def expect_def
      split: option.splits)

lemma project_safe: "cq_safe q r \<Longrightarrow> cq_project q r = Ok (projected q r)"
proof (cases "cq_projection q")
  case (Some positions)
  assume "cq_safe q r"
  with Some have "map_res (\<lambda>i. expect (row_get r i)) positions = Ok (map (\<lambda>i. row_values r ! i) positions)"
    by (intro map_res_map) (auto simp: cq_safe_def row_get_def row_len_def expect_def)
  with Some show ?thesis by (simp add: cq_project_def projected_def)
qed (simp add: cq_project_def projected_def)

lemma deliver_safe:
  "cq_safe (v_compiled v) r \<Longrightarrow> deliver v rid r = Ok \<lparr>dr_row_id = rid, dr_row = projected (v_compiled v) r\<rparr>"
  by (simp add: deliver_def project_safe)

lemma resolved_lt:
  assumes "map_res (\<lambda>n. ok_or InvalidArgument (column_index schema n)) names = Ok positions"
    and "i \<in> set positions"
  shows "i < length (ts_columns schema)"
  using assms by (auto simp: map_res_Ok in_set_conv_nth ok_or_def split: option.splits) (metis column_index_lt option.exhaust)

lemma compile_safe:
  assumes "compile_for tid schema q config = Ok cq" and "row_conforms schema r"
  shows "cq_safe cq r"
proof -
  have len: "row_len r = length (ts_columns schema)"
    using assms(2) by (metis row_conforms_def row_len_def length_map)
  show ?thesis
    using assms(1) unfolding cq_safe_def len compile_for_def
    by (auto simp: bind_res_eq_Ok ok_or_eq_Ok split: if_splits option.splits dest: column_index_lt resolved_lt)
qed

section \<open>The invariant\<close>

abbreviation key_list :: "shared_view \<Rightarrow> vkey list" where
  "key_list v \<equiv> map fst (v_window v)"

definition win_ok :: "shared_view \<Rightarrow> bool" where
  "win_ok v \<longleftrightarrow>
     ascending key_cmp (\<lambda>k. k_descending k = cq_descending (v_compiled v)) (key_list v) \<and>
     (\<forall>(k, r) \<in> set (v_window v). cq_safe (v_compiled v) r \<and> k = key_at (v_compiled v) r (k_row_id k)) \<and>
     (\<forall>rid k. v_row_keys v rid = Some k \<longleftrightarrow> k_row_id k = rid \<and> k \<in> set (key_list v))"

definition vis_ok :: "shared_view \<Rightarrow> bool" where
  "vis_ok v \<longleftrightarrow>
     v_visible_keys v = take (v_cap v) (key_list v) \<and>
     v_visible_ids v = k_row_id ` set (v_visible_keys v)"

abbreviation view_ok :: "shared_view \<Rightarrow> bool" where
  "view_ok v \<equiv> win_ok v \<and> vis_ok v"

text \<open>The rows of the window by row id, and the rows that are delivered.\<close>

definition content :: "shared_view \<Rightarrow> row_id \<rightharpoonup> row" where
  "content v rid = Option.bind (v_row_keys v rid) (map_of (v_window v))"

definition visible_map :: "shared_view \<Rightarrow> row_id \<rightharpoonup> row" where
  "visible_map v rid =
     (if rid \<in> v_visible_ids v then map_option (projected (v_compiled v)) (content v rid) else None)"

text \<open>What a client does with the updates; an insert of a row it has, or an update or delete of a row it
  does not have, is a protocol error.\<close>

fun client_step :: "subscription_update \<Rightarrow> (row_id \<rightharpoonup> row) \<Rightarrow> (row_id \<rightharpoonup> row) option" where
  "client_step (UInitial seq rows) m = Some (map_of (map (\<lambda>d. (dr_row_id d, dr_row d)) rows))"
| "client_step (UResync seq rows) m = Some (map_of (map (\<lambda>d. (dr_row_id d, dr_row d)) rows))"
| "client_step (UInsert seq d) m = (if m (dr_row_id d) = None then Some (m(dr_row_id d \<mapsto> dr_row d)) else None)"
| "client_step (UUpdate seq d) m = (if m (dr_row_id d) \<noteq> None then Some (m(dr_row_id d \<mapsto> dr_row d)) else None)"
| "client_step (UDelete seq rid) m = (if m rid \<noteq> None then Some (m(rid := None)) else None)"
| "client_step (UStale seq) m = Some m"

fun client_run :: "subscription_update list \<Rightarrow> (row_id \<rightharpoonup> row) \<Rightarrow> (row_id \<rightharpoonup> row) option" where
  "client_run [] m = Some m"
| "client_run (u # us) m = Option.bind (client_step u m) (client_run us)"

lemma client_run_append: "client_run (us @ ws) m = Option.bind (client_run us m) (client_run ws)"
  by (induction us arbitrary: m) (auto split: bind_splits)

section \<open>The window\<close>

lemma option_ext: "(\<And>x. a = Some x \<longleftrightarrow> b = Some x) \<Longrightarrow> a = b"
  by (metis option.exhaust)

lemma win_keys: "win_ok v \<Longrightarrow> ascending key_cmp (\<lambda>k. k_descending k = cq_descending (v_compiled v)) (key_list v)"
  by (simp add: win_ok_def)

lemma win_row:
  assumes "win_ok v" and "(k, r) \<in> set (v_window v)"
  shows "cq_safe (v_compiled v) r" and "k = key_at (v_compiled v) r (k_row_id k)"
    and "k_descending k = cq_descending (v_compiled v)" and "v_row_keys v (k_row_id k) = Some k"
    and "content v (k_row_id k) = Some r" and "bt_get key_cmp k (v_window v) = Some r"
proof -
  show "cq_safe (v_compiled v) r" and eq: "k = key_at (v_compiled v) r (k_row_id k)"
    using assms by (auto simp: win_ok_def)
  show desc: "k_descending k = cq_descending (v_compiled v)" using eq by (metis key_at_simps(2))
  show rk: "v_row_keys v (k_row_id k) = Some k" using assms by (force simp: win_ok_def)
  have "map_of (v_window v) k = Some r"
    using assms keys.ascending_distinct [OF win_keys [OF assms(1)]] by simp
  then show "content v (k_row_id k) = Some r" and "bt_get key_cmp k (v_window v) = Some r"
    using rk keys.bt_get_eq [OF desc win_keys [OF assms(1)]] by (simp_all add: content_def)
qed

lemma row_keys_key:
  assumes "win_ok v" and "v_row_keys v rid = Some k"
  obtains r where "(k, r) \<in> set (v_window v)" "k_row_id k = rid"
proof -
  have "k_row_id k = rid" "k \<in> set (key_list v)" using assms by (auto simp: win_ok_def)
  with that show thesis by auto
qed

lemma content_Some:
  assumes "win_ok v"
  shows "content v rid = Some r \<longleftrightarrow> (\<exists>k. (k, r) \<in> set (v_window v) \<and> k_row_id k = rid)"
proof
  assume c: "content v rid = Some r"
  then obtain k where k: "v_row_keys v rid = Some k" "map_of (v_window v) k = Some r"
    by (auto simp: content_def bind_eq_Some_conv)
  then show "\<exists>k. (k, r) \<in> set (v_window v) \<and> k_row_id k = rid"
    using assms by (auto simp: win_ok_def dest: map_of_SomeD)
qed (use win_row(5) [OF assms] in blast)

lemma content_None: "win_ok v \<Longrightarrow> content v rid = None \<longleftrightarrow> v_row_keys v rid = None"
proof (cases "v_row_keys v rid")
  case (Some k)
  assume ok: "win_ok v"
  from row_keys_key [OF ok Some] obtain r where "(k, r) \<in> set (v_window v)" "k_row_id k = rid" .
  with win_row(5) [OF ok] Some show ?thesis by auto
qed (simp add: content_def)

lemma view_remove_eq:
  assumes "win_ok v"
  shows "view_remove rid v = (v_row_keys v rid,
    v\<lparr>v_row_keys := (v_row_keys v)(rid := None), v_window := filter (\<lambda>p. k_row_id (fst p) \<noteq> rid) (v_window v)\<rparr>)"
proof (cases "v_row_keys v rid")
  case None
  have "\<forall>p \<in> set (v_window v). k_row_id (fst p) \<noteq> rid"
    using win_row(4) [OF assms] None by fastforce
  then have "filter (\<lambda>p. k_row_id (fst p) \<noteq> rid) (v_window v) = v_window v" by (simp add: filter_id_conv)
  moreover have "(v_row_keys v)(rid := None) = v_row_keys v" using None by (rule fun_upd_idem)
  ultimately show ?thesis by (simp add: view_remove_def None)
next
  case (Some k)
  then obtain r where k: "(k, r) \<in> set (v_window v)" "k_row_id k = rid" using row_keys_key [OF assms] by metis
  have eq: "fst p \<noteq> k \<longleftrightarrow> k_row_id (fst p) \<noteq> rid" if "p \<in> set (v_window v)" for p
  proof -
    have "v_row_keys v (k_row_id (fst p)) = Some (fst p)"
      using that by (intro win_row(4) [OF assms, of "fst p" "snd p"]) simp
    with Some k(2) show ?thesis by (metis option.inject)
  qed
  have "bt_remove key_cmp k (v_window v) = filter (\<lambda>p. k_row_id (fst p) \<noteq> rid) (v_window v)"
    unfolding keys.bt_remove_eq [OF win_row(3) [OF assms k(1)] win_keys [OF assms]]
    by (rule filter_cong [OF refl eq])
  with Some show ?thesis by (simp add: view_remove_def)
qed

text \<open>Removing and adding one row.\<close>

definition without :: "row_id \<Rightarrow> shared_view \<Rightarrow> shared_view" where
  "without rid v =
     v\<lparr>v_row_keys := (v_row_keys v)(rid := None), v_window := filter (\<lambda>p. k_row_id (fst p) \<noteq> rid) (v_window v)\<rparr>"

definition adding :: "row_id \<Rightarrow> row \<Rightarrow> shared_view \<Rightarrow> shared_view" where
  "adding rid r v =
     (let k = key_at (v_compiled v) r rid in
      v\<lparr>v_row_keys := (v_row_keys v)(rid \<mapsto> k), v_window := bt_insert key_cmp k r (v_window v)\<rparr>)"

lemma without_fields [simp]:
  "v_compiled (without rid v) = v_compiled v" "v_cap (without rid v) = v_cap v" "v_query (without rid v) = v_query v"
  "v_visible_keys (without rid v) = v_visible_keys v" "v_visible_ids (without rid v) = v_visible_ids v"
  "v_row_keys (without rid v) = (v_row_keys v)(rid := None)"
  by (simp_all add: without_def)

lemma adding_fields [simp]:
  "v_compiled (adding rid r v) = v_compiled v" "v_cap (adding rid r v) = v_cap v" "v_query (adding rid r v) = v_query v"
  "v_visible_keys (adding rid r v) = v_visible_keys v" "v_visible_ids (adding rid r v) = v_visible_ids v"
  "v_row_keys (adding rid r v) = (v_row_keys v)(rid \<mapsto> key_at (v_compiled v) r rid)"
  by (simp_all add: adding_def Let_def)

lemma without_keys: "key_list (without rid v) = filter (\<lambda>k. k_row_id k \<noteq> rid) (key_list v)"
  by (simp add: without_def filter_map comp_def)

lemma adding_keys: "key_list (adding rid r v) = bs_insert key_cmp (key_at (v_compiled v) r rid) (key_list v)"
  by (simp add: adding_def Let_def keys.bt_keys)

lemma without_ok:
  assumes "win_ok v"
  shows "win_ok (without rid v)" and "content (without rid v) = (content v)(rid := None)"
proof -
  show ok: "win_ok (without rid v)"
    using assms keys.ascending_filter unfolding win_ok_def without_keys
    by (auto simp: without_def split: if_splits)
  show "content (without rid v) = (content v)(rid := None)"
  proof
    fix q
    show "content (without rid v) q = ((content v)(rid := None)) q"
    proof (cases "q = rid")
      case False
      have "content (without rid v) q = Some r \<longleftrightarrow> content v q = Some r" for r
        using False unfolding content_Some [OF ok] content_Some [OF assms] by (auto simp: without_def)
      then have "content (without rid v) q = content v q" by (rule option_ext)
      with False show ?thesis by simp
    qed (simp add: content_def)
  qed
qed

lemma adding_ok:
  assumes "win_ok v" and "v_row_keys v rid = None" and safe: "cq_safe (v_compiled v) r"
  shows "win_ok (adding rid r v)" and "content (adding rid r v) = (content v)(rid \<mapsto> r)"
    and "key_at (v_compiled v) r rid \<notin> set (key_list v)"
proof -
  let ?k = "key_at (v_compiled v) r rid"
  show new: "?k \<notin> set (key_list v)"
  proof
    assume "?k \<in> set (key_list v)"
    then obtain r' where "(?k, r') \<in> set (v_window v)" by auto
    from win_row(4) [OF assms(1) this] assms(2) show False by simp
  qed
  have set: "set (v_window (adding rid r v)) = insert (?k, r) (set (v_window v))"
    using keys.bt_insert_mem [of ?k, OF _ win_keys [OF assms(1)]] new by (simp add: adding_def Let_def)
  show ok: "win_ok (adding rid r v)"
    unfolding win_ok_def
  proof (intro conjI)
    show "ascending key_cmp (\<lambda>k. k_descending k = cq_descending (v_compiled (adding rid r v))) (key_list (adding rid r v))"
      using keys.bs_insert_ascending [OF _ win_keys [OF assms(1)]] by (simp add: adding_keys)
    show "\<forall>(k, r') \<in> set (v_window (adding rid r v)). cq_safe (v_compiled (adding rid r v)) r' \<and>
        k = key_at (v_compiled (adding rid r v)) r' (k_row_id k)"
      unfolding set using win_row(1,2) [OF assms(1)] safe by auto
    show "\<forall>q k. v_row_keys (adding rid r v) q = Some k \<longleftrightarrow> k_row_id k = q \<and> k \<in> set (key_list (adding rid r v))"
    proof (intro allI)
      fix q k
      have "v_row_keys v q = Some k \<longleftrightarrow> k_row_id k = q \<and> k \<in> set (key_list v)" for q k
        using assms(1) by (simp add: win_ok_def)
      from this [of q k] this [of rid k] assms(2)
      show "v_row_keys (adding rid r v) q = Some k \<longleftrightarrow> k_row_id k = q \<and> k \<in> set (key_list (adding rid r v))"
        unfolding set_map set by (cases "q = rid") auto
    qed
  qed
  show "content (adding rid r v) = (content v)(rid \<mapsto> r)"
  proof
    fix q
    have other: "k_row_id k \<noteq> rid" if "(k, r') \<in> set (v_window v)" for k r'
      using win_row(4) [OF assms(1) that] assms(2) by (metis option.distinct(1))
    have "content (adding rid r v) q = Some r' \<longleftrightarrow> ((content v)(rid \<mapsto> r)) q = Some r'" for r'
    proof (cases "q = rid")
      case True
      have "content (adding rid r v) q = Some r' \<longleftrightarrow> r' = r"
        unfolding content_Some [OF ok] set using True other by fastforce
      with True show ?thesis by auto
    next
      case False
      have "content (adding rid r v) q = Some r' \<longleftrightarrow> content v q = Some r'"
        unfolding content_Some [OF ok] content_Some [OF assms(1)] set using False by auto
      with False show ?thesis by simp
    qed
    then show "content (adding rid r v) q = ((content v)(rid \<mapsto> r)) q" by (rule option_ext)
  qed
qed

section \<open>Keeping the delivered part\<close>

definition delivered_ids :: "shared_view \<Rightarrow> row_id set" where
  "delivered_ids v = k_row_id ` set (take (v_cap v) (key_list v))"

text \<open>The view with the right delivered part.\<close>

definition settled :: "shared_view \<Rightarrow> shared_view" where
  "settled v = v\<lparr>v_visible_keys := take (v_cap v) (key_list v), v_visible_ids := delivered_ids v\<rparr>"

lemma settled_fields [simp]:
  "v_compiled (settled v) = v_compiled v" "v_cap (settled v) = v_cap v" "v_query (settled v) = v_query v"
  "v_window (settled v) = v_window v" "v_row_keys (settled v) = v_row_keys v"
  "content (settled v) = content v" "v_visible_ids (settled v) = delivered_ids v"
  by (simp_all add: settled_def content_def fun_eq_iff)

lemma settled_ok: "win_ok v \<Longrightarrow> view_ok (settled v)"
  by (simp add: win_ok_def vis_ok_def) (simp add: settled_def delivered_ids_def)

lemma vis_ok_settled: "vis_ok v \<longleftrightarrow> settled v = v"
  by (cases v) (auto simp: vis_ok_def settled_def delivered_ids_def)

lemma visible_map_settled:
  "visible_map (settled v) rid =
     (if rid \<in> delivered_ids v then map_option (projected (v_compiled v)) (content v rid) else None)"
  by (simp add: visible_map_def)

lemma deliverable_key:
  assumes "win_ok v" and "k \<in> set (key_list v)"
  shows "\<exists>r. deliverable v (k_row_id k) = Ok r \<and> content v (k_row_id k) = Some r \<and>
    deliver v (k_row_id k) r = Ok \<lparr>dr_row_id = k_row_id k, dr_row = projected (v_compiled v) r\<rparr>"
proof -
  obtain r where r: "(k, r) \<in> set (v_window v)" using assms(2) by auto
  note row = win_row [OF assms(1) r]
  have "deliverable v (k_row_id k) = Ok r" by (simp add: deliverable_def row(4,6) expect_def)
  with row(5) deliver_safe [OF row(1)] show ?thesis by blast
qed

lemma same_id:
  assumes "win_ok v" and "a \<in> set (key_list v)" and "b \<in> set (key_list v)" and "k_row_id a = k_row_id b"
  shows "a = b"
proof -
  obtain r s where "(a, r) \<in> set (v_window v)" "(b, s) \<in> set (v_window v)" using assms(2,3) by auto
  then have "v_row_keys v (k_row_id a) = Some a" "v_row_keys v (k_row_id b) = Some b"
    using win_row(4) [OF assms(1), of a r] win_row(4) [OF assms(1), of b s] by blast+
  with assms(4) show ?thesis by (metis option.inject)
qed

lemma backfill_settles:
  assumes ok: "win_ok u" and cap: "v_cap u = Suc n" and vis: "v_visible_keys u = take n (key_list u)"
    and ids: "v_visible_ids u = k_row_id ` set (take n (key_list u))"
  shows "\<exists>ds. backfill seq (u, out) = Ok (settled u, out @ ds) \<and>
    client_run ds (visible_map u) = Some (visible_map (settled u))"
proof -
  let ?ks = "key_list u"
  have nxt: "next_after_visible u = (if n < length ?ks then Some (?ks ! n) else None)"
    unfolding next_after_visible_def vis by (rule keys.next_prefix [OF win_keys [OF ok]])
  show ?thesis
  proof (cases "n < length ?ks")
    case False
    then have "settled u = u" using cap vis ids by (cases u) (simp add: settled_def delivered_ids_def)
    with False nxt show ?thesis by (auto simp: backfill_def)
  next
    case True
    let ?y = "?ks ! n"
    let ?u = "u\<lparr>v_visible_ids := insert (k_row_id ?y) (v_visible_ids u), v_visible_keys := bs_insert key_cmp ?y (v_visible_keys u)\<rparr>"
    have y: "?y \<in> set ?ks" using True by simp
    obtain r where r: "deliverable u (k_row_id ?y) = Ok r" "content u (k_row_id ?y) = Some r"
        "deliver u (k_row_id ?y) r = Ok \<lparr>dr_row_id = k_row_id ?y, dr_row = projected (v_compiled u) r\<rparr>"
      using deliverable_key [OF ok y] by blast
    have u: "?u = settled u"
      using keys.backfill_prefix [OF win_keys [OF ok] True] True cap
      by (simp add: settled_def delivered_ids_def vis ids take_Suc_conv_app_nth)
    have "backfill seq (u, out) = Ok (settled u, out @ [UInsert seq \<lparr>dr_row_id = k_row_id ?y, dr_row = projected (v_compiled u) r\<rparr>])"
      using nxt True r u by (simp add: backfill_def deliverable_def deliver_def Let_def)
    moreover have "k_row_id ?y \<notin> v_visible_ids u"
    proof
      assume "k_row_id ?y \<in> v_visible_ids u"
      then obtain k where k: "k \<in> set (take n ?ks)" "k_row_id k = k_row_id ?y" unfolding ids by auto
      then have "k = ?y" using same_id [OF ok _ y] by (auto dest: in_set_takeD)
      with k(1) have "?y \<in> set (take n ?ks)" by simp
      then obtain i where "i < n" "?ks ! i = ?y" by (auto simp: in_set_conv_nth)
      with True keys.ascending_distinct [OF win_keys [OF ok]] show False
        using nth_eq_iff_index_eq [of ?ks i n] by simp
    qed
    moreover have "visible_map (settled u) = (visible_map u)(k_row_id ?y \<mapsto> projected (v_compiled u) r)"
    proof -
      have "delivered_ids u = insert (k_row_id ?y) (v_visible_ids u)"
        using True by (simp add: delivered_ids_def cap ids take_Suc_conv_app_nth)
      then show ?thesis by (auto simp: fun_eq_iff visible_map_def r(2))
    qed
    ultimately show ?thesis by (auto simp: visible_map_def)
  qed
qed

lemma take_filter_prefix: "\<forall>x \<in> set (take n xs). P x \<Longrightarrow> take n (filter P xs) = take n xs"
proof (induction xs arbitrary: n)
  case (Cons x xs)
  then show ?case by (cases n) auto
qed simp

lemma without_take:
  assumes ok: "win_ok v" and old: "v_row_keys v rid = Some old"
  shows "key_list (without rid v) = filter (\<lambda>k. k \<noteq> old) (key_list v)" and "k_row_id old = rid"
    and "k_descending old = cq_descending (v_compiled v)"
    and "bs_remove key_cmp old (take n (key_list v)) = filter (\<lambda>k. k \<noteq> old) (take n (key_list v))"
    and "bs_contains key_cmp old (take n (key_list v)) \<longleftrightarrow> old \<in> set (take n (key_list v))"
proof -
  obtain r where r: "(old, r) \<in> set (v_window v)" "k_row_id old = rid" using row_keys_key [OF ok old] .
  then have mem: "old \<in> set (key_list v)" by force
  show "k_row_id old = rid" by fact
  show desc: "k_descending old = cq_descending (v_compiled v)" using win_row(3) [OF ok r(1)] .
  have "k_row_id k \<noteq> rid \<longleftrightarrow> k \<noteq> old" if "k \<in> set (key_list v)" for k
    using same_id [OF ok that mem] r(2) by auto
  then show "key_list (without rid v) = filter (\<lambda>k. k \<noteq> old) (key_list v)"
    unfolding without_keys by (rule filter_cong [OF refl])
  show "bs_remove key_cmp old (take n (key_list v)) = filter (\<lambda>k. k \<noteq> old) (take n (key_list v))"
    by (rule keys.bs_remove_eq [OF desc keys.ascending_take [OF win_keys [OF ok]]])
  show "bs_contains key_cmp old (take n (key_list v)) \<longleftrightarrow> old \<in> set (take n (key_list v))"
    by (rule keys.bs_contains_eq [OF desc keys.ascending_take [OF win_keys [OF ok]]])
qed

lemma visible_key:
  assumes "view_ok v" and "v_row_keys v rid = Some old"
  shows "rid \<in> v_visible_ids v \<longleftrightarrow> old \<in> set (take (v_cap v) (key_list v))"
proof -
  obtain r where "(old, r) \<in> set (v_window v)" and id: "k_row_id old = rid"
    using row_keys_key assms by metis
  then have mem: "old \<in> set (key_list v)" by force
  have "v_visible_ids v = k_row_id ` set (take (v_cap v) (key_list v))" using assms(1) by (simp add: vis_ok_def)
  moreover have "k = old" if "k \<in> set (take (v_cap v) (key_list v))" "k_row_id k = rid" for k
    using same_id [OF _ in_set_takeD [OF that(1)] mem] assms(1) that(2) id by simp
  ultimately show ?thesis using id by auto
qed

lemma visible_parts:
  assumes "view_ok v" and "v_cap v = Suc n"
  shows "v_visible_keys v = take (Suc n) (key_list v)" and "v_visible_ids v = k_row_id ` set (take (Suc n) (key_list v))"
  using assms by (auto simp: vis_ok_def)

text \<open>The delivered part without a row that was in it, and of a row that was not.\<close>

lemma leave_prefix:
  assumes ok: "view_ok v" and old: "v_row_keys v rid = Some old" and cap: "v_cap v = Suc n"
    and mem: "old \<in> set (take (Suc n) (key_list v))"
  shows "bs_remove key_cmp old (take (Suc n) (key_list v)) = take n (key_list (without rid v))"
    and "v_visible_ids v - {rid} = k_row_id ` set (take n (key_list (without rid v)))"
proof -
  let ?ks = "key_list v"
  have win: "win_ok v" using ok by simp
  note w = without_take [OF win old]
  show take: "bs_remove key_cmp old (take (Suc n) ?ks) = take n (key_list (without rid v))"
    unfolding w(1,4) by (rule keys.filter_take_mem [OF keys.ascending_distinct [OF win_keys [OF win]] mem])
  have "set (take n (key_list (without rid v))) = set (take (Suc n) ?ks) - {old}"
    unfolding take [symmetric] w(4) by auto
  moreover have "k = old" if "k \<in> set (take (Suc n) ?ks)" "k_row_id k = rid" for k
    using same_id [OF win in_set_takeD [OF that(1)] in_set_takeD [OF mem]] that(2) w(2) by simp
  ultimately show "v_visible_ids v - {rid} = k_row_id ` set (take n (key_list (without rid v)))"
    using w(2) by (auto simp: visible_parts(2) [OF ok cap])
qed

lemma stay_prefix:
  assumes ok: "view_ok v" and cap: "v_cap v = Suc n" and out: "rid \<notin> v_visible_ids v"
  shows "take (Suc n) (key_list (without rid v)) = take (Suc n) (key_list v)"
    and "v_row_keys v rid = Some old \<Longrightarrow> \<not> bs_contains key_cmp old (take (Suc n) (key_list v)) \<and>
      bs_remove key_cmp old (take (Suc n) (key_list v)) = take (Suc n) (key_list v)"
proof -
  have "\<forall>k \<in> set (take (Suc n) (key_list v)). k_row_id k \<noteq> rid"
    using out by (auto simp: visible_parts(2) [OF ok cap])
  then show "take (Suc n) (key_list (without rid v)) = take (Suc n) (key_list v)"
    unfolding without_keys by (rule take_filter_prefix)
  assume old: "v_row_keys v rid = Some old"
  have "old \<notin> set (take (Suc n) (key_list v))" using visible_key [OF ok old] out cap by simp
  then show "\<not> bs_contains key_cmp old (take (Suc n) (key_list v)) \<and>
      bs_remove key_cmp old (take (Suc n) (key_list v)) = take (Suc n) (key_list v)"
    using without_take(4,5) [OF _ old, of "Suc n"] ok by (auto simp: filter_id_conv)
qed

lemma sync_leave:
  assumes ok: "view_ok v" and old: "v_row_keys v rid = Some old" and cap: "v_cap v = Suc n"
  shows "\<exists>ds. sync_window seq None (Some old) None (without rid v, out) = Ok (settled (without rid v), out @ ds) \<and>
    client_run ds (visible_map v) = Some (visible_map (settled (without rid v)))"
proof -
  let ?ks = "key_list v" and ?u = "without rid v"
  have win: "win_ok v" and vis: "v_visible_keys v = take (Suc n) ?ks" and ids: "v_visible_ids v = k_row_id ` set (take (Suc n) ?ks)"
    using ok cap by (auto simp: vis_ok_def)
  note w = without_take [OF win old]
  note wok = without_ok [OF win, of rid]
  show ?thesis
  proof (cases "old \<in> set (take (Suc n) ?ks)")
    case False
    have "take (Suc n) (key_list ?u) = take (Suc n) ?ks"
      unfolding w(1) by (rule keys.filter_take_other [OF False])
    moreover have "filter (\<lambda>k. k \<noteq> old) (take (Suc n) ?ks) = take (Suc n) ?ks"
      using False by (auto simp: filter_id_conv)
    ultimately have "sync_window seq None (Some old) None (?u, out) = Ok (settled ?u, out)"
      and del: "delivered_ids ?u = v_visible_ids v"
      using False by (simp_all add: sync_window_def Let_def vis ids w(4,5) settled_def delivered_ids_def cap)
    moreover have "visible_map (settled ?u) = visible_map v"
    proof
      fix q
      have "rid \<notin> v_visible_ids v" using visible_key [OF ok old] False cap by simp
      then show "visible_map (settled ?u) q = visible_map v q"
        using del wok(2) by (auto simp: visible_map_def)
    qed
    ultimately show ?thesis by auto
  next
    case True
    let ?w = "?u\<lparr>v_visible_keys := take n (key_list ?u), v_visible_ids := v_visible_ids v - {rid}\<rparr>"
    note take = leave_prefix(1) [OF ok old cap True] and ids' = leave_prefix(2) [OF ok old cap True]
    have "win_ok ?w" "v_cap ?w = Suc n" "key_list ?w = key_list ?u" using wok(1) cap by (simp_all add: win_ok_def)
    from backfill_settles [OF this(1,2), of seq "out @ [UDelete seq rid]"] obtain ds where
      ds: "backfill seq (?w, out @ [UDelete seq rid]) = Ok (settled ?w, out @ [UDelete seq rid] @ ds)"
        "client_run ds (visible_map ?w) = Some (visible_map (settled ?w))"
      using ids' by auto
    have "settled ?w = settled ?u" by (simp add: settled_def delivered_ids_def)
    moreover have "sync_window seq None (Some old) None (?u, out) = backfill seq (?w, out @ [UDelete seq rid])"
      using True by (simp add: sync_window_def Let_def vis w(2,5) take expect_def)
    moreover have "content ?w = (content v)(rid := None)" unfolding wok(2) [symmetric] by (simp add: content_def fun_eq_iff)
    then have "visible_map ?w = (visible_map v)(rid := None)" by (auto simp: fun_eq_iff visible_map_def)
    moreover have "visible_map v rid \<noteq> None"
      using visible_key [OF ok old] True cap content_None [OF win, of rid] old by (simp add: visible_map_def)
    ultimately show ?thesis using ds by (intro exI [of _ "UDelete seq rid # ds"]) simp
  qed
qed

lemma sync_stay:
  assumes ok: "view_ok v" and cap: "v_cap v = Suc n" "n \<noteq> 0" and vis: "rid \<in> v_visible_ids v"
    and safe: "cq_safe (v_compiled v) r" and u: "u = adding rid r (without rid v)"
  shows "\<exists>ds. sync_window seq (Some \<lparr>dr_row_id = rid, dr_row = projected (v_compiled v) r\<rparr>) (v_row_keys v rid)
      (Some (key_at (v_compiled v) r rid)) (u, out) = Ok (settled u, out @ ds) \<and>
    client_run ds (visible_map v) = Some (visible_map (settled u))"
proof -
  let ?k = "key_at (v_compiled v) r rid" and ?V = "v_visible_ids v"
  define ks where ks: "ks = key_list (without rid v)"
  have win: "win_ok v" using ok by simp
  obtain k where "k \<in> set (take (Suc n) (key_list v))" "k_row_id k = rid"
    using vis by (auto simp: visible_parts(2) [OF ok cap(1)])
  then obtain old where old: "v_row_keys v rid = Some old"
    using win_row(4) [OF win] by (fastforce dest: in_set_takeD)
  have mem: "old \<in> set (take (Suc n) (key_list v))" using visible_key [OF ok old] vis cap by simp
  note pre = leave_prefix [OF ok old cap(1) mem, folded ks] and w = without_take [OF win old]
  note wok = without_ok [OF win, of rid]
  have ad: "win_ok u" "content u = (content v)(rid \<mapsto> r)" "?k \<notin> set ks"
    using adding_ok [OF wok(1), of rid r] safe wok(2) by (simp_all add: u ks)
  have keys_u: "key_list u = bs_insert key_cmp ?k ks" by (simp add: u adding_keys ks)
  have asc: "ascending key_cmp (\<lambda>k. k_descending k = cq_descending (v_compiled v)) ks"
    using win_keys [OF wok(1)] by (simp add: ks)
  have u_fields: "v_visible_keys u = take (Suc n) (key_list v)" "v_visible_ids u = ?V" "v_cap u = Suc n" "v_compiled u = v_compiled v"
    by (simp_all add: u visible_parts(1) [OF ok cap(1)] cap)
  let ?late = "n < length ks \<and> key_cmp (ks ! n) ?k = Less"
  let ?w = "u\<lparr>v_visible_keys := take n ks\<rparr>"
  have kw: "key_list ?w = bs_insert key_cmp ?k ks" "v_visible_keys ?w = take n ks" by (simp_all add: keys_u)
  have still: "still_visible ?k ?w \<longleftrightarrow> \<not> ?late"
    unfolding still_visible_def kw by (rule keys.still_in_prefix [OF asc _ ad(3) cap(2)]) simp
  have tk: "take (Suc n) (key_list u) = (if ?late then take (Suc n) ks else bs_insert key_cmp ?k (take n ks))"
    unfolding keys_u by (rule keys.take_insert [OF asc _ ad(3)]) simp
  have seen: "visible_map v rid \<noteq> None"
    using vis content_None [OF win, of rid] old by (simp add: visible_map_def)
  show ?thesis
  proof (cases ?late)
    case False
    have "set (bs_insert key_cmp ?k (take n ks)) = insert ?k (set (take n ks))"
      by (rule keys.bs_insert_set [OF _ keys.ascending_take [OF asc]]) simp
    then have "delivered_ids u = insert rid (?V - {rid})"
      using tk False pre(2) by (simp add: delivered_ids_def u_fields)
    with vis have del: "delivered_ids u = ?V" by auto
    have "sync_window seq (Some \<lparr>dr_row_id = rid, dr_row = projected (v_compiled v) r\<rparr>) (v_row_keys v rid) (Some ?k) (u, out)
        = Ok (settled u, out @ [UUpdate seq \<lparr>dr_row_id = rid, dr_row = projected (v_compiled v) r\<rparr>])"
      using still tk False del mem by (simp add: sync_window_def Let_def old w(5) pre(1) settled_def u_fields)
    moreover have "visible_map (settled u) = (visible_map v)(rid \<mapsto> projected (v_compiled v) r)"
      using del vis ad(2) by (auto simp: fun_eq_iff visible_map_def u_fields)
    ultimately show ?thesis using seen by auto
  next
    case True
    let ?x = "?w\<lparr>v_visible_ids := ?V - {rid}\<rparr>"
    have tn: "take n (key_list u) = take n ks"
      using arg_cong [OF tk, of "take n"] True by simp
    have "win_ok ?x" "v_cap ?x = Suc n" "v_visible_keys ?x = take n (key_list ?x)"
        "v_visible_ids ?x = k_row_id ` set (take n (key_list ?x))"
      using ad(1) pre(2) tn by (simp_all add: win_ok_def u_fields)
    from backfill_settles [OF this, of seq "out @ [UDelete seq rid]"] obtain ds where
      ds: "backfill seq (?x, out @ [UDelete seq rid]) = Ok (settled ?x, out @ [UDelete seq rid] @ ds)"
        "client_run ds (visible_map ?x) = Some (visible_map (settled ?x))" by auto
    have "settled ?x = settled u" by (simp add: settled_def delivered_ids_def)
    moreover have "sync_window seq (Some \<lparr>dr_row_id = rid, dr_row = projected (v_compiled v) r\<rparr>) (v_row_keys v rid) (Some ?k) (u, out)
        = backfill seq (?x, out @ [UDelete seq rid])"
      using still True mem by (simp add: sync_window_def Let_def old w(5) pre(1) u_fields)
    moreover have "content ?x = (content v)(rid \<mapsto> r)" unfolding ad(2) [symmetric] by (simp add: content_def fun_eq_iff)
    then have "visible_map ?x = (visible_map v)(rid := None)" by (auto simp: fun_eq_iff visible_map_def u_fields)
    ultimately show ?thesis using ds seen by (intro exI [of _ "UDelete seq rid # ds"]) simp
  qed
qed

lemma sync_enter:
  assumes ok: "view_ok v" and cap: "v_cap v = Suc n" and out: "rid \<notin> v_visible_ids v"
    and safe: "cq_safe (v_compiled v) r" and u: "u = adding rid r (without rid v)"
  shows "\<exists>ds. sync_window seq None (v_row_keys v rid) (Some (key_at (v_compiled v) r rid)) (u, us) = Ok (settled u, us @ ds) \<and>
    client_run ds (visible_map v) = Some (visible_map (settled u))"
proof -
  let ?k = "key_at (v_compiled v) r rid" and ?V = "v_visible_ids v"
  define ks where ks: "ks = key_list (without rid v)"
  have win: "win_ok v" using ok by simp
  note wok = without_ok [OF win, of rid] and stay = stay_prefix [OF ok cap out, folded ks]
  have ad: "win_ok u" "content u = (content v)(rid \<mapsto> r)" "?k \<notin> set ks"
    using adding_ok [OF wok(1), of rid r] safe wok(2) by (simp_all add: u ks)
  have keys_u: "key_list u = bs_insert key_cmp ?k ks" by (simp add: u adding_keys ks)
  have asc: "ascending key_cmp (\<lambda>k. k_descending k = cq_descending (v_compiled v)) ks"
    using win_keys [OF wok(1)] by (simp add: ks)
  have u_fields: "v_visible_keys u = take (Suc n) ks" "v_visible_ids u = ?V" "v_cap u = Suc n" "v_compiled u = v_compiled v"
    by (simp_all add: u visible_parts(1) [OF ok cap(1)] cap stay(1))
  have V: "?V = k_row_id ` set (take (Suc n) ks)" unfolding stay(1) by (rule visible_parts(2) [OF ok cap])
  let ?late = "n < length ks \<and> key_cmp (ks ! n) ?k = Less"
  have enters: "(length (take (Suc n) ks) < Suc n \<or>
      (case last_of (take (Suc n) ks) of None \<Rightarrow> True | Some worst \<Rightarrow> key_cmp ?k worst \<noteq> Greater)) \<longleftrightarrow> \<not> ?late"
    by (rule keys.enters_prefix [OF asc _ ad(3)]) simp
  have tk: "take (Suc n) (key_list u) = (if ?late then take (Suc n) ks else bs_insert key_cmp ?k (take n ks))"
    unfolding keys_u by (rule keys.take_insert [OF asc _ ad(3)]) simp
  have unseen: "visible_map v rid = None" using out by (simp add: visible_map_def)
  have start: "sync_window seq None (v_row_keys v rid) (Some ?k) (u, us) = sync_window seq None None (Some ?k) (u, us)"
    using stay(2) by (cases "v_row_keys v rid") (simp_all add: sync_window_def Let_def u_fields(1) stay(1))
  show ?thesis
  proof (cases ?late)
    case True
    have "sync_window seq None None (Some ?k) (u, us) = Ok (u, us)"
      using True enters by (simp add: sync_window_def Let_def u_fields)
    moreover have "settled u = u" using True tk vis_ok_settled [of u] by (simp add: vis_ok_def u_fields V)
    moreover have "visible_map u = visible_map v"
      using out ad(2) by (auto simp: fun_eq_iff visible_map_def u_fields)
    ultimately show ?thesis using start by auto
  next
    case False
    let ?S = "bs_insert key_cmp ?k (take (Suc n) ks)"
    note evict = keys.evict_prefix [OF asc _ ad(3) False, simplified]
    have S: "set ?S = insert ?k (set (take (Suc n) ks))" "distinct ?S"
      using keys.bs_insert_set [OF _ keys.ascending_take [OF asc]]
        keys.ascending_distinct [OF keys.bs_insert_ascending [OF _ keys.ascending_take [OF asc]]] by auto
    have mem: "?k \<in> set (key_list u)" "set ?S \<subseteq> set (key_list u)"
      unfolding S(1) keys_u by (auto simp: keys.bs_insert_set [OF _ asc] dest: in_set_takeD)
    have ids: "k_row_id ` set ?S = insert rid ?V" by (simp add: S(1) V)
    obtain r' where r': "deliverable u rid = Ok r'" "content u rid = Some r'"
        "deliver u rid r' = Ok \<lparr>dr_row_id = rid, dr_row = projected (v_compiled u) r'\<rparr>"
      using deliverable_key [OF ad(1) mem(1)] by auto
    have [simp]: "r' = r" using r'(2) ad(2) by simp
    let ?ins = "UInsert seq \<lparr>dr_row_id = rid, dr_row = projected (v_compiled v) r\<rparr>"
    show ?thesis
    proof (cases "n < length ks")
      case False
      have "take (Suc n) (key_list u) = ?S" unfolding keys_u using evict(3) False by simp
      then have st: "settled u = u\<lparr>v_visible_keys := ?S, v_visible_ids := insert rid ?V\<rparr>"
        by (simp add: settled_def delivered_ids_def u_fields ids)
      have "sync_window seq None None (Some ?k) (u, us) = Ok (settled u, us @ [?ins])"
        using enters False evict(1) r' by (simp add: sync_window_def Let_def u_fields st deliverable_def deliver_def)
      moreover have "visible_map (settled u) = (visible_map v)(rid \<mapsto> projected (v_compiled v) r)"
        unfolding st using ad(2) by (auto simp: fun_eq_iff visible_map_def u_fields content_def)
      ultimately show ?thesis using start unseen by auto
    next
      case True
      let ?y = "ks ! n"
      have Sy: "?S = take (Suc n) (key_list u) @ [?y]" unfolding keys_u using evict(2) True by simp
      have y: "?y \<in> set (take (Suc n) ks)" using True by (simp add: take_Suc_conv_app_nth)
      have "k_row_id k \<noteq> k_row_id ?y" if k: "k \<in> set (take (Suc n) (key_list u))" for k
      proof
        assume "k_row_id k = k_row_id ?y"
        moreover have "?y \<in> set (key_list u)" using Sy mem(2) by auto
        ultimately have "k = ?y" using same_id [OF ad(1) in_set_takeD [OF k]] by simp
        with k S(2) Sy show False by auto
      qed
      then have del: "delivered_ids u = insert rid ?V - {k_row_id ?y}"
        unfolding delivered_ids_def u_fields ids [symmetric] Sy by auto
      have st: "settled u = u\<lparr>v_visible_keys := butlast ?S, v_visible_ids := insert rid ?V - {k_row_id ?y}\<rparr>"
        unfolding Sy by (simp add: settled_def del u_fields)
      have "last_of ?S = Some ?y" unfolding Sy by (simp add: last_of_def)
      then have "sync_window seq None None (Some ?k) (u, us) = Ok (settled u, us @ [UDelete seq (k_row_id ?y), ?ins])"
        using enters False evict(1) True r' by (simp add: sync_window_def Let_def u_fields st deliverable_def deliver_def)
      moreover have yV: "k_row_id ?y \<in> ?V" using y by (auto simp: V)
      then have "k_row_id ?y \<noteq> rid" using out by auto
      moreover have "visible_map (settled u) = (visible_map v)(k_row_id ?y := None, rid \<mapsto> projected (v_compiled v) r)"
        using ad(2) \<open>k_row_id ?y \<noteq> rid\<close> by (auto simp: fun_eq_iff visible_map_settled del visible_map_def u_fields)
      moreover have "visible_map v (k_row_id ?y) \<noteq> None"
      proof -
        have "?y \<in> set (key_list v)" using y stay(1) by (metis in_set_takeD)
        then obtain s where "(?y, s) \<in> set (v_window v)" by auto
        from win_row(5) [OF win this] yV show ?thesis by (simp add: visible_map_def)
      qed
      ultimately show ?thesis using start unseen by auto
    qed
  qed
qed

section \<open>One change\<close>

definition change_shape :: "change \<Rightarrow> bool" where
  "change_shape c \<longleftrightarrow>
     (case ch_kind c of
        CInsert \<Rightarrow> ch_new_row c \<noteq> None
      | CUpdate \<Rightarrow> ch_old_row c \<noteq> None \<and> ch_new_row c \<noteq> None
      | CDelete \<Rightarrow> ch_new_row c = None)"

text \<open>What a change does to the matching rows.\<close>

definition matching_after :: "compiled_query \<Rightarrow> change \<Rightarrow> (row_id \<rightharpoonup> row) \<Rightarrow> (row_id \<rightharpoonup> row)" where
  "matching_after q c m =
     m(ch_row_id c := (case ch_new_row c of Some r \<Rightarrow> if cq_matches q r then Some r else None | None \<Rightarrow> None))"

definition same_query :: "shared_view \<Rightarrow> shared_view \<Rightarrow> bool" where
  "same_query v v' \<longleftrightarrow> v_query v' = v_query v \<and> v_compiled v' = v_compiled v \<and> v_cap v' = v_cap v"

lemma upsert_exact:
  assumes ok: "view_ok v" and cap: "2 \<le> v_cap v" and safe: "cq_safe (v_compiled v) r"
  shows "\<exists>v' ds. upsert rid r seq (rid \<in> v_visible_ids v) (v, out) = Ok (v', out @ ds) \<and> view_ok v' \<and>
    same_query v v' \<and> content v' = (content v)(rid \<mapsto> r) \<and> client_run ds (visible_map v) = Some (visible_map v')"
proof -
  obtain n where n: "v_cap v = Suc n" "n \<noteq> 0" using cap by (cases "v_cap v") auto
  have win: "win_ok v" using ok by simp
  note wok = without_ok [OF win, of rid]
  let ?u = "adding rid r (without rid v)" and ?k = "key_at (v_compiled v) r rid"
  have rem: "view_remove rid v = (v_row_keys v rid, without rid v)"
    using view_remove_eq [OF win] by (simp add: without_def)
  have up: "upsert rid r seq (rid \<in> v_visible_ids v) (v, out) =
      sync_window seq (if rid \<in> v_visible_ids v then Some \<lparr>dr_row_id = rid, dr_row = projected (v_compiled v) r\<rparr> else None)
        (v_row_keys v rid) (Some ?k) (?u, out)"
    using view_key_of_safe [of "without rid v" r rid] deliver_safe [of ?u r rid] safe
    by (simp add: upsert_def rem adding_def Let_def deliver_def)
  have "\<exists>ds. upsert rid r seq (rid \<in> v_visible_ids v) (v, out) = Ok (settled ?u, out @ ds) \<and>
      client_run ds (visible_map v) = Some (visible_map (settled ?u))"
    unfolding up using sync_stay [OF ok n _ safe refl] sync_enter [OF ok n(1) _ safe refl]
    by (cases "rid \<in> v_visible_ids v") auto
  moreover have "view_ok (settled ?u)" "content (settled ?u) = (content v)(rid \<mapsto> r)"
    using adding_ok(1,2) [OF wok(1), of rid r] safe wok(2) settled_ok by simp_all
  ultimately show ?thesis by (fastforce simp: same_query_def)
qed

lemma leave_exact:
  assumes ok: "view_ok v" and cap: "2 \<le> v_cap v"
  shows "\<exists>v' ds. (case view_remove rid v of
        (Some old, v) \<Rightarrow> sync_window seq None (Some old) None (v, out)
      | (None, v) \<Rightarrow> Ok (v, out)) = Ok (v', out @ ds) \<and> view_ok v' \<and>
    same_query v v' \<and> content v' = (content v)(rid := None) \<and> client_run ds (visible_map v) = Some (visible_map v')"
proof -
  obtain n where n: "v_cap v = Suc n" using cap by (cases "v_cap v") auto
  have win: "win_ok v" using ok by simp
  note wok = without_ok [OF win, of rid]
  have rem: "view_remove rid v = (v_row_keys v rid, without rid v)"
    using view_remove_eq [OF win] by (simp add: without_def)
  show ?thesis
  proof (cases "v_row_keys v rid")
    case None
    then have "view_remove rid v = (None, v)" by (simp add: view_remove_def)
    moreover have "(content v)(rid := None) = content v"
      using content_None [OF win, of rid] None by (intro fun_upd_idem) simp
    ultimately show ?thesis using ok by (auto simp: same_query_def)
  next
    case (Some old)
    from sync_leave [OF ok Some n] obtain ds where
      "sync_window seq None (Some old) None (without rid v, out) = Ok (settled (without rid v), out @ ds)"
      "client_run ds (visible_map v) = Some (visible_map (settled (without rid v)))" by blast
    moreover have "view_ok (settled (without rid v))" "content (settled (without rid v)) = (content v)(rid := None)"
      using wok settled_ok by simp_all
    ultimately show ?thesis using Some rem by (fastforce simp: same_query_def)
  qed
qed

lemma view_apply_change_exact:
  assumes ok: "view_ok v" and cap: "2 \<le> v_cap v" and shape: "change_shape c"
    and safe: "\<And>r. ch_new_row c = Some r \<Longrightarrow> cq_safe (v_compiled v) r"
    and fresh: "ch_kind c = CInsert \<Longrightarrow> content v (ch_row_id c) = None"
  shows "\<exists>v' ds. view_apply_change seq c (v, out) = Ok (v', out @ ds) \<and> view_ok v' \<and> same_query v v' \<and>
    content v' = matching_after (v_compiled v) c (content v) \<and> client_run ds (visible_map v) = Some (visible_map v')"
proof -
  let ?rid = "ch_row_id c"
  have win: "win_ok v" using ok by simp
  have unseen: "?rid \<notin> v_visible_ids v" if "content v ?rid = None"
  proof
    assume "?rid \<in> v_visible_ids v"
    then obtain k where "k \<in> set (key_list v)" "k_row_id k = ?rid" using ok by (auto simp: vis_ok_def dest: in_set_takeD)
    then obtain r where "(k, r) \<in> set (v_window v)" by auto
    from win_row(5) [OF win this] \<open>k_row_id k = ?rid\<close> that show False by simp
  qed
  show ?thesis
  proof (cases "ch_kind c")
    case CInsert
    then obtain r where r: "ch_new_row c = Some r" using shape by (auto simp: change_shape_def)
    have "(content v)(?rid := None) = content v" using fresh [OF CInsert] by (intro fun_upd_idem) simp
    with upsert_exact [OF ok cap safe [OF r], where rid = ?rid and seq = seq and out = out] unseen [OF fresh [OF CInsert]] CInsert r ok show ?thesis
      by (cases "cq_matches (v_compiled v) r")
        (auto simp: view_apply_change_def matching_after_def same_query_def)
  next
    case CUpdate
    then obtain r r0 where r: "ch_new_row c = Some r" "ch_old_row c = Some r0" using shape by (auto simp: change_shape_def)
    show ?thesis
      using upsert_exact [OF ok cap safe [OF r(1)], where rid = ?rid and seq = seq and out = out] leave_exact [OF ok cap, where rid = ?rid and seq = seq and out = out] CUpdate r
      by (cases "cq_matches (v_compiled v) r")
        (simp_all add: view_apply_change_def matching_after_def Let_def)
  next
    case CDelete
    then have "ch_new_row c = None" using shape by (simp add: change_shape_def)
    with leave_exact [OF ok cap, where rid = ?rid and seq = seq and out = out] CDelete show ?thesis
      by (simp add: view_apply_change_def matching_after_def Let_def)
  qed
qed

section \<open>A window of one row\<close>

text \<open>The exact step asks for a window of at least two rows: with a window of one, the visible row that is updated is
  compared with nothing, stays visible, and the view is not exact any more when another row is ahead of it.\<close>

lemma window_of_one:
  assumes ok: "view_ok v" and cap: "v_cap v = 1" and vis: "ch_row_id c \<in> v_visible_ids v"
    and c: "ch_kind c = CUpdate" "ch_old_row c = Some r0" "ch_new_row c = Some r" "cq_matches (v_compiled v) r" "cq_safe (v_compiled v) r"
    and ahead: "(k, other) \<in> set (v_window v)" "k_row_id k \<noteq> ch_row_id c"
      "key_cmp k (key_at (v_compiled v) r (ch_row_id c)) = Less"
  shows "\<exists>v'. view_apply_change seq c (v, out)
      = Ok (v', out @ [UUpdate seq \<lparr>dr_row_id = ch_row_id c, dr_row = projected (v_compiled v) r\<rparr>]) \<and>
    v_visible_ids v' = {ch_row_id c} \<and> content v' = (content v)(ch_row_id c \<mapsto> r) \<and> (k, other) \<in> set (v_window v') \<and> \<not> vis_ok v'"
proof -
  let ?rid = "ch_row_id c"
  let ?u = "adding ?rid r (without ?rid v)" and ?k = "key_at (v_compiled v) r ?rid"
  have win: "win_ok v" using ok by simp
  have cap': "v_cap v = Suc 0" using cap by simp
  obtain x where "x \<in> set (take (Suc 0) (key_list v))" "k_row_id x = ?rid" using vis by (auto simp: visible_parts(2) [OF ok cap'])
  then obtain old where old: "v_row_keys v ?rid = Some old" using win_row(4) [OF win] by (fastforce dest: in_set_takeD)
  have mem: "old \<in> set (take (Suc 0) (key_list v))" using visible_key [OF ok old] vis cap' by simp
  note wok = without_ok [OF win, of ?rid]
  have aok: "win_ok ?u" "content ?u = (content v)(?rid \<mapsto> r)"
    using adding_ok(1,2) [OF wok(1), of ?rid r] c(5) wok(2) by simp_all
  have "bs_remove key_cmp old (v_visible_keys v) = []"
    using leave_prefix(1) [OF ok old cap' mem] visible_parts(1) [OF ok cap'] by simp
  moreover have "bs_contains key_cmp old (v_visible_keys v)"
    using without_take(5) [OF win old, of "Suc 0"] mem visible_parts(1) [OF ok cap'] by simp
  moreover have "view_remove ?rid v = (Some old, without ?rid v)" using view_remove_eq [OF win] old by (simp add: without_def)
  ultimately have step: "view_apply_change seq c (v, out)
      = Ok (?u\<lparr>v_visible_keys := [?k]\<rparr>, out @ [UUpdate seq \<lparr>dr_row_id = ?rid, dr_row = projected (v_compiled v) r\<rparr>])"
    using c vis view_key_of_safe [of "without ?rid v" r ?rid] deliver_safe [of ?u r ?rid]
    by (simp add: view_apply_change_def upsert_def adding_def Let_def deliver_def sync_window_def still_visible_def last_of_def)
  have ids: "v_visible_ids v = {?rid}"
    using visible_parts(2) [OF ok cap'] mem without_take(2) [OF win old] by (cases "key_list v") auto
  have "(k, other) \<in> set (v_window (without ?rid v))" using ahead(1,2) by (simp add: without_def)
  then have ahead': "(k, other) \<in> set (v_window ?u)"
    using keys.bt_insert_mem [OF _ win_keys [OF wok(1)], of ?k r] adding_ok(3) [OF wok(1), of ?rid r] c(5)
    by (simp add: adding_def Let_def)
  have "take (Suc 0) (key_list ?u) \<noteq> [?k]"
  proof
    assume first: "take (Suc 0) (key_list ?u) = [?k]"
    then obtain ks where ks: "key_list ?u = ?k # ks" by (cases "key_list ?u") auto
    have "k \<in> set (key_list ?u)" using ahead' by force
    moreover have "k \<noteq> ?k" using ahead(2) by auto
    ultimately have "key_cmp ?k k = Less" using win_keys [OF aok(1)] unfolding ks by simp
    with ahead(3) keys.cmp_Greater [OF _ refl, of ?k k] win_row(3) [OF win ahead(1)] show False by simp
  qed
  then have "\<not> vis_ok (?u\<lparr>v_visible_keys := [?k]\<rparr>)" using cap' by (simp add: vis_ok_def)
  moreover have "content (?u\<lparr>v_visible_keys := [?k]\<rparr>) = content ?u" by (simp add: content_def fun_eq_iff)
  ultimately show ?thesis using step aok(2) ahead' ids by simp
qed

end
