(* ===== verification/Sub_Registry.thy ===== *)
theory Sub_Registry
  imports Sub_View Tx_Commit
begin

text \<open>
  Members and the registry: the second half of \<^verbatim>\<open>nexum-subscription/src/subscription.rs\<close> and
  \<^verbatim>\<open>registry.rs\<close>. Subscriptions with equal queries share one view; a commit is evaluated once per view and
  its updates are appended to the bounded buffer of every member.
\<close>

section \<open>Members\<close>

datatype subscription_state = SubActive | SubStale

record subscription =
  s_id :: u64
  s_query :: query
  s_state :: subscription_state
  s_cursor :: u64
  s_buffer :: "subscription_update list"
  s_max_buffered :: nat
  s_view :: nat

definition subscription_new :: "u64 \<Rightarrow> query \<Rightarrow> nat \<Rightarrow> nat \<Rightarrow> subscription" where
  "subscription_new sid q mx slot =
     \<lparr>s_id = sid, s_query = q, s_state = SubActive, s_cursor = 0, s_buffer = [], s_max_buffered = mx,
      s_view = slot\<rparr>"

definition receive_initial :: "u64 \<Rightarrow> delivered_row list \<Rightarrow> subscription \<Rightarrow> subscription" where
  "receive_initial seq rows s = s\<lparr>s_cursor := seq, s_state := SubActive, s_buffer := [UInitial seq rows]\<rparr>"

definition receive_resync :: "u64 \<Rightarrow> delivered_row list \<Rightarrow> subscription \<Rightarrow> subscription" where
  "receive_resync seq rows s = s\<lparr>s_cursor := seq, s_state := SubActive, s_buffer := [UResync seq rows]\<rparr>"

definition mark_stale :: "u64 \<Rightarrow> subscription \<Rightarrow> subscription" where
  "mark_stale seq s = s\<lparr>s_buffer := [UStale seq], s_state := SubStale\<rparr>"

definition take_buffer :: "subscription \<Rightarrow> subscription_update list \<times> subscription" where
  "take_buffer s = (s_buffer s, s\<lparr>s_buffer := []\<rparr>)"

fun push_loop :: "subscription_update list \<Rightarrow> u64 \<Rightarrow> subscription \<Rightarrow> subscription" where
  "push_loop [] seq s = s"
| "push_loop (u # us) seq s =
     (if s_state s = SubStale then s
      else
        let s = s\<lparr>s_buffer := s_buffer s @ [u]\<rparr> in
        push_loop us seq (if s_max_buffered s < length (s_buffer s) then mark_stale seq s else s))"

text \<open>\<^verbatim>\<open>usize::saturating_add\<close>; the second equation computes it on binary integers.\<close>

definition saturating_add :: "nat \<Rightarrow> nat \<Rightarrow> nat" where
  "saturating_add a b = min usize_max (a + b)"

lemma saturating_add_code [code]:
  "saturating_add a b = (let n = int a + int b in nat (if n \<le> 0xFFFFFFFFFFFFFFFF then n else 0xFFFFFFFFFFFFFFFF))"
  unfolding saturating_add_def usize_max_def min_def Let_def by auto

definition push_commit :: "subscription_update list \<Rightarrow> u64 \<Rightarrow> subscription \<Rightarrow> subscription" where
  "push_commit deltas seq s =
     (if s_state s = SubStale then s
      else if saturating_add (length (s_buffer s)) (length deltas) \<le> s_max_buffered s
      then s\<lparr>s_buffer := s_buffer s @ deltas\<rparr>
      else push_loop deltas seq s)"

section \<open>The registry\<close>

record registry_stats =
  st_evaluations :: u64
  st_deltas :: u64
  st_fanouts :: u64

record registry =
  rg_subs :: "(u64, subscription) omap"
  rg_views :: "shared_view option list"
  rg_counts :: "nat list"
  rg_pending :: "u64 list"
  rg_next_id :: u64
  rg_next_seq :: u64
  rg_config :: subscription_config
  rg_stats :: registry_stats

record apply_report =
  ar_seq :: u64
  ar_affected :: "u64 list"
  ar_evaluations :: u64
  ar_deltas :: u64

definition registry_with :: "subscription_config \<Rightarrow> registry" where
  "registry_with config =
     \<lparr>rg_subs = [], rg_views = [], rg_counts = [], rg_pending = [], rg_next_id = 0, rg_next_seq = 0,
      rg_config = config, rg_stats = \<lparr>st_evaluations = 0, st_deltas = 0, st_fanouts = 0\<rparr>\<rparr>"

definition registry_new :: registry where
  "registry_new = registry_with default_config"

definition with_config :: "subscription_config \<Rightarrow> registry res" where
  "with_config config = bind_res (config_validate config) (\<lambda>_. Ok (registry_with config))"

definition find_view :: "registry \<Rightarrow> query \<Rightarrow> nat option" where
  "find_view rg q = position (\<lambda>slot. case slot of Some v \<Rightarrow> v_query v = q | None \<Rightarrow> False) (rg_views rg)"

text \<open>The slot of a view; reading past the end of the vector, or an empty slot where a view is expected, is
  a panic.\<close>

definition view_at :: "registry \<Rightarrow> nat \<Rightarrow> shared_view res" where
  "view_at rg i = (if i < length (rg_views rg) then expect (rg_views rg ! i) else Panic)"

definition set_view :: "nat \<Rightarrow> shared_view \<Rightarrow> registry \<Rightarrow> registry" where
  "set_view i v rg = rg\<lparr>rg_views := (rg_views rg)[i := Some v]\<rparr>"

definition set_sub :: "u64 \<Rightarrow> subscription \<Rightarrow> registry \<Rightarrow> registry" where
  "set_sub sid s rg = rg\<lparr>rg_subs := om_put sid s (rg_subs rg)\<rparr>"

text \<open>Compiling a query and scanning its table.\<close>

definition scan_query :: "table_store \<Rightarrow> query \<Rightarrow> subscription_config \<Rightarrow> (compiled_query \<times> (row_id \<times> row) list) res" where
  "scan_query st q config =
     bind_res (compile st q config) (\<lambda>compiled.
     bind_res (expect (store_table st (q_table q))) (\<lambda>t. Ok (compiled, matching_rows t compiled)))"

definition subscribe_view :: "table_store \<Rightarrow> query \<Rightarrow> registry \<Rightarrow> nat res \<times> registry" where
  "subscribe_view st q rg =
     (case find_view rg q of
        Some i \<Rightarrow>
          if length (rg_counts rg) \<le> i then (Panic, rg)
          else if rg_counts rg ! i = 0 then
            try_res (scan_query st q (rg_config rg)) rg (\<lambda>(compiled, rows).
            try_res (view_at rg i) rg (\<lambda>v.
            try_res (view_rebuild rows (set_compiled compiled v)) rg (\<lambda>(_, v). (Ok i, set_view i v rg))))
          else (Ok i, rg)
      | None \<Rightarrow>
          try_res (scan_query st q (rg_config rg)) rg (\<lambda>(compiled, rows).
          try_res (view_rebuild rows (view_new q compiled (max_snapshot_rows (rg_config rg)))) rg (\<lambda>(_, v).
            (Ok (length (rg_views rg)),
             rg\<lparr>rg_views := rg_views rg @ [Some v], rg_counts := rg_counts rg @ [0]\<rparr>))))"

definition subscribe :: "table_store \<Rightarrow> query \<Rightarrow> registry \<Rightarrow> u64 res \<times> registry" where
  "subscribe st q rg =
     (let sid = rg_next_id rg; rg = rg\<lparr>rg_next_id := sid + 1\<rparr>; seq = rg_next_seq rg in
      case subscribe_view st q rg of (res, rg) \<Rightarrow>
        try_res res rg (\<lambda>i.
          let rg = rg\<lparr>rg_counts := (rg_counts rg)[i := rg_counts rg ! i + 1]\<rparr> in
          try_res (view_at rg i) rg (\<lambda>v.
          try_res (visible_rows v) rg (\<lambda>delivered.
            let s = subscription_new sid q (max_buffered (rg_config rg)) i in
            (Ok sid, set_sub sid (receive_initial seq delivered s) rg)))))"

definition existing_tables :: "table_store \<Rightarrow> table_id set" where
  "existing_tables st = set (map (\<lambda>(name, t). table_id_of t) (ts_tables st))"

definition by_view :: "registry \<Rightarrow> (nat \<times> u64 list) list" where
  "by_view rg =
     map (\<lambda>i. (i, map fst (filter (\<lambda>(sid, s). s_view s = i) (rg_subs rg))))
       (sort (remdups (map (\<lambda>(sid, s). s_view s) (rg_subs rg))))"

text \<open>Marking the members of a dropped table stale; returns the ids that were marked.\<close>

fun stale_members :: "u64 \<Rightarrow> u64 list \<Rightarrow> registry \<Rightarrow> (u64 list \<times> registry) res" where
  "stale_members seq [] rg = Ok ([], rg)"
| "stale_members seq (sid # sids) rg =
     bind_res (expect (om_get (rg_subs rg) sid)) (\<lambda>s.
       if s_state s = SubStale then stale_members seq sids rg
       else
         bind_res (stale_members seq sids (set_sub sid (mark_stale seq s) rg)) (\<lambda>(ids, rg).
           Ok (sid # ids, rg)))"

text \<open>Appending the updates of a commit to every member that is not stale.\<close>

fun fan_out :: "subscription_update list \<Rightarrow> u64 \<Rightarrow> u64 list \<Rightarrow> registry \<Rightarrow> (u64 list \<times> registry) res" where
  "fan_out deltas seq [] rg = Ok ([], rg)"
| "fan_out deltas seq (sid # sids) rg =
     bind_res (expect (om_get (rg_subs rg) sid)) (\<lambda>s.
       if s_state s = SubStale then fan_out deltas seq sids rg
       else
         let s' = push_commit deltas seq s;
             rg = set_sub sid s' rg;
             rg = (if s_buffer s = [] \<and> s_buffer s' \<noteq> []
                   then rg\<lparr>rg_pending := insort_insert sid (rg_pending rg)\<rparr> else rg) in
         bind_res (fan_out deltas seq sids rg) (\<lambda>(ids, rg). Ok (sid # ids, rg)))"

fun apply_all ::
    "u64 \<Rightarrow> change list \<Rightarrow> shared_view \<times> subscription_update list
     \<Rightarrow> (shared_view \<times> subscription_update list) res" where
  "apply_all seq [] s = Ok s"
| "apply_all seq (c # cs) s = bind_res (view_apply_change seq c s) (apply_all seq cs)"

record apply_totals =
  at_affected :: "u64 list"
  at_evaluations :: nat
  at_deltas :: nat
  at_fanouts :: nat

fun apply_groups ::
    "u64 \<Rightarrow> table_id set \<Rightarrow> change list \<Rightarrow> (nat \<times> u64 list) list \<Rightarrow> apply_totals \<times> registry
     \<Rightarrow> (apply_totals \<times> registry) res" where
  "apply_groups seq existing changes [] s = Ok s"
| "apply_groups seq existing changes ((i, members) # groups) (tot, rg) =
     (if length (rg_views rg) \<le> i then Panic
      else
        (case rg_views rg ! i of
           None \<Rightarrow>
             bind_res (stale_members seq members rg) (\<lambda>(ids, rg).
               apply_groups seq existing changes groups (tot\<lparr>at_affected := at_affected tot @ ids\<rparr>, rg))
         | Some v \<Rightarrow>
             let tid = cq_table_id (v_compiled v);
                 own = filter (\<lambda>c. ch_table c = tid) changes in
             if tid \<notin> existing then
               bind_res (stale_members seq members rg) (\<lambda>(ids, rg).
                 apply_groups seq existing changes groups (tot\<lparr>at_affected := at_affected tot @ ids\<rparr>, rg))
             else if own = [] then apply_groups seq existing changes groups (tot, rg)
             else
               bind_res (apply_all seq own (v, [])) (\<lambda>(v, scratch).
                 let rg = set_view i v rg;
                     tot = tot\<lparr>at_evaluations := at_evaluations tot + length own\<rparr> in
                 if scratch = [] then apply_groups seq existing changes groups (tot, rg)
                 else
                   bind_res (fan_out scratch seq members rg) (\<lambda>(ids, rg).
                     apply_groups seq existing changes groups
                       (tot\<lparr>at_deltas := at_deltas tot + length scratch,
                            at_fanouts := at_fanouts tot + length ids * length scratch,
                            at_affected := at_affected tot @ ids\<rparr>, rg)))))"

definition apply_changes :: "table_store \<Rightarrow> change list \<Rightarrow> registry \<Rightarrow> (apply_report \<times> registry) res" where
  "apply_changes st changes rg =
     (let seq = rg_next_seq rg; rg = rg\<lparr>rg_next_seq := seq + 1\<rparr> in
      bind_res (apply_groups seq (existing_tables st) changes (by_view rg)
          (\<lparr>at_affected = [], at_evaluations = 0, at_deltas = 0, at_fanouts = 0\<rparr>, rg)) (\<lambda>(tot, rg).
        let evaluations = word_of_nat (at_evaluations tot); deltas = word_of_nat (at_deltas tot);
            fanouts = word_of_nat (at_fanouts tot); stats = rg_stats rg in
        Ok (\<lparr>ar_seq = seq, ar_affected = sort (at_affected tot), ar_evaluations = evaluations, ar_deltas = deltas\<rparr>,
            rg\<lparr>rg_stats := \<lparr>st_evaluations = st_evaluations stats + evaluations,
                st_deltas = st_deltas stats + deltas, st_fanouts = st_fanouts stats + fanouts\<rparr>\<rparr>)))"

definition has_pending :: "registry \<Rightarrow> u64 \<Rightarrow> bool res" where
  "has_pending rg sid = bind_res (ok_or NotFound (om_get (rg_subs rg) sid)) (\<lambda>s. Ok (s_buffer s \<noteq> []))"

definition drain :: "u64 \<Rightarrow> registry \<Rightarrow> subscription_update list res \<times> registry" where
  "drain sid rg =
     (let rg = rg\<lparr>rg_pending := filter (\<lambda>x. x \<noteq> sid) (rg_pending rg)\<rparr> in
      try_res (ok_or NotFound (om_get (rg_subs rg) sid)) rg (\<lambda>s.
        case take_buffer s of (buf, s) \<Rightarrow> (Ok buf, set_sub sid s rg)))"

fun drain_ids :: "u64 list \<Rightarrow> registry \<Rightarrow> (u64 \<times> subscription_update list) list \<times> registry" where
  "drain_ids [] rg = ([], rg)"
| "drain_ids (sid # sids) rg =
     (case om_get (rg_subs rg) sid of
        None \<Rightarrow> drain_ids sids rg
      | Some s \<Rightarrow>
          (case take_buffer s of (buf, s) \<Rightarrow>
             case drain_ids sids (set_sub sid s rg) of (out, rg) \<Rightarrow>
               (if buf = [] then out else (sid, buf) # out, rg)))"

definition drain_all_pending :: "registry \<Rightarrow> (u64 \<times> subscription_update list) list \<times> registry" where
  "drain_all_pending rg = drain_ids (rg_pending rg) (rg\<lparr>rg_pending := []\<rparr>)"

definition unsubscribe :: "u64 \<Rightarrow> registry \<Rightarrow> unit res \<times> registry" where
  "unsubscribe sid rg =
     try_res (ok_or NotFound (om_get (rg_subs rg) sid)) rg (\<lambda>s.
       let rg = rg\<lparr>rg_subs := om_del sid (rg_subs rg)\<rparr>; i = s_view s in
       if length (rg_counts rg) \<le> i then (Panic, rg)
       else
         let n = (if rg_counts rg ! i = 0 then usize_max else rg_counts rg ! i - 1);
             rg = rg\<lparr>rg_counts := (rg_counts rg)[i := n]\<rparr> in
         if n \<noteq> 0 then (Ok (), rg)
         else if length (rg_views rg) \<le> i then (Panic, rg)
         else (Ok (), rg\<lparr>rg_views := (rg_views rg)[i := None]\<rparr>))"

definition is_stale :: "registry \<Rightarrow> u64 \<Rightarrow> bool res" where
  "is_stale rg sid = bind_res (ok_or NotFound (om_get (rg_subs rg) sid)) (\<lambda>s. Ok (s_state s = SubStale))"

definition resync :: "table_store \<Rightarrow> u64 \<Rightarrow> registry \<Rightarrow> unit res \<times> registry" where
  "resync st sid rg =
     try_res (ok_or NotFound (om_get (rg_subs rg) sid)) rg (\<lambda>s.
     try_res (scan_query st (s_query s) (rg_config rg)) rg (\<lambda>(compiled, rows).
     try_res (view_at rg (s_view s)) rg (\<lambda>v.
     try_res (view_rebuild rows (set_compiled compiled v)) rg (\<lambda>(delivered, v).
       (Ok (), set_sub sid (receive_resync (rg_next_seq rg) delivered s) (set_view (s_view s) v rg))))))"

text \<open>Every member whose view observes a table that does not exist any more is marked stale.\<close>

definition refresh :: "table_store \<Rightarrow> registry \<Rightarrow> registry" where
  "refresh st rg =
     (let gone = (\<lambda>i. i < length (rg_views rg) \<and>
            (case rg_views rg ! i of
               Some v \<Rightarrow> cq_table_id (v_compiled v) \<notin> existing_tables st
             | None \<Rightarrow> False)) in
      rg\<lparr>rg_subs := map (\<lambda>(sid, s).
          (sid, if gone (s_view s) \<and> s_state s \<noteq> SubStale then mark_stale (rg_next_seq rg) s else s)) (rg_subs rg)\<rparr>)"

definition view_count :: "registry \<Rightarrow> nat" where
  "view_count rg = length (filter (\<lambda>slot. slot \<noteq> None) (rg_views rg))"

end
