(* ===== verification/Sub_Mirror.thy ===== *)
theory Sub_Mirror
  imports Sub_Exact Sub_Registry
begin

text \<open>
  What subscribers see. A view that is rebuilt from a table, or that follows the changes of a commit,
  holds exactly the matching rows of the committed table; the updates in a member's buffer lead from what
  the client already has to the delivered rows of its view.
\<close>

section \<open>Rebuilding a view\<close>

definition matching_map :: "compiled_query \<Rightarrow> (row_id \<rightharpoonup> stored_row) \<Rightarrow> (row_id \<rightharpoonup> row)" where
  "matching_map q m rid =
     (case m rid of Some s \<Rightarrow> if cq_matches q (sr_row s) then Some (sr_row s) else None | None \<Rightarrow> None)"

abbreviation row_map :: "delivered_row list \<Rightarrow> (row_id \<rightharpoonup> row)" where
  "row_map ds \<equiv> map_of (map (\<lambda>d. (dr_row_id d, dr_row d)) ds)"

lemma deliver_keys_ok:
  assumes ok: "win_ok v" and sub: "set ks \<subseteq> set (key_list v)"
  shows "deliver_keys v ks = Ok (map (\<lambda>k. \<lparr>dr_row_id = k_row_id k,
      dr_row = projected (v_compiled v) (the (content v (k_row_id k)))\<rparr>) ks)"
  unfolding deliver_keys_def
proof (rule map_res_map)
  fix k assume "k \<in> set ks"
  then obtain r where r: "(k, r) \<in> set (v_window v)" using sub by auto
  show "bind_res (expect (bt_get key_cmp k (v_window v))) (\<lambda>r. deliver v (k_row_id k) r) = Ok \<lparr>dr_row_id = k_row_id k,
      dr_row = projected (v_compiled v) (the (content v (k_row_id k)))\<rparr>"
    using win_row(5,6) [OF ok r] deliver_safe [OF win_row(1) [OF ok r]] by (simp add: expect_def)
qed

lemma visible_rows_ok:
  assumes ok: "view_ok v"
  shows "\<exists>rows. visible_rows v = Ok rows \<and> row_map rows = visible_map v"
proof -
  let ?ks = "v_visible_keys v"
  let ?f = "\<lambda>rid. projected (v_compiled v) (the (content v rid))"
  let ?rows = "map (\<lambda>k. \<lparr>dr_row_id = k_row_id k, dr_row = ?f (k_row_id k)\<rparr>) ?ks"
  have sub: "set ?ks \<subseteq> set (key_list v)" using ok by (auto simp: vis_ok_def dest: in_set_takeD)
  have "map (\<lambda>d. (dr_row_id d, dr_row d)) ?rows = map (\<lambda>rid. (rid, ?f rid)) (map k_row_id ?ks)" by simp
  then have rows: "row_map ?rows = (\<lambda>rid. if rid \<in> v_visible_ids v then Some (?f rid) else None)"
    using ok by (simp only: map_of_map_restrict) (auto simp: restrict_map_def vis_ok_def fun_eq_iff)
  have "row_map ?rows rid = visible_map v rid" for rid
  proof (cases "rid \<in> v_visible_ids v")
    case True
    then obtain k where k: "k \<in> set ?ks" "k_row_id k = rid" using ok by (auto simp: vis_ok_def)
    then obtain r where "(k, r) \<in> set (v_window v)" using sub by auto
    from win_row(5) [OF _ this] ok k True show ?thesis unfolding rows by (simp add: visible_map_def)
  next
    case False
    then show ?thesis unfolding rows by (simp add: visible_map_def)
  qed
  then show ?thesis
    using deliver_keys_ok [OF _ sub] ok unfolding visible_rows_def by blast
qed

lemma fold_bs_insert:
  "ascending key_cmp (\<lambda>k. k_descending k = d) (acc @ ks) \<Longrightarrow> fold (bs_insert key_cmp) ks acc = acc @ ks"
proof (induction ks arbitrary: acc)
  case (Cons k ks)
  then have "key_cmp x k = Less \<and> k_descending x = d" if "x \<in> set acc" for x
    using that by (auto simp: ascending_def sorted_wrt_append)
  then have "\<forall>x \<in> set acc. key_cmp k x = Greater"
    using Cons.prems keys.cmp_Greater [of k d] by (auto simp: ascending_def)
  then have "bs_insert key_cmp k acc = acc @ [k]" by (rule keys.bs_insert_last)
  with Cons show ?case by simp
qed simp

text \<open>The window after inserting rows with distinct ids.\<close>

lemma adding_all:
  assumes "win_ok v" and "distinct (map fst rows)" and "\<forall>(rid, r) \<in> set rows. cq_safe (v_compiled v) r"
    and "\<forall>rid \<in> fst ` set rows. v_row_keys v rid = None"
  shows "win_ok (fold (\<lambda>(rid, r). adding rid r) rows v) \<and>
    content (fold (\<lambda>(rid, r). adding rid r) rows v) = content v ++ map_of rows \<and>
    fold (\<lambda>(rid, r). adding rid r) rows v =
      v\<lparr>v_window := fold (\<lambda>(rid, r). bt_insert key_cmp (key_at (v_compiled v) r rid) r) rows (v_window v),
        v_row_keys := fold (\<lambda>(rid, r) m. m(rid \<mapsto> key_at (v_compiled v) r rid)) rows (v_row_keys v)\<rparr>"
  using assms
proof (induction rows arbitrary: v)
  case (Cons p rows)
  obtain rid r where p: "p = (rid, r)" by (cases p)
  have new: "v_row_keys v rid = None" and safe: "cq_safe (v_compiled v) r" using Cons.prems p by auto
  note ad = adding_ok [OF Cons.prems(1) new safe]
  let ?v = "adding rid r v" and ?ins = "fold (\<lambda>(rid, r). adding rid r) rows"
  have "\<forall>q \<in> fst ` set rows. v_row_keys ?v q = None" using Cons.prems p by auto
  moreover have "distinct (map fst rows)" "\<forall>(rid, r) \<in> set rows. cq_safe (v_compiled ?v) r"
    using Cons.prems p by auto
  ultimately have IH: "win_ok (?ins ?v)" "content (?ins ?v) = content ?v ++ map_of rows"
    "?ins ?v = ?v\<lparr>v_window := fold (\<lambda>(rid, r). bt_insert key_cmp (key_at (v_compiled ?v) r rid) r) rows (v_window ?v),
        v_row_keys := fold (\<lambda>(rid, r) m. m(rid \<mapsto> key_at (v_compiled ?v) r rid)) rows (v_row_keys ?v)\<rparr>"
    using Cons.IH [of ?v] ad(1) by blast+
  have step: "fold (\<lambda>(rid, r). adding rid r) (p # rows) v = ?ins ?v" using p by simp
  have "(content v)(rid \<mapsto> r) ++ map_of rows = content v ++ map_of (p # rows)"
    using Cons.prems(2) p by (simp add: map_add_upd_left dom_map_of_conv_image_fst)
  then have "content (?ins ?v) = content v ++ map_of (p # rows)" using IH(2) ad(2) by simp
  moreover have "?ins ?v =
      v\<lparr>v_window := fold (\<lambda>(rid, r). bt_insert key_cmp (key_at (v_compiled v) r rid) r) (p # rows) (v_window v),
        v_row_keys := fold (\<lambda>(rid, r) m. m(rid \<mapsto> key_at (v_compiled v) r rid)) (p # rows) (v_row_keys v)\<rparr>"
    unfolding IH(3) by (simp add: adding_def Let_def p)
  ultimately show ?case unfolding step using IH(1) by blast
qed simp

lemma view_rebuild_exact:
  assumes dist: "distinct (map fst rows)" and safe: "\<forall>(rid, r) \<in> set rows. cq_safe (v_compiled v) r"
  shows "\<exists>delivered v'. view_rebuild rows v = Ok (delivered, v') \<and> view_ok v' \<and> same_query v v' \<and>
    content v' = map_of rows \<and> row_map delivered = visible_map v' \<and> visible_rows v' = Ok delivered"
proof -
  let ?q = "v_compiled v"
  let ?v0 = "v\<lparr>v_window := [], v_row_keys := Map.empty\<rparr>"
  let ?u = "fold (\<lambda>(rid, r). adding rid r) rows ?v0"
  have "win_ok ?v0" by (simp add: win_ok_def ascending_def)
  moreover have "\<forall>(rid, r) \<in> set rows. cq_safe (v_compiled ?v0) r" using safe by simp
  moreover have "\<forall>rid \<in> fst ` set rows. v_row_keys ?v0 rid = None" by simp
  ultimately have u: "win_ok ?u" "content ?u = content ?v0 ++ map_of rows"
    "?u = ?v0\<lparr>v_window := fold (\<lambda>(rid, r). bt_insert key_cmp (key_at (v_compiled ?v0) r rid) r) rows (v_window ?v0),
        v_row_keys := fold (\<lambda>(rid, r) m. m(rid \<mapsto> key_at (v_compiled ?v0) r rid)) rows (v_row_keys ?v0)\<rparr>"
    using adding_all [of ?v0 rows] dist by blast+
  have "content ?v0 = Map.empty" by (simp add: content_def fun_eq_iff)
  then have cu: "content ?u = map_of rows" using u(2) by simp
  have ordered: "map_res (\<lambda>(rid, r). bind_res (view_key_of v r rid) (\<lambda>k. Ok (k, r))) rows
      = Ok (map (\<lambda>(rid, r). (key_at ?q r rid, r)) rows)"
    using safe by (intro map_res_map) (auto simp: view_key_of_safe)
  have same: "same_query v ?u" by (simp add: u(3) same_query_def)
  have "fold (bs_insert key_cmp) (take (v_cap v) (key_list ?u)) [] = take (v_cap v) (key_list ?u)"
    using fold_bs_insert [of "cq_descending (v_compiled ?u)" "[]"] keys.ascending_take [OF win_keys [OF u(1)]] by simp
  moreover have "v_cap ?u = v_cap v" using same by (simp add: same_query_def)
  ultimately have st: "?u\<lparr>v_visible_keys := fold (bs_insert key_cmp) (take (v_cap ?u) (key_list ?u)) [],
      v_visible_ids := set (map k_row_id (take (v_cap ?u) (key_list ?u)))\<rparr> = settled ?u"
    by (simp add: settled_def delivered_ids_def)
  have v1: "v\<lparr>v_window := fold (\<lambda>(k, r). bt_insert key_cmp k r) (map (\<lambda>(rid, r). (key_at ?q r rid, r)) rows) [],
      v_row_keys := fold (\<lambda>(k, r) m. m(k_row_id k \<mapsto> k)) (map (\<lambda>(rid, r). (key_at ?q r rid, r)) rows) Map.empty\<rparr> = ?u"
    unfolding u(3) by (simp add: fold_map comp_def split_def)
  have "view_rebuild rows v = bind_res (deliver_keys (settled ?u) (v_visible_keys (settled ?u))) (\<lambda>delivered. Ok (delivered, settled ?u))"
    unfolding view_rebuild_def ordered bind_res.simps v1 Let_def st by (simp add: settled_def)
  moreover obtain rs where "visible_rows (settled ?u) = Ok rs" "row_map rs = visible_map (settled ?u)"
    using visible_rows_ok [OF settled_ok [OF u(1)]] by blast
  moreover have "same_query v (settled ?u)" using same by (simp add: same_query_def)
  ultimately show ?thesis
    using settled_ok [OF u(1)] cu by (intro exI [of _ rs] exI [of _ "settled ?u"]) (simp add: visible_rows_def)
qed

lemma matching_rows_map:
  assumes "table_wf t"
  shows "distinct (map fst (matching_rows t q))" and "map_of (matching_rows t q) = matching_map q (table_rows t)"
    and "(rid, r) \<in> set (matching_rows t q) \<Longrightarrow> row_conforms (table_schema_of t) r"
proof -
  have wf: "storage_wf (tb_storage t)" using assms by simp
  have om: "om_wf (st_rows (tb_storage t))" using wf by (simp add: storage_wf_def)
  note scan = scan_rows_props [OF wf]
  have eq: "matching_rows t q = filter (\<lambda>(rid, r). cq_matches q r) (scan_rows (tb_storage t))"
    by (simp add: matching_rows_def table_scan_def)
  show "distinct (map fst (matching_rows t q))" unfolding eq using scan(1) by (rule distinct_map_filter)
  show "map_of (matching_rows t q) = matching_map q (table_rows t)"
  proof
    fix p
    have "map_of (matching_rows t q) p = Some r \<longleftrightarrow> matching_map q (table_rows t) p = Some r" for r
    proof -
      have "map_of (matching_rows t q) p = Some r \<longleftrightarrow> (p, r) \<in> set (matching_rows t q)"
        unfolding eq by (rule map_of_eq_Some_iff [OF distinct_map_filter [OF scan(1)]])
      also have "\<dots> \<longleftrightarrow> (\<exists>v. table_rows t p = Some \<lparr>sr_row = r, sr_version = v\<rparr>) \<and> cq_matches q r"
        unfolding eq using scan(3) [of p r] by auto
      also have "\<dots> \<longleftrightarrow> matching_map q (table_rows t) p = Some r"
      proof (cases "table_rows t p")
        case (Some s)
        then show ?thesis by (cases s) (auto simp: matching_map_def)
      qed (simp add: matching_map_def)
      finally show ?thesis .
    qed
    then show "map_of (matching_rows t q) p = matching_map q (table_rows t) p" by (rule option_ext)
  qed
  assume "(rid, r) \<in> set (matching_rows t q)"
  then obtain v where "table_rows t rid = Some \<lparr>sr_row = r, sr_version = v\<rparr>"
    unfolding eq using scan(3) [of rid r] by auto
  with wf show "row_conforms (table_schema_of t) r" by (fastforce simp: storage_wf_def)
qed

section \<open>Following a commit\<close>

lemma change_fits_view:
  assumes "change_fits schema c m"
  shows "change_shape c" and "ch_kind c = CInsert \<Longrightarrow> m (ch_row_id c) = None"
    and "ch_new_row c = Some r \<Longrightarrow> row_conforms schema r"
    and "matching_after q c (matching_map q m) = matching_map q (apply_change c m)"
proof -
  show "change_shape c" "ch_kind c = CInsert \<Longrightarrow> m (ch_row_id c) = None"
      "ch_new_row c = Some r \<Longrightarrow> row_conforms schema r"
    using assms by (auto simp: change_fits_def change_shape_def change_insert_def change_update_def change_delete_def)
  show "matching_after q c (matching_map q m) = matching_map q (apply_change c m)"
    using assms
    by (auto simp: change_fits_def matching_after_def matching_map_def apply_change_def fun_eq_iff
        change_insert_def change_update_def change_delete_def)
qed

lemma apply_all_exact:
  assumes "view_ok v" and "2 \<le> v_cap v" and "content v = matching_map (v_compiled v) m"
    and "changes_fit schema cs m" and "\<And>r. row_conforms schema r \<Longrightarrow> cq_safe (v_compiled v) r"
  shows "\<exists>v' ds. apply_all seq cs (v, out) = Ok (v', out @ ds) \<and> view_ok v' \<and> same_query v v' \<and>
    content v' = matching_map (v_compiled v) (fold apply_change cs m) \<and>
    client_run ds (visible_map v) = Some (visible_map v')"
  using assms
proof (induction cs arbitrary: v m out)
  case (Cons c cs)
  have fits: "change_fits schema c m" using Cons.prems(4) by simp
  note cv = change_fits_view [OF fits]
  have "content v (ch_row_id c) = None" if "ch_kind c = CInsert"
    using cv(2) [OF that] Cons.prems(3) by (simp add: matching_map_def)
  from view_apply_change_exact [OF Cons.prems(1,2) cv(1) Cons.prems(5) [OF cv(3)] this, of seq out]
  obtain v1 ds where v1: "view_apply_change seq c (v, out) = Ok (v1, out @ ds)" "view_ok v1" "same_query v v1"
    "content v1 = matching_after (v_compiled v) c (content v)" "client_run ds (visible_map v) = Some (visible_map v1)"
    by blast
  have "v_compiled v1 = v_compiled v" "v_cap v1 = v_cap v" using v1(3) by (simp_all add: same_query_def)
  with Cons.IH [of v1 "apply_change c m" "out @ ds"] v1(2,4) Cons.prems cv(4)
  obtain v2 es where "apply_all seq cs (v1, out @ ds) = Ok (v2, out @ ds @ es)" "view_ok v2" "same_query v1 v2"
    "content v2 = matching_map (v_compiled v) (fold apply_change cs (apply_change c m))"
    "client_run es (visible_map v1) = Some (visible_map v2)" by auto
  with v1 show ?case
    by (intro exI [of _ v2] exI [of _ "ds @ es"]) (auto simp: same_query_def client_run_append)
qed (auto simp: same_query_def)

end
