(* ===== verification/Sub_Invariant.thy ===== *)
theory Sub_Invariant
  imports Sub_Mirror Tx_Invariant
begin

text \<open>
  The registry beside the store: the answer of a query as a specification, the invariant \<open>reg_ok\<close> of the
  registry's own structures, \<open>follows\<close> (a shared view holds the answer of its query on a store) and \<open>mirrors\<close>
  (a client that applies the updates waiting in its buffer holds the rows its view delivers), with the step
  of one group of a commit that keeps the last two.
\<close>

section \<open>The answer of a query\<close>

text \<open>The rows a query delivers from a table: the matching rows that fewer than \<open>cap\<close> matching rows precede
  in the query order, with the projection applied.\<close>

definition answer :: "compiled_query \<Rightarrow> nat \<Rightarrow> (row_id \<rightharpoonup> stored_row) \<Rightarrow> (row_id \<rightharpoonup> row)" where
  "answer q cap m rid =
     (case matching_map q m rid of
        None \<Rightarrow> None
      | Some r \<Rightarrow>
          if card {p. \<exists>r'. matching_map q m p = Some r' \<and> key_cmp (key_at q r' p) (key_at q r rid) = Less} < cap
          then Some (projected q r) else None)"

lemma card_before:
  assumes asc: "ascending key_cmp (\<lambda>k. k_descending k = d) ks" and i: "i < length ks"
  shows "card {k \<in> set ks. key_cmp k (ks ! i) = Less} = i" and "ks ! i \<in> set (take n ks) \<longleftrightarrow> i < n"
proof -
  have dist: "distinct ks" using asc by (rule keys.ascending_distinct)
  have less: "key_cmp (ks ! j) (ks ! i) = Less \<longleftrightarrow> j < i" if j: "j < length ks" for j
    using keys.ascending_nth [OF asc, of j i] keys.ascending_nth [OF asc, of i j] keys.cmp_refl [of "ks ! i" d]
      keys.cmp_Greater [of "ks ! i" d "ks ! j"] asc i j
    by (cases j i rule: linorder_cases) (auto simp: ascending_def)
  have mem: "k \<in> set (take n ks) \<longleftrightarrow> (\<exists>j < length ks. j < n \<and> ks ! j = k)" for k n
    by (auto simp: in_set_conv_nth)
  have "{k \<in> set ks. key_cmp k (ks ! i) = Less} = set (take i ks)"
    using less by (auto simp: mem) (auto simp: in_set_conv_nth)
  then show "card {k \<in> set ks. key_cmp k (ks ! i) = Less} = i" using dist i by (simp add: distinct_card)
  show "ks ! i \<in> set (take n ks) \<longleftrightarrow> i < n" using dist i by (auto simp: mem nth_eq_iff_index_eq)
qed

lemma visible_answer:
  assumes ok: "view_ok v" and content: "content v = matching_map (v_compiled v) m"
  shows "visible_map v = answer (v_compiled v) (v_cap v) m"
proof
  fix rid
  let ?q = "v_compiled v" and ?ks = "key_list v"
  have win: "win_ok v" using ok by simp
  show "visible_map v rid = answer ?q (v_cap v) m rid"
  proof (cases "content v rid")
    case None
    then show ?thesis by (simp add: visible_map_def answer_def content)
  next
    case (Some r)
    then obtain k where k: "(k, r) \<in> set (v_window v)" "k_row_id k = rid" using content_Some [OF win] by blast
    have kr: "k = key_at ?q r rid" using win_row(2) [OF win k(1)] k(2) by simp
    obtain i where i: "i < length ?ks" "?ks ! i = k"
      using k(1) by (metis fst_conv image_eqI in_set_conv_nth list.set_map)
    note before = card_before [OF win_keys [OF win] i(1)]
    have row: "\<exists>r'. (k', r') \<in> set (v_window v)" if "k' \<in> set ?ks" for k' using that by auto
    have "{p. \<exists>r'. content v p = Some r' \<and> key_cmp (key_at ?q r' p) k = Less}
        = k_row_id ` {k' \<in> set ?ks. key_cmp k' k = Less}" (is "?L = ?R")
    proof
      show "?L \<subseteq> ?R" using content_Some [OF win] win_row(2) [OF win] by force
      show "?R \<subseteq> ?L" using row win_row(2,5) [OF win] by fastforce
    qed
    moreover have "inj_on k_row_id {k' \<in> set ?ks. key_cmp k' k = Less}"
      using same_id [OF win] by (auto simp: inj_on_def)
    ultimately have "card ?L = i" using before(1) i(2) by (simp add: card_image)
    moreover have "rid \<in> v_visible_ids v \<longleftrightarrow> i < v_cap v"
      using visible_key [OF ok] win_row(4) [OF win k(1)] k(2) before(2) i(2) by simp
    ultimately show ?thesis using Some kr by (simp add: visible_map_def answer_def content [symmetric])
  qed
qed

section \<open>Members\<close>

lemma om_put_update:
  "om_wf m \<Longrightarrow> om_get m k \<noteq> None \<Longrightarrow> om_put k v m = map (\<lambda>(j, u). (j, if j = k then v else u)) m"
proof (induction m)
  case (Cons p m)
  have other: "map (\<lambda>(j, u). (j, if j = k then v else u)) m = m" if "k \<notin> fst ` set m"
    using that by (intro map_idI) force
  obtain j u where p: "p = (j, u)" by (cases p)
  show ?case
  proof (cases "j = k")
    case True
    then have "k \<notin> fst ` set m" using Cons.prems(1) p by (auto simp: om_wf_Cons)
    with True p other show ?thesis by simp
  next
    case False
    then have "k \<in> fst ` set m" using Cons.prems(2) p by (simp add: om_get_None)
    then have "j < k" using Cons.prems(1) p by (auto simp: om_wf_Cons)
    with False Cons p show ?thesis by (simp add: om_wf_Cons)
  qed
qed simp

lemma push_loop_cases:
  "push_loop us seq s = s\<lparr>s_buffer := s_buffer s @ us\<rparr> \<or> push_loop us seq s = mark_stale seq s" if "s_state s = SubActive"
  using that
proof (induction us arbitrary: s)
  case (Cons u us)
  have stale: "push_loop us seq (mark_stale seq s') = mark_stale seq s'" for s'
    by (cases us) (simp_all add: mark_stale_def)
  from Cons.IH [of "s\<lparr>s_buffer := s_buffer s @ [u]\<rparr>"] Cons.prems stale show ?case
    by (auto simp: Let_def mark_stale_def)
qed simp

lemma push_commit_cases:
  obtains (stale) "s_state s = SubStale" "push_commit us seq s = s"
    | (append) "s_state s = SubActive" "push_commit us seq s = s\<lparr>s_buffer := s_buffer s @ us\<rparr>"
    | (overflow) "s_state s = SubActive" "push_commit us seq s = mark_stale seq s"
proof (cases "s_state s")
  case SubActive
  with push_loop_cases [OF this, of us seq] append overflow show ?thesis
    by (cases "saturating_add (length (s_buffer s)) (length us) \<le> s_max_buffered s") (auto simp: push_commit_def)
next
  case SubStale
  with stale show ?thesis by (simp add: push_commit_def)
qed

definition on_members :: "u64 set \<Rightarrow> (subscription \<Rightarrow> subscription) \<Rightarrow> registry \<Rightarrow> registry" where
  "on_members ids f rg = rg\<lparr>rg_subs := map (\<lambda>(sid, s). (sid, if sid \<in> ids then f s else s)) (rg_subs rg)\<rparr>"

lemma set_sub_on_members:
  assumes "om_wf (rg_subs rg)" and "om_get (rg_subs rg) sid = Some s"
  shows "set_sub sid (f s) rg = on_members {sid} f rg"
proof -
  have "u = s" if "(sid, u) \<in> set (rg_subs rg)" for u
    using that assms(2) om_get_mem [OF assms(1), of sid u] by simp
  then have "map (\<lambda>(j, u). (j, if j = sid then f s else u)) (rg_subs rg)
      = map (\<lambda>(j, u). (j, if j \<in> {sid} then f u else u)) (rg_subs rg)"
    by (intro map_cong) auto
  then show ?thesis
    using assms by (simp add: set_sub_def on_members_def om_put_update)
qed

lemma on_members_get:
  "om_get (rg_subs (on_members ids f rg)) sid = map_option (\<lambda>s. if sid \<in> ids then f s else s) (om_get (rg_subs rg) sid)"
proof -
  have "om_get (map (\<lambda>(k, s). (k, if k \<in> ids then f s else s)) m) sid
      = map_option (\<lambda>s. if sid \<in> ids then f s else s) (om_get m sid)" for m
    by (induction m) auto
  then show ?thesis by (simp add: on_members_def)
qed

lemma on_members_fields [simp]:
  "rg_views (on_members ids f rg) = rg_views rg" "rg_counts (on_members ids f rg) = rg_counts rg"
  "rg_config (on_members ids f rg) = rg_config rg" "rg_next_id (on_members ids f rg) = rg_next_id rg"
  "map fst (rg_subs (on_members ids f rg)) = map fst (rg_subs rg)"
  "om_wf (rg_subs (on_members ids f rg)) = om_wf (rg_subs rg)"
  "fst ` set (rg_subs (on_members ids f rg)) = fst ` set (rg_subs rg)"
  by (simp_all add: on_members_def om_wf_def o_def case_prod_beta image_image)

lemma on_members_insert:
  assumes "sid \<notin> ids"
  shows "on_members ids f (on_members {sid} f rg) = on_members (insert sid ids) f rg"
  using assms by (auto simp: on_members_def intro!: arg_cong [where f = "\<lambda>ss. rg\<lparr>rg_subs := ss\<rparr>"])

lemma set_sub_same:
  assumes "om_wf (rg_subs rg)" and "om_get (rg_subs rg) sid = Some s"
  shows "set_sub sid s rg = rg"
proof -
  have "u = s" if "(sid, u) \<in> set (rg_subs rg)" for u
    using that assms(2) om_get_mem [OF assms(1), of sid u] by simp
  then have "map (\<lambda>(j, u). (j, if j = sid then s else u)) (rg_subs rg) = rg_subs rg"
    by (intro map_idI) auto
  then show ?thesis using assms by (simp add: set_sub_def om_put_update)
qed

lemma on_members_pending: "on_members ids f (rg\<lparr>rg_pending := ps\<rparr>) = (on_members ids f rg)\<lparr>rg_pending := ps\<rparr>"
  by (simp add: on_members_def)

lemma fan_out_on_members:
  assumes "om_wf (rg_subs rg)" and "distinct sids" and "set sids \<subseteq> fst ` set (rg_subs rg)"
  shows "\<exists>ids ps. fan_out us seq sids rg = Ok (ids, (on_members (set sids) (push_commit us seq) rg)\<lparr>rg_pending := ps\<rparr>)"
  using assms
proof (induction sids arbitrary: rg)
  case Nil
  have "on_members {} (push_commit us seq) rg = rg" by (simp add: on_members_def)
  then show ?case by (auto intro: exI [of _ "rg_pending rg"])
next
  case (Cons sid sids)
  obtain s where s: "om_get (rg_subs rg) sid = Some s"
    using Cons.prems(3) om_get_None [of "rg_subs rg" sid] by auto
  let ?f = "push_commit us seq"
  have step: "set_sub sid (?f s) rg = on_members {sid} ?f rg" using Cons.prems(1) s by (rule set_sub_on_members)
  define rg1 where "rg1 = (if s_state s = SubStale then rg else
      if s_buffer s = [] \<and> s_buffer (?f s) \<noteq> [] then (on_members {sid} ?f rg)\<lparr>rg_pending := insort_insert sid (rg_pending (on_members {sid} ?f rg))\<rparr>
      else on_members {sid} ?f rg)"
  have "s_state s = SubStale \<Longrightarrow> on_members {sid} ?f rg = rg"
    using step set_sub_same [OF Cons.prems(1) s] by (simp add: push_commit_def)
  then have rg1: "\<exists>ps. rg1 = (on_members {sid} ?f rg)\<lparr>rg_pending := ps\<rparr>"
    by (auto simp: rg1_def intro: exI [of _ "rg_pending rg"] exI [of _ "rg_pending (on_members {sid} ?f rg)"])
  then obtain ps where ps: "rg1 = (on_members {sid} ?f rg)\<lparr>rg_pending := ps\<rparr>" by blast
  have "fst ` set (rg_subs rg1) = fst ` set (rg_subs rg)"
    by (simp add: ps)
  then obtain ids ps' where IH: "fan_out us seq sids rg1 = Ok (ids, (on_members (set sids) ?f rg1)\<lparr>rg_pending := ps'\<rparr>)"
    using Cons.IH [of rg1] Cons.prems ps by auto
  have "(on_members (set sids) ?f rg1)\<lparr>rg_pending := ps'\<rparr> = (on_members (set (sid # sids)) ?f rg)\<lparr>rg_pending := ps'\<rparr>"
    using Cons.prems(2) by (simp add: ps on_members_pending on_members_insert)
  moreover have "\<exists>ids'. fan_out us seq (sid # sids) rg = Ok (ids', (on_members (set sids) ?f rg1)\<lparr>rg_pending := ps'\<rparr>)"
    using IH s by (auto simp: expect_def Let_def step rg1_def split: if_splits)
  ultimately show ?case by metis
qed

section \<open>The invariant\<close>

text \<open>The cap of a query's window, which does not depend on the table.\<close>

definition query_cap :: "subscription_config \<Rightarrow> query \<Rightarrow> nat" where
  "query_cap config q =
     min (case q_limit q of Some n \<Rightarrow> unat n | None \<Rightarrow> usize_max) (max_snapshot_rows config)"

definition follows :: "subscription_config \<Rightarrow> table_store \<Rightarrow> shared_view \<Rightarrow> bool" where
  "follows config st v \<longleftrightarrow>
     view_ok v \<and> v_cap v = query_cap config (v_query v) \<and>
     (\<exists>t. store_table st (q_table (v_query v)) = Some t \<and>
        compile_for (table_id_of t) (table_schema_of t) (v_query v) config = Ok (v_compiled v) \<and>
        content v = matching_map (v_compiled v) (table_rows t))"

definition view_in :: "registry \<Rightarrow> nat \<Rightarrow> shared_view \<Rightarrow> bool" where
  "view_in rg i v \<longleftrightarrow> i < length (rg_views rg) \<and> rg_views rg ! i = Some v"

definition members :: "registry \<Rightarrow> nat \<Rightarrow> u64 list" where
  "members rg i = map fst (filter (\<lambda>(sid, s). s_view s = i) (rg_subs rg))"

definition member_ok :: "registry \<Rightarrow> u64 \<Rightarrow> subscription \<Rightarrow> bool" where
  "member_ok rg sid s \<longleftrightarrow>
     sid < rg_next_id rg \<and> s_max_buffered s = max_buffered (rg_config rg) \<and>
     length (s_buffer s) \<le> s_max_buffered s \<and> (\<exists>v. view_in rg (s_view s) v \<and> v_query v = s_query s)"

definition reg_ok :: "registry \<Rightarrow> bool" where
  "reg_ok rg \<longleftrightarrow>
     om_wf (rg_subs rg) \<and> length (rg_counts rg) = length (rg_views rg) \<and>
     1 \<le> max_buffered (rg_config rg) \<and> max_buffered (rg_config rg) < usize_max \<and>
     (\<forall>sid s. om_get (rg_subs rg) sid = Some s \<longrightarrow> member_ok rg sid s) \<and>
     (\<forall>i < length (rg_counts rg). rg_counts rg ! i = length (members rg i)) \<and>
     (\<forall>i v. view_in rg i v \<longrightarrow> 2 \<le> query_cap (rg_config rg) (v_query v) \<and> members rg i \<noteq> []) \<and>
     (\<forall>i j v w. view_in rg i v \<longrightarrow> view_in rg j w \<longrightarrow> v_query v = v_query w \<longrightarrow> i = j)"

type_synonym clients = "u64 \<Rightarrow> (row_id \<rightharpoonup> row)"

definition mirrors :: "clients \<Rightarrow> registry \<Rightarrow> bool" where
  "mirrors cl rg \<longleftrightarrow>
     (\<forall>sid s v. om_get (rg_subs rg) sid = Some s \<longrightarrow> s_state s = SubActive \<longrightarrow> view_in rg (s_view s) v \<longrightarrow>
        client_run (s_buffer s) (cl sid) = Some (visible_map v))"

definition delivers :: "subscription_update list \<Rightarrow> subscription \<Rightarrow> subscription \<Rightarrow> bool" where
  "delivers us s s' \<longleftrightarrow>
     s_query s' = s_query s \<and> s_view s' = s_view s \<and> s_max_buffered s' = s_max_buffered s \<and>
     (length (s_buffer s) \<le> s_max_buffered s \<longrightarrow> length (s_buffer s') \<le> s_max_buffered s) \<and>
     (s_state s' = SubActive \<longrightarrow> s_state s = SubActive \<and> s_buffer s' = s_buffer s @ us)"

lemma delivers_nothing [simp]: "delivers [] s s"
  by (simp add: delivers_def)

lemma push_loop_bound:
  "1 \<le> s_max_buffered s \<Longrightarrow> length (s_buffer s) \<le> s_max_buffered s \<Longrightarrow>
     length (s_buffer (push_loop us seq s)) \<le> s_max_buffered s"
proof (induction us arbitrary: s)
  case (Cons u us)
  let ?s = "s\<lparr>s_buffer := s_buffer s @ [u]\<rparr>"
  show ?case using Cons.IH [of ?s] Cons.IH [of "mark_stale seq ?s"] Cons.prems by (auto simp: Let_def mark_stale_def)
qed simp

lemma push_commit_delivers:
  assumes "1 \<le> s_max_buffered s" and "s_max_buffered s < usize_max"
  shows "delivers us s (push_commit us seq s)"
proof -
  have bound: "length (s_buffer (push_commit us seq s)) \<le> s_max_buffered s" if "length (s_buffer s) \<le> s_max_buffered s"
    using assms that push_loop_bound [of s us seq] by (auto simp: push_commit_def saturating_add_def min_def split: if_splits)
  show ?thesis
    by (rule push_commit_cases [of s us seq]) (use bound in \<open>auto simp: delivers_def mark_stale_def\<close>)
qed

lemma mark_stale_delivers: "1 \<le> s_max_buffered s \<Longrightarrow> delivers us s (mark_stale seq s)"
  by (simp add: delivers_def mark_stale_def)

lemma members_mem: "om_wf (rg_subs rg) \<Longrightarrow> sid \<in> set (members rg i) \<longleftrightarrow> (\<exists>s. om_get (rg_subs rg) sid = Some s \<and> s_view s = i)"
  by (force simp: members_def om_get_mem)

lemma members_distinct: "om_wf (rg_subs rg) \<Longrightarrow> distinct (members rg i)"
  by (auto simp: members_def intro: distinct_map_filter om_wf_distinct)

lemma on_members_members:
  assumes "\<And>s. s_view (f s) = s_view s"
  shows "members (on_members ids f rg) i = members rg i"
proof -
  have "map fst (filter (\<lambda>(sid, s). s_view s = i) (map (\<lambda>(sid, s). (sid, if sid \<in> ids then f s else s)) m))
      = map fst (filter (\<lambda>(sid, s). s_view s = i) m)" for m
  proof -
    have "(\<lambda>(sid, s). s_view s = i) \<circ> (\<lambda>(sid, s). (sid, if sid \<in> ids then f s else s)) = (\<lambda>(sid, s). s_view s = i)"
      by (auto simp: fun_eq_iff assms)
    then show ?thesis by (simp add: filter_map o_def case_prod_beta)
  qed
  then show ?thesis by (simp add: members_def on_members_def)
qed

text \<open>One group of a commit: the view at slot \<open>i\<close> moves on and its members receive the updates.\<close>

lemma group_step:
  assumes ok: "reg_ok rg" and mir: "mirrors cl rg" and v: "view_in rg i v" and same: "same_query v v'"
    and run: "client_run us (visible_map v) = Some (visible_map v')"
    and f: "\<And>s. s_max_buffered s = max_buffered (rg_config rg) \<Longrightarrow> delivers us s (f s)"
    and keep: "\<And>s. s_view (f s) = s_view s"
    and rg': "rg' = (on_members (set (members rg i)) f (set_view i v' rg))\<lparr>rg_pending := ps\<rparr>"
  shows "reg_ok rg'" and "mirrors cl rg'"
    and "view_in rg' j w \<longleftrightarrow> (if j = i then w = v' else view_in rg j w)" and "members rg' j = members rg j"
proof -
  have i: "i < length (rg_views rg)" using v by (simp add: view_in_def)
  have om: "om_wf (rg_subs rg)" using ok by (simp add: reg_ok_def)
  show views: "view_in rg' j w \<longleftrightarrow> (if j = i then w = v' else view_in rg j w)" for j w
    using i by (auto simp: rg' view_in_def set_view_def)
  have mem: "members rg' j = members rg j" for j
  proof -
    have "members rg' j = members (on_members (set (members rg i)) f (set_view i v' rg)) j"
      by (simp add: rg' members_def)
    also have "\<dots> = members rg j" unfolding on_members_members [OF keep] by (simp add: members_def set_view_def)
    finally show ?thesis .
  qed
  then show "members rg' j = members rg j" .
  have get: "om_get (rg_subs rg') sid = map_option (\<lambda>s. if s_view s = i then f s else s) (om_get (rg_subs rg) sid)" for sid
  proof -
    have "om_get (rg_subs rg') sid = map_option (\<lambda>s. if sid \<in> set (members rg i) then f s else s) (om_get (rg_subs rg) sid)"
      by (simp add: rg' on_members_get) (simp add: set_view_def)
    then show ?thesis by (cases "om_get (rg_subs rg) sid") (auto simp: members_mem [OF om])
  qed
  have fields: "rg_config rg' = rg_config rg" "rg_next_id rg' = rg_next_id rg" "rg_counts rg' = rg_counts rg"
    "length (rg_views rg') = length (rg_views rg)" "om_wf (rg_subs rg')"
    using om by (simp_all add: rg' set_view_def)
  have qv: "v_query v' = v_query v" using same by (simp add: same_query_def)
  have member: "member_ok rg' sid s'" if s': "om_get (rg_subs rg') sid = Some s'" for sid s'
  proof -
    obtain s where s: "om_get (rg_subs rg) sid = Some s" "s' = (if s_view s = i then f s else s)" using s' [unfolded get] by auto
    then have m: "member_ok rg sid s" using ok by (simp add: reg_ok_def)
    then have "delivers us s (f s)" using f by (simp add: member_ok_def)
    with m s(2) views v qv show ?thesis
      by (auto simp: member_ok_def delivers_def fields view_in_def)
  qed
  have "view_in rg' j w \<Longrightarrow> \<exists>u. view_in rg j u \<and> v_query u = v_query w" for j w
    using views v qv by (auto split: if_splits)
  with ok mem member fields show "reg_ok rg'" unfolding reg_ok_def by (metis (no_types, lifting))
  show "mirrors cl rg'" unfolding mirrors_def
  proof (intro allI impI)
    fix sid s' w
    assume s': "om_get (rg_subs rg') sid = Some s'" "s_state s' = SubActive" "view_in rg' (s_view s') w"
    obtain s where s: "om_get (rg_subs rg) sid = Some s" "s' = (if s_view s = i then f s else s)" using s'(1) [unfolded get] by auto
    show "client_run (s_buffer s') (cl sid) = Some (visible_map w)"
    proof (cases "s_view s = i")
      case True
      have "s_max_buffered s = max_buffered (rg_config rg)" using ok s(1) by (simp add: reg_ok_def member_ok_def)
      then have "s_state s = SubActive" "s_buffer s' = s_buffer s @ us" using f [of s] s(2) True s'(2) by (auto simp: delivers_def)
      moreover have "w = v'" using s'(3) views s(2) True keep [of s] by simp
      ultimately show ?thesis using mir s(1) v True run by (simp add: mirrors_def client_run_append)
    next
      case False
      then show ?thesis using mir s s' views by (auto simp: mirrors_def)
    qed
  qed
qed

end
