(* ===== verification/Sub_Observe.thy ===== *)
theory Sub_Observe
  imports Sub_Invariant Wal_Recovery
begin

text \<open>
  Runs of a store with its subscription registry and the clients behind it. A commit moves every shared view
  from the answer on the old store to the answer on the new one, subscribing, draining, resynchronising and
  leaving keep the invariant, and so in every reachable state an active client that applies its
  waiting updates holds the answer of its query on the committed store.
\<close>

section \<open>What a history does to the tables\<close>

abbreviation own_changes :: "table_id \<Rightarrow> change list \<Rightarrow> change list" where
  "own_changes tid cs \<equiv> filter (\<lambda>c. ch_table c = tid) cs"

lemma store_table_by_id:
  assumes "store_wf st"
  shows "store_table st name = Some t \<longleftrightarrow> table_by_id st (table_id_of t) = Some t \<and> table_name_of t = name"
  using om_get_mem [OF store_wf_om [OF assms]] store_wfD(2) [OF assms]
  by (auto simp: store_table_def table_by_id_iff [OF assms])

lemma history_tables:
  assumes "history st0 txs st" and "store_plain st0" and "table_by_id st0 tid = Some t"
  shows "\<exists>t'. table_by_id st tid = Some t' \<and> table_id_of t' = table_id_of t \<and>
    table_schema_of t' = table_schema_of t \<and>
    changes_fit (table_schema_of t) (own_changes tid (concat (map snd txs))) (table_rows t) \<and>
    table_rows t' = fold apply_change (own_changes tid (concat (map snd txs))) (table_rows t)"
  using assms
proof (induction txs st rule: history.induct)
  case (h_begin txs st)
  then show ?case by (simp add: alloc_by_id)
next
  case (h_drain txs st)
  then show ?case by (auto simp: drain_by_id table_drain_fields)
next
  case (h_commit txs st tx cs tx' st')
  note ws = tx_writes_wf [OF tx_reach_wf [OF h_commit(2)]]
  note plain = history_plain [OF h_commit(1,7)]
  have "validate st tx = Ok ()"
    using commit_failed [OF plain ws h_commit(4)] tx_commit_commit [OF h_commit(5)] by auto
  then have c: "rel_option (committed (ws_entries (tx_writes tx)) cs tid) (table_by_id st tid) (table_by_id st' tid)"
    using commit_ok [OF plain ws h_commit(4)] tx_commit_commit [OF h_commit(5)] by auto
  obtain t1 where t1: "table_by_id st tid = Some t1" "table_id_of t1 = table_id_of t" "table_schema_of t1 = table_schema_of t"
    "changes_fit (table_schema_of t) (own_changes tid (concat (map snd txs))) (table_rows t)"
    "table_rows t1 = fold apply_change (own_changes tid (concat (map snd txs))) (table_rows t)"
    using h_commit by blast
  then obtain t2 where "table_by_id st' tid = Some t2" "committed (ws_entries (tx_writes tx)) cs tid t1 t2"
    using c by (auto simp: option_rel_Some1)
  with t1 show ?case by (auto simp: committed_def same_shape_def changes_fit_append)
qed simp

section \<open>A commit\<close>

lemma compile_for_table:
  assumes "compile_for tid schema q config = Ok cq"
  shows "cq_table_id cq = tid" and "cq_limit cq = map_option unat (q_limit q)"
  using assms by (auto simp: compile_for_def bind_res_eq_Ok split: if_splits)

lemma follows_commit:
  assumes v: "follows config st v" and cap: "2 \<le> query_cap config (v_query v)" and plain: "store_plain st"
    and h: "history st txs st'"
  shows "cq_table_id (v_compiled v) \<in> existing_tables st'"
    and "\<exists>v' us. apply_all seq (own_changes (cq_table_id (v_compiled v)) (concat (map snd txs))) (v, []) = Ok (v', us) \<and>
      follows config st' v' \<and> same_query v v' \<and> client_run us (visible_map v) = Some (visible_map v')"
proof -
  have wf: "store_wf st" "store_wf st'" using plain history_plain [OF h plain] by (simp_all add: store_plain_def)
  obtain t where t: "store_table st (q_table (v_query v)) = Some t"
    "compile_for (table_id_of t) (table_schema_of t) (v_query v) config = Ok (v_compiled v)"
    "content v = matching_map (v_compiled v) (table_rows t)"
    using v by (auto simp: follows_def)
  have tid: "cq_table_id (v_compiled v) = table_id_of t" using t(2) by (rule compile_for_table(1))
  let ?cs = "own_changes (table_id_of t) (concat (map snd txs))"
  obtain t' where t': "table_by_id st' (table_id_of t) = Some t'" "table_id_of t' = table_id_of t"
    "table_schema_of t' = table_schema_of t" "changes_fit (table_schema_of t) ?cs (table_rows t)"
    "table_rows t' = fold apply_change ?cs (table_rows t)"
    using history_tables [OF h plain] t(1) store_table_by_id [OF wf(1)] by blast
  have st': "store_table st' (q_table (v_query v)) = Some t'"
    using t' t(1) store_table_by_id [OF wf(1)] store_table_by_id [OF wf(2)] by simp
  then show "cq_table_id (v_compiled v) \<in> existing_tables st'"
    using tid t'(2) map_of_SomeD by (force simp: existing_tables_def store_table_def)
  have ok: "view_ok v" "v_cap v = query_cap config (v_query v)" using v by (simp_all add: follows_def)
  have "\<exists>v' us. apply_all seq ?cs (v, []) = Ok (v', [] @ us) \<and> view_ok v' \<and> same_query v v' \<and>
      content v' = matching_map (v_compiled v) (fold apply_change ?cs (table_rows t)) \<and>
      client_run us (visible_map v) = Some (visible_map v')"
    using ok cap t(3) t'(4) compile_safe [OF t(2)] by (intro apply_all_exact) auto
  then obtain v' us where v': "apply_all seq ?cs (v, []) = Ok (v', us)" "view_ok v'" "same_query v v'"
    "content v' = matching_map (v_compiled v) (table_rows t')" "client_run us (visible_map v) = Some (visible_map v')"
    using t'(5) by auto
  then have "follows config st' v'" using ok st' t' t(2) by (simp add: follows_def same_query_def)
  with v' show "\<exists>v' us. apply_all seq (own_changes (cq_table_id (v_compiled v)) (concat (map snd txs))) (v, []) = Ok (v', us) \<and>
      follows config st' v' \<and> same_query v v' \<and> client_run us (visible_map v) = Some (visible_map v')"
    using tid by auto
qed

lemma on_members_id: "on_members ids (\<lambda>s. s) rg = rg"
  by (simp add: on_members_def)

lemma push_commit_view [simp]: "s_view (push_commit us seq s) = s_view s"
  by (rule push_commit_cases [of s us seq]) (auto simp: mark_stale_def)

lemma group_eval:
  assumes ok: "reg_ok rg" and v: "view_in rg i v" and ex: "cq_table_id (v_compiled v) \<in> existing"
    and run: "apply_all seq (own_changes (cq_table_id (v_compiled v)) cs) (v, []) = Ok (v', us)"
  shows "\<exists>f ps tot'. (\<forall>s. s_max_buffered s = max_buffered (rg_config rg) \<longrightarrow> delivers us s (f s)) \<and>
    (\<forall>s. s_view (f s) = s_view s) \<and>
    apply_groups seq existing cs ((i, members rg i) # groups) (tot, rg) =
      apply_groups seq existing cs groups (tot', (on_members (set (members rg i)) f (set_view i v' rg))\<lparr>rg_pending := ps\<rparr>)"
proof -
  let ?own = "own_changes (cq_table_id (v_compiled v)) cs" and ?ms = "members rg i"
  have slot: "i < length (rg_views rg)" "rg_views rg ! i = Some v" using v by (simp_all add: view_in_def)
  have om: "om_wf (rg_subs rg)" using ok by (simp add: reg_ok_def)
  have bound: "1 \<le> max_buffered (rg_config rg)" "max_buffered (rg_config rg) < usize_max" using ok by (simp_all add: reg_ok_def)
  show ?thesis
  proof (cases "us = []")
    case True
    have same: "set_view i v rg = rg" using slot by (simp add: set_view_def list_update_id [of "rg_views rg" i, unfolded slot(2)])
    have "\<exists>tot'. apply_groups seq existing cs ((i, ?ms) # groups) (tot, rg) = apply_groups seq existing cs groups (tot', set_view i v' rg)"
    proof (cases "?own = []")
      case True
      then have "set_view i v' rg = rg" using run same by simp
      with True slot ex show ?thesis by auto
    next
      case False
      with True run slot ex show ?thesis by (auto simp: Let_def)
    qed
    then show ?thesis
      using True by (intro exI [of _ "\<lambda>s. s"] exI [of _ "rg_pending (set_view i v' rg)"]) (auto simp: on_members_id)
  next
    case False
    then have own: "?own \<noteq> []" using run by auto
    have "set ?ms \<subseteq> fst ` set (rg_subs rg)" by (auto simp: members_def)
    then obtain ids ps where "fan_out us seq ?ms (set_view i v' rg)
        = Ok (ids, (on_members (set ?ms) (push_commit us seq) (set_view i v' rg))\<lparr>rg_pending := ps\<rparr>)"
      using fan_out_on_members [of "set_view i v' rg" ?ms us seq] om members_distinct [OF om] by (auto simp: set_view_def)
    with False own run slot ex have "\<exists>tot'. apply_groups seq existing cs ((i, ?ms) # groups) (tot, rg) =
        apply_groups seq existing cs groups (tot', (on_members (set ?ms) (push_commit us seq) (set_view i v' rg))\<lparr>rg_pending := ps\<rparr>)"
      by (auto simp: Let_def)
    then show ?thesis
      using bound push_commit_delivers by (intro exI [of _ "push_commit us seq"] exI [of _ ps]) auto
  qed
qed

lemma apply_groups_exact:
  assumes "reg_ok rg" and "mirrors cl rg" and plain: "store_plain st" and h: "history st txs st'"
    and "distinct (map fst groups)"
    and "\<forall>(i, ms) \<in> set groups. ms = members rg i \<and> (\<exists>v. view_in rg i v)"
    and "\<forall>i v. view_in rg i v \<longrightarrow> follows (rg_config rg) (if i \<in> fst ` set groups then st else st') v"
  shows "\<exists>tot' rg'. apply_groups seq (existing_tables st') (concat (map snd txs)) groups (tot, rg) = Ok (tot', rg') \<and>
    reg_ok rg' \<and> mirrors cl rg' \<and> (\<forall>i v. view_in rg' i v \<longrightarrow> follows (rg_config rg') st' v) \<and>
    rg_config rg' = rg_config rg"
  using assms(1,2,5-7)
proof (induction groups arbitrary: rg tot)
  case (Cons g groups)
  obtain i where g: "g = (i, members rg i)" using Cons.prems(4) by (cases g) auto
  then obtain v where v: "view_in rg i v" using Cons.prems(4) by auto
  have fol: "follows (rg_config rg) st v" using spec [OF spec [OF Cons.prems(5), of i], of v] v g by simp
  have cap: "2 \<le> query_cap (rg_config rg) (v_query v)" using Cons.prems(1) v by (auto simp: reg_ok_def)
  note ex = follows_commit(1) [OF fol cap plain h]
  obtain v' us where v': "apply_all seq (own_changes (cq_table_id (v_compiled v)) (concat (map snd txs))) (v, []) = Ok (v', us)"
    "follows (rg_config rg) st' v'" "same_query v v'" "client_run us (visible_map v) = Some (visible_map v')"
    using follows_commit(2) [OF fol cap plain h] by blast
  obtain f ps tot' where f: "\<And>s. s_max_buffered s = max_buffered (rg_config rg) \<Longrightarrow> delivers us s (f s)"
    "\<And>s. s_view (f s) = s_view s"
    "apply_groups seq (existing_tables st') (concat (map snd txs)) (g # groups) (tot, rg) =
      apply_groups seq (existing_tables st') (concat (map snd txs)) groups
        (tot', (on_members (set (members rg i)) f (set_view i v' rg))\<lparr>rg_pending := ps\<rparr>)"
    using group_eval [OF Cons.prems(1) v ex v'(1)] unfolding g by metis
  define rg1 where "rg1 = (on_members (set (members rg i)) f (set_view i v' rg))\<lparr>rg_pending := ps\<rparr>"
  note step = group_step [OF Cons.prems(1,2) v v'(3,4) f(1,2) rg1_def]
  have cfg: "rg_config rg1 = rg_config rg" by (simp add: rg1_def set_view_def)
  have "i \<notin> fst ` set groups" using Cons.prems(3) g by simp
  have "\<exists>tot'' rg'. apply_groups seq (existing_tables st') (concat (map snd txs)) groups (tot', rg1) = Ok (tot'', rg') \<and>
    reg_ok rg' \<and> mirrors cl rg' \<and> (\<forall>i v. view_in rg' i v \<longrightarrow> follows (rg_config rg') st' v) \<and> rg_config rg' = rg_config rg1"
  proof (rule Cons.IH [OF step(1,2)])
    show "distinct (map fst groups)" using Cons.prems(3) by simp
    show "\<forall>(j, ms) \<in> set groups. ms = members rg1 j \<and> (\<exists>w. view_in rg1 j w)"
    proof (clarify, intro conjI)
      fix j ms assume g': "(j, ms) \<in> set groups"
      then have "ms = members rg j" "\<exists>w. view_in rg j w" using Cons.prems(4) by auto
      then show "ms = members rg1 j" "\<exists>w. view_in rg1 j w" using step(3,4) by auto
    qed
    show "\<forall>j w. view_in rg1 j w \<longrightarrow> follows (rg_config rg1) (if j \<in> fst ` set groups then st else st') w"
    proof (intro allI impI)
      fix j w assume w: "view_in rg1 j w"
      show "follows (rg_config rg1) (if j \<in> fst ` set groups then st else st') w"
      proof (cases "j = i")
        case True
        with w step(3) \<open>i \<notin> _\<close> v'(2) cfg show ?thesis by simp
      next
        case False
        then have "view_in rg j w" using w step(3) by simp
        then have "follows (rg_config rg) (if j \<in> fst ` set (g # groups) then st else st') w"
          using Cons.prems(5) by blast
        with False cfg g show ?thesis by simp
      qed
    qed
  qed
  with f(3) cfg show ?case unfolding rg1_def [symmetric] by metis
qed auto

lemma reg_ok_member: "reg_ok rg \<Longrightarrow> om_get (rg_subs rg) sid = Some s \<Longrightarrow> member_ok rg sid s"
  by (simp add: reg_ok_def)

lemma by_view_groups:
  assumes "reg_ok rg"
  shows "distinct (map fst (by_view rg))"
    and "(i, ms) \<in> set (by_view rg) \<Longrightarrow> ms = members rg i \<and> (\<exists>v. view_in rg i v)"
    and "view_in rg i v \<Longrightarrow> i \<in> fst ` set (by_view rg)"
proof -
  have slots: "fst ` set (by_view rg) = (\<lambda>(sid, s). s_view s) ` set (rg_subs rg)"
    by (auto simp: by_view_def image_image)
  show "distinct (map fst (by_view rg))" by (simp add: by_view_def o_def)
  show "ms = members rg i \<and> (\<exists>v. view_in rg i v)" if g: "(i, ms) \<in> set (by_view rg)"
  proof
    show "ms = members rg i" using g by (auto simp: by_view_def members_def)
    from g obtain sid s where s: "(sid, s) \<in> set (rg_subs rg)" "s_view s = i" by (auto simp: by_view_def)
    then have "om_get (rg_subs rg) sid = Some s" using assms by (simp add: reg_ok_def om_get_mem)
    with reg_ok_member [OF assms this] s(2) show "\<exists>v. view_in rg i v" by (auto simp: member_ok_def)
  qed
  assume "view_in rg i v"
  then have "members rg i \<noteq> []" using assms by (auto simp: reg_ok_def)
  then show "i \<in> fst ` set (by_view rg)" unfolding slots by (force simp: members_def filter_empty_conv)
qed

text \<open>The invariant of a registry beside a store, for given clients.\<close>

definition observed :: "subscription_config \<Rightarrow> table_store \<Rightarrow> registry \<Rightarrow> clients \<Rightarrow> bool" where
  "observed config st rg cl \<longleftrightarrow>
     store_plain st \<and> rg_config rg = config \<and> reg_ok rg \<and> mirrors cl rg \<and>
     (\<forall>i v. view_in rg i v \<longrightarrow> follows config st v)"

lemma reg_ok_cong:
  assumes "rg_subs rg' = rg_subs rg" and "rg_views rg' = rg_views rg" and "rg_counts rg' = rg_counts rg"
    and "rg_config rg' = rg_config rg" and "rg_next_id rg \<le> rg_next_id rg'"
  shows "reg_ok rg \<Longrightarrow> reg_ok rg'" and "mirrors cl rg' \<longleftrightarrow> mirrors cl rg" and "view_in rg' = view_in rg"
proof -
  have v: "view_in rg' = view_in rg" "members rg' = members rg"
    using assms by (simp_all add: view_in_def members_def fun_eq_iff)
  then show "view_in rg' = view_in rg" "mirrors cl rg' \<longleftrightarrow> mirrors cl rg"
    using assms by (simp_all add: mirrors_def)
  show "reg_ok rg \<Longrightarrow> reg_ok rg'" using assms v by (fastforce simp: reg_ok_def member_ok_def)
qed

lemma apply_changes_exact:
  assumes obs: "observed config st rg cl" and h: "history st txs st'"
  shows "\<exists>report rg'. apply_changes st' (concat (map snd txs)) rg = Ok (report, rg') \<and> observed config st' rg' cl"
proof -
  have parts: "store_plain st" "reg_ok rg" "mirrors cl rg" "rg_config rg = config"
    "\<And>i v. view_in rg i v \<Longrightarrow> follows config st v" using obs by (simp_all add: observed_def)
  let ?rg = "rg\<lparr>rg_next_seq := rg_next_seq rg + 1\<rparr>"
  have cong: "reg_ok ?rg" "mirrors cl ?rg" "view_in ?rg = view_in rg"
    using reg_ok_cong [of ?rg rg] parts(2,3) by simp_all
  have "\<exists>tot rg'. apply_groups (rg_next_seq rg) (existing_tables st') (concat (map snd txs)) (by_view ?rg)
      (\<lparr>at_affected = [], at_evaluations = 0, at_deltas = 0, at_fanouts = 0\<rparr>, ?rg) = Ok (tot, rg') \<and>
    reg_ok rg' \<and> mirrors cl rg' \<and> (\<forall>i v. view_in rg' i v \<longrightarrow> follows (rg_config rg') st' v) \<and> rg_config rg' = rg_config ?rg"
  proof (rule apply_groups_exact [OF cong(1,2) parts(1) h])
    show "distinct (map fst (by_view ?rg))" using cong(1) by (rule by_view_groups)
    show "\<forall>(i, ms) \<in> set (by_view ?rg). ms = members ?rg i \<and> (\<exists>v. view_in ?rg i v)"
      using by_view_groups(2) [OF cong(1)] by blast
    show "\<forall>i v. view_in ?rg i v \<longrightarrow> follows (rg_config ?rg) (if i \<in> fst ` set (by_view ?rg) then st else st') v"
      using by_view_groups(3) [OF cong(1)] parts(4,5) cong(3) by simp
  qed
  then obtain tot rg1 where g: "apply_groups (rg_next_seq rg) (existing_tables st') (concat (map snd txs)) (by_view ?rg)
      (\<lparr>at_affected = [], at_evaluations = 0, at_deltas = 0, at_fanouts = 0\<rparr>, ?rg) = Ok (tot, rg1)"
    "reg_ok rg1" "mirrors cl rg1" "\<forall>i v. view_in rg1 i v \<longrightarrow> follows (rg_config rg1) st' v" "rg_config rg1 = config"
    using parts(4) by auto
  have "observed config st' (rg1\<lparr>rg_stats := stats\<rparr>) cl" for stats
    using g(2-5) history_plain [OF h parts(1)] reg_ok_cong [of "rg1\<lparr>rg_stats := stats\<rparr>" rg1] by (simp add: observed_def)
  then show ?thesis using g(1) by (simp add: apply_changes_def Let_def)
qed

section \<open>Scanning a table\<close>

lemma compile_for_no_panic: "compile_for tid schema q config \<noteq> Panic"
proof -
  have "map_res (compile_predicate schema) ps \<noteq> Panic" for ps
    by (induction ps) (auto simp: bind_res_eq_Panic compile_predicate_def ok_or_def split: option.splits)
  moreover have "map_res (\<lambda>n. ok_or InvalidArgument (column_index schema n)) ns \<noteq> Panic" for ns
    by (induction ns) (auto simp: bind_res_eq_Panic ok_or_def split: option.splits)
  ultimately show ?thesis
    by (auto simp: compile_for_def bind_res_eq_Panic ok_or_def split: option.splits)
qed

lemma scan_query_cases:
  obtains (refused) e where "scan_query st q config = Err e"
    | (rows) t cq where "store_table st (q_table q) = Some t"
        "compile_for (table_id_of t) (table_schema_of t) q config = Ok cq"
        "scan_query st q config = Ok (cq, matching_rows t cq)"
proof (cases "store_table st (q_table q)")
  case None
  then show ?thesis using refused by (simp add: scan_query_def compile_def ok_or_def)
next
  case (Some t)
  show ?thesis
  proof (cases "compile_for (table_id_of t) (table_schema_of t) q config")
    case (Ok cq)
    then show ?thesis using rows Some by (simp add: scan_query_def compile_def ok_or_def expect_def)
  next
    case (Err e)
    then show ?thesis using refused Some by (simp add: scan_query_def compile_def ok_or_def)
  next
    case Panic
    then show ?thesis using compile_for_no_panic by simp
  qed
qed

lemma rebuild_follows:
  assumes wf: "store_wf st" and t: "store_table st (q_table (v_query v)) = Some t"
    and cq: "compile_for (table_id_of t) (table_schema_of t) (v_query v) config = Ok cq"
    and cap: "v_cap v = query_cap config (v_query v)"
  shows "\<exists>ds v'. view_rebuild (matching_rows t cq) (set_compiled cq v) = Ok (ds, v') \<and> follows config st v' \<and>
    v_query v' = v_query v \<and> row_map ds = visible_map v' \<and> visible_rows v' = Ok ds"
proof -
  have twf: "table_wf t" using t store_table_by_id [OF wf] table_by_id_wf [OF wf] by blast
  note m = matching_rows_map [OF twf]
  have "\<forall>(rid, r) \<in> set (matching_rows t cq). cq_safe (v_compiled (set_compiled cq v)) r"
    using m(3) compile_safe [OF cq] by (auto simp: set_compiled_def)
  from view_rebuild_exact [OF m(1) this]
  obtain ds v' where v': "view_rebuild (matching_rows t cq) (set_compiled cq v) = Ok (ds, v')" "view_ok v'"
    "same_query (set_compiled cq v) v'" "content v' = map_of (matching_rows t cq)" "row_map ds = visible_map v'"
    "visible_rows v' = Ok ds" by blast
  have "v_query v' = v_query v" "v_compiled v' = cq" "v_cap v' = v_cap v"
    using v'(3) by (simp_all add: same_query_def set_compiled_def)
  with v' t cq cap m(2) show ?thesis by (intro exI [of _ ds] exI [of _ v']) (simp add: follows_def)
qed

lemma follows_answer:
  assumes "follows config st v"
  shows "\<exists>t cq. store_table st (q_table (v_query v)) = Some t \<and> compile st (v_query v) config = Ok cq \<and>
    visible_map v = answer cq (query_cap config (v_query v)) (table_rows t)"
  using assms visible_answer [of v] by (auto simp: follows_def compile_def ok_or_def)

lemma follows_same:
  assumes "follows config st v" and "follows config st w" and "v_query v = v_query w"
  shows "visible_map v = visible_map w"
  using follows_answer [OF assms(1)] follows_answer [OF assms(2)] assms(3) by auto

section \<open>Members come and go\<close>

lemma join_ok:
  assumes ok: "reg_ok rg" and mir: "mirrors cl rg"
    and slot: "(view_in rg i v \<and> views = rg_views rg \<and> counts = rg_counts rg) \<or>
      (i = length (rg_views rg) \<and> views = rg_views rg @ [Some v] \<and> counts = rg_counts rg @ [0] \<and>
       (\<forall>j w. view_in rg j w \<longrightarrow> v_query w \<noteq> v_query v) \<and> 2 \<le> query_cap (rg_config rg) (v_query v))"
    and sid: "sid = rg_next_id rg" "sid \<noteq> - 1"
    and s: "s_view s = i" "s_query s = v_query v" "s_max_buffered s = max_buffered (rg_config rg)"
      "length (s_buffer s) \<le> s_max_buffered s" "client_run (s_buffer s) (cl sid) = Some (visible_map v)"
    and rg': "rg' = rg\<lparr>rg_subs := om_put sid s (rg_subs rg), rg_views := views,
      rg_counts := counts[i := counts ! i + 1], rg_next_id := sid + 1\<rparr>"
  shows "reg_ok rg'" and "mirrors cl rg'" and "view_in rg' j w \<longleftrightarrow> view_in rg j w \<or> j = i \<and> w = v"
    and "om_get (rg_subs rg') sid = Some s"
proof -
  have om: "om_wf (rg_subs rg)" and len: "length (rg_counts rg) = length (rg_views rg)" using ok by (simp_all add: reg_ok_def)
  have mok: "member_ok rg k u" if "om_get (rg_subs rg) k = Some u" for k u using ok that by (simp add: reg_ok_def)
  have lt: "s_view u < length (rg_views rg)" if "om_get (rg_subs rg) k = Some u" for k u
    using mok [OF that] by (auto simp: member_ok_def view_in_def)
  have below: "\<forall>q \<in> set (rg_subs rg). fst q < sid"
    using mok om_get_mem [OF om] sid(1) by (auto simp: member_ok_def)
  then have subs: "rg_subs rg' = rg_subs rg @ [(sid, s)]" by (simp add: rg' om_put_beyond)
  have get: "om_get (rg_subs rg') = (om_get (rg_subs rg))(sid \<mapsto> s)" by (simp add: rg' om_get_put [OF om])
  then show "om_get (rg_subs rg') sid = Some s" by simp
  have mem: "members rg' j = members rg j @ (if j = i then [sid] else [])" for j
    using s(1) by (simp add: members_def subs)
  show views: "view_in rg' j w \<longleftrightarrow> view_in rg j w \<or> j = i \<and> w = v" for j w
    using slot by (auto simp: rg' view_in_def nth_append less_Suc_eq)
  have i: "i < length counts" "length counts = length views" using slot len by (auto simp: view_in_def)
  have none: "members rg j = []" if "length (rg_views rg) \<le> j" for j
  proof -
    have "k \<notin> set (members rg j)" for k
      using lt that members_mem [OF om, of k j] by (metis leD)
    then show ?thesis by (metis list.set_intros(1) neq_Nil_conv)
  qed
  have counts: "rg_counts rg' ! j = length (members rg' j)" if "j < length (rg_counts rg')" for j
  proof -
    have "counts ! j = length (members rg j)"
      using that slot ok none by (auto simp: rg' reg_ok_def nth_append less_Suc_eq)
    moreover have "rg_counts rg' = counts[i := counts ! i + 1]" by (simp add: rg')
    ultimately show ?thesis using that i(1) unfolding mem by (simp add: nth_list_update)
  qed
  have next_id: "sid < sid + 1" using sid(2) version_next_greater [of sid] by (simp add: version_next_def)
  have cap: "2 \<le> query_cap (rg_config rg) (v_query v)" using slot ok by (auto simp: reg_ok_def)
  have member: "member_ok rg' k u" if "om_get (rg_subs rg') k = Some u" for k u
  proof (cases "k = sid")
    case True
    then have "u = s" using that get by simp
    with True s views [of i v] next_id show ?thesis by (auto simp: member_ok_def rg')
  next
    case False
    then have old: "member_ok rg k u" using that get mok by simp
    then have "k < sid + 1" using next_id sid(1) by (auto simp: member_ok_def)
    with old views show ?thesis by (auto simp: member_ok_def rg')
  qed
  have uniq: "j = k" if "view_in rg' j u" "view_in rg' k w" "v_query u = v_query w" for j k u w
  proof -
    have "view_in rg j u \<Longrightarrow> view_in rg k w \<Longrightarrow> j = k" using ok that(3) unfolding reg_ok_def by blast
    moreover have "view_in rg l u' \<Longrightarrow> v_query u' = v_query v \<Longrightarrow> l = i" for l u'
      using slot ok unfolding reg_ok_def by blast
    ultimately show ?thesis using that views by auto
  qed
  have "om_wf (rg_subs rg')" by (simp add: rg' om_wf_put [OF om])
  moreover have "rg_config rg' = rg_config rg" "length (rg_counts rg') = length (rg_views rg')" using i by (simp_all add: rg')
  moreover have "2 \<le> query_cap (rg_config rg) (v_query w) \<and> members rg' j \<noteq> []" if "view_in rg' j w" for j w
    using that views cap ok by (auto simp: mem reg_ok_def)
  ultimately show "reg_ok rg'" using member counts uniq ok unfolding reg_ok_def by auto
  show "mirrors cl rg'" unfolding mirrors_def
  proof (intro allI impI)
    fix k u w assume u: "om_get (rg_subs rg') k = Some u" "s_state u = SubActive" "view_in rg' (s_view u) w"
    show "client_run (s_buffer u) (cl k) = Some (visible_map w)"
    proof (cases "k = sid")
      case True
      then have "u = s" using u(1) get by simp
      moreover have "w = v" using u(3) views slot s(1) \<open>u = s\<close> by (auto simp: view_in_def)
      ultimately show ?thesis using s(5) True by simp
    next
      case False
      then have old: "om_get (rg_subs rg) k = Some u" using u(1) get by simp
      then have "view_in rg (s_view u) w" using mok u(3) views slot by (fastforce simp: member_ok_def view_in_def)
      with old u(2) mir show ?thesis by (simp add: mirrors_def)
    qed
  qed
qed

lemma find_view_cases:
  obtains (found) i v where "find_view rg q = Some i" "view_in rg i v" "v_query v = q"
    | (absent) "find_view rg q = None" "\<forall>j w. view_in rg j w \<longrightarrow> v_query w \<noteq> q"
proof (cases "find_view rg q")
  case None
  then show ?thesis
    using absent by (auto simp: find_view_def position_None view_in_def split: option.splits) (metis nth_mem)
next
  case (Some i)
  then have "i < length (rg_views rg)" "case rg_views rg ! i of Some v \<Rightarrow> v_query v = q | None \<Rightarrow> False"
    using position_Some by (fastforce simp: find_view_def)+
  then show ?thesis using found Some by (auto simp: view_in_def split: option.splits)
qed

lemma initial_run:
  assumes "row_map ds = visible_map v"
  shows "client_run (s_buffer (receive_initial seq ds s)) m = Some (visible_map v)"
    and "client_run (s_buffer (receive_resync seq ds s)) m = Some (visible_map v)"
  using assms by (simp_all add: receive_initial_def receive_resync_def)

lemma subscribe_exact:
  assumes obs: "observed config st rg cl" and cap: "2 \<le> query_cap config q" and ids: "rg_next_id rg \<noteq> - 1"
  shows "(\<exists>rg' s. subscribe st q rg = (Ok (rg_next_id rg), rg') \<and> observed config st rg' cl \<and>
      om_get (rg_subs rg') (rg_next_id rg) = Some s \<and> s_query s = q \<and> s_state s = SubActive) \<or>
    (\<exists>e. scan_query st q config = Err e \<and> subscribe st q rg = (Err e, rg\<lparr>rg_next_id := rg_next_id rg + 1\<rparr>) \<and>
      observed config st (rg\<lparr>rg_next_id := rg_next_id rg + 1\<rparr>) cl)"
proof -
  have parts: "store_plain st" "reg_ok rg" "mirrors cl rg" "rg_config rg = config"
    "\<And>i v. view_in rg i v \<Longrightarrow> follows config st v" using obs by (simp_all add: observed_def)
  have wf: "store_wf st" using parts(1) by (simp add: store_plain_def)
  let ?sid = "rg_next_id rg" and ?rg = "rg\<lparr>rg_next_id := rg_next_id rg + 1\<rparr>"
  have fv: "find_view ?rg q = find_view rg q" by (simp add: find_view_def)
  have join: "\<exists>rg' s. (Ok ?sid, set_sub ?sid (receive_initial (rg_next_seq rg) ds (subscription_new ?sid q (max_buffered config) i))
        (?rg\<lparr>rg_views := views, rg_counts := counts[i := counts ! i + 1]\<rparr>)) = (Ok ?sid, rg') \<and>
      observed config st rg' cl \<and> om_get (rg_subs rg') ?sid = Some s \<and> s_query s = q \<and> s_state s = SubActive"
    if slot: "(view_in rg i v \<and> views = rg_views rg \<and> counts = rg_counts rg) \<or>
      (i = length (rg_views rg) \<and> views = rg_views rg @ [Some v] \<and> counts = rg_counts rg @ [0] \<and>
       (\<forall>j w. view_in rg j w \<longrightarrow> v_query w \<noteq> v_query v) \<and> 2 \<le> query_cap (rg_config rg) (v_query v))"
      and v: "v_query v = q" "follows config st v" "row_map ds = visible_map v" for i v views counts ds
  proof -
    define s where "s = receive_initial (rg_next_seq rg) ds (subscription_new ?sid q (max_buffered config) i)"
    define rg' where "rg' = rg\<lparr>rg_subs := om_put ?sid s (rg_subs rg), rg_views := views,
      rg_counts := counts[i := counts ! i + 1], rg_next_id := ?sid + 1\<rparr>"
    have s: "s_view s = i" "s_query s = v_query v" "s_max_buffered s = max_buffered (rg_config rg)" "s_state s = SubActive"
      "length (s_buffer s) \<le> s_max_buffered s" "client_run (s_buffer s) (cl ?sid) = Some (visible_map v)"
      using v parts(2,4) initial_run(1) [OF v(3)]
      by (simp_all add: s_def receive_initial_def subscription_new_def reg_ok_def)
    note j = join_ok [OF parts(2,3) slot refl ids s(1,2,3,5,6) rg'_def]
    have "observed config st rg' cl"
      using parts j v(2) by (auto simp: observed_def rg'_def)
    with j(4) s(2,4) v(1) show ?thesis
      by (intro exI [of _ rg'] exI [of _ s]) (simp add: s_def rg'_def set_sub_def)
  qed
  show ?thesis
  proof (cases rule: find_view_cases [of rg q])
    case (found i v)
    have i: "i < length (rg_views rg)" "rg_views rg ! i = Some v" using found(2) by (simp_all add: view_in_def)
    have "rg_counts rg ! i \<noteq> 0" "i < length (rg_counts rg)"
      using parts(2) found(2) i(1) unfolding reg_ok_def by auto
    then have sub: "subscribe_view st q ?rg = (Ok i, ?rg)" using found(1) fv by (simp add: subscribe_view_def)
    have fol: "follows config st v" using parts(5) found(2) .
    then obtain ds where ds: "visible_rows v = Ok ds" "row_map ds = visible_map v"
      using visible_rows_ok [of v] by (auto simp: follows_def)
    from join [of i v "rg_views rg" "rg_counts rg" ds] found(2,3) fol ds i sub parts(4) show ?thesis
      by (simp add: subscribe_def Let_def view_at_def expect_def try_res_def)
  next
    case absent
    show ?thesis
    proof (cases rule: scan_query_cases [of st q config])
      case (refused e)
      then have "subscribe st q rg = (Err e, ?rg)"
        using absent(1) fv parts(4) by (simp add: subscribe_def subscribe_view_def Let_def try_res_def)
      moreover have "observed config st ?rg cl"
        using parts reg_ok_cong [of ?rg rg] ids version_next_greater [of "rg_next_id rg"]
        by (simp add: observed_def version_next_def)
      ultimately show ?thesis using refused by blast
    next
      case (rows t cq)
      let ?v = "view_new q cq (max_snapshot_rows config)"
      have v0: "v_cap ?v = query_cap config q" "v_query ?v = q" "set_compiled cq ?v = ?v"
        using compile_for_table(2) [OF rows(2)]
        by (auto simp: view_new_def query_cap_def set_compiled_def split: option.splits)
      obtain ds v where v: "view_rebuild (matching_rows t cq) ?v = Ok (ds, v)" "follows config st v"
        "v_query v = q" "row_map ds = visible_map v" "visible_rows v = Ok ds"
        using rebuild_follows [OF wf, of ?v t config cq, unfolded v0, OF rows(1,2) refl] by blast
      have len: "length (rg_counts rg) = length (rg_views rg)" using parts(2) by (simp add: reg_ok_def)
      let ?rg1 = "?rg\<lparr>rg_views := rg_views rg @ [Some v], rg_counts := rg_counts rg @ [0]\<rparr>"
      have sub: "subscribe_view st q ?rg = (Ok (length (rg_views rg)), ?rg1)"
        using absent(1) fv v(1) rows(3) parts(4) by (simp add: subscribe_view_def try_res_def)
      have eq: "subscribe st q rg = (Ok ?sid, set_sub ?sid (receive_initial (rg_next_seq rg) ds
          (subscription_new ?sid q (max_buffered config) (length (rg_views rg))))
        (?rg\<lparr>rg_views := rg_views rg @ [Some v],
          rg_counts := (rg_counts rg @ [0])[length (rg_views rg) := (rg_counts rg @ [0]) ! length (rg_views rg) + 1]\<rparr>))"
        unfolding subscribe_def Let_def sub using v(5) parts(4) by (simp add: view_at_def expect_def try_res_def)
      show ?thesis unfolding eq
        by (rule disjI1, rule join [of "length (rg_views rg)" v]) (use absent(2) v cap parts(4) in auto)
    qed
  qed
qed

lemma set_sub_ok:
  assumes ok: "reg_ok rg" and mir: "mirrors cl rg" and s: "om_get (rg_subs rg) sid = Some s"
    and s': "s_view s' = s_view s" "s_query s' = s_query s" "s_max_buffered s' = s_max_buffered s"
      "length (s_buffer s') \<le> s_max_buffered s"
    and cl: "\<And>k. k \<noteq> sid \<Longrightarrow> cl' k = cl k"
    and act: "\<And>v. s_state s' = SubActive \<Longrightarrow> view_in rg (s_view s) v \<Longrightarrow>
      client_run (s_buffer s') (cl' sid) = Some (visible_map v)"
  shows "reg_ok (set_sub sid s' rg)" and "mirrors cl' (set_sub sid s' rg)"
    and "view_in (set_sub sid s' rg) = view_in rg"
proof -
  let ?rg = "set_sub sid s' rg"
  have om: "om_wf (rg_subs rg)" using ok by (simp add: reg_ok_def)
  show views: "view_in ?rg = view_in rg" by (simp add: fun_eq_iff view_in_def set_sub_def)
  have get: "om_get (rg_subs ?rg) = (om_get (rg_subs rg))(sid \<mapsto> s')" by (simp add: set_sub_def om_get_put [OF om])
  have mem: "members ?rg j = members rg j" for j
  proof -
    let ?f = "\<lambda>u. if s_view u = s_view s then s' else u"
    have "set_sub sid s' rg = on_members {sid} ?f rg" using set_sub_on_members [OF om s, of ?f] by simp
    then show ?thesis using on_members_members [of ?f] s'(1) by simp
  qed
  have "member_ok ?rg k u" if "om_get (rg_subs ?rg) k = Some u" for k u
  proof -
    have "member_ok rg k u" if "k \<noteq> sid" using that \<open>om_get (rg_subs ?rg) k = Some u\<close> get ok by (simp add: reg_ok_def)
    moreover have "member_ok rg sid s" using reg_ok_member [OF ok s] .
    ultimately show ?thesis using that get s' views by (cases "k = sid") (auto simp: member_ok_def set_sub_def)
  qed
  with ok mem views show "reg_ok ?rg" by (simp add: reg_ok_def om_wf_put set_sub_def)
  show "mirrors cl' ?rg"
    using mir act cl s'(1) by (auto simp: mirrors_def get views)
qed

definition receive :: "u64 \<Rightarrow> subscription_update list \<Rightarrow> clients \<Rightarrow> clients" where
  "receive sid us cl = cl(sid := the (client_run us (cl sid)))"

lemma take_ok:
  assumes obs: "observed config st rg cl" and s: "om_get (rg_subs rg) sid = Some s"
  shows "observed config st (set_sub sid (s\<lparr>s_buffer := []\<rparr>) rg) (receive sid (s_buffer s) cl)"
proof -
  have parts: "reg_ok rg" "mirrors cl rg" using obs by (simp_all add: observed_def)
  have "client_run [] (receive sid (s_buffer s) cl sid) = Some (visible_map v)"
    if "s_state s = SubActive" "view_in rg (s_view s) v" for v
    using parts(2) s that by (auto simp: mirrors_def receive_def)
  then have "reg_ok (set_sub sid (s\<lparr>s_buffer := []\<rparr>) rg)"
    "mirrors (receive sid (s_buffer s) cl) (set_sub sid (s\<lparr>s_buffer := []\<rparr>) rg)"
    "view_in (set_sub sid (s\<lparr>s_buffer := []\<rparr>) rg) = view_in rg"
    using set_sub_ok [OF parts s, of "s\<lparr>s_buffer := []\<rparr>" "receive sid (s_buffer s) cl"] by (simp_all add: receive_def)
  with obs show ?thesis by (simp add: observed_def set_sub_def)
qed

lemma observed_pending: "observed config st (rg\<lparr>rg_pending := ps\<rparr>) cl \<longleftrightarrow> observed config st rg cl"
proof -
  have "reg_ok (rg\<lparr>rg_pending := ps\<rparr>) \<longleftrightarrow> reg_ok rg"
    using reg_ok_cong(1) [of "rg\<lparr>rg_pending := ps\<rparr>" rg] reg_ok_cong(1) [of rg "rg\<lparr>rg_pending := ps\<rparr>"] by auto
  then show ?thesis using reg_ok_cong(2,3) [of "rg\<lparr>rg_pending := ps\<rparr>" rg] by (simp add: observed_def)
qed

lemma drain_exact:
  assumes obs: "observed config st rg cl" and s: "om_get (rg_subs rg) sid = Some s"
  shows "\<exists>rg'. drain sid rg = (Ok (s_buffer s), rg') \<and> observed config st rg' (receive sid (s_buffer s) cl)"
proof -
  let ?rg = "rg\<lparr>rg_pending := filter (\<lambda>x. x \<noteq> sid) (rg_pending rg)\<rparr>"
  have "observed config st ?rg cl" using obs by (simp add: observed_pending)
  from take_ok [OF this, of sid s] s show ?thesis by (simp add: drain_def ok_or_def try_res_def take_buffer_def)
qed

lemma receive_nothing [simp]: "receive sid [] cl = cl"
  by (simp add: receive_def)

lemma drain_ids_exact:
  assumes "observed config st rg cl"
  shows "observed config st (snd (drain_ids sids rg)) (fold (\<lambda>(sid, us). receive sid us) (fst (drain_ids sids rg)) cl)"
  using assms
proof (induction sids arbitrary: rg cl)
  case (Cons sid sids)
  show ?case
  proof (cases "om_get (rg_subs rg) sid")
    case None
    with Cons show ?thesis by simp
  next
    case (Some s)
    with Cons.IH [OF take_ok [OF Cons.prems Some]] show ?thesis
      by (auto simp: take_buffer_def split: prod.splits)
  qed
qed simp

lemma drain_all_exact:
  assumes "observed config st rg cl" and "drain_all_pending rg = (out, rg')"
  shows "observed config st rg' (fold (\<lambda>(sid, us). receive sid us) out cl)"
  using drain_ids_exact [of config st "rg\<lparr>rg_pending := []\<rparr>" cl "rg_pending rg"] assms
  by (simp add: drain_all_pending_def observed_pending)

lemma resync_exact:
  assumes obs: "observed config st rg cl" and s: "om_get (rg_subs rg) sid = Some s"
  shows "\<exists>rg' s' ds. resync st sid rg = (Ok (), rg') \<and> observed config st rg' cl \<and>
    om_get (rg_subs rg') sid = Some s' \<and> s_state s' = SubActive \<and> s_buffer s' = [UResync (rg_next_seq rg) ds] \<and>
    (\<forall>j. j \<noteq> sid \<longrightarrow> om_get (rg_subs rg') j = om_get (rg_subs rg) j) \<and>
    (\<forall>i w. view_in rg i w \<longrightarrow> (\<exists>w'. view_in rg' i w' \<and> visible_map w' = visible_map w))"
proof -
  have parts: "store_plain st" "reg_ok rg" "mirrors cl rg" "rg_config rg = config"
    "\<And>i v. view_in rg i v \<Longrightarrow> follows config st v" using obs by (simp_all add: observed_def)
  have wf: "store_wf st" using parts(1) by (simp add: store_plain_def)
  have m: "member_ok rg sid s" using reg_ok_member [OF parts(2) s] .
  then obtain v where v: "view_in rg (s_view s) v" "v_query v = s_query s" by (auto simp: member_ok_def)
  have fol: "follows config st v" using parts(5) v(1) .
  then obtain t where t: "store_table st (q_table (s_query s)) = Some t"
    "compile_for (table_id_of t) (table_schema_of t) (s_query s) config = Ok (v_compiled v)"
    "v_cap v = query_cap config (s_query s)"
    using v(2) by (auto simp: follows_def)
  let ?q = "v_compiled v"
  have scan: "scan_query st (s_query s) config = Ok (?q, matching_rows t ?q)"
    using t by (simp add: scan_query_def compile_def ok_or_def expect_def)
  obtain ds v' where v': "view_rebuild (matching_rows t ?q) (set_compiled ?q v) = Ok (ds, v')" "follows config st v'"
    "v_query v' = s_query s" "row_map ds = visible_map v'"
    using rebuild_follows [OF wf, of v t config ?q, unfolded v(2), OF t] by blast
  have same: "same_query v v'"
    using v'(2,3) fol v(2) t(1) by (auto simp: follows_def same_query_def)
  have run: "client_run [] (visible_map v) = Some (visible_map v')"
    using follows_same [OF fol v'(2)] v(2) v'(3) by simp
  let ?i = "s_view s"
  have "set_view ?i v' rg = (on_members (set (members rg ?i)) (\<lambda>s. s) (set_view ?i v' rg))\<lparr>rg_pending := rg_pending rg\<rparr>"
    by (simp add: on_members_id set_view_def)
  note step = group_step [OF parts(2,3) v(1) same run delivers_nothing refl this]
  let ?s = "receive_resync (rg_next_seq rg) ds s" and ?rg = "set_view ?i v' rg"
  have s1: "om_get (rg_subs ?rg) sid = Some s" using s by (simp add: set_view_def)
  have "length (s_buffer ?s) \<le> s_max_buffered s"
    using parts(2) m by (simp add: receive_resync_def reg_ok_def member_ok_def)
  moreover have "client_run (s_buffer ?s) (cl sid) = Some (visible_map w)" if "view_in ?rg ?i w" for w
    using that step(3) initial_run(2) [OF v'(4)] by simp
  ultimately have fin: "reg_ok (set_sub sid ?s ?rg)" "mirrors cl (set_sub sid ?s ?rg)" "view_in (set_sub sid ?s ?rg) = view_in ?rg"
    using set_sub_ok [OF step(1,2) s1, of ?s cl] by (simp_all add: receive_resync_def)
  have views: "follows config st w" if "view_in ?rg j w" for j w using that step(3) parts(5) v'(2) by (auto split: if_splits)
  have "observed config st (set_sub sid ?s ?rg) cl"
    using fin views parts(1,4) by (simp add: observed_def) (simp add: set_sub_def set_view_def)
  moreover have "resync st sid rg = (Ok (), set_sub sid ?s ?rg)"
    using s scan parts(4) v(1) v'(1) by (simp add: resync_def ok_or_def try_res_def view_at_def view_in_def expect_def)
  moreover have "om_get (rg_subs (set_sub sid ?s ?rg)) sid = Some ?s"
    using step(1) by (simp add: set_sub_def om_get_put reg_ok_def)
  moreover have "om_get (rg_subs (set_sub sid ?s ?rg)) j = om_get (rg_subs rg) j" if "j \<noteq> sid" for j
    using parts(2) that by (simp add: set_sub_def set_view_def om_get_put reg_ok_def)
  moreover have "\<exists>w'. view_in (set_sub sid ?s ?rg) j w' \<and> visible_map w' = visible_map w" if w: "view_in rg j w" for j w
  proof (cases "j = ?i")
    case True
    then have "w = v" using w v(1) by (simp add: view_in_def)
    then show ?thesis using True run step(3) by (auto simp: fin(3))
  next
    case False
    then show ?thesis using w step(3) by (auto simp: fin(3))
  qed
  ultimately show ?thesis
    by (intro exI [of _ "set_sub sid ?s ?rg"] exI [of _ ?s] exI [of _ ds]) (simp add: receive_resync_def)
qed

lemma unsubscribe_exact:
  assumes obs: "observed config st rg cl" and s: "om_get (rg_subs rg) sid = Some s"
  shows "\<exists>rg'. unsubscribe sid rg = (Ok (), rg') \<and> observed config st rg' cl \<and>
    om_get (rg_subs rg') = (om_get (rg_subs rg))(sid := None) \<and>
    (\<forall>i v. view_in rg' i v \<longleftrightarrow> view_in rg i v \<and> (i = s_view s \<longrightarrow> members rg i \<noteq> [sid]))"
proof -
  have parts: "store_plain st" "reg_ok rg" "mirrors cl rg" "rg_config rg = config"
    "\<And>i v. view_in rg i v \<Longrightarrow> follows config st v" using obs by (simp_all add: observed_def)
  have om: "om_wf (rg_subs rg)" and len: "length (rg_counts rg) = length (rg_views rg)" using parts(2) by (simp_all add: reg_ok_def)
  have mok: "member_ok rg k u" if "om_get (rg_subs rg) k = Some u" for k u using parts(2) that by (simp add: reg_ok_def)
  let ?i = "s_view s" and ?ms = "members rg (s_view s)"
  have i: "?i < length (rg_views rg)" using mok [OF s] by (auto simp: member_ok_def view_in_def)
  have inm: "sid \<in> set ?ms" using s members_mem [OF om] by auto
  define n where "n = length ?ms - 1"
  have count: "rg_counts rg ! ?i = Suc n" using parts(2) i len inm unfolding reg_ok_def n_def by (cases ?ms) auto
  define rg' where "rg' = rg\<lparr>rg_subs := om_del sid (rg_subs rg), rg_counts := (rg_counts rg)[?i := n],
    rg_views := (if n = 0 then (rg_views rg)[?i := None] else rg_views rg)\<rparr>"
  have eq: "unsubscribe sid rg = (Ok (), rg')"
    using s i len count by (simp add: unsubscribe_def ok_or_def try_res_def Let_def rg'_def)
  have get: "om_get (rg_subs rg') = (om_get (rg_subs rg))(sid := None)" by (simp add: rg'_def om_get_del)
  have mem: "members rg' j = filter (\<lambda>k. k \<noteq> sid) (members rg j)" for j
    by (simp add: members_def rg'_def om_del_def filter_map o_def case_prod_beta conj_commute)
  have one: "n = 0 \<longleftrightarrow> ?ms = [sid]" using inm by (cases ?ms) (auto simp: n_def)
  have views: "view_in rg' j w \<longleftrightarrow> view_in rg j w \<and> (j = ?i \<longrightarrow> ?ms \<noteq> [sid])" for j w
    using i one by (auto simp: view_in_def rg'_def nth_list_update split: if_splits)
  have dist: "distinct ?ms" by (rule members_distinct [OF om])
  have size: "length (filter (\<lambda>k. k \<noteq> sid) ?ms) = n"
  proof -
    have "length (filter (\<lambda>k. k \<noteq> sid) ?ms) = card (set ?ms - {sid})"
      using distinct_card [of "filter (\<lambda>k. k \<noteq> sid) ?ms"] dist by (simp add: set_diff_eq)
    then show ?thesis using inm distinct_card [OF dist] by (simp add: n_def)
  qed
  have other: "sid \<notin> set (members rg j)" if "j \<noteq> ?i" for j using that s members_mem [OF om] by auto
  have counts: "rg_counts rg' ! j = length (members rg' j)" if "j < length (rg_counts rg)" for j
  proof (cases "j = ?i")
    case True
    then show ?thesis using that size unfolding mem by (simp add: rg'_def)
  next
    case False
    then have "filter (\<lambda>k. k \<noteq> sid) (members rg j) = members rg j" using other by (auto simp: filter_id_conv)
    then show ?thesis using False that parts(2) unfolding mem by (simp add: rg'_def reg_ok_def)
  qed
  have member: "member_ok rg' k u" if u: "om_get (rg_subs rg') k = Some u" for k u
  proof -
    have old: "om_get (rg_subs rg) k = Some u" "k \<noteq> sid" using u get by (auto split: if_splits)
    then have "s_view u = ?i \<Longrightarrow> ?ms \<noteq> [sid]" using members_mem [OF om, of k ?i] by auto
    with mok [OF old(1)] views show ?thesis by (auto simp: member_ok_def rg'_def)
  qed
  have nonempty: "members rg' j \<noteq> []" if w: "view_in rg' j w" for j w
  proof (cases "j = ?i")
    case True
    then have "n \<noteq> 0" using w views one by simp
    then show ?thesis using True size unfolding mem by auto
  next
    case False
    then have "filter (\<lambda>k. k \<noteq> sid) (members rg j) = members rg j" using other by (auto simp: filter_id_conv)
    then show ?thesis using w views parts(2) unfolding mem by (auto simp: reg_ok_def)
  qed
  have fields: "om_wf (rg_subs rg')" "rg_config rg' = rg_config rg" "length (rg_counts rg') = length (rg_counts rg)"
    "length (rg_views rg') = length (rg_views rg)" using om by (simp_all add: rg'_def om_wf_del)
  have "reg_ok rg'"
    using member counts nonempty views parts(2) fields unfolding reg_ok_def by (metis (no_types, lifting))
  moreover have "mirrors cl rg'" using parts(3) get views by (auto simp: mirrors_def split: if_splits)
  ultimately have "observed config st rg' cl" using parts(1,4,5) fields(2) views unfolding observed_def by blast
  with eq get views show ?thesis by auto
qed

lemma refresh_same:
  assumes obs: "observed config st rg cl"
  shows "refresh st rg = rg"
proof -
  have wf: "store_wf st" using obs by (simp add: observed_def store_plain_def)
  have "cq_table_id (v_compiled v) \<in> existing_tables st" if v: "view_in rg i v" for i v
  proof -
    have "follows config st v" using obs v by (simp add: observed_def)
    then obtain t where "store_table st (q_table (v_query v)) = Some t" "cq_table_id (v_compiled v) = table_id_of t"
      using compile_for_table(1) by (auto simp: follows_def)
    then show ?thesis using map_of_SomeD by (force simp: existing_tables_def store_table_def)
  qed
  then have there: "(i < length (rg_views rg) \<and> (case rg_views rg ! i of
      Some v \<Rightarrow> cq_table_id (v_compiled v) \<notin> existing_tables st | None \<Rightarrow> False)) = False" for i
    by (auto simp: view_in_def split: option.splits)
  show ?thesis unfolding refresh_def Let_def there by simp
qed

section \<open>Runs\<close>

text \<open>A store, a registry and the row maps of its clients. Transactions commit and the registry is told
  of their changes; clients subscribe (with a window of at least two rows), apply what is drained for them,
  ask for a fresh copy and leave.\<close>

inductive observing :: "subscription_config \<Rightarrow> table_store \<Rightarrow> registry \<Rightarrow> clients \<Rightarrow> bool" for config where
  start: "observing config st rg (\<lambda>_. Map.empty)"
    if "store_plain st" "with_config config = Ok rg" "max_buffered config < usize_max"
| idle: "observing config st' rg cl"
    if "observing config st rg cl" "history st txs st'" "concat (map snd txs) = []"
| commit: "observing config st' rg' cl"
    if "observing config st rg cl" "history st [(txid, cs)] st'" "apply_changes st' cs rg = Ok (report, rg')"
| subscribe: "observing config st rg' cl"
    if "observing config st rg cl" "subscribe st q rg = (res, rg')" "2 \<le> query_cap config q" "rg_next_id rg \<noteq> - 1"
| drain: "observing config st rg' (receive sid us cl)"
    if "observing config st rg cl" "drain sid rg = (Ok us, rg')"
| drain_all: "observing config st rg' (fold (\<lambda>(sid, us). receive sid us) out cl)"
    if "observing config st rg cl" "drain_all_pending rg = (out, rg')"
| resync: "observing config st rg' cl"
    if "observing config st rg cl" "resync st sid rg = (res, rg')"
| refresh: "observing config st (refresh st rg) cl"
    if "observing config st rg cl"
| unsubscribe: "observing config st rg' cl"
    if "observing config st rg cl" "unsubscribe sid rg = (res, rg')"

lemma follows_history:
  assumes "follows config st v" and "store_plain st" and "history st txs st'" and quiet: "concat (map snd txs) = []"
  shows "follows config st' v"
proof -
  have wf: "store_wf st" "store_wf st'" using assms(2) history_plain [OF assms(3,2)] by (simp_all add: store_plain_def)
  obtain t where t: "store_table st (q_table (v_query v)) = Some t"
    "compile_for (table_id_of t) (table_schema_of t) (v_query v) config = Ok (v_compiled v)"
    "content v = matching_map (v_compiled v) (table_rows t)" using assms(1) by (auto simp: follows_def)
  obtain t' where t': "table_by_id st' (table_id_of t) = Some t'" "table_id_of t' = table_id_of t"
    "table_schema_of t' = table_schema_of t" "table_rows t' = table_rows t"
    using history_tables [OF assms(3,2), of "table_id_of t" t, unfolded quiet] t(1) store_table_by_id [OF wf(1)]
    by auto
  then have "store_table st' (q_table (v_query v)) = Some t'"
    using t(1) store_table_by_id [OF wf(1)] store_table_by_id [OF wf(2)] by simp
  with assms(1) t t' show ?thesis by (simp add: follows_def)
qed

lemma observing_observed: "observing config st rg cl \<Longrightarrow> observed config st rg cl"
proof (induction rule: observing.induct)
  case (start st rg)
  then have "config_validate config = Ok ()" "rg = registry_with config"
    by (auto simp: with_config_def bind_res_eq_Ok)
  with start show ?case
    by (auto simp: observed_def reg_ok_def mirrors_def registry_with_def view_in_def config_validate_def split: if_splits)
next
  case (idle st rg cl txs st')
  have parts: "store_plain st" "rg_config rg = config" "reg_ok rg" "mirrors cl rg"
    "\<And>i v. view_in rg i v \<Longrightarrow> follows config st v" using idle.IH by (simp_all add: observed_def)
  show ?case unfolding observed_def
    using parts history_plain [OF idle.hyps(2) parts(1)] follows_history [OF parts(5) parts(1) idle.hyps(2,3)] by blast
next
  case (commit st rg cl txid cs st' report rg')
  then show ?case using apply_changes_exact [of config st rg cl "[(txid, cs)]" st'] by auto
next
  case (subscribe st rg cl q res rg')
  then show ?case using subscribe_exact [of config st rg cl q] by auto
next
  case (drain st rg cl sid us rg')
  show ?case
  proof (cases "om_get (rg_subs rg) sid")
    case None
    then show ?thesis using drain.hyps(2) by (simp add: drain_def ok_or_def try_res_def)
  next
    case (Some s)
    then show ?thesis using drain_exact [OF drain.IH Some] drain.hyps(2) by auto
  qed
next
  case (drain_all st rg cl out rg')
  then show ?case by (auto intro: drain_all_exact)
next
  case (resync st rg cl sid res rg')
  show ?case
  proof (cases "om_get (rg_subs rg) sid")
    case None
    then show ?thesis using resync by (simp add: resync_def ok_or_def try_res_def)
  next
    case (Some s)
    then show ?thesis using resync_exact [OF resync.IH Some] resync.hyps(2) by auto
  qed
next
  case (refresh st rg cl)
  then show ?case by (simp add: refresh_same)
next
  case (unsubscribe st rg cl sid res rg')
  show ?case
  proof (cases "om_get (rg_subs rg) sid")
    case None
    then show ?thesis using unsubscribe by (simp add: unsubscribe_def ok_or_def try_res_def)
  next
    case (Some s)
    then show ?thesis using unsubscribe_exact [OF unsubscribe.IH Some] unsubscribe.hyps(2) by auto
  qed
qed

lemma observed_answer:
  assumes obs: "observed config st rg cl" and s: "om_get (rg_subs rg) sid = Some s" and act: "s_state s = SubActive"
  shows "\<exists>t cq. store_table st (q_table (s_query s)) = Some t \<and> compile st (s_query s) config = Ok cq \<and>
    client_run (s_buffer s) (cl sid) = Some (answer cq (query_cap config (s_query s)) (table_rows t))"
proof -
  have parts: "reg_ok rg" "mirrors cl rg" "\<And>i v. view_in rg i v \<Longrightarrow> follows config st v"
    using obs by (simp_all add: observed_def)
  obtain v where v: "view_in rg (s_view s) v" "v_query v = s_query s"
    using reg_ok_member [OF parts(1) s] by (auto simp: member_ok_def)
  have "client_run (s_buffer s) (cl sid) = Some (visible_map v)" using parts(2) s act v(1) by (simp add: mirrors_def)
  with follows_answer [OF parts(3) [OF v(1)]] v(2) show ?thesis by auto
qed

end
