(* ===== verification/Sub_Examples.thy ===== *)
theory Sub_Examples
  imports Sub_Observe Nexum_Runs
begin

text \<open>A run with a subscription, for the witnesses: a client subscribes to the two units with the highest owners
  before the transaction of the run commits.\<close>

definition ex_query :: query where
  "ex_query = qb_limit 2 (qb_order_by ''owner'' Descending (query_builder_new ''units''))"

definition ex_config :: subscription_config where
  "ex_config = \<lparr>max_buffered = 8, max_snapshot_rows = 8, max_predicates = 4, max_projection_columns = 4\<rparr>"

definition ex_reg_joined :: registry where
  "ex_reg_joined = snd (subscribe ex_begun ex_query (registry_with ex_config))"

definition ex_reg_after :: registry where
  "ex_reg_after = (case apply_changes ex_after ex_changes ex_reg_joined of Ok (_, rg) \<Rightarrow> rg | _ \<Rightarrow> ex_reg_joined)"

definition ex_buffer :: "subscription_update list" where
  "ex_buffer =
     [UInitial 0 [\<lparr>dr_row_id = 0, dr_row = ex_row 1 10\<rparr>], UUpdate 0 \<lparr>dr_row_id = 0, dr_row = ex_row 1 11\<rparr>,
      UInsert 0 \<lparr>dr_row_id = 1, dr_row = ex_row 2 20\<rparr>]"

lemma ex_member:
  "map_option (\<lambda>s. (s_query s, s_state s, s_buffer s)) (om_get (rg_subs ex_reg_joined) 0) = Some (ex_query, SubActive, take 1 ex_buffer)"
  by code_simp

lemma ex_member_after:
  "map_option (\<lambda>s. (s_query s, s_state s, s_buffer s)) (om_get (rg_subs ex_reg_after) 0) = Some (ex_query, SubActive, ex_buffer)"
  by code_simp


lemma ex_commit_history: "history ex_begun [(0, ex_changes)] ex_after"
proof -
  have next0: "next_transaction_id ex_store = 0" "tx_id ex_tx = 0" by code_simp+
  have room: "has_room ex_begun (length (ws_entries (tx_writes ex_tx)))"
    using ex_room [of 2] by (simp add: ex_writes(3) has_room_def ex_begun_def alloc_by_id)
  obtain tx' st' where c: "tx_commit ex_tx ex_begun = (Ok ex_changes, tx', st')"
    using ex_commit by (cases "tx_commit ex_tx ex_begun") (auto simp: prod_eq_iff)
  have "tx_id ex_tx < next_transaction_id ex_begun"
    by (simp add: next0 ex_begun_def alloc_transaction_id_def)
  from history.h_commit [OF history.h_start ex_tx_reach this room c] show ?thesis
    using c by (simp add: next0 ex_after_def)
qed

lemma ex_begun_plain: "store_plain ex_begun"
proof -
  have "history ex_store [] ex_begun"
    unfolding ex_begun_def by (rule history.h_begin [OF history.h_start]) code_simp
  then show ?thesis using ex_store_plain by (rule history_plain)
qed

lemma ex_joined: "observing ex_config ex_begun ex_reg_joined (\<lambda>_. Map.empty)"
proof -
  have start: "observing ex_config ex_begun (registry_with ex_config) (\<lambda>_. Map.empty)"
    by (rule observing.start [OF ex_begun_plain])
      (simp_all add: with_config_def config_validate_def ex_config_def usize_max_def)
  have "2 \<le> query_cap ex_config ex_query" by code_simp
  moreover have "rg_next_id (registry_with ex_config) \<noteq> - 1" by (simp add: registry_with_def)
  ultimately show ?thesis
    unfolding ex_reg_joined_def by (intro observing.subscribe [OF start, where res = "fst (subscribe ex_begun ex_query (registry_with ex_config))" and q = ex_query]) simp_all
qed

lemma ex_observing: "observing ex_config ex_after ex_reg_after (\<lambda>_. Map.empty)"
proof -
  have "\<exists>report rg'. apply_changes ex_after ex_changes ex_reg_joined = Ok (report, rg')"
    using apply_changes_exact [OF observing_observed [OF ex_joined] ex_commit_history] by auto
  then obtain report rg' where a: "apply_changes ex_after ex_changes ex_reg_joined = Ok (report, rg')" by blast
  from observing.commit [OF ex_joined ex_commit_history this] a show ?thesis by (simp add: ex_reg_after_def)
qed

text \<open>A window of one row: the lowest owner, who is then moved behind the other unit.\<close>

definition ex_query_one :: query where
  "ex_query_one = qb_limit 1 (qb_order_by ''owner'' Ascending (query_builder_new ''units''))"

definition ex_compiled_one :: compiled_query where
  "ex_compiled_one = (case compile ex_after ex_query_one ex_config of Ok q \<Rightarrow> q)"

definition ex_view_one :: shared_view where
  "ex_view_one =
     (case view_rebuild [(0, ex_row 1 11), (1, ex_row 2 20)] (view_new ex_query_one ex_compiled_one 8) of Ok (_, v) \<Rightarrow> v)"

definition ex_move :: change where
  "ex_move = change_update 0 0 (ex_row 1 11) 1 (ex_row 1 99) 2"

lemma ex_compiled_one:
  "cq_order_position ex_compiled_one = Some 1" "cq_projection ex_compiled_one = None" "cq_matches ex_compiled_one (ex_row 1 99)"
  by code_simp+

lemma ex_safe_one: "cq_safe ex_compiled_one (ex_row i j)"
  by (simp add: cq_safe_def ex_compiled_one ex_row_def row_len_def)

lemma ex_view_one: "view_ok ex_view_one" "v_compiled ex_view_one = ex_compiled_one" "v_cap ex_view_one = 1"
  "0 \<in> v_visible_ids ex_view_one" "(key_at ex_compiled_one (ex_row 2 20) 1, ex_row 2 20) \<in> set (v_window ex_view_one)"
proof -
  let ?v = "view_new ex_query_one ex_compiled_one 8"
  have "\<forall>(rid, r) \<in> set [(0, ex_row 1 11), (1, ex_row 2 20)]. cq_safe (v_compiled ?v) r"
    using ex_safe_one by (simp add: view_new_def)
  from view_rebuild_exact [OF _ this] obtain ds v where "view_rebuild [(0, ex_row 1 11), (1, ex_row 2 20)] ?v = Ok (ds, v)" "view_ok v" "same_query ?v v"
    by auto
  then show "view_ok ex_view_one" "v_compiled ex_view_one = ex_compiled_one" by (simp_all add: ex_view_one_def same_query_def view_new_def)
  show "v_cap ex_view_one = 1" "0 \<in> v_visible_ids ex_view_one"
    "(key_at ex_compiled_one (ex_row 2 20) 1, ex_row 2 20) \<in> set (v_window ex_view_one)" by code_simp+
qed

lemma ex_move_behind: "key_cmp (key_at ex_compiled_one (ex_row 2 20) 1) (key_at ex_compiled_one (ex_row 1 99) 0) = Less"
  by code_simp

lemma ex_drain_all:
  "has_pending ex_reg_after 0 = Ok True" "fst (drain_all_pending ex_reg_after) = []"
  by code_simp+

end
