(* ===== verification/Net_Wire.thy ===== *)
theory Net_Wire
  imports Core_Crc Wal_Record
begin

text \<open>
  The framing of \<^verbatim>\<open>nexum-network/src/protocol.rs\<close>: outcomes with protocol errors, the checked readers of the
  network boundary, and frames (magic, version, kind, length, payload, checksum). Decoders of
  \<^verbatim>\<open>nexum-core\<close> are used through the conversion of their errors (\<^verbatim>\<open>From<Error> for ProtocolError\<close>).
\<close>

section \<open>Outcomes\<close>

datatype protocol_error =
    BadMagic
  | UnsupportedVersion u16
  | Oversized u64 u64
  | Truncated
  | BadChecksum
  | UnknownKind u8
  | Malformed

fun protocol_error_code :: "protocol_error \<Rightarrow> u16" where
  "protocol_error_code BadMagic = 1"
| "protocol_error_code (UnsupportedVersion _) = 2"
| "protocol_error_code (Oversized _ _) = 3"
| "protocol_error_code Truncated = 4"
| "protocol_error_code BadChecksum = 5"
| "protocol_error_code (UnknownKind _) = 6"
| "protocol_error_code Malformed = 7"

datatype auth_error = InvalidCredentials | AuthInternal

text \<open>The variants that wrap failures of the runtime and the transport carry nothing here.\<close>

datatype network_error =
    UnknownConnection u64
  | ConnectionLimit
  | NetProtocol protocol_error
  | NetAuth auth_error
  | NetSession
  | NetRuntime
  | NetCore error
  | NetCapacity
  | NetTransport
  | NetShutdown
  | NetInternal

datatype ('e, 'a) outcome = WOk 'a | WErr 'e | WPanic

type_synonym 'a wire = "(protocol_error, 'a) outcome"

fun bind_wire :: "('e, 'a) outcome \<Rightarrow> ('a \<Rightarrow> ('e, 'b) outcome) \<Rightarrow> ('e, 'b) outcome" where
  "bind_wire (WOk x) f = f x"
| "bind_wire (WErr e) f = WErr e"
| "bind_wire WPanic f = WPanic"

text \<open>Every core error becomes a malformed message.\<close>

fun from_core :: "'a res \<Rightarrow> 'a wire" where
  "from_core (Ok x) = WOk x"
| "from_core (Err e) = WErr Malformed"
| "from_core Panic = WPanic"

lemma bind_wire_not_Panic:
  "bind_wire m f \<noteq> WPanic \<longleftrightarrow> m \<noteq> WPanic \<and> (\<forall>x. m = WOk x \<longrightarrow> f x \<noteq> WPanic)"
  by (cases m) auto

lemma bind_wire_eq_WOk: "bind_wire m f = WOk y \<longleftrightarrow> (\<exists>x. m = WOk x \<and> f x = WOk y)"
  by (cases m) auto

lemma from_core_not_Panic [simp]: "from_core m \<noteq> WPanic \<longleftrightarrow> m \<noteq> Panic"
  by (cases m) auto

lemma from_core_WOk [simp]: "from_core m = WOk x \<longleftrightarrow> m = Ok x"
  by (cases m) auto

section \<open>Readers\<close>

type_synonym 'a reader = "u8 list \<Rightarrow> ('a \<times> u8 list) wire"

definition lift_core :: "'a decoder \<Rightarrow> 'a reader" where
  "lift_core d c = from_core (d c)"

definition net_take_bytes :: "nat \<Rightarrow> u8 list reader" where
  "net_take_bytes n c = (if length c < n then WErr Truncated else WOk (take n c, drop n c))"

definition net_take_byte :: "u8 reader" where
  "net_take_byte c = bind_wire (net_take_bytes 1 c) (\<lambda>(bs, c). WOk (hd bs, c))"

definition put_u16 :: "u16 \<Rightarrow> u8 list" where
  "put_u16 v = to_le 2 v"

definition get_u16 :: "u16 reader" where
  "get_u16 c = bind_wire (net_take_bytes 2 c) (\<lambda>(bs, c). WOk (from_le bs, c))"

definition put_u32 :: "u32 \<Rightarrow> u8 list" where
  "put_u32 v = to_le 4 v"

definition get_u32 :: "u32 reader" where
  "get_u32 c = bind_wire (net_take_bytes 4 c) (\<lambda>(bs, c). WOk (from_le bs, c))"

definition ensure_consumed :: "u8 list \<Rightarrow> unit wire" where
  "ensure_consumed c = (if c = [] then WOk () else WErr Malformed)"

text \<open>\<^verbatim>\<open>for _ in 0..count\<close> over a reader.\<close>

fun read_n :: "'a reader \<Rightarrow> nat \<Rightarrow> 'a list reader" where
  "read_n d 0 c = WOk ([], c)"
| "read_n d (Suc n) c =
     bind_wire (d c) (\<lambda>(x, c). bind_wire (read_n d n c) (\<lambda>(xs, c). WOk (x # xs, c)))"

text \<open>What the network boundary relies on of a reader: it reads back what was written and never panics.\<close>

locale wire_codec =
  fixes enc :: "'a \<Rightarrow> u8 list" and rd :: "'a reader" and valid :: "'a \<Rightarrow> bool"
  assumes rd_enc: "valid x \<Longrightarrow> rd (enc x @ rest) = WOk (x, rest)"
begin

lemma read_n_enc:
  "\<forall>x \<in> set xs. valid x \<Longrightarrow> read_n rd (length xs) (concat (map enc xs) @ rest) = WOk (xs, rest)"
  by (induction xs arbitrary: rest) (simp_all add: rd_enc)

end

sublocale codec \<subseteq> net: wire_codec enc "lift_core dec" valid
  by unfold_locales (simp add: lift_core_def dec_enc)

lemma lift_core_not_Panic [simp]: "lift_core d c \<noteq> WPanic \<longleftrightarrow> d c \<noteq> Panic"
  by (simp add: lift_core_def)

lemma read_n_not_Panic: "(\<And>c. d c \<noteq> WPanic) \<Longrightarrow> read_n d n c \<noteq> WPanic"
  by (induction n arbitrary: c) (auto simp: bind_wire_not_Panic)

lemma net_reads_not_Panic [simp]:
  "net_take_bytes n c \<noteq> WPanic" "net_take_byte c \<noteq> WPanic" "get_u16 c \<noteq> WPanic" "get_u32 c \<noteq> WPanic"
  "ensure_consumed c \<noteq> WPanic"
  by (auto simp: net_take_bytes_def net_take_byte_def get_u16_def get_u32_def ensure_consumed_def bind_wire_not_Panic)

lemma net_take_append: "length bs = n \<Longrightarrow> net_take_bytes n (bs @ c) = WOk (bs, c)"
  by (simp add: net_take_bytes_def)

lemma net_reads_enc [codec_simps]:
  "net_take_byte (b # c) = WOk (b, c)"
  "get_u16 (put_u16 h @ c) = WOk (h, c)"
  "get_u32 (put_u32 q @ c) = WOk (q, c)"
  "ensure_consumed [] = WOk ()"
  by (simp_all add: net_take_byte_def net_take_bytes_def get_u16_def get_u32_def put_u16_def put_u32_def
      ensure_consumed_def)

section \<open>Frames\<close>

definition protocol_magic :: "u8 list" where
  "protocol_magic = [0x4E, 0x45, 0x58, 0x4E]"

definition protocol_version :: u16 where
  "protocol_version = 2"

definition frame_header_len :: nat where
  "frame_header_len = 11"

definition frame_crc :: "u16 \<Rightarrow> u8 \<Rightarrow> u8 list \<Rightarrow> u32" where
  "frame_crc v kind payload =
     crc32_finalize (crc32_chain payload (crc32_chain [kind] (crc32_chain (to_le 2 v) crc32_new)))"

definition build_frame :: "u8 \<Rightarrow> u8 list \<Rightarrow> u32 \<Rightarrow> (network_error, u8 list) outcome" where
  "build_frame kind payload max_payload =
     (if unat max_payload < length payload then WErr NetCapacity
      else WOk (protocol_magic @ put_u16 protocol_version @ [kind] @ put_u32 (word_of_nat (length payload)) @
        payload @ put_u32 (frame_crc protocol_version kind payload)))"

definition decode_frame :: "u8 list \<Rightarrow> u32 \<Rightarrow> (u8 \<times> u8 list) wire" where
  "decode_frame frame max_payload =
     (if length frame < frame_header_len then WErr Truncated
      else if take 4 frame \<noteq> protocol_magic then WErr BadMagic
      else
        let v = from_le [frame ! 4, frame ! 5] in
        if v \<noteq> protocol_version then WErr (UnsupportedVersion v)
        else
          let kind = frame ! 6;
              payload_len = (from_le [frame ! 7, frame ! 8, frame ! 9, frame ! 10] :: u32) in
          if max_payload < payload_len then WErr (Oversized (ucast payload_len) (ucast max_payload))
          else
            let n = unat payload_len; total = frame_header_len + n + 4 in
            if length frame < total then WErr Truncated
            else
              let payload = take n (drop frame_header_len frame);
                  stored = from_le (take 4 (drop (frame_header_len + n) frame)) in
              if frame_crc v kind payload \<noteq> stored then WErr BadChecksum else WOk (kind, payload))"

definition net_parse_frame :: "u8 list \<Rightarrow> u32 \<Rightarrow> (u8 list \<times> nat) option wire" where
  "net_parse_frame buf max_payload =
     (if length buf < frame_header_len then WOk None
      else if take 4 buf \<noteq> protocol_magic then WErr BadMagic
      else
        let v = from_le [buf ! 4, buf ! 5] in
        if v \<noteq> protocol_version then WErr (UnsupportedVersion v)
        else
          let kind = buf ! 6;
              payload_len = (from_le [buf ! 7, buf ! 8, buf ! 9, buf ! 10] :: u32) in
          if max_payload < payload_len then WErr (Oversized (ucast payload_len) (ucast max_payload))
          else
            let n = unat payload_len; total = frame_header_len + n + 4 in
            if length buf < total then WOk None
            else
              let frame = take total buf;
                  payload = take n (drop frame_header_len frame);
                  stored = from_le (take 4 (drop (frame_header_len + n) frame)) in
              if frame_crc v kind payload \<noteq> stored then WErr BadChecksum else WOk (Some (frame, total)))"


subsection \<open>What a frame is to its reader\<close>

lemma header_lengths [simp]:
  "length protocol_magic = 4" "length (put_u16 h) = 2" "length (put_u32 q) = 4"
  by (simp_all add: protocol_magic_def put_u16_def put_u32_def)

lemma to_le_bytes:
  "to_le 2 w = [ucast w, ucast (drop_bit 8 w)]"
  "to_le 4 w = [ucast w, ucast (drop_bit 8 w), ucast (drop_bit 16 w), ucast (drop_bit 24 w)]"
  by (simp_all add: to_le_def upt_rec numeral_eq_Suc)

lemma frame_crc_eq: "frame_crc v kind payload = crc32 (to_le 2 v @ kind # payload)"
  by (simp add: frame_crc_def crc32_def crc32_chain_append)

lemma header_fields:
  assumes "buf = protocol_magic @ put_u16 v @ [kind] @ put_u32 n @ rest"
  shows "length buf = frame_header_len + length rest" and "take 4 buf = protocol_magic"
    and "from_le [buf ! 4, buf ! 5] = v" and "buf ! 6 = kind"
    and "from_le [buf ! 7, buf ! 8, buf ! 9, buf ! 10] = n" and "drop frame_header_len buf = rest"
proof -
  have v: "from_le [ucast v, ucast (drop_bit 8 v)] = v" using from_le_to_le_widths(1) [of v] by (simp only: to_le_bytes)
  have n: "from_le [ucast n, ucast (drop_bit 8 n), ucast (drop_bit 16 n), ucast (drop_bit 24 n)] = n"
    using from_le_to_le_widths(2) [of n] by (simp only: to_le_bytes)
  note parts = assms protocol_magic_def put_u16_def put_u32_def to_le_bytes frame_header_len_def
  show "length buf = frame_header_len + length rest" "take 4 buf = protocol_magic" "buf ! 6 = kind"
      "drop frame_header_len buf = rest"
    by (simp_all add: parts)
  show "from_le [buf ! 4, buf ! 5] = v" using v by (simp add: parts)
  show "from_le [buf ! 7, buf ! 8, buf ! 9, buf ! 10] = n" using n by (simp add: parts)
qed

text \<open>The frame around a payload.\<close>

definition frame_of :: "u8 \<Rightarrow> u8 list \<Rightarrow> u8 list" where
  "frame_of kind payload = protocol_magic @ put_u16 protocol_version @ [kind] @
     put_u32 (word_of_nat (length payload)) @ payload @ put_u32 (frame_crc protocol_version kind payload)"

lemma build_frame_eq:
  "build_frame kind payload mx = (if unat mx < length payload then WErr NetCapacity else WOk (frame_of kind payload))"
  by (simp add: build_frame_def frame_of_def)

lemma payload_length:
  assumes "length payload \<le> unat (mx :: u32)"
  shows "unat (word_of_nat (length payload) :: u32) = length payload" and "\<not> mx < word_of_nat (length payload)"
proof -
  have "length payload < 2 ^ 32" using assms unsigned_less [of mx, where 'a = nat] by simp
  then show l: "unat (word_of_nat (length payload) :: u32) = length payload"
    by (simp add: unsigned_of_nat take_bit_nat_eq_self)
  show "\<not> mx < word_of_nat (length payload)" using assms by (simp add: word_less_nat_alt l)
qed

text \<open>Reading \<open>body\<close> and a checksum behind the header that announces a payload of the length of \<open>body\<close>.\<close>

lemma read_frame:
  assumes fits: "length body \<le> unat mx"
    and buf: "buf = protocol_magic @ put_u16 protocol_version @ [kind] @ put_u32 (word_of_nat (length body)) @
      body @ crc @ rest" and crc: "length crc = 4"
  shows "decode_frame buf mx = (if frame_crc protocol_version kind body \<noteq> from_le crc then WErr BadChecksum else WOk (kind, body))"
    and "net_parse_frame buf mx = (if frame_crc protocol_version kind body \<noteq> from_le crc then WErr BadChecksum
      else WOk (Some (take (length body + 15) buf, length body + 15)))"
proof -
  note h = header_fields [OF buf]
  have len: "length buf = 11 + length body + 4 + length rest" using h(1) crc by (simp add: frame_header_len_def)
  have drop2: "drop (frame_header_len + k) buf = drop k (body @ crc @ rest)" for k
    using h(6) by (metis add.commute drop_drop)
  show "decode_frame buf mx = (if frame_crc protocol_version kind body \<noteq> from_le crc then WErr BadChecksum else WOk (kind, body))"
    using len payload_length [OF fits] crc
    by (simp add: decode_frame_def h drop2 Let_def del: from_le.simps)
  have total: "frame_header_len + length body + 4 = length body + 15" by (simp add: frame_header_len_def)
  have "drop (frame_header_len + k) (take (length body + 15) buf) = take (4 + length body - k) (drop k (body @ crc @ rest))" for k
    unfolding drop_take drop2 by (simp add: frame_header_len_def)
  from this [of 0] this [of "length body"]
  have "take (length body) (drop frame_header_len (take (length body + 15) buf)) = body"
    "take 4 (drop (frame_header_len + length body) (take (length body + 15) buf)) = crc"
    using crc by simp_all
  with len payload_length [OF fits]
  show "net_parse_frame buf mx = (if frame_crc protocol_version kind body \<noteq> from_le crc then WErr BadChecksum
      else WOk (Some (take (length body + 15) buf, length body + 15)))"
    by (simp add: net_parse_frame_def h Let_def total del: from_le.simps) (simp add: frame_header_len_def)
qed

lemma length_frame_of: "length (frame_of kind payload) = length payload + 15"
  by (simp add: frame_of_def protocol_magic_def put_u16_def put_u32_def)

lemma frame_read_back:
  assumes "length payload \<le> unat mx"
  shows "decode_frame (frame_of kind payload @ rest) mx = WOk (kind, payload)"
    and "net_parse_frame (frame_of kind payload @ rest) mx = WOk (Some (frame_of kind payload, length (frame_of kind payload)))"
proof -
  let ?crc = "put_u32 (frame_crc protocol_version kind payload)"
  have "frame_of kind payload @ rest = protocol_magic @ put_u16 protocol_version @ [kind] @
      put_u32 (word_of_nat (length payload)) @ payload @ ?crc @ rest" by (simp add: frame_of_def)
  note r = read_frame [OF assms this]
  have crc: "length ?crc = 4" "from_le ?crc = frame_crc protocol_version kind payload" by (simp_all add: put_u32_def)
  show "decode_frame (frame_of kind payload @ rest) mx = WOk (kind, payload)"
    using r(1) [OF crc(1)] crc(2) by simp
  have "take (length payload + 15) (frame_of kind payload @ rest) = frame_of kind payload"
    by (simp add: length_frame_of)
  then show "net_parse_frame (frame_of kind payload @ rest) mx = WOk (Some (frame_of kind payload, length (frame_of kind payload)))"
    using r(2) [OF crc(1)] crc(2) by (simp add: length_frame_of)
qed

text \<open>An incomplete frame only makes the reader wait.\<close>

lemma parse_incomplete:
  assumes fits: "length payload \<le> unat mx" and n: "n < length (frame_of kind payload)"
  shows "net_parse_frame (take n (frame_of kind payload)) mx = WOk None"
proof (cases "n < frame_header_len")
  case True
  then show ?thesis by (simp add: net_parse_frame_def min_less_iff_disj del: from_le.simps)
next
  case False
  let ?f = "take n (frame_of kind payload)" and ?tail = "payload @ put_u32 (frame_crc protocol_version kind payload)"
  obtain k where k: "n = frame_header_len + k" using False by (metis le_Suc_ex not_less)
  let ?head = "protocol_magic @ put_u16 protocol_version @ [kind] @ put_u32 (word_of_nat (length payload))"
  have len: "length ?head = frame_header_len" by (simp add: frame_header_len_def)
  have "take (length xs + k) (xs @ ys) = xs @ take k ys" for xs ys :: "u8 list" by simp
  from this [of ?head ?tail] have "take n (?head @ ?tail) = ?head @ take k ?tail" unfolding len k .
  then have buf: "?f = protocol_magic @ put_u16 protocol_version @ [kind] @
      put_u32 (word_of_nat (length payload)) @ take k ?tail"
    by (simp add: frame_of_def)
  have "length ?f < frame_header_len + length payload + 4"
    using n by (simp add: length_frame_of frame_header_len_def)
  then show ?thesis
    using payload_length [OF fits] header_fields [OF buf] by (simp add: net_parse_frame_def Let_def del: length_take from_le.simps)
qed

text \<open>One altered byte of the kind, the payload or the checksum is noticed.\<close>

lemma altered_frame:
  assumes fits: "length payload \<le> unat mx" and i: "6 \<le> i" "i < length (frame_of kind payload)" "i \<notin> {7..10}"
    and b: "b \<noteq> frame_of kind payload ! i"
  shows "decode_frame ((frame_of kind payload)[i := b]) mx = WErr BadChecksum"
proof -
  let ?f = "frame_of kind payload" and ?v = protocol_version and ?crc = "put_u32 (frame_crc protocol_version kind payload)"
  let ?len = "put_u32 (word_of_nat (length payload))"
  let ?head = "protocol_magic @ put_u16 ?v"
  have hl: "length ?head = 6" "length ?len = 4" by (simp_all add: protocol_magic_def put_u16_def put_u32_def)
  have f: "?f = ?head @ kind # ?len @ payload @ ?crc" by (simp add: frame_of_def)
  have crc4: "length ?crc = 4" "from_le ?crc = frame_crc ?v kind payload" by (simp_all add: put_u32_def)
  consider (kind) "i = 6" | (body) j where "i = 11 + j" "j < length payload"
    | (crc) j where "i = 11 + length payload + j" "j < 4"
  proof -
    have "i = 6 \<or> i = 11 + (i - 11) \<and> i - 11 < length payload \<or>
        i = 11 + length payload + (i - (11 + length payload)) \<and> i - (11 + length payload) < 4"
      using i unfolding length_frame_of by auto
    then show ?thesis using that by blast
  qed
  then show ?thesis
  proof cases
    case kind
    then have new: "?f[i := b] = protocol_magic @ put_u16 ?v @ [b] @ ?len @ payload @ ?crc @ []" and "b \<noteq> kind"
      using b hl by (simp_all add: f list_update_append nth_append)
    have "frame_crc ?v b payload \<noteq> frame_crc ?v kind payload"
      using crc32_detects_byte \<open>b \<noteq> kind\<close> unfolding frame_crc_eq by blast
    then show ?thesis using read_frame(1) [OF fits new crc4(1)] crc4(2) by simp
  next
    case (body j)
    have pre: "length (?head @ kind # ?len) = 11" using hl by simp
    have "?f = (?head @ kind # ?len) @ payload @ ?crc" by (simp add: f)
    then have new: "?f[i := b] = (?head @ kind # ?len) @ payload[j := b] @ ?crc" and "?f ! i = payload ! j"
      using body pre by (simp_all add: list_update_append nth_append)
    then have buf: "?f[i := b] = protocol_magic @ put_u16 ?v @ [kind] @ put_u32 (word_of_nat (length (payload[j := b]))) @
        payload[j := b] @ ?crc @ []" by simp
    have "payload = take j payload @ payload ! j # drop (Suc j) payload" using body(2) by (simp add: id_take_nth_drop [symmetric])
    moreover have "payload[j := b] = take j payload @ b # drop (Suc j) payload" using body(2) by (simp add: upd_conv_take_nth_drop)
    ultimately have "frame_crc ?v kind (payload[j := b]) \<noteq> frame_crc ?v kind payload"
      using crc32_detects_byte [of "to_le 2 ?v @ kind # take j payload" "payload ! j" "drop (Suc j) payload" b] b \<open>?f ! i = payload ! j\<close>
      unfolding frame_crc_eq by (metis append_Cons append_assoc)
    then show ?thesis using read_frame(1) [OF _ buf crc4(1)] fits crc4(2) by simp
  next
    case (crc j)
    have pre: "length (?head @ kind # ?len @ payload) = 11 + length payload" using hl by simp
    have "?f = (?head @ kind # ?len @ payload) @ ?crc" by (simp add: f)
    then have new: "?f[i := b] = (?head @ kind # ?len @ payload) @ ?crc[j := b]" and "?f ! i = ?crc ! j"
      using crc pre by (simp_all add: list_update_append nth_append)
    then have buf: "?f[i := b] = protocol_magic @ put_u16 ?v @ [kind] @ put_u32 (word_of_nat (length payload)) @
        payload @ ?crc[j := b] @ []" by simp
    have "from_le (?crc[j := b]) \<noteq> (from_le ?crc :: u32)"
    proof
      assume "from_le (?crc[j := b]) = (from_le ?crc :: u32)"
      then have "?crc[j := b] = ?crc" using crc4(1) by (intro from_le_inj4) simp_all
      then have "?crc[j := b] ! j = ?crc ! j" by simp
      then show False using b \<open>?f ! i = ?crc ! j\<close> crc(2) crc4(1) by simp
    qed
    then show ?thesis using read_frame(1) [OF fits buf] crc4 by simp
  qed
qed

lemma frame_kind: "frame_of kind payload ! 6 = kind"
  by (simp add: frame_of_def nth_append)

text \<open>What a sender and a receiver of one message exchange.\<close>

lemma frame_exchange:
  assumes sent: "sent = build_frame kind payload mx"
    and dec: "\<And>frame. decode_frame frame mx = WOk (kind, payload) \<Longrightarrow> dec frame = WOk msg"
  shows "(\<exists>frame. sent = WOk frame \<and> dec frame = WOk msg \<and>
      (\<forall>rest. net_parse_frame (frame @ rest) mx = WOk (Some (frame, length frame))) \<and>
      (\<forall>n < length frame. net_parse_frame (take n frame) mx = WOk None)) \<or>
    sent = WErr NetCapacity \<and> unat mx < length payload"
proof (cases "unat mx < length payload")
  case True
  then show ?thesis by (simp add: sent build_frame_eq)
next
  case False
  then have fits: "length payload \<le> unat mx" by simp
  have "dec (frame_of kind payload) = WOk msg" using dec frame_read_back(1) [OF fits, of kind "[]"] by simp
  with False frame_read_back(2) [OF fits, of kind] parse_incomplete [OF fits] show ?thesis
    by (simp add: sent build_frame_eq)
qed

end
