(* ===== verification/Exec_Data.thy ===== *)
theory Exec_Data
  imports Storage_Table
begin

text \<open>
  The data that reducers and ticks exchange: reducer arguments and events (\<^verbatim>\<open>nexum-reducer/src/args.rs\<close>,
  \<^verbatim>\<open>event.rs\<close>), input frames (\<^verbatim>\<open>nexum-execution/src/input.rs\<close>), reducer calls (\<^verbatim>\<open>calls.rs\<close>) and messages
  between partitions (\<^verbatim>\<open>partition.rs\<close>). World, partition, system and reducer ids and ticks are \<^verbatim>\<open>u64\<close>.
\<close>

section \<open>Arguments and events\<close>

type_synonym reducer_args = "(string, value_t) omap"

definition args_insert :: "string \<Rightarrow> value_t \<Rightarrow> reducer_args \<Rightarrow> reducer_args" where
  "args_insert name v args = om_put name v args"

definition args_get :: "reducer_args \<Rightarrow> string \<Rightarrow> value_t option" where
  "args_get args name = om_get args name"

definition args_contains :: "reducer_args \<Rightarrow> string \<Rightarrow> bool" where
  "args_contains args name \<longleftrightarrow> om_get args name \<noteq> None"

definition args_require :: "reducer_args \<Rightarrow> string \<Rightarrow> value_t res" where
  "args_require args name = ok_or NotFound (args_get args name)"

definition require_u64 :: "reducer_args \<Rightarrow> string \<Rightarrow> u64 res" where
  "require_u64 args name = bind_res (args_require args name) (\<lambda>v. ok_or InvalidArgument (as_u64 v))"

definition require_i32 :: "reducer_args \<Rightarrow> string \<Rightarrow> u32 res" where
  "require_i32 args name = bind_res (args_require args name) (\<lambda>v. ok_or InvalidArgument (as_i32 v))"

definition require_i64 :: "reducer_args \<Rightarrow> string \<Rightarrow> u64 res" where
  "require_i64 args name = bind_res (args_require args name) (\<lambda>v. ok_or InvalidArgument (as_i64 v))"

definition require_u32 :: "reducer_args \<Rightarrow> string \<Rightarrow> u32 res" where
  "require_u32 args name = bind_res (args_require args name) (\<lambda>v. ok_or InvalidArgument (as_u32 v))"

definition require_bool :: "reducer_args \<Rightarrow> string \<Rightarrow> bool res" where
  "require_bool args name = bind_res (args_require args name) (\<lambda>v. ok_or InvalidArgument (as_bool v))"

definition require_str :: "reducer_args \<Rightarrow> string \<Rightarrow> string res" where
  "require_str args name = bind_res (args_require args name) (\<lambda>v. ok_or InvalidArgument (as_str v))"

definition require_f64 :: "reducer_args \<Rightarrow> string \<Rightarrow> u64 res" where
  "require_f64 args name = bind_res (args_require args name) (\<lambda>v. ok_or InvalidArgument (as_f64 v))"

record reducer_event =
  re_name :: string
  re_payload :: value_t

section \<open>Inputs, calls and messages\<close>

record input_command =
  ic_source :: u64
  ic_kind :: string
  ic_payload :: "value_t option"

definition input_command_new :: "u64 \<Rightarrow> string \<Rightarrow> value_t option \<Rightarrow> input_command res" where
  "input_command_new source kind payload =
     (if kind = [] then Err InvalidArgument else Ok \<lparr>ic_source = source, ic_kind = kind, ic_payload = payload\<rparr>)"

record input_frame =
  if_tick :: u64
  if_commands :: "input_command list"

definition input_frame_new :: "u64 \<Rightarrow> input_frame" where
  "input_frame_new tick = \<lparr>if_tick = tick, if_commands = []\<rparr>"

definition input_frame_push :: "input_command \<Rightarrow> input_frame \<Rightarrow> input_frame" where
  "input_frame_push c f = f\<lparr>if_commands := if_commands f @ [c]\<rparr>"

record reducer_call =
  rcall_request :: u64
  rcall_reducer :: string
  rcall_args :: reducer_args

definition reducer_call_new :: "u64 \<Rightarrow> string \<Rightarrow> reducer_args \<Rightarrow> reducer_call res" where
  "reducer_call_new request name args =
     (if name = [] then Err InvalidArgument
      else Ok \<lparr>rcall_request = request, rcall_reducer = name, rcall_args = args\<rparr>)"

record call_result =
  cr_request :: u64
  cr_ok :: bool
  cr_value :: "value_t option"
  cr_error :: "error option"

definition call_ok :: "u64 \<Rightarrow> value_t \<Rightarrow> call_result" where
  "call_ok request v = \<lparr>cr_request = request, cr_ok = True, cr_value = Some v, cr_error = None\<rparr>"

definition call_err :: "u64 \<Rightarrow> error \<Rightarrow> call_result" where
  "call_err request e = \<lparr>cr_request = request, cr_ok = False, cr_value = None, cr_error = Some e\<rparr>"

record partition_message =
  pm_from :: u64
  pm_to :: u64
  pm_sent_tick :: u64
  pm_seq :: u64
  pm_kind :: string
  pm_payload :: reducer_args

definition partition_message_new ::
    "u64 \<Rightarrow> u64 \<Rightarrow> u64 \<Rightarrow> u64 \<Rightarrow> string \<Rightarrow> reducer_args \<Rightarrow> partition_message res" where
  "partition_message_new src dst tick seq kind payload =
     (if kind = [] then Err InvalidArgument
      else Ok \<lparr>pm_from = src, pm_to = dst, pm_sent_tick = tick, pm_seq = seq, pm_kind = kind, pm_payload = payload\<rparr>)"

section \<open>Laws of arguments\<close>

lemma args_get_insert:
  "om_wf args \<Longrightarrow> args_get (args_insert name v args) n = (if n = name then Some v else args_get args n)"
  by (simp add: args_get_def args_insert_def om_get_put)

lemma args_insert_wf [wf_intros]: "om_wf args \<Longrightarrow> om_wf (args_insert name v args)"
  by (simp add: args_insert_def om_wf_put)

end
