(* ===== verification/Net_Protocol.thy ===== *)
theory Net_Protocol
  imports Net_Wire Sub_View Exec_Data
begin

text \<open>
  The messages of \<^verbatim>\<open>nexum-network/src/protocol.rs\<close> and their payloads, with the principals
  (\<^verbatim>\<open>auth.rs\<close>) they carry. A decoder that reserves room with \<^verbatim>\<open>try_reserve\<close> reports a count no allocation can hold; the
  delta batch reserves with \<^verbatim>\<open>Vec::with_capacity\<close>, which panics.
\<close>

section \<open>Data\<close>

record principal =
  pl_id :: u64
  pl_name :: string

datatype delta_kind = DInsert | DUpdate | DDelete

record delta_entry =
  de_seq :: u64
  de_kind :: delta_kind
  de_row_id :: row_id
  de_row :: "delivered_row option"

datatype client_message =
    Handshake u16 string
  | Authenticate string
  | AttachWorld u64
  | InputFrame input_frame
  | Subscribe u64 query
  | Unsubscribe u64
  | Resync u64
  | Ping u64
  | DetachWorld
  | CallReducer u64 string reducer_args

datatype server_message =
    HandshakeResponse u16 string
  | AuthResult bool "principal option" "string option"
  | AttachResult bool "u64 option" "string option"
  | DetachResult bool "string option"
  | TickUpdate u64 u64 transaction_id "change list" "reducer_event list"
  | SubscriptionSnapshot u64 u64 u64 "delivered_row list"
  | SubscriptionDelta u64 u64 delta_kind row_id "delivered_row option"
  | StaleNotification u64 u64
  | ErrorMessage u16 string u64
  | Pong u64
  | Disconnect string
  | ReducerResult u64 bool "value_t option" "string option"
  | SubscriptionDeltaBatch u64 u64 "delta_entry list"

section \<open>Tags\<close>

fun comparison_op_tag :: "comparison_op \<Rightarrow> u8" where
  "comparison_op_tag OpEq = 0"
| "comparison_op_tag OpNe = 1"
| "comparison_op_tag OpLt = 2"
| "comparison_op_tag OpLte = 3"
| "comparison_op_tag OpGt = 4"
| "comparison_op_tag OpGte = 5"

definition comparison_op_from_tag :: "u8 \<Rightarrow> comparison_op wire" where
  "comparison_op_from_tag t =
     (if t = 0 then WOk OpEq else if t = 1 then WOk OpNe else if t = 2 then WOk OpLt
      else if t = 3 then WOk OpLte else if t = 4 then WOk OpGt else if t = 5 then WOk OpGte
      else WErr Malformed)"

fun order_direction_tag :: "order_direction \<Rightarrow> u8" where
  "order_direction_tag Ascending = 0"
| "order_direction_tag Descending = 1"

definition order_direction_from_tag :: "u8 \<Rightarrow> order_direction wire" where
  "order_direction_from_tag t =
     (if t = 0 then WOk Ascending else if t = 1 then WOk Descending else WErr Malformed)"

fun delta_kind_tag :: "delta_kind \<Rightarrow> u8" where
  "delta_kind_tag DInsert = 1"
| "delta_kind_tag DUpdate = 2"
| "delta_kind_tag DDelete = 3"

definition delta_kind_from_tag :: "u8 \<Rightarrow> delta_kind wire" where
  "delta_kind_from_tag t =
     (if t = 1 then WOk DInsert else if t = 2 then WOk DUpdate else if t = 3 then WOk DDelete
      else WErr Malformed)"

definition net_change_kind_from_tag :: "u8 \<Rightarrow> change_kind wire" where
  "net_change_kind_from_tag t =
     (if t = 1 then WOk CInsert else if t = 2 then WOk CUpdate else if t = 3 then WOk CDelete
      else WErr Malformed)"

section \<open>Payloads\<close>

definition w_u64 :: "u64 reader" where
  "w_u64 = lift_core get_u64"

definition w_string :: "string reader" where
  "w_string = lift_core get_string"

definition w_value :: "value_t reader" where
  "w_value = lift_core get_value"

definition w_row :: "row reader" where
  "w_row = lift_core get_row"

definition w_bool :: "bool reader" where
  "w_bool = lift_core get_bool"

definition put_command :: "input_command \<Rightarrow> u8 list" where
  "put_command c =
     put_u64 (ic_source c) @ put_str (ic_kind c) @
     (case ic_payload c of Some v \<Rightarrow> 1 # put_value v | None \<Rightarrow> [0])"

definition encode_frame_payload :: "input_frame \<Rightarrow> u8 list" where
  "encode_frame_payload f =
     put_u64 (if_tick f) @ put_u64 (len_u64 (if_commands f)) @ concat (map put_command (if_commands f))"

definition get_command :: "input_command reader" where
  "get_command c =
     bind_wire (w_u64 c) (\<lambda>(source, c).
     bind_wire (w_string c) (\<lambda>(kind, c).
     if kind = [] then WErr Malformed
     else
       bind_wire (net_take_byte c) (\<lambda>(flag, c).
       bind_wire (if flag = 0 then WOk (None, c)
                  else if flag = 1 then bind_wire (w_value c) (\<lambda>(v, c). WOk (Some v, c))
                  else WErr Malformed) (\<lambda>(payload, c).
       bind_wire (from_core (input_command_new source kind payload)) (\<lambda>cmd. WOk (cmd, c))))))"

text \<open>An \<^verbatim>\<open>InputCommand\<close> takes 56 bytes.\<close>

definition decode_frame_payload :: "input_frame reader" where
  "decode_frame_payload c =
     bind_wire (w_u64 c) (\<lambda>(tick, c).
     bind_wire (w_u64 c) (\<lambda>(count, c).
     if length c div 18 < unat count then WErr Malformed
     else if \<not> alloc_fits 56 (unat count) then WPanic
     else
       bind_wire (read_n get_command (unat count) c) (\<lambda>(cmds, c).
         WOk (\<lparr>if_tick = tick, if_commands = cmds\<rparr>, c))))"

definition put_predicate :: "predicate \<Rightarrow> u8 list" where
  "put_predicate p = put_str (pr_column p) @ [comparison_op_tag (pr_op p)] @ put_value (pr_value p)"

definition encode_query :: "query \<Rightarrow> u8 list" where
  "encode_query q =
     put_str (q_table q) @ put_u64 (len_u64 (q_predicates q)) @ concat (map put_predicate (q_predicates q)) @
     (case q_order_by q of
        Some ob \<Rightarrow> 1 # put_str (ob_column ob) @ [order_direction_tag (ob_direction ob)]
      | None \<Rightarrow> [0]) @
     (case q_limit q of Some n \<Rightarrow> 1 # put_u32 n | None \<Rightarrow> [0]) @
     (case q_projection q of
        Some columns \<Rightarrow> 1 # put_u64 (len_u64 columns) @ concat (map put_str columns)
      | None \<Rightarrow> [0])"

fun get_predicates :: "nat \<Rightarrow> query_builder \<Rightarrow> query_builder reader" where
  "get_predicates 0 b c = WOk (b, c)"
| "get_predicates (Suc n) b c =
     bind_wire (w_string c) (\<lambda>(column, c).
     bind_wire (net_take_byte c) (\<lambda>(tag, c).
     bind_wire (comparison_op_from_tag tag) (\<lambda>op.
     bind_wire (w_value c) (\<lambda>(v, c). get_predicates n (qb_predicate column op v b) c))))"

definition get_order :: "query_builder \<Rightarrow> query_builder reader" where
  "get_order b c =
     bind_wire (net_take_byte c) (\<lambda>(flag, c).
       if flag = 1 then
         bind_wire (w_string c) (\<lambda>(column, c).
         bind_wire (net_take_byte c) (\<lambda>(tag, c).
         bind_wire (order_direction_from_tag tag) (\<lambda>direction.
           WOk (qb_order_by column direction b, c))))
       else WOk (b, c))"

definition get_limit :: "query_builder \<Rightarrow> query_builder reader" where
  "get_limit b c =
     bind_wire (net_take_byte c) (\<lambda>(flag, c).
       if flag = 1 then bind_wire (get_u32 c) (\<lambda>(n, c). WOk (qb_limit n b, c)) else WOk (b, c))"

text \<open>A \<^verbatim>\<open>String\<close> takes 24 bytes.\<close>

definition get_projection :: "query_builder \<Rightarrow> query_builder reader" where
  "get_projection b c =
     bind_wire (net_take_byte c) (\<lambda>(flag, c).
       if flag = 1 then
         bind_wire (w_u64 c) (\<lambda>(count, c).
         if \<not> alloc_fits 24 (unat count) then WErr Malformed
         else bind_wire (read_n w_string (unat count) c) (\<lambda>(columns, c). WOk (qb_project columns b, c)))
       else WOk (b, c))"

definition decode_query :: "query reader" where
  "decode_query c =
     bind_wire (w_string c) (\<lambda>(table, c).
     bind_wire (w_u64 c) (\<lambda>(count, c).
     bind_wire (get_predicates (unat count) (query_builder_new table) c) (\<lambda>(b, c).
     bind_wire (get_order b c) (\<lambda>(b, c).
     bind_wire (get_limit b c) (\<lambda>(b, c).
     bind_wire (get_projection b c) (\<lambda>(b, c).
     bind_wire (from_core (query_build b)) (\<lambda>q. WOk (q, c))))))))"

definition put_arg :: "string \<times> value_t \<Rightarrow> u8 list" where
  "put_arg a = put_str (fst a) @ put_value (snd a)"

definition put_reducer_args :: "reducer_args \<Rightarrow> u8 list" where
  "put_reducer_args args = put_u64 (len_u64 args) @ concat (map put_arg args)"

fun get_args :: "nat \<Rightarrow> reducer_args \<Rightarrow> reducer_args reader" where
  "get_args 0 args c = WOk (args, c)"
| "get_args (Suc n) args c =
     bind_wire (w_string c) (\<lambda>(name, c).
     bind_wire (w_value c) (\<lambda>(v, c). get_args n (args_insert name v args) c))"

definition get_reducer_args :: "reducer_args reader" where
  "get_reducer_args c =
     bind_wire (w_u64 c) (\<lambda>(count, c).
       if length c < unat count then WErr Malformed else get_args (unat count) [] c)"

definition net_get_opt_row :: "row option reader" where
  "net_get_opt_row c =
     bind_wire (net_take_byte c) (\<lambda>(flag, c).
       if flag = 0 then WOk (None, c)
       else if flag = 1 then bind_wire (w_row c) (\<lambda>(r, c). WOk (Some r, c))
       else WErr Malformed)"

definition net_get_opt_version :: "version option reader" where
  "net_get_opt_version c =
     bind_wire (net_take_byte c) (\<lambda>(flag, c).
       if flag = 0 then WOk (None, c)
       else if flag = 1 then bind_wire (w_u64 c) (\<lambda>(v, c). WOk (Some v, c))
       else WErr Malformed)"

definition net_require :: "'a option \<Rightarrow> 'a wire" where
  "net_require x = (case x of Some v \<Rightarrow> WOk v | None \<Rightarrow> WErr Malformed)"

definition net_decode_change :: "change reader" where
  "net_decode_change c =
     bind_wire (w_u64 c) (\<lambda>(tid, c).
     bind_wire (net_take_byte c) (\<lambda>(tag, c).
     bind_wire (net_change_kind_from_tag tag) (\<lambda>kind.
     bind_wire (w_u64 c) (\<lambda>(rid, c).
     bind_wire (net_get_opt_row c) (\<lambda>(old_row, c).
     bind_wire (net_get_opt_row c) (\<lambda>(new_row, c).
     bind_wire (net_get_opt_version c) (\<lambda>(old_version, c).
     bind_wire (net_get_opt_version c) (\<lambda>(new_version, c).
     bind_wire
       (case kind of
          CInsert \<Rightarrow>
            bind_wire (net_require new_row) (\<lambda>r.
            bind_wire (net_require new_version) (\<lambda>v. WOk (change_insert tid rid r v)))
        | CUpdate \<Rightarrow>
            bind_wire (net_require old_row) (\<lambda>r0.
            bind_wire (net_require old_version) (\<lambda>v0.
            bind_wire (net_require new_row) (\<lambda>r.
            bind_wire (net_require new_version) (\<lambda>v. WOk (change_update tid rid r0 v0 r v)))))
        | CDelete \<Rightarrow>
            bind_wire (net_require old_row) (\<lambda>r.
            bind_wire (net_require old_version) (\<lambda>v. WOk (change_delete tid rid r v))))
       (\<lambda>ch. WOk (ch, c))))))))))"

definition net_encode_change :: "change \<Rightarrow> u8 list" where
  "net_encode_change c =
     put_u64 (ch_table c) @ [change_kind_tag (ch_kind c)] @ put_u64 (ch_row_id c) @
     put_opt_row (ch_old_row c) @ put_opt_row (ch_new_row c) @
     put_opt_version (ch_old_version c) @ put_opt_version (ch_new_version c)"

definition put_event :: "reducer_event \<Rightarrow> u8 list" where
  "put_event e = put_str (re_name e) @ put_value (re_payload e)"

definition get_event :: "reducer_event reader" where
  "get_event c =
     bind_wire (w_string c) (\<lambda>(name, c).
     bind_wire (w_value c) (\<lambda>(v, c). WOk (\<lparr>re_name = name, re_payload = v\<rparr>, c)))"

definition put_delivered :: "delivered_row \<Rightarrow> u8 list" where
  "put_delivered d = put_u64 (dr_row_id d) @ put_row (dr_row d)"

definition get_delivered :: "delivered_row reader" where
  "get_delivered c =
     bind_wire (w_u64 c) (\<lambda>(rid, c).
     bind_wire (w_row c) (\<lambda>(r, c). WOk (\<lparr>dr_row_id = rid, dr_row = r\<rparr>, c)))"

section \<open>Messages\<close>

definition encode_client :: "client_message \<Rightarrow> u32 \<Rightarrow> (network_error, u8 list) outcome" where
  "encode_client msg max_payload =
     (case msg of
        Handshake v name \<Rightarrow> build_frame 0x01 (put_u16 v @ put_str name) max_payload
      | Authenticate credentials \<Rightarrow> build_frame 0x02 (put_str credentials) max_payload
      | AttachWorld world \<Rightarrow> build_frame 0x03 (put_u64 world) max_payload
      | InputFrame f \<Rightarrow> build_frame 0x04 (encode_frame_payload f) max_payload
      | Subscribe request q \<Rightarrow> build_frame 0x05 (put_u64 request @ encode_query q) max_payload
      | Unsubscribe sub \<Rightarrow> build_frame 0x06 (put_u64 sub) max_payload
      | Resync sub \<Rightarrow> build_frame 0x07 (put_u64 sub) max_payload
      | Ping nonce \<Rightarrow> build_frame 0x08 (put_u64 nonce) max_payload
      | DetachWorld \<Rightarrow> build_frame 0x09 [] max_payload
      | CallReducer request name args \<Rightarrow>
          build_frame 0x0A (put_u64 request @ put_str name @ put_reducer_args args) max_payload)"

definition finish :: "'a \<times> u8 list \<Rightarrow> 'a wire" where
  "finish p = bind_wire (ensure_consumed (snd p)) (\<lambda>_. WOk (fst p))"

definition client_payload :: "u8 \<Rightarrow> u8 list \<Rightarrow> client_message wire" where
  "client_payload kind c =
     (if kind = 0x01 then
        bind_wire (get_u16 c) (\<lambda>(v, c). bind_wire (w_string c) (\<lambda>(name, c). finish (Handshake v name, c)))
      else if kind = 0x02 then bind_wire (w_string c) (\<lambda>(s, c). finish (Authenticate s, c))
      else if kind = 0x03 then bind_wire (w_u64 c) (\<lambda>(w, c). finish (AttachWorld w, c))
      else if kind = 0x04 then bind_wire (decode_frame_payload c) (\<lambda>(f, c). finish (InputFrame f, c))
      else if kind = 0x05 then
        bind_wire (w_u64 c) (\<lambda>(request, c). bind_wire (decode_query c) (\<lambda>(q, c). finish (Subscribe request q, c)))
      else if kind = 0x06 then bind_wire (w_u64 c) (\<lambda>(s, c). finish (Unsubscribe s, c))
      else if kind = 0x07 then bind_wire (w_u64 c) (\<lambda>(s, c). finish (Resync s, c))
      else if kind = 0x08 then bind_wire (w_u64 c) (\<lambda>(n, c). finish (Ping n, c))
      else if kind = 0x09 then finish (DetachWorld, c)
      else if kind = 0x0A then
        bind_wire (w_u64 c) (\<lambda>(request, c).
        bind_wire (w_string c) (\<lambda>(name, c).
          if name = [] then WErr Malformed
          else bind_wire (get_reducer_args c) (\<lambda>(args, c). finish (CallReducer request name args, c))))
      else WErr (UnknownKind kind))"

definition decode_client :: "u8 list \<Rightarrow> u32 \<Rightarrow> client_message wire" where
  "decode_client frame max_payload =
     bind_wire (decode_frame frame max_payload) (\<lambda>(kind, payload). client_payload kind payload)"

text \<open>A successful result must carry its value; the encoder unwraps it.\<close>

definition send_expect :: "'a option \<Rightarrow> ('e, 'a) outcome" where
  "send_expect x = (case x of Some v \<Rightarrow> WOk v | None \<Rightarrow> WPanic)"

definition or_text :: "string option \<Rightarrow> string \<Rightarrow> string" where
  "or_text e s = (case e of Some m \<Rightarrow> m | None \<Rightarrow> s)"

definition put_delta_row :: "delta_kind \<Rightarrow> delivered_row option \<Rightarrow> ('e, u8 list) outcome" where
  "put_delta_row kind row =
     (case kind of
        DDelete \<Rightarrow> WOk []
      | _ \<Rightarrow> bind_wire (send_expect row) (\<lambda>d. WOk (put_row (dr_row d))))"

fun put_deltas :: "delta_entry list \<Rightarrow> ('e, u8 list) outcome" where
  "put_deltas [] = WOk []"
| "put_deltas (d # ds) =
     bind_wire (put_delta_row (de_kind d) (de_row d)) (\<lambda>row.
     bind_wire (put_deltas ds) (\<lambda>rest.
       WOk (put_u64 (de_seq d) @ [delta_kind_tag (de_kind d)] @ put_u64 (de_row_id d) @ row @ rest)))"

definition encode_server :: "server_message \<Rightarrow> u32 \<Rightarrow> (network_error, u8 list) outcome" where
  "encode_server msg max_payload =
     (case msg of
        HandshakeResponse v name \<Rightarrow> build_frame 0x81 (put_u16 v @ put_str name) max_payload
      | AuthResult ok p e \<Rightarrow>
          bind_wire (if ok then bind_wire (send_expect p) (\<lambda>p. WOk (put_u64 (pl_id p) @ put_str (pl_name p)))
                     else WOk (put_str (or_text e ''authentication failed''))) (\<lambda>body.
            build_frame 0x82 (put_bool ok @ body) max_payload)
      | AttachResult ok w e \<Rightarrow>
          bind_wire (if ok then bind_wire (send_expect w) (\<lambda>w. WOk (put_u64 w))
                     else WOk (put_str (or_text e ''attach failed''))) (\<lambda>body.
            build_frame 0x83 (put_bool ok @ body) max_payload)
      | DetachResult ok e \<Rightarrow>
          build_frame 0x8B (put_bool ok @ (if ok then [] else put_str (or_text e ''detach failed''))) max_payload
      | TickUpdate world tick txid changes events \<Rightarrow>
          build_frame 0x84 (put_u64 world @ put_u64 tick @ put_u64 txid @
            put_u64 (len_u64 changes) @ concat (map net_encode_change changes) @
            put_u64 (len_u64 events) @ concat (map put_event events)) max_payload
      | SubscriptionSnapshot request sub seq rows \<Rightarrow>
          build_frame 0x85 (put_u64 request @ put_u64 sub @ put_u64 seq @
            put_u64 (len_u64 rows) @ concat (map put_delivered rows)) max_payload
      | SubscriptionDelta sub seq kind rid row \<Rightarrow>
          bind_wire (put_delta_row kind row) (\<lambda>body.
            build_frame 0x86 (put_u64 sub @ put_u64 seq @ [delta_kind_tag kind] @ put_u64 rid @ body) max_payload)
      | StaleNotification sub seq \<Rightarrow> build_frame 0x87 (put_u64 sub @ put_u64 seq) max_payload
      | ErrorMessage code m request \<Rightarrow> build_frame 0x88 (put_u16 code @ put_str m @ put_u64 request) max_payload
      | Pong nonce \<Rightarrow> build_frame 0x89 (put_u64 nonce) max_payload
      | Disconnect reason \<Rightarrow> build_frame 0x8A (put_str reason) max_payload
      | ReducerResult request ok v e \<Rightarrow>
          bind_wire (if ok then bind_wire (send_expect v) (\<lambda>v. WOk (put_value v))
                     else WOk (put_str (or_text e ''reducer call failed''))) (\<lambda>body.
            build_frame 0x8C (put_u64 request @ put_bool ok @ body) max_payload)
      | SubscriptionDeltaBatch sub request deltas \<Rightarrow>
          bind_wire (put_deltas deltas) (\<lambda>body.
            build_frame 0x8D (put_u64 sub @ put_u64 request @ put_u64 (len_u64 deltas) @ body) max_payload))"

definition get_delta_row :: "delta_kind \<Rightarrow> row_id \<Rightarrow> delivered_row option reader" where
  "get_delta_row kind rid c =
     (if kind = DDelete then WOk (None, c)
      else bind_wire (w_row c) (\<lambda>(r, c). WOk (Some \<lparr>dr_row_id = rid, dr_row = r\<rparr>, c)))"

definition get_delta :: "delta_entry reader" where
  "get_delta c =
     bind_wire (w_u64 c) (\<lambda>(seq, c).
     bind_wire (case c of [] \<Rightarrow> WErr Truncated | b # c \<Rightarrow> WOk (b, c)) (\<lambda>(tag, c).
     bind_wire (delta_kind_from_tag tag) (\<lambda>kind.
     bind_wire (w_u64 c) (\<lambda>(rid, c).
     bind_wire (get_delta_row kind rid c) (\<lambda>(row, c).
       WOk (\<lparr>de_seq = seq, de_kind = kind, de_row_id = rid, de_row = row\<rparr>, c))))))"

text \<open>A reader of a counted sequence that reserves room first: \<open>bytes\<close> for each element, and what happens when
  no allocation can hold the count.\<close>

definition get_counted :: "nat \<Rightarrow> 'a list wire \<Rightarrow> 'a reader \<Rightarrow> 'a list reader" where
  "get_counted bytes overflow d c =
     bind_wire (w_u64 c) (\<lambda>(count, c).
       if \<not> alloc_fits bytes (unat count) then bind_wire overflow (\<lambda>xs. WOk (xs, c))
       else read_n d (unat count) c)"

text \<open>Sizes: a \<^verbatim>\<open>Change\<close> takes 72 bytes, a \<^verbatim>\<open>ReducerEvent\<close> 48, a \<^verbatim>\<open>DeliveredRow\<close> 32, a
  \<^verbatim>\<open>SubscriptionDeltaEntry\<close> 32.\<close>

definition server_payload :: "u8 \<Rightarrow> u8 list \<Rightarrow> server_message wire" where
  "server_payload kind c =
     (if kind = 0x81 then
        bind_wire (get_u16 c) (\<lambda>(v, c). bind_wire (w_string c) (\<lambda>(name, c). finish (HandshakeResponse v name, c)))
      else if kind = 0x82 then
        bind_wire (w_bool c) (\<lambda>(ok, c).
          if ok then
            bind_wire (w_u64 c) (\<lambda>(i, c).
            bind_wire (w_string c) (\<lambda>(name, c). finish (AuthResult True (Some \<lparr>pl_id = i, pl_name = name\<rparr>) None, c)))
          else bind_wire (w_string c) (\<lambda>(e, c). finish (AuthResult False None (Some e), c)))
      else if kind = 0x83 then
        bind_wire (w_bool c) (\<lambda>(ok, c).
          if ok then bind_wire (w_u64 c) (\<lambda>(w, c). finish (AttachResult True (Some w) None, c))
          else bind_wire (w_string c) (\<lambda>(e, c). finish (AttachResult False None (Some e), c)))
      else if kind = 0x8B then
        bind_wire (w_bool c) (\<lambda>(ok, c).
          if ok then finish (DetachResult True None, c)
          else bind_wire (w_string c) (\<lambda>(e, c). finish (DetachResult False (Some e), c)))
      else if kind = 0x84 then
        bind_wire (w_u64 c) (\<lambda>(world, c).
        bind_wire (w_u64 c) (\<lambda>(tick, c).
        bind_wire (w_u64 c) (\<lambda>(txid, c).
        bind_wire (get_counted 72 (WErr Malformed) net_decode_change c) (\<lambda>(changes, c).
        bind_wire (get_counted 48 (WErr Malformed) get_event c) (\<lambda>(events, c).
          finish (TickUpdate world tick txid changes events, c))))))
      else if kind = 0x85 then
        bind_wire (w_u64 c) (\<lambda>(request, c).
        bind_wire (w_u64 c) (\<lambda>(sub, c).
        bind_wire (w_u64 c) (\<lambda>(seq, c).
        bind_wire (get_counted 32 (WErr Malformed) get_delivered c) (\<lambda>(rows, c).
          finish (SubscriptionSnapshot request sub seq rows, c)))))
      else if kind = 0x86 then
        bind_wire (w_u64 c) (\<lambda>(sub, c).
        bind_wire (w_u64 c) (\<lambda>(seq, c).
        bind_wire (net_take_byte c) (\<lambda>(tag, c).
        bind_wire (delta_kind_from_tag tag) (\<lambda>kind.
        bind_wire (w_u64 c) (\<lambda>(rid, c).
        bind_wire (get_delta_row kind rid c) (\<lambda>(row, c). finish (SubscriptionDelta sub seq kind rid row, c)))))))
      else if kind = 0x87 then
        bind_wire (w_u64 c) (\<lambda>(sub, c). bind_wire (w_u64 c) (\<lambda>(seq, c). finish (StaleNotification sub seq, c)))
      else if kind = 0x88 then
        bind_wire (get_u16 c) (\<lambda>(code, c).
        bind_wire (w_string c) (\<lambda>(m, c).
        bind_wire (w_u64 c) (\<lambda>(request, c). finish (ErrorMessage code m request, c))))
      else if kind = 0x89 then bind_wire (w_u64 c) (\<lambda>(n, c). finish (Pong n, c))
      else if kind = 0x8A then bind_wire (w_string c) (\<lambda>(s, c). finish (Disconnect s, c))
      else if kind = 0x8C then
        bind_wire (w_u64 c) (\<lambda>(request, c).
        bind_wire (w_bool c) (\<lambda>(ok, c).
          if ok then bind_wire (w_value c) (\<lambda>(v, c). finish (ReducerResult request True (Some v) None, c))
          else bind_wire (w_string c) (\<lambda>(e, c). finish (ReducerResult request False None (Some e), c))))
      else if kind = 0x8D then
        bind_wire (w_u64 c) (\<lambda>(sub, c).
        bind_wire (w_u64 c) (\<lambda>(request, c).
        bind_wire (get_counted 32 WPanic get_delta c) (\<lambda>(deltas, c).
          finish (SubscriptionDeltaBatch sub request deltas, c))))
      else WErr (UnknownKind kind))"

definition decode_server :: "u8 list \<Rightarrow> u32 \<Rightarrow> server_message wire" where
  "decode_server frame max_payload =
     bind_wire (decode_frame frame max_payload) (\<lambda>(kind, payload). server_payload kind payload)"

end
