(* ===== verification/Net_Codec.thy ===== *)
theory Net_Codec
  imports Net_Protocol
begin

text \<open>
  The protocol round-trips and its decoders are total: what an encoder framed is read back exactly, and whatever
  bytes arrive a client message is decoded or refused. Only the delta batch of the server side can
  panic.
\<close>

section \<open>Readers of the core types\<close>

lemma w_reads [codec_simps]:
  "w_u64 (put_u64 x @ rest) = WOk (x, rest)"
  "w_bool (put_bool b @ rest) = WOk (b, rest)"
  "str_ok s \<Longrightarrow> w_string (put_str s @ rest) = WOk (s, rest)"
  "value_ok v \<Longrightarrow> w_value (put_value v @ rest) = WOk (v, rest)"
  "row_ok r \<Longrightarrow> w_row (put_row r @ rest) = WOk (r, rest)"
  by (simp_all add: w_u64_def w_bool_def w_string_def w_value_def w_row_def get_string_eq u64c.net.rd_enc
      boolc.net.rd_enc strc.net.rd_enc valuec.net.rd_enc rowc.net.rd_enc)

lemma w_reads_end [codec_simps]:
  "w_u64 (put_u64 x) = WOk (x, [])"
  "w_bool (put_bool b) = WOk (b, [])"
  "str_ok s \<Longrightarrow> w_string (put_str s) = WOk (s, [])"
  "value_ok v \<Longrightarrow> w_value (put_value v) = WOk (v, [])"
  "row_ok r \<Longrightarrow> w_row (put_row r) = WOk (r, [])"
  using w_reads [of _ "[]"] by simp_all

lemma w_reads_not_Panic [simp]:
  "w_u64 c \<noteq> WPanic" "w_bool c \<noteq> WPanic" "w_string c \<noteq> WPanic" "w_value c \<noteq> WPanic" "w_row c \<noteq> WPanic"
  by (simp_all add: w_u64_def w_bool_def w_string_def w_value_def w_row_def get_string_eq)

lemma tag_inverse [codec_simps]:
  "comparison_op_from_tag (comparison_op_tag op) = WOk op"
  "order_direction_from_tag (order_direction_tag dir) = WOk dir"
  "delta_kind_from_tag (delta_kind_tag dk) = WOk dk"
  "net_change_kind_from_tag (change_kind_tag ck) = WOk ck"
proof -
  show "comparison_op_from_tag (comparison_op_tag op) = WOk op"
    by (cases op) (simp_all add: comparison_op_from_tag_def)
  show "order_direction_from_tag (order_direction_tag dir) = WOk dir"
    by (cases dir) (simp_all add: order_direction_from_tag_def)
  show "delta_kind_from_tag (delta_kind_tag dk) = WOk dk"
    by (cases dk) (simp_all add: delta_kind_from_tag_def)
  show "net_change_kind_from_tag (change_kind_tag ck) = WOk ck"
    by (cases ck) (simp_all add: net_change_kind_from_tag_def)
qed

context wire_codec
begin

lemma get_counted_enc:
  assumes "\<forall>x \<in> set xs. valid x" and "alloc_fits k (length xs)" and "0 < k"
  shows "get_counted k overflow rd (put_u64 (len_u64 xs) @ concat (map enc xs) @ rest) = WOk (xs, rest)"
  using unat_len_alloc [OF assms(2,3)] assms by (simp add: get_counted_def codec_simps read_n_enc)

end

section \<open>Payloads\<close>

definition command_ok :: "input_command \<Rightarrow> bool" where
  "command_ok c \<longleftrightarrow> ic_kind c \<noteq> [] \<and> str_ok (ic_kind c) \<and> (\<forall>v. ic_payload c = Some v \<longrightarrow> value_ok v)"

interpretation cmdc: wire_codec put_command get_command command_ok
proof unfold_locales
  fix x rest assume "command_ok x"
  then show "get_command (put_command x @ rest) = WOk (x, rest)"
    by (cases "ic_payload x")
      (auto simp: put_command_def get_command_def command_ok_def codec_simps input_command_new_def)
qed

lemma put_command_length: "command_ok c \<Longrightarrow> 18 \<le> length (put_command c)"
  by (cases "ic_kind c")
    (auto simp: put_command_def command_ok_def put_str_def put_bytes_def put_u64_def split: option.splits)

definition frame_ok :: "input_frame \<Rightarrow> bool" where
  "frame_ok f \<longleftrightarrow> (\<forall>c \<in> set (if_commands f). command_ok c) \<and> alloc_fits 56 (length (if_commands f))"

lemma concat_length_ge:
  "\<forall>x \<in> set xs. k \<le> length (g x) \<Longrightarrow> k * length xs \<le> length (concat (map g xs))"
  by (induction xs) auto

interpretation inputc: wire_codec encode_frame_payload decode_frame_payload frame_ok
proof unfold_locales
  fix f rest assume ok: "frame_ok f"
  let ?cs = "if_commands f"
  have len: "unat (len_u64 ?cs) = length ?cs" using ok by (intro unat_len_alloc) (auto simp: frame_ok_def)
  have "18 * length ?cs \<le> length (concat (map put_command ?cs))"
    using ok put_command_length by (intro concat_length_ge) (auto simp: frame_ok_def)
  then have "\<not> length (concat (map put_command ?cs) @ rest) div 18 < length ?cs" by simp
  with ok len show "decode_frame_payload (encode_frame_payload f @ rest) = WOk (f, rest)"
    by (simp add: decode_frame_payload_def encode_frame_payload_def codec_simps cmdc.read_n_enc frame_ok_def del: length_append)
qed

definition predicate_ok :: "predicate \<Rightarrow> bool" where
  "predicate_ok p \<longleftrightarrow> str_ok (pr_column p) \<and> value_ok (pr_value p)"

definition query_ok :: "query \<Rightarrow> bool" where
  "query_ok q \<longleftrightarrow>
     query_build q = Ok q \<and> str_ok (q_table q) \<and>
     (\<forall>p \<in> set (q_predicates q). predicate_ok p) \<and> alloc_fits 56 (length (q_predicates q)) \<and>
     (\<forall>ob. q_order_by q = Some ob \<longrightarrow> str_ok (ob_column ob)) \<and>
     (\<forall>cs. q_projection q = Some cs \<longrightarrow> (\<forall>c \<in> set cs. str_ok c) \<and> alloc_fits 24 (length cs))"

lemma get_predicates_enc:
  "\<forall>p \<in> set ps. predicate_ok p \<Longrightarrow> get_predicates (length ps) b (concat (map put_predicate ps) @ rest)
     = WOk (b\<lparr>q_predicates := q_predicates b @ ps\<rparr>, rest)"
proof (induction ps arbitrary: b)
  case (Cons p ps)
  then show ?case
    by (cases p) (simp add: put_predicate_def predicate_ok_def codec_simps qb_predicate_def)
qed simp

interpretation string_reader: wire_codec put_str w_string str_ok
  by unfold_locales (simp add: codec_simps)

lemma query_tail_enc:
  assumes "query_ok q"
  shows "get_order b ((case q_order_by q of
        Some ob \<Rightarrow> 1 # put_str (ob_column ob) @ [order_direction_tag (ob_direction ob)] | None \<Rightarrow> [0]) @ rest)
      = WOk (case q_order_by q of Some ob \<Rightarrow> b\<lparr>q_order_by := Some ob\<rparr> | None \<Rightarrow> b, rest)"
    and "get_limit b ((case q_limit q of Some n \<Rightarrow> 1 # put_u32 n | None \<Rightarrow> [0]) @ rest)
      = WOk (case q_limit q of Some n \<Rightarrow> b\<lparr>q_limit := Some n\<rparr> | None \<Rightarrow> b, rest)"
    and "get_projection b ((case q_projection q of
        Some columns \<Rightarrow> 1 # put_u64 (len_u64 columns) @ concat (map put_str columns) | None \<Rightarrow> [0]) @ rest)
      = WOk (case q_projection q of Some cs \<Rightarrow> b\<lparr>q_projection := Some cs\<rparr> | None \<Rightarrow> b, rest)"
proof -
  show "get_order b ((case q_order_by q of
        Some ob \<Rightarrow> 1 # put_str (ob_column ob) @ [order_direction_tag (ob_direction ob)] | None \<Rightarrow> [0]) @ rest)
      = WOk (case q_order_by q of Some ob \<Rightarrow> b\<lparr>q_order_by := Some ob\<rparr> | None \<Rightarrow> b, rest)"
    using assms by (cases "q_order_by q") (auto simp: get_order_def query_ok_def codec_simps qb_order_by_def)
  show "get_limit b ((case q_limit q of Some n \<Rightarrow> 1 # put_u32 n | None \<Rightarrow> [0]) @ rest)
      = WOk (case q_limit q of Some n \<Rightarrow> b\<lparr>q_limit := Some n\<rparr> | None \<Rightarrow> b, rest)"
    by (cases "q_limit q") (auto simp: get_limit_def codec_simps qb_limit_def)
  show "get_projection b ((case q_projection q of
        Some columns \<Rightarrow> 1 # put_u64 (len_u64 columns) @ concat (map put_str columns) | None \<Rightarrow> [0]) @ rest)
      = WOk (case q_projection q of Some cs \<Rightarrow> b\<lparr>q_projection := Some cs\<rparr> | None \<Rightarrow> b, rest)"
  proof (cases "q_projection q")
    case (Some cs)
    then have cs: "\<forall>c \<in> set cs. str_ok c" "alloc_fits 24 (length cs)" using assms by (simp_all add: query_ok_def)
    then have "unat (len_u64 cs) = length cs" by (intro unat_len_alloc) auto
    with Some cs show ?thesis by (simp add: get_projection_def codec_simps string_reader.read_n_enc qb_project_def)
  qed (simp add: get_projection_def codec_simps)
qed

interpretation queryc: wire_codec encode_query decode_query query_ok
proof unfold_locales
  fix q rest assume ok: "query_ok q"
  let ?b = "query_builder_new (q_table q)"
  have len: "unat (len_u64 (q_predicates q)) = length (q_predicates q)"
    using ok by (intro unat_len_alloc) (auto simp: query_ok_def)
  have "(case q_projection q of Some cs \<Rightarrow> (\<lambda>b. b\<lparr>q_projection := Some cs\<rparr>) | None \<Rightarrow> (\<lambda>b. b))
      ((case q_limit q of Some n \<Rightarrow> (\<lambda>b. b\<lparr>q_limit := Some n\<rparr>) | None \<Rightarrow> (\<lambda>b. b))
      ((case q_order_by q of Some ob \<Rightarrow> (\<lambda>b. b\<lparr>q_order_by := Some ob\<rparr>) | None \<Rightarrow> (\<lambda>b. b))
        (?b\<lparr>q_predicates := q_predicates ?b @ q_predicates q\<rparr>))) = q"
    by (cases q) (auto simp: query_builder_new_def split: option.splits)
  then have build: "(case q_projection q of Some cs \<Rightarrow> B\<lparr>q_projection := Some cs\<rparr> | None \<Rightarrow> B) = q"
    if "B = (case q_limit q of Some n \<Rightarrow> A\<lparr>q_limit := Some n\<rparr> | None \<Rightarrow> A)"
      "A = (case q_order_by q of Some ob \<Rightarrow> C\<lparr>q_order_by := Some ob\<rparr> | None \<Rightarrow> C)"
      "C = ?b\<lparr>q_predicates := q_predicates ?b @ q_predicates q\<rparr>" for A B C
    using that by (auto split: option.splits)
  show "decode_query (encode_query q @ rest) = WOk (q, rest)"
    using ok len unfolding decode_query_def encode_query_def
    by (simp add: codec_simps query_ok_def) (simp add: get_predicates_enc query_tail_enc [OF ok] build query_ok_def)
qed

definition args_ok :: "reducer_args \<Rightarrow> bool" where
  "args_ok args \<longleftrightarrow> om_wf args \<and> (\<forall>(name, v) \<in> set args. str_ok name \<and> value_ok v) \<and> alloc_fits 1 (length args)"

lemma get_args_enc:
  "om_wf (done @ args) \<Longrightarrow> \<forall>(name, v) \<in> set args. str_ok name \<and> value_ok v \<Longrightarrow>
     get_args (length args) done (concat (map put_arg args) @ rest) = WOk (done @ args, rest)"
proof (induction args arbitrary: "done")
  case (Cons a args)
  obtain name v where a: "a = (name, v)" by (cases a)
  have "\<forall>q \<in> set done. fst q < name" using Cons.prems(1) a by (auto simp: om_wf_def sorted_wrt_append)
  then have "args_insert name v done = done @ [a]" by (simp add: args_insert_def om_put_beyond a)
  with Cons a show ?case by (simp add: put_arg_def codec_simps)
qed simp

interpretation argsc: wire_codec put_reducer_args get_reducer_args args_ok
proof unfold_locales
  fix args rest assume ok: "args_ok args"
  have len: "unat (len_u64 args) = length args" using ok by (intro unat_len_alloc) (auto simp: args_ok_def)
  have "1 * length args \<le> length (concat (map put_arg args))"
    by (intro concat_length_ge) (auto simp: put_arg_def put_str_def put_bytes_def put_u64_def)
  then have "\<not> length (concat (map put_arg args) @ rest) < length args" by simp
  with ok len show "get_reducer_args (put_reducer_args args @ rest) = WOk (args, rest)"
    by (simp add: get_reducer_args_def put_reducer_args_def codec_simps get_args_enc args_ok_def del: length_append)
qed

lemma net_opt_enc [codec_simps]:
  "(\<And>x. r = Some x \<Longrightarrow> row_ok x) \<Longrightarrow> net_get_opt_row (put_opt_row r @ rest) = WOk (r, rest)"
  "net_get_opt_version (put_opt_version v @ rest) = WOk (v, rest)"
  by (cases r; simp add: net_get_opt_row_def put_opt_row_def codec_simps)
    (cases v; simp add: net_get_opt_version_def put_opt_version_def codec_simps)

interpretation net_changec: wire_codec net_encode_change net_decode_change change_ok
proof unfold_locales
  fix c rest assume ok: "change_ok c"
  then have rows: "\<And>x. ch_old_row c = Some x \<Longrightarrow> row_ok x" "\<And>x. ch_new_row c = Some x \<Longrightarrow> row_ok x"
    by (auto simp: change_ok_def)
  show "net_decode_change (net_encode_change c @ rest) = WOk (c, rest)"
    using ok unfolding net_decode_change_def net_encode_change_def
    by (simp add: codec_simps rows)
      (cases c; auto simp: change_ok_def change_insert_def change_update_def change_delete_def net_require_def
        split: change_kind.splits)
qed

definition event_ok :: "reducer_event \<Rightarrow> bool" where
  "event_ok e \<longleftrightarrow> str_ok (re_name e) \<and> value_ok (re_payload e)"

interpretation eventc: wire_codec put_event get_event event_ok
  by unfold_locales (simp add: put_event_def get_event_def event_ok_def codec_simps)

interpretation deliveredc: wire_codec put_delivered get_delivered "\<lambda>d. row_ok (dr_row d)"
  by unfold_locales (simp add: put_delivered_def get_delivered_def codec_simps)

definition delta_row_ok :: "delta_kind \<Rightarrow> row_id \<Rightarrow> delivered_row option \<Rightarrow> bool" where
  "delta_row_ok kind rid row \<longleftrightarrow>
     (if kind = DDelete then row = None else \<exists>d. row = Some d \<and> dr_row_id d = rid \<and> row_ok (dr_row d))"

definition delta_ok :: "delta_entry \<Rightarrow> bool" where
  "delta_ok d \<longleftrightarrow> delta_row_ok (de_kind d) (de_row_id d) (de_row d)"

lemma delta_row_enc:
  assumes "delta_row_ok kind rid row"
  shows "\<exists>bs. put_delta_row kind row = WOk bs \<and> (\<forall>rest. get_delta_row kind rid (bs @ rest) = WOk (row, rest))"
  using assms
  by (cases kind) (auto simp: delta_row_ok_def put_delta_row_def get_delta_row_def send_expect_def codec_simps)

text \<open>The bytes of a delta whose row is present when it has to be.\<close>

definition put_delta :: "delta_entry \<Rightarrow> u8 list" where
  "put_delta d =
     put_u64 (de_seq d) @ [delta_kind_tag (de_kind d)] @ put_u64 (de_row_id d) @
     (if de_kind d = DDelete then [] else put_row (dr_row (the (de_row d))))"

interpretation deltac: wire_codec put_delta get_delta delta_ok
proof unfold_locales
  fix d rest assume ok: "delta_ok d"
  show "get_delta (put_delta d @ rest) = WOk (d, rest)"
    using ok by (cases "de_kind d")
      (auto simp: delta_ok_def delta_row_ok_def put_delta_def get_delta_def get_delta_row_def codec_simps
        delta_kind_from_tag_def)
qed

lemma put_deltas_eq: "\<forall>d \<in> set ds. delta_ok d \<Longrightarrow> put_deltas ds = WOk (concat (map put_delta ds))"
proof (induction ds)
  case (Cons d ds)
  then show ?case
    by (cases "de_kind d") (auto simp: put_delta_def put_delta_row_def send_expect_def delta_ok_def delta_row_ok_def)
qed simp

section \<open>Messages\<close>

fun client_ok :: "client_message \<Rightarrow> bool" where
  "client_ok (Handshake v name) = str_ok name"
| "client_ok (Authenticate s) = str_ok s"
| "client_ok (InputFrame f) = frame_ok f"
| "client_ok (Subscribe request q) = query_ok q"
| "client_ok (CallReducer request name args) = (name \<noteq> [] \<and> str_ok name \<and> args_ok args)"
| "client_ok _ = True"

fun client_parts :: "client_message \<Rightarrow> u8 \<times> u8 list" where
  "client_parts (Handshake v name) = (0x01, put_u16 v @ put_str name)"
| "client_parts (Authenticate s) = (0x02, put_str s)"
| "client_parts (AttachWorld w) = (0x03, put_u64 w)"
| "client_parts (InputFrame f) = (0x04, encode_frame_payload f)"
| "client_parts (Subscribe request q) = (0x05, put_u64 request @ encode_query q)"
| "client_parts (Unsubscribe s) = (0x06, put_u64 s)"
| "client_parts (Resync s) = (0x07, put_u64 s)"
| "client_parts (Ping n) = (0x08, put_u64 n)"
| "client_parts DetachWorld = (0x09, [])"
| "client_parts (CallReducer request name args) = (0x0A, put_u64 request @ put_str name @ put_reducer_args args)"

lemma encode_client_parts: "encode_client msg mx = (case client_parts msg of (kind, payload) \<Rightarrow> build_frame kind payload mx)"
  by (cases msg) (simp_all add: encode_client_def)

lemma finish_end [codec_simps]: "finish (x, []) = WOk x"
  by (simp add: finish_def codec_simps)

lemmas composite_enc =
  inputc.rd_enc [where rest = "[]", simplified] queryc.rd_enc [where rest = "[]", simplified]
  argsc.rd_enc [where rest = "[]", simplified]

lemma client_payload_enc:
  assumes "client_ok msg" and "client_parts msg = (kind, payload)"
  shows "client_payload kind payload = WOk msg"
  using assms by (cases msg) (auto simp: client_payload_def codec_simps composite_enc)

lemma client_roundtrip:
  assumes "client_ok msg"
  shows "(\<exists>frame. encode_client msg mx = WOk frame \<and> decode_client frame mx = WOk msg \<and>
      (\<forall>rest. net_parse_frame (frame @ rest) mx = WOk (Some (frame, length frame))) \<and>
      (\<forall>n < length frame. net_parse_frame (take n frame) mx = WOk None)) \<or>
    encode_client msg mx = WErr NetCapacity \<and> unat mx < length (snd (client_parts msg))"
proof -
  obtain kind payload where p: "client_parts msg = (kind, payload)" by (cases "client_parts msg")
  have "encode_client msg mx = build_frame kind payload mx" using assms by (simp add: encode_client_parts p)
  moreover have "decode_client frame mx = WOk msg" if "decode_frame frame mx = WOk (kind, payload)" for frame
    using that client_payload_enc [OF assms p] by (simp add: decode_client_def)
  ultimately show ?thesis using frame_exchange [of "encode_client msg mx" kind payload mx "\<lambda>f. decode_client f mx" msg] by (simp add: p)
qed

fun server_ok :: "server_message \<Rightarrow> bool" where
  "server_ok (HandshakeResponse v name) = str_ok name"
| "server_ok (AuthResult ok p e) =
     (if ok then (\<exists>i name. p = Some \<lparr>pl_id = i, pl_name = name\<rparr> \<and> str_ok name) \<and> e = None
      else p = None \<and> (\<exists>m. e = Some m \<and> str_ok m))"
| "server_ok (AttachResult ok w e) =
     (if ok then (\<exists>i. w = Some i) \<and> e = None else w = None \<and> (\<exists>m. e = Some m \<and> str_ok m))"
| "server_ok (DetachResult ok e) = (if ok then e = None else (\<exists>m. e = Some m \<and> str_ok m))"
| "server_ok (TickUpdate w t x changes events) =
     ((\<forall>c \<in> set changes. change_ok c) \<and> alloc_fits 72 (length changes) \<and>
      (\<forall>e \<in> set events. event_ok e) \<and> alloc_fits 48 (length events))"
| "server_ok (SubscriptionSnapshot r s n rows) = ((\<forall>d \<in> set rows. row_ok (dr_row d)) \<and> alloc_fits 32 (length rows))"
| "server_ok (SubscriptionDelta s n kind rid row) = delta_row_ok kind rid row"
| "server_ok (ErrorMessage code m r) = str_ok m"
| "server_ok (Disconnect s) = str_ok s"
| "server_ok (ReducerResult r ok v e) =
     (if ok then (\<exists>x. v = Some x \<and> value_ok x) \<and> e = None else v = None \<and> (\<exists>m. e = Some m \<and> str_ok m))"
| "server_ok (SubscriptionDeltaBatch s r ds) = ((\<forall>d \<in> set ds. delta_ok d) \<and> alloc_fits 32 (length ds))"
| "server_ok _ = True"

fun server_parts :: "server_message \<Rightarrow> u8 \<times> u8 list" where
  "server_parts (HandshakeResponse v name) = (0x81, put_u16 v @ put_str name)"
| "server_parts (AuthResult ok p e) =
     (0x82, put_bool ok @ (if ok then put_u64 (pl_id (the p)) @ put_str (pl_name (the p)) else put_str (the e)))"
| "server_parts (AttachResult ok w e) = (0x83, put_bool ok @ (if ok then put_u64 (the w) else put_str (the e)))"
| "server_parts (DetachResult ok e) = (0x8B, put_bool ok @ (if ok then [] else put_str (the e)))"
| "server_parts (TickUpdate w t x changes events) =
     (0x84, put_u64 w @ put_u64 t @ put_u64 x @ put_u64 (len_u64 changes) @ concat (map net_encode_change changes) @
        put_u64 (len_u64 events) @ concat (map put_event events))"
| "server_parts (SubscriptionSnapshot r s n rows) =
     (0x85, put_u64 r @ put_u64 s @ put_u64 n @ put_u64 (len_u64 rows) @ concat (map put_delivered rows))"
| "server_parts (SubscriptionDelta s n kind rid row) =
     (0x86, put_u64 s @ put_u64 n @ [delta_kind_tag kind] @ put_u64 rid @
        (if kind = DDelete then [] else put_row (dr_row (the row))))"
| "server_parts (StaleNotification s n) = (0x87, put_u64 s @ put_u64 n)"
| "server_parts (ErrorMessage code m r) = (0x88, put_u16 code @ put_str m @ put_u64 r)"
| "server_parts (Pong n) = (0x89, put_u64 n)"
| "server_parts (Disconnect s) = (0x8A, put_str s)"
| "server_parts (ReducerResult r ok v e) =
     (0x8C, put_u64 r @ put_bool ok @ (if ok then put_value (the v) else put_str (the e)))"
| "server_parts (SubscriptionDeltaBatch s r ds) =
     (0x8D, put_u64 s @ put_u64 r @ put_u64 (len_u64 ds) @ concat (map put_delta ds))"

lemma encode_server_parts:
  assumes "server_ok msg"
  shows "encode_server msg mx = (case server_parts msg of (kind, payload) \<Rightarrow> build_frame kind payload mx)"
  using assms
  by (cases msg) (auto simp: encode_server_def send_expect_def or_text_def put_delta_row_def delta_row_ok_def
      put_deltas_eq split: if_splits delta_kind.splits)

lemmas counted_enc =
  net_changec.get_counted_enc eventc.get_counted_enc [where rest = "[]", simplified]
  deliveredc.get_counted_enc [where rest = "[]", simplified] deltac.get_counted_enc [where rest = "[]", simplified]

lemma delete_tag: "delta_kind_from_tag 3 = WOk DDelete"
  by (simp add: delta_kind_from_tag_def)

lemma server_payload_enc:
  assumes "server_ok msg" and "server_parts msg = (kind, payload)"
  shows "server_payload kind payload = WOk msg"
  using assms
  by (cases msg) (auto simp: server_payload_def codec_simps counted_enc get_delta_row_def delta_row_ok_def delete_tag
      split: if_splits delta_kind.splits)

lemma server_roundtrip:
  assumes "server_ok msg"
  shows "(\<exists>frame. encode_server msg mx = WOk frame \<and> decode_server frame mx = WOk msg \<and>
      (\<forall>rest. net_parse_frame (frame @ rest) mx = WOk (Some (frame, length frame))) \<and>
      (\<forall>n < length frame. net_parse_frame (take n frame) mx = WOk None)) \<or>
    encode_server msg mx = WErr NetCapacity \<and> unat mx < length (snd (server_parts msg))"
proof -
  obtain kind payload where p: "server_parts msg = (kind, payload)" by (cases "server_parts msg")
  have "encode_server msg mx = build_frame kind payload mx" using assms by (simp add: encode_server_parts p)
  moreover have "decode_server frame mx = WOk msg" if "decode_frame frame mx = WOk (kind, payload)" for frame
    using that server_payload_enc [OF assms p] by (simp add: decode_server_def)
  ultimately show ?thesis using frame_exchange [of "encode_server msg mx" kind payload mx "\<lambda>f. decode_server f mx" msg] by (simp add: p)
qed

section \<open>Totality\<close>

lemma tags_not_Panic [simp]:
  "comparison_op_from_tag t \<noteq> WPanic" "order_direction_from_tag t \<noteq> WPanic" "delta_kind_from_tag t \<noteq> WPanic"
  "net_change_kind_from_tag t \<noteq> WPanic"
  by (simp_all add: comparison_op_from_tag_def order_direction_from_tag_def delta_kind_from_tag_def
      net_change_kind_from_tag_def)

lemma get_command_not_Panic [simp]: "get_command c \<noteq> WPanic"
  by (auto simp: get_command_def bind_wire_not_Panic input_command_new_def split: prod.splits)

lemma query_build_not_Panic [simp]: "query_build b \<noteq> Panic"
  by (auto simp: query_build_def bind_res_not_Panic all_res_if split: option.splits)

lemma get_predicates_not_Panic [simp]: "get_predicates n b c \<noteq> WPanic"
  by (induction n b c rule: get_predicates.induct) (auto simp: bind_wire_not_Panic split: prod.splits)

lemma decode_query_not_Panic [simp]: "decode_query c \<noteq> WPanic"
  by (auto simp: decode_query_def get_order_def get_limit_def get_projection_def bind_wire_not_Panic read_n_not_Panic
      split: prod.splits)

lemma get_args_not_Panic [simp]: "get_args n args c \<noteq> WPanic"
  by (induction n args c rule: get_args.induct) (auto simp: bind_wire_not_Panic split: prod.splits)

lemma finish_not_Panic [simp]: "finish p \<noteq> WPanic"
  by (simp add: finish_def bind_wire_not_Panic)

text \<open>A frame holds at most \<open>2 ^ 32\<close> bytes of payload, so the reservation for the commands of an input frame cannot
  overflow.\<close>

lemma decode_frame_payload_not_Panic:
  assumes "length c \<le> 2 ^ 32"
  shows "decode_frame_payload c \<noteq> WPanic"
proof -
  have sub: "w_u64 c = WOk (x, c') \<Longrightarrow> length c' \<le> length c" for c x c'
    by (auto simp: w_u64_def lift_core_def get_u64_def take_bytes_def bind_res_eq_Ok split: if_splits)
  have "alloc_fits 56 n" if "n \<le> k div 18" "k \<le> 2 ^ 32" for n k
    using that by (auto simp: alloc_fits_def isize_max_def)
  then show ?thesis
    using assms sub unfolding decode_frame_payload_def
    by (auto simp: bind_wire_not_Panic read_n_not_Panic not_less split: prod.splits) (meson le_trans)
qed

lemma decode_frame_payload_length:
  "decode_frame frame mx = WOk (kind, payload) \<Longrightarrow> length payload \<le> unat mx"
  by (auto simp: decode_frame_def Let_def word_le_nat_alt not_less split: if_splits)

lemma decode_frame_not_Panic [simp]: "decode_frame frame mx \<noteq> WPanic"
  by (simp add: decode_frame_def Let_def)

lemma decode_client_total: "decode_client frame mx \<noteq> WPanic"
proof -
  have "client_payload kind payload \<noteq> WPanic" if "length payload \<le> 2 ^ 32" for kind payload
    using decode_frame_payload_not_Panic [OF that]
    by (auto simp: client_payload_def get_reducer_args_def bind_wire_not_Panic split: prod.splits)
  moreover have "unat mx \<le> 2 ^ 32" using unsigned_less [of mx, where ?'a = nat] by simp
  ultimately show ?thesis
    using decode_frame_payload_length [of frame mx] by (auto simp: decode_client_def bind_wire_not_Panic)
qed

lemma batch_count_panics:
  assumes "2 ^ 58 \<le> count"
  shows "server_payload 0x8D (put_u64 sub @ put_u64 request @ put_u64 count @ rest) = WPanic"
proof -
  have "\<not> alloc_fits 32 (unat count)"
    using assms by (simp add: alloc_fits_def isize_max_def word_le_nat_alt)
  then show ?thesis by (simp add: server_payload_def get_counted_def codec_simps)
qed

lemma batch_frame_panics:
  assumes "2 ^ 58 \<le> count" and "24 \<le> unat mx"
  shows "\<exists>frame. build_frame 0x8D (put_u64 sub @ put_u64 request @ put_u64 count) mx = WOk frame \<and>
    decode_server frame mx = WPanic"
proof -
  let ?p = "put_u64 sub @ put_u64 request @ put_u64 count"
  have fits: "length ?p \<le> unat mx" using assms(2) by (simp add: put_u64_def)
  have "decode_frame (frame_of 0x8D ?p) mx = WOk (0x8D, ?p)" using frame_read_back(1) [OF fits, of _ "[]"] by simp
  then have "decode_server (frame_of 0x8D ?p) mx = WPanic"
    using batch_count_panics [OF assms(1), of sub request "[]"] by (simp add: decode_server_def)
  with fits show ?thesis by (simp add: build_frame_eq)
qed

end
