(* ===== verification/Exec_Reducer.thy ===== *)
theory Exec_Reducer
  imports Exec_Data Tx_Invariant Wal_Recovery
begin

text \<open>
  \<^verbatim>\<open>nexum-reducer\<close>: the context a reducer sees (\<^verbatim>\<open>context.rs\<close>), definitions and the registry
  (\<^verbatim>\<open>definition.rs\<close>, \<^verbatim>\<open>registry.rs\<close>). A reducer is user code: a function that can only call the operations of its
  context and return a value, an error, or panic. It is modelled by the tree of the calls it makes, a
  datatype with one constructor for each operation of the context and a continuation that takes the
  outcome of the call. A panic inside a call unwinds the reducer.
\<close>

section \<open>The context\<close>

record reducer_context =
  rc_tx :: transaction
  rc_events :: "reducer_event list"

definition reducer_context_new :: "transaction \<Rightarrow> reducer_context" where
  "reducer_context_new tx = \<lparr>rc_tx = tx, rc_events = []\<rparr>"

text \<open>A call of the transaction through the context.\<close>

definition via_tx :: "(transaction \<Rightarrow> 'a \<times> transaction) \<Rightarrow> reducer_context \<Rightarrow> 'a \<times> reducer_context" where
  "via_tx f ctx = (case f (rc_tx ctx) of (r, tx) \<Rightarrow> (r, ctx\<lparr>rc_tx := tx\<rparr>))"

definition rc_get :: "table_store \<Rightarrow> string \<Rightarrow> row_id \<Rightarrow> reducer_context \<Rightarrow> row option res \<times> reducer_context" where
  "rc_get st table rid = via_tx (tx_get st table rid)"

definition rc_contains :: "table_store \<Rightarrow> string \<Rightarrow> row_id \<Rightarrow> reducer_context \<Rightarrow> bool res \<times> reducer_context" where
  "rc_contains st table rid = via_tx (tx_contains st table rid)"

definition rc_scan :: "table_store \<Rightarrow> string \<Rightarrow> reducer_context \<Rightarrow> (row_id \<times> row) list res \<times> reducer_context" where
  "rc_scan st table = via_tx (tx_scan st table)"

definition rc_lookup_unique ::
    "table_store \<Rightarrow> string \<Rightarrow> string \<Rightarrow> index_key \<Rightarrow> reducer_context \<Rightarrow> row_id list res \<times> reducer_context" where
  "rc_lookup_unique st table ix key = via_tx (tx_lookup_unique st table ix key)"

definition rc_lookup_index ::
    "table_store \<Rightarrow> string \<Rightarrow> string \<Rightarrow> index_key \<Rightarrow> reducer_context \<Rightarrow> row_id list res \<times> reducer_context" where
  "rc_lookup_index st table ix key = via_tx (tx_lookup_index st table ix key)"

definition rc_insert :: "table_store \<Rightarrow> string \<Rightarrow> row \<Rightarrow> reducer_context \<Rightarrow> row_id res \<times> reducer_context" where
  "rc_insert st table r = via_tx (tx_insert st table r)"

definition rc_update ::
    "table_store \<Rightarrow> string \<Rightarrow> row_id \<Rightarrow> row \<Rightarrow> reducer_context \<Rightarrow> unit res \<times> reducer_context" where
  "rc_update st table rid r = via_tx (tx_update st table rid r)"

definition rc_delete :: "table_store \<Rightarrow> string \<Rightarrow> row_id \<Rightarrow> reducer_context \<Rightarrow> unit res \<times> reducer_context" where
  "rc_delete st table rid = via_tx (tx_delete st table rid)"

definition rc_emit :: "string \<Rightarrow> value_t \<Rightarrow> reducer_context \<Rightarrow> unit res \<times> reducer_context" where
  "rc_emit name payload ctx =
     (if name = [] then (Err InvalidArgument, ctx)
      else (Ok (), ctx\<lparr>rc_events := rc_events ctx @ [\<lparr>re_name = name, re_payload = payload\<rparr>]\<rparr>))"

definition rc_take_events :: "reducer_context \<Rightarrow> reducer_event list \<times> reducer_context" where
  "rc_take_events ctx = (rc_events ctx, ctx\<lparr>rc_events := []\<rparr>)"

section \<open>Reducers\<close>

definition store_has_table :: "table_store \<Rightarrow> string \<Rightarrow> bool" where
  "store_has_table st name \<longleftrightarrow> store_table st name \<noteq> None"

datatype reducer_prog =
    Finish "value_t res"
  | Has_Table string "bool \<Rightarrow> reducer_prog"
  | Get string row_id "row option res \<Rightarrow> reducer_prog"
  | Contains string row_id "bool res \<Rightarrow> reducer_prog"
  | Scan string "(row_id \<times> row) list res \<Rightarrow> reducer_prog"
  | Lookup_Unique string string index_key "row_id list res \<Rightarrow> reducer_prog"
  | Lookup_Index string string index_key "row_id list res \<Rightarrow> reducer_prog"
  | Insert string row "row_id res \<Rightarrow> reducer_prog"
  | Update string row_id row "unit res \<Rightarrow> reducer_prog"
  | Delete string row_id "unit res \<Rightarrow> reducer_prog"
  | Emit string value_t "unit res \<Rightarrow> reducer_prog"
  | Take_Events "reducer_event list \<Rightarrow> reducer_prog"

text \<open>What follows a call: the continuation, unless the call panicked.\<close>

definition resume :: "'a res \<times> 's \<Rightarrow> ('a res \<Rightarrow> 's \<Rightarrow> 'b res \<times> 's) \<Rightarrow> 'b res \<times> 's" where
  "resume c k = (case c of (Panic, s) \<Rightarrow> (Panic, s) | (r, s) \<Rightarrow> k r s)"

primrec run_reducer :: "table_store \<Rightarrow> reducer_prog \<Rightarrow> reducer_context \<Rightarrow> value_t res \<times> reducer_context" where
  "run_reducer st (Finish r) = (\<lambda>ctx. (r, ctx))"
| "run_reducer st (Has_Table table k) = (\<lambda>ctx. run_reducer st (k (store_has_table st table)) ctx)"
| "run_reducer st (Get table rid k) = (\<lambda>ctx. resume (rc_get st table rid ctx) (\<lambda>r. run_reducer st (k r)))"
| "run_reducer st (Contains table rid k) =
     (\<lambda>ctx. resume (rc_contains st table rid ctx) (\<lambda>r. run_reducer st (k r)))"
| "run_reducer st (Scan table k) = (\<lambda>ctx. resume (rc_scan st table ctx) (\<lambda>r. run_reducer st (k r)))"
| "run_reducer st (Lookup_Unique table ix key k) =
     (\<lambda>ctx. resume (rc_lookup_unique st table ix key ctx) (\<lambda>r. run_reducer st (k r)))"
| "run_reducer st (Lookup_Index table ix key k) =
     (\<lambda>ctx. resume (rc_lookup_index st table ix key ctx) (\<lambda>r. run_reducer st (k r)))"
| "run_reducer st (Insert table r k) = (\<lambda>ctx. resume (rc_insert st table r ctx) (\<lambda>r. run_reducer st (k r)))"
| "run_reducer st (Update table rid r k) =
     (\<lambda>ctx. resume (rc_update st table rid r ctx) (\<lambda>r. run_reducer st (k r)))"
| "run_reducer st (Delete table rid k) =
     (\<lambda>ctx. resume (rc_delete st table rid ctx) (\<lambda>r. run_reducer st (k r)))"
| "run_reducer st (Emit name payload k) =
     (\<lambda>ctx. resume (rc_emit name payload ctx) (\<lambda>r. run_reducer st (k r)))"
| "run_reducer st (Take_Events k) = (\<lambda>ctx. case rc_take_events ctx of (es, ctx) \<Rightarrow> run_reducer st (k es) ctx)"

type_synonym reducer_fn = "reducer_args \<Rightarrow> reducer_prog"

record reducer_definition =
  rd_id :: u64
  rd_name :: string
  rd_execute :: reducer_fn

definition reducer_definition_new :: "u64 \<Rightarrow> string \<Rightarrow> reducer_fn \<Rightarrow> reducer_definition res" where
  "reducer_definition_new i name execute =
     (if name = [] then Err InvalidArgument else Ok \<lparr>rd_id = i, rd_name = name, rd_execute = execute\<rparr>)"

text \<open>\<^verbatim>\<open>execute_against_tx\<close>: the panic boundary.\<close>

definition execute_against_tx ::
    "reducer_fn \<Rightarrow> reducer_args \<Rightarrow> table_store \<Rightarrow> transaction \<Rightarrow>
      (value_t \<times> reducer_event list) res \<times> transaction" where
  "execute_against_tx execute args st tx =
     (case run_reducer st (execute args) (reducer_context_new tx) of (outcome, ctx) \<Rightarrow>
        ((case outcome of Ok v \<Rightarrow> Ok (v, rc_events ctx) | Err e \<Rightarrow> Err e | Panic \<Rightarrow> Err Internal), rc_tx ctx))"

section \<open>The registry\<close>

record reducer_result =
  rr_tx_id :: transaction_id
  rr_changes :: "change list"
  rr_events :: "reducer_event list"
  rr_return_value :: value_t

record reducer_registry =
  reg_by_id :: "(u64, reducer_definition) omap"
  reg_by_name :: "(string, u64) omap"

definition reducer_registry_new :: reducer_registry where
  "reducer_registry_new = \<lparr>reg_by_id = [], reg_by_name = []\<rparr>"

definition reducer_register :: "reducer_definition \<Rightarrow> reducer_registry \<Rightarrow> unit res \<times> reducer_registry" where
  "reducer_register d reg =
     (if om_get (reg_by_id reg) (rd_id d) \<noteq> None then (Err AlreadyExists, reg)
      else if om_get (reg_by_name reg) (rd_name d) \<noteq> None then (Err AlreadyExists, reg)
      else (Ok (), reg\<lparr>reg_by_name := om_put (rd_name d) (rd_id d) (reg_by_name reg),
                       reg_by_id := om_put (rd_id d) d (reg_by_id reg)\<rparr>))"

definition reducer_lookup :: "reducer_registry \<Rightarrow> u64 \<Rightarrow> reducer_definition option" where
  "reducer_lookup reg i = om_get (reg_by_id reg) i"

definition reducer_lookup_by_name :: "reducer_registry \<Rightarrow> string \<Rightarrow> reducer_definition option" where
  "reducer_lookup_by_name reg name = Option.bind (om_get (reg_by_name reg) name) (om_get (reg_by_id reg))"

definition reducer_contains :: "reducer_registry \<Rightarrow> string \<Rightarrow> bool" where
  "reducer_contains reg name \<longleftrightarrow> om_get (reg_by_name reg) name \<noteq> None"

definition finish_invocation ::
    "table_store \<Rightarrow> transaction \<Rightarrow> reducer_event list \<Rightarrow> value_t res \<Rightarrow> reducer_result res \<times> table_store" where
  "finish_invocation st tx events outcome =
     (case outcome of
        Ok v \<Rightarrow>
          (case tx_commit tx st of (res, tx, st) \<Rightarrow>
             try_res res st (\<lambda>changes.
               (Ok \<lparr>rr_tx_id = tx_id tx, rr_changes = changes, rr_events = events, rr_return_value = v\<rparr>, st)))
      | Err e \<Rightarrow> (Err e, st)
      | Panic \<Rightarrow> (Panic, st))"

definition reducer_invoke ::
    "reducer_registry \<Rightarrow> table_store \<Rightarrow> string \<Rightarrow> reducer_args \<Rightarrow> reducer_result res \<times> table_store" where
  "reducer_invoke reg st name args =
     try_res (ok_or NotFound (reducer_lookup_by_name reg name)) st (\<lambda>d.
       (case tx_begin st of (tx, st) \<Rightarrow>
          (case execute_against_tx (rd_execute d) args st tx of
             (Ok (v, events), tx) \<Rightarrow> finish_invocation st tx events (Ok v)
           | (Err e, tx) \<Rightarrow> finish_invocation st tx [] (Err e)
           | (Panic, tx) \<Rightarrow> (Panic, st))))"

definition invoke_in_tx ::
    "reducer_registry \<Rightarrow> table_store \<Rightarrow> string \<Rightarrow> reducer_args \<Rightarrow> transaction \<Rightarrow>
      (value_t \<times> reducer_event list) res \<times> transaction" where
  "invoke_in_tx reg st name args tx =
     try_res (ok_or NotFound (reducer_lookup_by_name reg name)) tx (\<lambda>d.
       execute_against_tx (rd_execute d) args st tx)"

section \<open>What a reducer can do\<close>

lemma via_tx_grows:
  "tx_grows (rc_tx ctx) (snd (f (rc_tx ctx))) \<Longrightarrow> tx_grows (rc_tx ctx) (rc_tx (snd (via_tx f ctx)))"
  by (simp add: via_tx_def split_def)

lemma resume_grows:
  assumes "tx_grows (h ctx) (h (snd c))" and "\<And>r s. tx_grows (h s) (h (snd (k r s)))"
  shows "tx_grows (h ctx) (h (snd (resume c k)))"
  using assms tx_grows_trans by (cases c; cases "fst c") (auto simp: resume_def)

lemmas rc_defs = rc_get_def rc_contains_def rc_scan_def rc_lookup_unique_def rc_lookup_index_def rc_insert_def
  rc_update_def rc_delete_def

lemma rc_ops_grow:
  "tx_grows (rc_tx ctx) (rc_tx (snd (rc_get st table rid ctx)))"
  "tx_grows (rc_tx ctx) (rc_tx (snd (rc_contains st table rid ctx)))"
  "tx_grows (rc_tx ctx) (rc_tx (snd (rc_scan st table ctx)))"
  "tx_grows (rc_tx ctx) (rc_tx (snd (rc_lookup_unique st table ix key ctx)))"
  "tx_grows (rc_tx ctx) (rc_tx (snd (rc_lookup_index st table ix key ctx)))"
  "tx_grows (rc_tx ctx) (rc_tx (snd (rc_insert st table r ctx)))"
  "tx_grows (rc_tx ctx) (rc_tx (snd (rc_update st table rid r ctx)))"
  "tx_grows (rc_tx ctx) (rc_tx (snd (rc_delete st table rid ctx)))"
  "tx_grows (rc_tx ctx) (rc_tx (snd (rc_emit name payload ctx)))"
  unfolding rc_defs by (intro via_tx_grows tx_user_grows)+ (simp add: rc_emit_def)

lemma run_reducer_grows: "tx_grows (rc_tx ctx) (rc_tx (snd (run_reducer st p ctx)))"
proof (induction p arbitrary: ctx)
  case (Take_Events k)
  from Take_Events [OF rangeI, where ctx = "ctx\<lparr>rc_events := []\<rparr>"] show ?case by (simp add: rc_take_events_def)
qed (simp_all, (rule resume_grows [where h = rc_tx], rule rc_ops_grow, simp)+)

lemma execute_grows:
  "tx_grows tx (snd (execute_against_tx execute args st tx))"
  "fst (execute_against_tx execute args st tx) \<noteq> Panic"
  using run_reducer_grows [of "reducer_context_new tx" st "execute args"]
  by (auto simp: execute_against_tx_def reducer_context_new_def split: prod.splits res.splits)

lemma invoke_in_tx_grows:
  "tx_grows tx (snd (invoke_in_tx reg st name args tx))" "fst (invoke_in_tx reg st name args tx) \<noteq> Panic"
  using execute_grows by (cases "reducer_lookup_by_name reg name"; simp add: invoke_in_tx_def)+

section \<open>Programs that do not panic\<close>

text \<open>No call of a transaction panics on a sound store.\<close>

lemma resolve_table_cases:
  assumes "store_wf st"
  shows "resolve_table st name = Err NotFound \<or> (\<exists>t. resolve_table st name = Ok t \<and> table_wf t)"
proof (cases "store_table st name")
  case (Some t)
  then have "(name, t) \<in> set (ts_tables st)" by (auto simp: store_table_def dest: map_of_SomeD)
  with Some store_wfD(1) [OF assms] show ?thesis by (auto simp: resolve_table_def)
qed (simp add: resolve_table_def)

lemma index_keys_not_Panic: "table_wf t \<Longrightarrow> index_keys t r \<noteq> Panic"
  by (cases "row_conforms (table_schema_of t) r")
    (auto simp: index_keys_def validate_row_if named_keys_eq table_indexes_def subset_eq)

lemma table_lookup_not_Panic:
  assumes "table_wf t"
  shows "table_lookup t name key \<noteq> Panic"
proof -
  have "validate_key t ix key \<noteq> Panic" if "ix \<in> set (table_indexes t)" for ix
    using validate_key_if [OF table_wf_index [OF assms that]] by simp
  then show ?thesis
    using table_indexes_mem [of t] by (cases "map_of (tb_indexes t) name") (simp_all add: table_lookup_def bind_res_not_Panic)
qed

lemma overlay_owners_not_Panic:
  assumes owns: "\<And>r. owns r \<noteq> Panic"
  shows "overlay_owners owns ws tid ids \<noteq> Panic"
proof -
  have "keep_owners owns ws tid ids \<noteq> Panic"
    using owns by (induction ids) (auto simp: bind_res_eq_Panic split: option.splits write_entry.splits)
  moreover have "pending_owners owns es \<noteq> Panic" for es
    using owns by (induction es rule: pending_owners.induct) (auto simp: bind_res_eq_Panic split: option.splits)
  ultimately show ?thesis by (simp add: overlay_owners_def bind_res_not_Panic)
qed

lemma ensure_active_not_Panic: "ensure_active tx \<noteq> Panic"
  by (simp add: ensure_active_def split: transaction_state.split)

lemma tx_ops_not_Panic:
  assumes "store_wf st"
  shows "fst (tx_get st name rid tx) \<noteq> Panic" "fst (tx_contains st name rid tx) \<noteq> Panic" "fst (tx_scan st name tx) \<noteq> Panic"
    "fst (tx_lookup_unique st name ix key tx) \<noteq> Panic" "fst (tx_lookup_index st name ix key tx) \<noteq> Panic"
    "fst (tx_insert st name r tx) \<noteq> Panic" "fst (tx_update st name rid r tx) \<noteq> Panic" "fst (tx_delete st name rid tx) \<noteq> Panic"
proof -
  have valid: "validate_row s (row_values r) \<noteq> Panic" for s using validate_row_cases [of s "row_values r"] by auto
  note t = resolve_table_cases [OF assms, of name] and act = ensure_active_not_Panic [of tx]
  have unique: "bind_res (table_lookup_unique t ix key) (overlay_owners (row_owns_key t ix key) ws tid) \<noteq> Panic"
    "bind_res (table_lookup t ix key) (overlay_owners (row_owns_index_key t ix key) ws tid) \<noteq> Panic"
    if "table_wf t" for t ws tid
    using lookup_unique_not_Panic [OF that] table_lookup_not_Panic [OF that] unique_keys_not_Panic [OF that] index_keys_not_Panic [OF that]
    by (simp_all add: bind_res_not_Panic overlay_owners_not_Panic row_owns_key_def row_owns_index_key_def)
  show "fst (tx_get st name rid tx) \<noteq> Panic" "fst (tx_contains st name rid tx) \<noteq> Panic" "fst (tx_scan st name tx) \<noteq> Panic"
    using t act by (auto simp: tx_get_def tx_contains_def tx_scan_def try_res_def split: res.split option.split)
  show "fst (tx_lookup_unique st name ix key tx) \<noteq> Panic" "fst (tx_lookup_index st name ix key tx) \<noteq> Panic"
    using t act unique by (auto simp: tx_lookup_unique_def tx_lookup_index_def try_res_def split: res.split)
  show "fst (tx_insert st name r tx) \<noteq> Panic" "fst (tx_update st name rid r tx) \<noteq> Panic" "fst (tx_delete st name rid tx) \<noteq> Panic"
    using t act valid
    by (auto simp: tx_insert_def tx_update_def tx_delete_def Let_def try_res_def ws_insert_def ws_update_def ws_delete_def
        split: res.split option.split write_entry.split)
qed

text \<open>\<open>no_panic\<close>: the program does not panic by itself, whatever its calls answer.\<close>

primrec no_panic :: "reducer_prog \<Rightarrow> bool" where
  "no_panic (Finish r) \<longleftrightarrow> r \<noteq> Panic"
| "no_panic (Has_Table table k) \<longleftrightarrow> (\<forall>b. no_panic (k b))"
| "no_panic (Get table rid k) \<longleftrightarrow> (\<forall>r. r \<noteq> Panic \<longrightarrow> no_panic (k r))"
| "no_panic (Contains table rid k) \<longleftrightarrow> (\<forall>r. r \<noteq> Panic \<longrightarrow> no_panic (k r))"
| "no_panic (Scan table k) \<longleftrightarrow> (\<forall>r. r \<noteq> Panic \<longrightarrow> no_panic (k r))"
| "no_panic (Lookup_Unique table ix key k) \<longleftrightarrow> (\<forall>r. r \<noteq> Panic \<longrightarrow> no_panic (k r))"
| "no_panic (Lookup_Index table ix key k) \<longleftrightarrow> (\<forall>r. r \<noteq> Panic \<longrightarrow> no_panic (k r))"
| "no_panic (Insert table row k) \<longleftrightarrow> (\<forall>r. r \<noteq> Panic \<longrightarrow> no_panic (k r))"
| "no_panic (Update table rid row k) \<longleftrightarrow> (\<forall>r. r \<noteq> Panic \<longrightarrow> no_panic (k r))"
| "no_panic (Delete table rid k) \<longleftrightarrow> (\<forall>r. r \<noteq> Panic \<longrightarrow> no_panic (k r))"
| "no_panic (Emit name payload k) \<longleftrightarrow> (\<forall>r. r \<noteq> Panic \<longrightarrow> no_panic (k r))"
| "no_panic (Take_Events k) \<longleftrightarrow> (\<forall>es. no_panic (k es))"

lemma resume_not_Panic:
  "fst c \<noteq> Panic \<Longrightarrow> (\<And>r s. r \<noteq> Panic \<Longrightarrow> fst (k r s) \<noteq> Panic) \<Longrightarrow> fst (resume c k) \<noteq> Panic"
  by (cases c; cases "fst c") (auto simp: resume_def)

lemma rc_ops_not_Panic:
  assumes "store_wf st"
  shows "fst (rc_get st table rid ctx) \<noteq> Panic" "fst (rc_contains st table rid ctx) \<noteq> Panic" "fst (rc_scan st table ctx) \<noteq> Panic"
    "fst (rc_lookup_unique st table ix key ctx) \<noteq> Panic" "fst (rc_lookup_index st table ix key ctx) \<noteq> Panic"
    "fst (rc_insert st table r ctx) \<noteq> Panic" "fst (rc_update st table rid r ctx) \<noteq> Panic" "fst (rc_delete st table rid ctx) \<noteq> Panic"
    "fst (rc_emit name payload ctx) \<noteq> Panic"
  using tx_ops_not_Panic [OF assms] by (simp_all add: rc_defs via_tx_def split_def rc_emit_def)

lemma run_reducer_not_Panic:
  assumes "store_wf st"
  shows "no_panic p \<Longrightarrow> fst (run_reducer st p ctx) \<noteq> Panic"
  by (induction p arbitrary: ctx)
    (simp_all add: split_def, (rule resume_not_Panic, rule rc_ops_not_Panic [OF assms], simp)+)

section \<open>One invocation, one transaction\<close>

text \<open>A transaction that was begun on a store and only grew commits as one step of the store's history, or
  leaves the store as it is.\<close>

lemma history_plain_begin:
  assumes "next_transaction_id st \<noteq> - 1"
  shows "history st [] (snd (tx_begin st))"
  using history.h_begin [OF history.h_start assms] by (simp add: tx_begin_def split_def)

lemma tx_begin_fields:
  "tx_reach (fst (tx_begin st))" "tx_state (fst (tx_begin st)) = Active" "tx_id (fst (tx_begin st)) = next_transaction_id st"
  "next_transaction_id (snd (tx_begin st)) = next_transaction_id st + 1"
  "table_by_id (snd (tx_begin st)) = table_by_id st"
  by (simp_all add: tx_begin_def alloc_transaction_id_def tx_new_def table_by_id_def fun_eq_iff
      tx_reach.fresh [of "next_transaction_id st", unfolded tx_new_def])

lemma tx_begin_grown:
  assumes "tx_grows (fst (tx_begin st)) tx" and "next_transaction_id st \<noteq> - 1"
  shows "tx_reach tx" and "tx_state tx = Active" and "tx_id tx = next_transaction_id st"
    and "tx_id tx < next_transaction_id (snd (tx_begin st))"
  using assms tx_begin_fields [of st] version_next_greater [OF assms(2)] by (auto simp: tx_grows_def version_next_def)

lemma commit_step:
  assumes plain: "store_plain st" and tx: "tx_reach tx" "tx_state tx = Active" "tx_id tx < next_transaction_id st"
    and room: "has_room st (length (ws_entries (tx_writes tx)))"
  shows "(\<exists>e. tx_commit tx st = (Err e, tx\<lparr>tx_state := Aborted\<rparr>, st)) \<or>
    (\<exists>cs st'. tx_commit tx st = (Ok cs, tx\<lparr>tx_state := Committed\<rparr>, st') \<and> history st [(tx_id tx, cs)] st')"
proof -
  have act: "ensure_active tx = Ok ()" using tx(2) by (simp add: ensure_active_def)
  consider (err) e where "commit tx st = (Err e, st)" | (ok) cs st' where "commit tx st = (Ok cs, st')"
    using commit_failed [OF plain tx_writes_wf [OF tx_reach_wf [OF tx(1)]] room] by blast
  then show ?thesis
  proof cases
    case err
    then show ?thesis by (simp add: tx_commit_def act)
  next
    case ok
    then have c: "tx_commit tx st = (Ok cs, tx\<lparr>tx_state := Committed\<rparr>, st')" by (simp add: tx_commit_def act)
    from history.h_commit [OF history.h_start tx(1,3) room c] c show ?thesis by simp
  qed
qed

lemma has_room_begin: "has_room (snd (tx_begin st)) n = has_room st n"
  by (simp add: has_room_def tx_begin_fields)

lemma begin_commit_step:
  assumes plain: "store_plain st" and fresh: "next_transaction_id st \<noteq> - 1"
    and grown: "tx_grows (fst (tx_begin st)) tx" and room: "has_room st (length (ws_entries (tx_writes tx)))"
  shows "(\<exists>e tx'. tx_commit tx (snd (tx_begin st)) = (Err e, tx', snd (tx_begin st))) \<or>
    (\<exists>cs tx' st'. tx_commit tx (snd (tx_begin st)) = (Ok cs, tx', st') \<and> tx_id tx' = next_transaction_id st \<and>
       history st [(next_transaction_id st, cs)] st')"
proof -
  note tx = tx_begin_grown [OF grown fresh] and h = history_plain_begin [OF fresh]
  have "history st [(tx_id tx, cs)] st'" if "history (snd (tx_begin st)) [(tx_id tx, cs)] st'" for cs st'
    using history_trans [OF that h] by simp
  with commit_step [OF history_plain [OF h plain] tx(1,2,4)] room tx(3) show ?thesis
    by (auto simp: has_room_begin)
qed

lemma reducer_invoke_cases:
  assumes plain: "store_plain st" and fresh: "next_transaction_id st \<noteq> - 1"
    and room: "\<And>d. reducer_lookup_by_name reg name = Some d \<Longrightarrow>
      has_room st (length (ws_entries (tx_writes (snd (execute_against_tx (rd_execute d) args (snd (tx_begin st)) (fst (tx_begin st)))))))"
    and out: "reducer_invoke reg st name args = (out, st')"
  shows "(\<exists>e. out = Err e \<and> (st' = st \<or> st' = snd (tx_begin st))) \<or>
    (\<exists>r. out = Ok r \<and> rr_tx_id r = next_transaction_id st \<and> history st [(rr_tx_id r, rr_changes r)] st')"
proof (cases "reducer_lookup_by_name reg name")
  case None
  then show ?thesis using out by (auto simp: reducer_invoke_def)
next
  case (Some d)
  let ?st = "snd (tx_begin st)"
  obtain r tx where x: "execute_against_tx (rd_execute d) args ?st (fst (tx_begin st)) = (r, tx)" by fastforce
  have g: "tx_grows (fst (tx_begin st)) tx" "r \<noteq> Panic"
    using execute_grows [where tx = "fst (tx_begin st)" and execute = "rd_execute d" and args = args and st = ?st] by (simp_all add: x)
  have i: "(out, st') = (case r of Ok (v, events) \<Rightarrow> finish_invocation ?st tx events (Ok v)
      | Err e \<Rightarrow> finish_invocation ?st tx [] (Err e) | Panic \<Rightarrow> (Panic, ?st))"
    using out Some x by (cases r) (auto simp: reducer_invoke_def split_def)
  show ?thesis
  proof (cases r)
    case (Ok p)
    from begin_commit_step [OF plain fresh g(1)] room [OF Some] x
    consider (err) e tx' where "tx_commit tx ?st = (Err e, tx', ?st)"
      | (ok) cs tx' st1 where "tx_commit tx ?st = (Ok cs, tx', st1)" "tx_id tx' = next_transaction_id st"
          "history st [(next_transaction_id st, cs)] st1" by auto
    then show ?thesis using i Ok by cases (auto simp: finish_invocation_def split: prod.splits)
  next
    case (Err e)
    then show ?thesis using i by (simp add: finish_invocation_def)
  qed (use g in simp)
qed

end
