(* ===== verification/Exec_Rng.thy ===== *)
theory Exec_Rng
  imports Exec_Data "HOL-Library.Monad_Syntax"
begin

unbundle bit_operations_syntax

text \<open>
  \<^verbatim>\<open>nexum-execution/src/rng.rs\<close>: the splitmix64 generator, its bounded draw by rejection, and the seed of a
  system in a tick. The rejection loop has no bound in the code, so it is a partial function; shown here: it
  always ends, and the draw is below the bound.
\<close>

record rng =
  rng_state :: u64

definition rng_new :: "u64 \<Rightarrow> rng" where
  "rng_new seed = \<lparr>rng_state = seed\<rparr>"

definition rng_mix :: "u64 \<Rightarrow> u64" where
  "rng_mix s =
     (let z = (s XOR drop_bit 30 s) * 0xBF58476D1CE4E5B9;
          z = (z XOR drop_bit 27 z) * 0x94D049BB133111EB in
      z XOR drop_bit 31 z)"

definition next_u64 :: "rng \<Rightarrow> u64 \<times> rng" where
  "next_u64 r = (let s = rng_state r + 0x9E3779B97F4A7C15 in (rng_mix s, r\<lparr>rng_state := s\<rparr>))"

definition next_u32 :: "rng \<Rightarrow> u32 \<times> rng" where
  "next_u32 r = (case next_u64 r of (x, r) \<Rightarrow> (ucast (drop_bit 32 x), r))"

text \<open>The product of a draw and the bound in 128 bits.\<close>

definition rng_wide :: "u64 \<Rightarrow> u64 \<Rightarrow> 128 word" where
  "rng_wide x bound = ucast x * ucast bound"

partial_function (option) reject :: "u64 \<Rightarrow> u64 \<Rightarrow> 128 word \<Rightarrow> rng \<Rightarrow> (128 word \<times> rng) option" where
  "reject bound threshold wide r =
     (if (ucast wide :: u64) < threshold
      then (case next_u64 r of (x, r) \<Rightarrow> reject bound threshold (rng_wide x bound) r)
      else Some (wide, r))"

declare reject.simps [code]

definition next_below :: "u64 \<Rightarrow> rng \<Rightarrow> (u64 res \<times> rng) option" where
  "next_below bound r =
     (if bound = 0 then Some (Panic, r)
      else
        (case next_u64 r of (x, r) \<Rightarrow>
           let wide = rng_wide x bound in
           Option.bind
             (if (ucast wide :: u64) < bound then reject bound ((- bound) mod bound) wide r else Some (wide, r))
             (\<lambda>(wide, r). Some (Ok (ucast (drop_bit 64 wide)), r))))"

definition avalanche :: "u64 \<Rightarrow> u64" where
  "avalanche x =
     (let x = x XOR drop_bit 33 x;
          x = x * 0xFF51AFD7ED558CCD;
          x = x XOR drop_bit 33 x;
          x = x * 0xC4CEB9FE1A85EC53 in
      x XOR drop_bit 33 x)"

definition rng_seed :: "u64 \<Rightarrow> u64 \<Rightarrow> u64 \<Rightarrow> u64" where
  "rng_seed world_seed tick system =
     avalanche (world_seed * 0x9E3779B97F4A7C15 + avalanche ((tick * 0xBF58476D1CE4E5B9) XOR system))"

section \<open>The rejection loop ends\<close>

text \<open>The state walks through all 64-bit values because its step is odd, and one of them is mixed to the draw 1,
  which is never rejected.\<close>

lemma rng_mix_one: "rng_mix 0x966DBFC16913C5D2 = 1"
  by (simp add: rng_mix_def Let_def)

lemma rng_step_inverse: "(0x9E3779B97F4A7C15 :: u64) * 0xF1DE83E19937733D = 1"
  by simp

lemma rng_reaches_one: "\<exists>k. rng_mix (s + word_of_nat (Suc k) * 0x9E3779B97F4A7C15) = 1"
proof -
  let ?c = "0x966DBFC16913C5D2 :: u64" and ?g = "0x9E3779B97F4A7C15 :: u64" and ?i = "0xF1DE83E19937733D :: u64"
  define m where "m = (?c - s - ?g) * ?i"
  have dist: "(d * i + 1) * g = d * (g * i) + g" for d i g :: u64 by (simp add: algebra_simps)
  have "word_of_nat (Suc (unat m)) * ?g = (m + 1) * ?g" by (simp add: add.commute)
  also have "\<dots> = (?c - s - ?g) * (?g * ?i) + ?g" unfolding m_def by (rule dist)
  also have "\<dots> = ?c - s" by (simp only: rng_step_inverse) simp
  finally have e: "word_of_nat (Suc (unat m)) * ?g = ?c - s" .
  have "s + word_of_nat (Suc (unat m)) * ?g = ?c" unfolding e by simp
  then have "rng_mix (s + word_of_nat (Suc (unat m)) * ?g) = 1" by (simp only: rng_mix_one)
  then show ?thesis by blast
qed

lemma rng_wide_one: "(ucast (rng_wide 1 bound) :: u64) = bound"
  by (simp add: rng_wide_def) (rule bit_word_eqI, simp add: bit_simps)

lemma rng_wide_bound: "\<exists>x. wide = rng_wide x bound \<Longrightarrow> bound \<noteq> 0 \<Longrightarrow> (ucast (drop_bit 64 wide) :: u64) < bound"
proof -
  assume "\<exists>x. wide = rng_wide x bound" and b: "bound \<noteq> 0"
  then obtain x where w: "wide = rng_wide x bound" by blast
  have x: "unat x < 2 ^ 64" and bd: "unat bound < 2 ^ 64" "0 < unat bound"
    using unsigned_less [of x, where ?'a = nat] unsigned_less [of bound, where ?'a = nat] b
    by (simp_all add: unat_gt_0)
  have prod: "unat x * unat bound < 2 ^ 64 * unat bound" using x bd(2) by simp
  also have "\<dots> < 2 ^ 64 * 2 ^ 64" using bd(1) by simp
  finally have "unat x * unat bound < 2 ^ 128" by simp
  moreover have "unat (ucast x :: 128 word) = unat x" "unat (ucast bound :: 128 word) = unat bound"
    using x bd(1) by (simp_all add: unsigned_ucast_eq take_bit_nat_eq_self)
  ultimately have "unat wide = unat x * unat bound" by (simp add: w rng_wide_def unat_word_ariths)
  then have "unat (drop_bit 64 wide) = unat x * unat bound div 2 ^ 64" by (simp only: unat_drop_bit_eq) (simp only: drop_bit_eq_div)
  also have "\<dots> < unat bound" using prod by (intro less_mult_imp_div_less) (simp add: mult.commute)
  finally have "unat (drop_bit 64 wide) < unat bound" .
  then show ?thesis using bd(1) by (simp add: word_less_nat_alt unsigned_ucast_eq take_bit_nat_eq_self)
qed

lemma reject_returns:
  assumes b: "threshold \<le> bound"
  shows "rng_mix (rng_state r + word_of_nat (Suc k) * 0x9E3779B97F4A7C15) = 1 \<Longrightarrow> \<exists>x. wide = rng_wide x bound \<Longrightarrow>
    \<exists>wide' r'. reject bound threshold wide r = Some (wide', r') \<and> (\<exists>x. wide' = rng_wide x bound)"
proof (induction k arbitrary: r wide)
  case 0
  then have "rng_mix (rng_state r + 0x9E3779B97F4A7C15) = 1" by simp
  then have "fst (next_u64 r) = 1" by (simp add: next_u64_def Let_def)
  moreover have "reject bound threshold (rng_wide 1 bound) r' = Some (rng_wide 1 bound, r')" for r'
    using b by (subst reject.simps) (simp add: rng_wide_one leD)
  ultimately show ?case using 0(2) by (subst reject.simps) (auto split: prod.splits)
next
  case (Suc k)
  obtain x r1 where n: "next_u64 r = (x, r1)" by (cases "next_u64 r")
  then have "rng_state r1 = rng_state r + 0x9E3779B97F4A7C15" by (auto simp: next_u64_def Let_def)
  then have "rng_mix (rng_state r1 + word_of_nat (Suc k) * 0x9E3779B97F4A7C15) = 1"
    using Suc.prems(1) by (simp add: algebra_simps)
  from Suc.IH [OF this, of "rng_wide x bound"] Suc.prems(2) show ?case
    by (subst reject.simps) (auto simp: n)
qed

lemma next_below_returns:
  assumes "bound \<noteq> 0"
  shows "\<exists>v r'. next_below bound r = Some (Ok v, r') \<and> v < bound"
proof -
  obtain x r1 where n: "next_u64 r = (x, r1)" by (cases "next_u64 r")
  obtain k where k: "rng_mix (rng_state r1 + word_of_nat (Suc k) * 0x9E3779B97F4A7C15) = 1"
    using rng_reaches_one by blast
  have "(- bound) mod bound \<le> bound" using assms word_mod_less_divisor [of bound "- bound"] by (simp add: word_neq_0_conv)
  from reject_returns [OF this k, of "rng_wide x bound"] obtain wide r2 where
    "reject bound ((- bound) mod bound) (rng_wide x bound) r1 = Some (wide, r2)" "\<exists>x. wide = rng_wide x bound" by blast
  with rng_wide_bound [OF _ assms] show ?thesis using assms by (auto simp: next_below_def n Let_def)
qed

end
