(* ===== verification/Exec_System.thy ===== *)
theory Exec_System
  imports Exec_Reducer Exec_Rng Sub_Registry
begin

text \<open>
  \<^verbatim>\<open>nexum-execution\<close>: scheduled events (\<^verbatim>\<open>schedule.rs\<close>), systems and their registry (\<^verbatim>\<open>systems.rs\<close>), the
  context a system sees (\<^verbatim>\<open>context.rs\<close>) and the plan of a tick (\<^verbatim>\<open>parallel.rs\<close>). Like a reducer, a system is user
  code that can only call its context, and is modelled by the tree of its calls; what it can ask its
  context without a call (ids, tick, topology, the generator of this tick) is an argument.
\<close>

section \<open>Scheduled events\<close>

record scheduled_event =
  se_id :: u64
  se_at_tick :: u64
  se_reducer :: string
  se_args :: reducer_args

record schedule =
  sc_events :: "scheduled_event list"
  sc_next_id :: u64
  sc_max :: nat

definition schedule_new :: "nat \<Rightarrow> schedule" where
  "schedule_new mx = \<lparr>sc_events = [], sc_next_id = 0, sc_max = mx\<rparr>"

definition schedule_add :: "u64 \<Rightarrow> string \<Rightarrow> reducer_args \<Rightarrow> schedule \<Rightarrow> u64 res \<times> schedule" where
  "schedule_add at_tick reducer args s =
     (if reducer = [] then (Err InvalidArgument, s)
      else if sc_max s \<le> length (sc_events s) then (Err Capacity, s)
      else
        let i = sc_next_id s;
            e = \<lparr>se_id = i, se_at_tick = at_tick, se_reducer = reducer, se_args = args\<rparr> in
        (Ok i, s\<lparr>sc_next_id := i + 1,
                 sc_events := sort_key (\<lambda>e. (se_at_tick e, se_id e)) (sc_events s @ [e])\<rparr>))"

definition remove_first :: "('a \<Rightarrow> bool) \<Rightarrow> 'a list \<Rightarrow> 'a list option" where
  "remove_first P xs =
     (if list_ex P xs then Some (takeWhile (\<lambda>x. \<not> P x) xs @ tl (dropWhile (\<lambda>x. \<not> P x) xs)) else None)"

definition schedule_cancel :: "u64 \<Rightarrow> schedule \<Rightarrow> unit res \<times> schedule" where
  "schedule_cancel i s =
     (case remove_first (\<lambda>e. se_id e = i) (sc_events s) of
        Some es \<Rightarrow> (Ok (), s\<lparr>sc_events := es\<rparr>)
      | None \<Rightarrow> (Err NotFound, s))"

text \<open>The events are sorted, so \<^verbatim>\<open>partition_point\<close> is the length of the due prefix.\<close>

definition take_due :: "u64 \<Rightarrow> schedule \<Rightarrow> scheduled_event list \<times> schedule" where
  "take_due tick s =
     (takeWhile (\<lambda>e. se_at_tick e \<le> tick) (sc_events s),
      s\<lparr>sc_events := dropWhile (\<lambda>e. se_at_tick e \<le> tick) (sc_events s)\<rparr>)"

section \<open>Systems\<close>

record system_info =
  si_world :: u64
  si_partition :: u64
  si_known :: "u64 list"
  si_tick :: u64
  si_system :: u64
  si_rng :: rng

datatype system_prog =
    Sys_Finish "unit res"
  | Sys_Has_Table string "bool \<Rightarrow> system_prog"
  | Sys_Get string row_id "row option res \<Rightarrow> system_prog"
  | Sys_Contains string row_id "bool res \<Rightarrow> system_prog"
  | Sys_Scan string "(row_id \<times> row) list res \<Rightarrow> system_prog"
  | Sys_Pending string "(row_id \<times> write_entry) list \<Rightarrow> system_prog"
  | Sys_Lookup_Unique string string index_key "row_id list res \<Rightarrow> system_prog"
  | Sys_Lookup_Index string string index_key "row_id list res \<Rightarrow> system_prog"
  | Sys_Insert string row "row_id res \<Rightarrow> system_prog"
  | Sys_Update string row_id row "unit res \<Rightarrow> system_prog"
  | Sys_Delete string row_id "unit res \<Rightarrow> system_prog"
  | Sys_Emit string value_t "unit res \<Rightarrow> system_prog"
  | Sys_Send u64 string reducer_args "unit res \<Rightarrow> system_prog"
  | Sys_Invoke string reducer_args "value_t res \<Rightarrow> system_prog"
  | Sys_Invoke_Wasm string reducer_args "value_t res \<Rightarrow> system_prog"

type_synonym system_fn = "system_info \<Rightarrow> input_frame \<Rightarrow> system_prog"

record system_access =
  sa_reads :: "string list"
  sa_writes :: "string list"
  sa_opaque :: bool

definition access_opaque :: system_access where
  "access_opaque = \<lparr>sa_reads = [], sa_writes = [], sa_opaque = True\<rparr>"

definition access_new :: "string list \<Rightarrow> string list \<Rightarrow> system_access" where
  "access_new reads writes =
     \<lparr>sa_reads = sort (remdups reads), sa_writes = sort (remdups writes), sa_opaque = False\<rparr>"

record system_definition =
  sd_id :: u64
  sd_name :: string
  sd_priority :: u32
  sd_access :: system_access
  sd_execute :: system_fn

definition system_with_access ::
    "u64 \<Rightarrow> string \<Rightarrow> u32 \<Rightarrow> system_access \<Rightarrow> system_fn \<Rightarrow> system_definition res" where
  "system_with_access i name priority access execute =
     (if name = [] then Err InvalidArgument
      else Ok \<lparr>sd_id = i, sd_name = name, sd_priority = priority, sd_access = access, sd_execute = execute\<rparr>)"

definition system_new :: "u64 \<Rightarrow> string \<Rightarrow> u32 \<Rightarrow> system_fn \<Rightarrow> system_definition res" where
  "system_new i name priority execute = system_with_access i name priority access_opaque execute"

abbreviation sd_key :: "system_definition \<Rightarrow> u32 \<times> u64" where
  "sd_key d \<equiv> (sd_priority d, sd_id d)"

definition system_register :: "system_definition \<Rightarrow> system_definition list \<Rightarrow> unit res \<times> system_definition list" where
  "system_register d ss =
     (if list_ex (\<lambda>s. sd_id s = sd_id d) ss then (Err AlreadyExists, ss)
      else if list_ex (\<lambda>s. sd_name s = sd_name d) ss then (Err AlreadyExists, ss)
      else (Ok (), takeWhile (\<lambda>s. sd_key s < sd_key d) ss @ d # dropWhile (\<lambda>s. sd_key s < sd_key d) ss))"

definition system_remove :: "u64 \<Rightarrow> system_definition list \<Rightarrow> unit res \<times> system_definition list" where
  "system_remove i ss =
     (case remove_first (\<lambda>s. sd_id s = i) ss of Some ss' \<Rightarrow> (Ok (), ss') | None \<Rightarrow> (Err NotFound, ss))"

section \<open>The context of a system\<close>

text \<open>WebAssembly modules run in a third-party engine behind \<^verbatim>\<open>nexum-wasm\<close>. What a module does is a
  parameter: the reducer it amounts to, which calls the same context; there is no panic boundary around it.\<close>

type_synonym wasm_modules = "(string, reducer_fn) omap"

definition wasm_invoke_in_tx ::
    "wasm_modules \<Rightarrow> table_store \<Rightarrow> string \<Rightarrow> reducer_args \<Rightarrow> transaction \<Rightarrow>
      (value_t \<times> reducer_event list) res \<times> transaction" where
  "wasm_invoke_in_tx modules st name args tx =
     try_res (ok_or NotFound (om_get modules name)) tx (\<lambda>run.
       (case run_reducer st (run args) (reducer_context_new tx) of (outcome, ctx) \<Rightarrow>
          (bind_res outcome (\<lambda>v. Ok (v, rc_events ctx)), rc_tx ctx)))"

record exec_env =
  xe_store :: table_store
  xe_native :: reducer_registry
  xe_wasm :: "wasm_modules option"
  xe_world :: u64
  xe_partition :: u64
  xe_known :: "u64 list"
  xe_tick :: u64
  xe_seed :: u64
  xe_max_events :: nat
  xe_max_messages :: nat
  xe_max_kind_len :: nat
  xe_max_args :: nat

record exec_context =
  xc_tx :: transaction
  xc_events :: "reducer_event list"
  xc_outbound :: "partition_message list"

definition append_events ::
    "nat \<Rightarrow> reducer_event list \<Rightarrow> reducer_event list \<Rightarrow> unit res \<times> reducer_event list" where
  "append_events mx src dst =
     (if mx < saturating_add (length dst) (length src) then (Err Capacity, dst) else (Ok (), dst @ src))"

definition xc_via :: "(transaction \<Rightarrow> 'a \<times> transaction) \<Rightarrow> exec_context \<Rightarrow> 'a \<times> exec_context" where
  "xc_via f ctx = (case f (xc_tx ctx) of (r, tx) \<Rightarrow> (r, ctx\<lparr>xc_tx := tx\<rparr>))"

definition xc_append :: "exec_env \<Rightarrow> reducer_event list \<Rightarrow> exec_context \<Rightarrow> unit res \<times> exec_context" where
  "xc_append env events ctx =
     (case append_events (xe_max_events env) events (xc_events ctx) of (r, es) \<Rightarrow> (r, ctx\<lparr>xc_events := es\<rparr>))"

definition pending_writes_for_table :: "exec_env \<Rightarrow> string \<Rightarrow> exec_context \<Rightarrow> (row_id \<times> write_entry) list" where
  "pending_writes_for_table env table ctx =
     (case store_table (xe_store env) table of
        None \<Rightarrow> []
      | Some t \<Rightarrow>
          map (\<lambda>((tid, rid), e). (rid, e))
            (filter (\<lambda>((tid, rid), e). tid = table_id_of t) (ws_entries (tx_writes (xc_tx ctx)))))"

definition xc_emit :: "exec_env \<Rightarrow> string \<Rightarrow> value_t \<Rightarrow> exec_context \<Rightarrow> unit res \<times> exec_context" where
  "xc_emit env name payload ctx =
     (if name = [] then (Err InvalidArgument, ctx)
      else xc_append env [\<lparr>re_name = name, re_payload = payload\<rparr>] ctx)"

definition send_to :: "exec_env \<Rightarrow> u64 \<Rightarrow> string \<Rightarrow> reducer_args \<Rightarrow> exec_context \<Rightarrow> unit res \<times> exec_context" where
  "send_to env dst kind payload ctx =
     (if dst = xe_partition env then (Err InvalidArgument, ctx)
      else if dst \<notin> set (xe_known env) then (Err InvalidArgument, ctx)
      else if kind = [] then (Err InvalidArgument, ctx)
      else if xe_max_kind_len env < length kind then (Err InvalidArgument, ctx)
      else if xe_max_args env < length payload then (Err InvalidArgument, ctx)
      else if xe_max_messages env \<le> length (xc_outbound ctx) then (Err Capacity, ctx)
      else
        try_res (partition_message_new (xe_partition env) dst (xe_tick env)
            (word_of_nat (length (xc_outbound ctx))) kind payload) ctx (\<lambda>m.
          (Ok (), ctx\<lparr>xc_outbound := xc_outbound ctx @ [m]\<rparr>)))"

definition xc_invoke :: "exec_env \<Rightarrow> string \<Rightarrow> reducer_args \<Rightarrow> exec_context \<Rightarrow> value_t res \<times> exec_context" where
  "xc_invoke env name args ctx =
     (case xc_via (invoke_in_tx (xe_native env) (xe_store env) name args) ctx of (r, ctx) \<Rightarrow>
        try_res r ctx (\<lambda>(v, events).
          (case xc_append env events ctx of (r, ctx) \<Rightarrow> try_res r ctx (\<lambda>_. (Ok v, ctx)))))"

definition xc_invoke_wasm :: "exec_env \<Rightarrow> string \<Rightarrow> reducer_args \<Rightarrow> exec_context \<Rightarrow> value_t res \<times> exec_context" where
  "xc_invoke_wasm env name args ctx =
     (case xe_wasm env of
        None \<Rightarrow> (Err NotFound, ctx)
      | Some modules \<Rightarrow>
          (case xc_via (wasm_invoke_in_tx modules (xe_store env) name args) ctx of (r, ctx) \<Rightarrow>
             try_res r ctx (\<lambda>(v, events).
               (case xc_append env events ctx of (r, ctx) \<Rightarrow> try_res r ctx (\<lambda>_. (Ok v, ctx))))))"

primrec run_prog :: "exec_env \<Rightarrow> system_prog \<Rightarrow> exec_context \<Rightarrow> unit res \<times> exec_context" where
  "run_prog env (Sys_Finish r) = (\<lambda>ctx. (r, ctx))"
| "run_prog env (Sys_Has_Table table k) = (\<lambda>ctx. run_prog env (k (store_has_table (xe_store env) table)) ctx)"
| "run_prog env (Sys_Get table rid k) =
     (\<lambda>ctx. resume (xc_via (tx_get (xe_store env) table rid) ctx) (\<lambda>r. run_prog env (k r)))"
| "run_prog env (Sys_Contains table rid k) =
     (\<lambda>ctx. resume (xc_via (tx_contains (xe_store env) table rid) ctx) (\<lambda>r. run_prog env (k r)))"
| "run_prog env (Sys_Scan table k) =
     (\<lambda>ctx. resume (xc_via (tx_scan (xe_store env) table) ctx) (\<lambda>r. run_prog env (k r)))"
| "run_prog env (Sys_Pending table k) = (\<lambda>ctx. run_prog env (k (pending_writes_for_table env table ctx)) ctx)"
| "run_prog env (Sys_Lookup_Unique table ix key k) =
     (\<lambda>ctx. resume (xc_via (tx_lookup_unique (xe_store env) table ix key) ctx) (\<lambda>r. run_prog env (k r)))"
| "run_prog env (Sys_Lookup_Index table ix key k) =
     (\<lambda>ctx. resume (xc_via (tx_lookup_index (xe_store env) table ix key) ctx) (\<lambda>r. run_prog env (k r)))"
| "run_prog env (Sys_Insert table r k) =
     (\<lambda>ctx. resume (xc_via (tx_insert (xe_store env) table r) ctx) (\<lambda>r. run_prog env (k r)))"
| "run_prog env (Sys_Update table rid r k) =
     (\<lambda>ctx. resume (xc_via (tx_update (xe_store env) table rid r) ctx) (\<lambda>r. run_prog env (k r)))"
| "run_prog env (Sys_Delete table rid k) =
     (\<lambda>ctx. resume (xc_via (tx_delete (xe_store env) table rid) ctx) (\<lambda>r. run_prog env (k r)))"
| "run_prog env (Sys_Emit name payload k) = (\<lambda>ctx. resume (xc_emit env name payload ctx) (\<lambda>r. run_prog env (k r)))"
| "run_prog env (Sys_Send dst kind payload k) =
     (\<lambda>ctx. resume (send_to env dst kind payload ctx) (\<lambda>r. run_prog env (k r)))"
| "run_prog env (Sys_Invoke name args k) = (\<lambda>ctx. resume (xc_invoke env name args ctx) (\<lambda>r. run_prog env (k r)))"
| "run_prog env (Sys_Invoke_Wasm name args k) =
     (\<lambda>ctx. resume (xc_invoke_wasm env name args ctx) (\<lambda>r. run_prog env (k r)))"

definition system_info_of :: "exec_env \<Rightarrow> system_definition \<Rightarrow> system_info" where
  "system_info_of env d =
     \<lparr>si_world = xe_world env, si_partition = xe_partition env, si_known = xe_known env, si_tick = xe_tick env,
      si_system = sd_id d, si_rng = rng_new (rng_seed (xe_seed env) (xe_tick env) (sd_id d))\<rparr>"

text \<open>One system behind its panic boundary.\<close>

definition run_system :: "exec_env \<Rightarrow> input_frame \<Rightarrow> system_definition \<Rightarrow> exec_context \<Rightarrow> unit res \<times> exec_context" where
  "run_system env inputs d ctx =
     (case run_prog env (sd_execute d (system_info_of env d) inputs) ctx of (outcome, ctx) \<Rightarrow>
        ((case outcome of Ok _ \<Rightarrow> Ok () | Err e \<Rightarrow> Err e | Panic \<Rightarrow> Err Internal), ctx))"

end
