(* ===== verification/Exec_Tick.thy ===== *)
theory Exec_Tick
  imports Exec_System
begin

text \<open>
  \<^verbatim>\<open>nexum-execution\<close>: the plan of a tick and its groups (\<^verbatim>\<open>parallel.rs\<close>), the configuration (\<^verbatim>\<open>config.rs\<close>)
  and the partition with its tick (\<^verbatim>\<open>world.rs\<close>): one tick is one transaction. The members of a group run on
  threads, each on a child transaction of its own over shared immutable data, and their outcomes are collected
  by slot, so the order in which the threads run is not part of the model. Profiles and timings are left out.
\<close>

section \<open>The plan\<close>

definition resolve_access :: "table_store \<Rightarrow> system_access \<Rightarrow> (table_id set \<times> table_id set) option res" where
  "resolve_access st access =
     (if sa_opaque access then Ok None
      else
        bind_res (map_res (\<lambda>n. map_err (\<lambda>_. InvalidArgument) (resolve_table st n)) (sa_reads access)) (\<lambda>reads.
        bind_res (map_res (\<lambda>n. map_err (\<lambda>_. InvalidArgument) (resolve_table st n)) (sa_writes access)) (\<lambda>writes.
          Ok (Some (table_id_of ` set reads, table_id_of ` set writes)))))"

definition plan_flush :: "nat list \<Rightarrow> nat list list \<Rightarrow> nat list list" where
  "plan_flush current groups = (if current = [] then groups else groups @ [current])"

fun plan_loop ::
    "table_store \<Rightarrow> (nat \<times> system_definition) list \<Rightarrow> nat list list \<Rightarrow> nat list \<Rightarrow> table_id set \<Rightarrow> table_id set \<Rightarrow>
      nat list list res" where
  "plan_loop st [] groups current cur_reads cur_writes = Ok (plan_flush current groups)"
| "plan_loop st ((i, s) # ss) groups current cur_reads cur_writes =
     bind_res (resolve_access st (sd_access s)) (\<lambda>footprint.
       (case footprint of
          None \<Rightarrow> plan_loop st ss (plan_flush current groups @ [[i]]) [] {} {}
        | Some (reads, writes) \<Rightarrow>
            let conflicts = (writes \<inter> cur_reads \<noteq> {} \<or> writes \<inter> cur_writes \<noteq> {} \<or> reads \<inter> cur_writes \<noteq> {}) in
            if current = [] \<or> \<not> conflicts
            then plan_loop st ss groups (current @ [i]) (cur_reads \<union> reads) (cur_writes \<union> writes)
            else plan_loop st ss (plan_flush current groups) [i] reads writes))"

definition tick_plan :: "table_store \<Rightarrow> system_definition list \<Rightarrow> nat list list res" where
  "tick_plan st systems = plan_loop st (enumerate 0 systems) [] [] {} {}"

section \<open>Groups\<close>

record tick_state =
  ts_tx :: transaction
  ts_events :: "reducer_event list"
  ts_outbound :: "partition_message list"
  ts_results :: "call_result list"

text \<open>A system on the transaction of the tick.\<close>

definition serial_system :: "exec_env \<Rightarrow> input_frame \<Rightarrow> system_definition \<Rightarrow> tick_state \<Rightarrow> unit res \<times> tick_state" where
  "serial_system env inputs d ts =
     (case run_system env inputs d \<lparr>xc_tx = ts_tx ts, xc_events = ts_events ts, xc_outbound = ts_outbound ts\<rparr> of
        (r, ctx) \<Rightarrow>
          (r, ts\<lparr>ts_tx := xc_tx ctx, ts_events := xc_events ctx, ts_outbound := xc_outbound ctx\<rparr>))"

definition run_slot ::
    "exec_env \<Rightarrow> input_frame \<Rightarrow> system_definition list \<Rightarrow> transaction \<Rightarrow> nat \<Rightarrow> exec_context res" where
  "run_slot env inputs systems parent index =
     (case branch_of parent (tx_new (word_of_nat (index + 1))) of
        (Ok _, child) \<Rightarrow>
          (case run_system env inputs (systems ! index) \<lparr>xc_tx = child, xc_events = [], xc_outbound = []\<rparr> of
             (Ok _, ctx) \<Rightarrow> Ok ctx
           | (Err e, ctx) \<Rightarrow> Err e
           | (Panic, ctx) \<Rightarrow> Panic)
      | (Err e, child) \<Rightarrow> Err e
      | (Panic, child) \<Rightarrow> Panic)"

definition renumber :: "partition_message list \<Rightarrow> partition_message list" where
  "renumber ms = map (\<lambda>(i, m). m\<lparr>pm_seq := word_of_nat i\<rparr>) (enumerate 0 ms)"

text \<open>What a merged child wrote that its parent had not: the checks of the slots behind it.\<close>

record siblings =
  sib_writes :: "row_key set"
  sib_tables :: "table_id set"

definition merge_child ::
    "exec_env \<Rightarrow> row_key set \<Rightarrow> exec_context \<Rightarrow> tick_state \<times> siblings \<Rightarrow> unit res \<times> tick_state \<times> siblings" where
  "merge_child env snapshot ctx s =
     (case s of (ts, sib) \<Rightarrow>
        let child = xc_tx ctx;
            fresh = filter (\<lambda>k. k \<notin> snapshot) (map fst (ws_entries (tx_writes child))) in
        if list_ex (\<lambda>k. k \<in> sib_writes sib) fresh then (Err Internal, ts, sib)
        else if list_ex (\<lambda>(k, _). k \<in> sib_writes sib) (rs_entries (tx_reads child)) then (Err Internal, ts, sib)
        else if list_ex (\<lambda>(tid, _). tid \<in> sib_tables sib) (rs_tables (tx_reads child)) then (Err Internal, ts, sib)
        else
          let sib = sib\<lparr>sib_writes := sib_writes sib \<union> set fresh, sib_tables := sib_tables sib \<union> fst ` set fresh\<rparr> in
          (case tx_absorb child (ts_tx ts) of (r, tx) \<Rightarrow>
             try_res r (ts\<lparr>ts_tx := tx\<rparr>, sib) (\<lambda>_.
               (case append_events (xe_max_events env) (xc_events ctx) (ts_events ts) of (r, events) \<Rightarrow>
                  try_res r (ts\<lparr>ts_tx := tx\<rparr>, sib) (\<lambda>_.
                    let ts = ts\<lparr>ts_tx := tx, ts_events := events\<rparr> in
                    if xe_max_messages env < saturating_add (length (ts_outbound ts)) (length (xc_outbound ctx))
                    then (Err Capacity, ts, sib)
                    else (Ok (), ts\<lparr>ts_outbound := renumber (ts_outbound ts @ xc_outbound ctx)\<rparr>, sib))))))"

definition execute_group ::
    "exec_env \<Rightarrow> input_frame \<Rightarrow> system_definition list \<Rightarrow> nat list \<Rightarrow> tick_state \<Rightarrow> unit res \<times> tick_state" where
  "execute_group env inputs systems members ts =
     try_res (map_res (run_slot env inputs systems (ts_tx ts)) members) ts (\<lambda>children.
       (case for_each (merge_child env (fst ` set (ws_entries (tx_writes (ts_tx ts))))) children
               (ts, \<lparr>sib_writes = {}, sib_tables = {}\<rparr>) of (r, ts, sib) \<Rightarrow> (r, ts)))"

definition run_group ::
    "exec_env \<Rightarrow> input_frame \<Rightarrow> system_definition list \<Rightarrow> nat list \<Rightarrow> tick_state \<Rightarrow> unit res \<times> tick_state" where
  "run_group env inputs systems members ts =
     (if length members = 1 then serial_system env inputs (systems ! hd members) ts
      else execute_group env inputs systems members ts)"

section \<open>The partition\<close>

datatype execution_mode = Serial | Parallel nat

record partition_config =
  pc_seed :: u64
  pc_execution :: execution_mode
  pc_max_commands_per_frame :: nat
  pc_max_events_per_tick :: nat
  pc_max_scheduled_events :: nat
  pc_max_messages_per_tick :: nat
  pc_max_message_kind_len :: nat
  pc_max_message_args :: nat
  pc_max_reducer_calls_per_tick :: nat
  pc_max_reducer_name_len :: nat
  pc_max_reducer_args :: nat

definition partition_config_default :: partition_config where
  "partition_config_default =
     \<lparr>pc_seed = 0, pc_execution = Serial, pc_max_commands_per_frame = 10000, pc_max_events_per_tick = 10000,
      pc_max_scheduled_events = 10000, pc_max_messages_per_tick = 10000, pc_max_message_kind_len = 256,
      pc_max_message_args = 10000, pc_max_reducer_calls_per_tick = 10000, pc_max_reducer_name_len = 256,
      pc_max_reducer_args = 10000\<rparr>"

definition partition_config_validate :: "partition_config \<Rightarrow> unit res" where
  "partition_config_validate c =
     (if pc_max_commands_per_frame c = 0 then Err InvalidArgument
      else if pc_max_events_per_tick c = 0 then Err InvalidArgument
      else if pc_max_scheduled_events c = 0 then Err InvalidArgument
      else if pc_execution c = Parallel 0 then Err InvalidArgument
      else if pc_max_messages_per_tick c = 0 then Err InvalidArgument
      else if pc_max_message_kind_len c = 0 then Err InvalidArgument
      else if pc_max_message_args c = 0 then Err InvalidArgument
      else if pc_max_reducer_calls_per_tick c = 0 then Err InvalidArgument
      else if pc_max_reducer_name_len c = 0 then Err InvalidArgument
      else if pc_max_reducer_args c = 0 then Err InvalidArgument
      else Ok ())"

record partition =
  pt_id :: u64
  pt_partition :: u64
  pt_known :: "u64 list"
  pt_store :: table_store
  pt_config :: partition_config
  pt_tick :: u64
  pt_systems :: "system_definition list"
  pt_native :: reducer_registry
  pt_wasm :: "wasm_modules option"
  pt_schedule :: schedule

definition partition_new :: "u64 \<Rightarrow> table_store \<Rightarrow> partition_config \<Rightarrow> partition res" where
  "partition_new i st config =
     bind_res (partition_config_validate config) (\<lambda>_.
       Ok \<lparr>pt_id = i, pt_partition = i, pt_known = [], pt_store = st, pt_config = config, pt_tick = 0,
           pt_systems = [], pt_native = reducer_registry_new, pt_wasm = None,
           pt_schedule = schedule_new (pc_max_scheduled_events config)\<rparr>)"

definition set_known_partitions :: "u64 list \<Rightarrow> partition \<Rightarrow> partition" where
  "set_known_partitions known p =
     p\<lparr>pt_known := filter (\<lambda>i. i \<noteq> pt_partition p) (remdups (sort known))\<rparr>"

definition set_partition :: "u64 \<Rightarrow> partition \<Rightarrow> partition" where
  "set_partition i p = p\<lparr>pt_partition := i\<rparr>"

definition resume_tick :: "u64 \<Rightarrow> partition \<Rightarrow> partition" where
  "resume_tick tick p = p\<lparr>pt_tick := tick\<rparr>"

definition add_system :: "system_definition \<Rightarrow> partition \<Rightarrow> unit res \<times> partition" where
  "add_system d p = (case system_register d (pt_systems p) of (r, ss) \<Rightarrow> (r, p\<lparr>pt_systems := ss\<rparr>))"

definition remove_system :: "u64 \<Rightarrow> partition \<Rightarrow> unit res \<times> partition" where
  "remove_system i p = (case system_remove i (pt_systems p) of (r, ss) \<Rightarrow> (r, p\<lparr>pt_systems := ss\<rparr>))"

definition set_wasm :: "wasm_modules \<Rightarrow> partition \<Rightarrow> partition" where
  "set_wasm modules p = p\<lparr>pt_wasm := Some modules\<rparr>"

definition clear_wasm :: "partition \<Rightarrow> partition" where
  "clear_wasm p = p\<lparr>pt_wasm := None\<rparr>"

definition cancel_scheduled :: "u64 \<Rightarrow> partition \<Rightarrow> unit res \<times> partition" where
  "cancel_scheduled i p = (case schedule_cancel i (pt_schedule p) of (r, s) \<Rightarrow> (r, p\<lparr>pt_schedule := s\<rparr>))"

definition partition_schedule :: "u64 \<Rightarrow> string \<Rightarrow> reducer_args \<Rightarrow> partition \<Rightarrow> u64 res \<times> partition" where
  "partition_schedule at_tick reducer args p =
     (case schedule_add at_tick reducer args (pt_schedule p) of (r, s) \<Rightarrow> (r, p\<lparr>pt_schedule := s\<rparr>))"

record tick_result =
  tr_tick :: u64
  tr_tx_id :: transaction_id
  tr_changes :: "change list"
  tr_events :: "reducer_event list"
  tr_outbound :: "partition_message list"
  tr_reducer_results :: "call_result list"

datatype tick_outcome = Ticked tick_result | Tick_Failed u64 error | Tick_Panicked

definition invoke_reducer ::
    "exec_env \<Rightarrow> string \<Rightarrow> reducer_args \<Rightarrow> transaction \<Rightarrow> (value_t \<times> reducer_event list) res \<times> transaction" where
  "invoke_reducer env name args tx =
     (if reducer_contains (xe_native env) name then invoke_in_tx (xe_native env) (xe_store env) name args tx
      else
        (case xe_wasm env of
           Some modules \<Rightarrow>
             if om_get modules name \<noteq> None then wasm_invoke_in_tx modules (xe_store env) name args tx
             else (Err NotFound, tx)
         | None \<Rightarrow> (Err NotFound, tx)))"

text \<open>The phases of a tick.\<close>

definition ts_append :: "exec_env \<Rightarrow> reducer_event list \<Rightarrow> tick_state \<Rightarrow> unit res \<times> tick_state" where
  "ts_append env events ts =
     (case append_events (xe_max_events env) events (ts_events ts) of (r, es) \<Rightarrow> (r, ts\<lparr>ts_events := es\<rparr>))"

definition deliver_message :: "exec_env \<Rightarrow> partition_message \<Rightarrow> tick_state \<Rightarrow> unit res \<times> tick_state" where
  "deliver_message env m ts =
     (case invoke_reducer env (pm_kind m) (pm_payload m) (ts_tx ts) of (r, tx) \<Rightarrow>
        try_res r (ts\<lparr>ts_tx := tx\<rparr>) (\<lambda>(v, events). ts_append env events (ts\<lparr>ts_tx := tx\<rparr>)))"

definition run_event :: "exec_env \<Rightarrow> scheduled_event \<Rightarrow> tick_state \<Rightarrow> unit res \<times> tick_state" where
  "run_event env e ts =
     (case invoke_in_tx (xe_native env) (xe_store env) (se_reducer e) (se_args e) (ts_tx ts) of (r, tx) \<Rightarrow>
        try_res r (ts\<lparr>ts_tx := tx\<rparr>) (\<lambda>(v, events). ts_append env events (ts\<lparr>ts_tx := tx\<rparr>)))"

definition run_call :: "exec_env \<Rightarrow> reducer_call \<Rightarrow> tick_state \<Rightarrow> unit res \<times> tick_state" where
  "run_call env c ts =
     (case invoke_reducer env (rcall_reducer c) (rcall_args c) (ts_tx ts) of
        (Ok (v, events), tx) \<Rightarrow>
          ts_append env events (ts\<lparr>ts_tx := tx, ts_results := ts_results ts @ [call_ok (rcall_request c) v]\<rparr>)
      | (Err e, tx) \<Rightarrow>
          (case tx_rollback (tx_snapshot_of (ts_tx ts)) tx of
             Ok tx \<Rightarrow> (Ok (), ts\<lparr>ts_tx := tx, ts_results := ts_results ts @ [call_err (rcall_request c) e]\<rparr>)
           | Err e \<Rightarrow> (Err e, ts)
           | Panic \<Rightarrow> (Panic, ts))
      | (Panic, tx) \<Rightarrow> (Panic, ts\<lparr>ts_tx := tx\<rparr>))"

definition run_systems ::
    "exec_env \<Rightarrow> execution_mode \<Rightarrow> input_frame \<Rightarrow> system_definition list \<Rightarrow> tick_state \<Rightarrow> unit res \<times> tick_state" where
  "run_systems env mode inputs systems ts =
     (case mode of
        Serial \<Rightarrow> for_each (serial_system env inputs) systems ts
      | Parallel workers \<Rightarrow>
          try_res (tick_plan (xe_store env) systems) ts (\<lambda>groups.
            for_each (run_group env inputs systems) groups ts))"

definition then_do :: "unit res \<times> 's \<Rightarrow> ('s \<Rightarrow> unit res \<times> 's) \<Rightarrow> unit res \<times> 's" where
  "then_do c k = (case c of (r, s) \<Rightarrow> try_res r s (\<lambda>_. k s))"

definition tick_body ::
    "exec_env \<Rightarrow> execution_mode \<Rightarrow> system_definition list \<Rightarrow> input_frame \<Rightarrow> partition_message list \<Rightarrow>
      scheduled_event list \<Rightarrow> reducer_call list \<Rightarrow> tick_state \<Rightarrow> unit res \<times> tick_state" where
  "tick_body env mode systems inputs batch due calls ts =
     then_do (for_each (deliver_message env) batch ts) (\<lambda>ts.
     then_do (for_each (run_event env) due ts) (\<lambda>ts.
     then_do (for_each (run_call env) calls ts) (\<lambda>ts.
       run_systems env mode inputs systems ts)))"

text \<open>The gates in front of a tick: an invalid frame or batch is refused before the tick counts.\<close>

definition tick_gate ::
    "partition \<Rightarrow> input_frame \<Rightarrow> partition_message list \<Rightarrow> reducer_call list \<Rightarrow> unit res" where
  "tick_gate p inputs delivered calls =
     (let c = pt_config p in
      if if_tick inputs \<noteq> pt_tick p then Err InvalidArgument
      else if pc_max_commands_per_frame c < length (if_commands inputs) then Err InvalidArgument
      else if pc_max_messages_per_tick c < length delivered then Err Capacity
      else if list_ex (\<lambda>m. pm_to m \<noteq> pt_partition p) delivered then Err InvalidArgument
      else if pc_max_reducer_calls_per_tick c < length calls then Err Capacity
      else if list_ex (\<lambda>k. pc_max_reducer_name_len c < length (rcall_reducer k) \<or>
                           pc_max_reducer_args c < length (rcall_args k)) calls then Err InvalidArgument
      else Ok ())"

definition exec_env_of :: "partition \<Rightarrow> table_store \<Rightarrow> u64 \<Rightarrow> exec_env" where
  "exec_env_of p st tick =
     \<lparr>xe_store = st, xe_native = pt_native p, xe_wasm = pt_wasm p, xe_world = pt_id p,
      xe_partition = pt_partition p, xe_known = pt_known p, xe_tick = tick, xe_seed = pc_seed (pt_config p),
      xe_max_events = pc_max_events_per_tick (pt_config p), xe_max_messages = pc_max_messages_per_tick (pt_config p),
      xe_max_kind_len = pc_max_message_kind_len (pt_config p), xe_max_args = pc_max_message_args (pt_config p)\<rparr>"

text \<open>The body of a tick on the transaction just begun, with the events due taken from the schedule.\<close>

definition tick_run ::
    "partition \<Rightarrow> input_frame \<Rightarrow> partition_message list \<Rightarrow> reducer_call list \<Rightarrow> unit res \<times> tick_state" where
  "tick_run p inputs delivered calls =
     (case tx_begin (pt_store p) of (tx, st) \<Rightarrow>
        tick_body (exec_env_of p st (pt_tick p)) (pc_execution (pt_config p)) (pt_systems p) inputs
          (sort_key (\<lambda>m. (pm_sent_tick m, pm_from m, pm_seq m)) delivered)
          (fst (take_due (pt_tick p) (pt_schedule p))) calls
          \<lparr>ts_tx = tx, ts_events = [], ts_outbound = [], ts_results = []\<rparr>)"

definition tick_with_calls ::
    "input_frame \<Rightarrow> partition_message list \<Rightarrow> reducer_call list \<Rightarrow> partition \<Rightarrow> tick_outcome \<times> partition" where
  "tick_with_calls inputs delivered calls p =
     (case tick_gate p inputs delivered calls of
        Err e \<Rightarrow> (Tick_Failed (pt_tick p) e, p)
      | Panic \<Rightarrow> (Tick_Panicked, p)
      | Ok _ \<Rightarrow>
          let p' = p\<lparr>pt_tick := pt_tick p + 1, pt_schedule := snd (take_due (pt_tick p) (pt_schedule p)),
                     pt_store := snd (tx_begin (pt_store p))\<rparr> in
          (case tick_run p inputs delivered calls of
             (Ok _, ts) \<Rightarrow>
               (case tx_commit (ts_tx ts) (pt_store p') of
                  (Ok changes, tx, st) \<Rightarrow>
                    (Ticked \<lparr>tr_tick = pt_tick p, tr_tx_id = tx_id tx, tr_changes = changes,
                       tr_events = ts_events ts, tr_outbound = ts_outbound ts, tr_reducer_results = ts_results ts\<rparr>,
                     p'\<lparr>pt_store := st\<rparr>)
                | (Err e, tx, st) \<Rightarrow> (Tick_Failed (pt_tick p) e, p'\<lparr>pt_store := st\<rparr>)
                | (Panic, tx, st) \<Rightarrow> (Tick_Panicked, p'\<lparr>pt_store := st\<rparr>))
           | (Err e, ts) \<Rightarrow> (Tick_Failed (pt_tick p) e, p')
           | (Panic, ts) \<Rightarrow> (Tick_Panicked, p')))"

definition tick_messages :: "input_frame \<Rightarrow> partition_message list \<Rightarrow> partition \<Rightarrow> tick_outcome \<times> partition" where
  "tick_messages inputs delivered p = tick_with_calls inputs delivered [] p"

definition partition_tick :: "input_frame \<Rightarrow> partition \<Rightarrow> tick_outcome \<times> partition" where
  "partition_tick inputs p = tick_messages inputs [] p"

end
