(* ===== verification/Exec_Exact.thy ===== *)
theory Exec_Exact
  imports Exec_Tick
begin

text \<open>
  What a tick does to its store: the phases of a tick only grow the transaction of the tick, and they do not panic
  unless a WebAssembly module panics by itself, so a tick is one committed step of the store's history or leaves the tables as they were. The plan of a
  parallel tick runs every system once, in order, and no two members of a group have conflicting footprints.
\<close>

section \<open>Sequences of steps\<close>

text \<open>A relation between the states before and after a step, on the states that are sound, that is
  reflexive and transitive: what every step of a sequence keeps, the sequence keeps.\<close>

locale progress =
  fixes good :: "'s \<Rightarrow> bool" and rel :: "'s \<Rightarrow> 's \<Rightarrow> bool"
  assumes rel_refl: "good s \<Longrightarrow> rel s s"
    and rel_trans: "rel a b \<Longrightarrow> rel b c \<Longrightarrow> rel a c"
    and rel_good: "good s \<Longrightarrow> rel s s' \<Longrightarrow> good s'"
begin

lemma for_each_progress:
  assumes step: "\<And>x s. x \<in> set xs \<Longrightarrow> good s \<Longrightarrow> fst (f x s) \<noteq> Panic \<and> rel s (snd (f x s))" and "good s"
  shows "fst (for_each f xs s) \<noteq> Panic \<and> rel s (snd (for_each f xs s))"
  using assms
proof (induction xs arbitrary: s)
  case Nil
  then show ?case by (simp add: rel_refl)
next
  case (Cons x xs)
  obtain r s' where x: "f x s = (r, s')" by fastforce
  have one: "r \<noteq> Panic" "rel s s'" using Cons.prems(1) [of x s] Cons.prems(2) x by simp_all
  from Cons.IH [of s'] Cons.prems(1) rel_good [OF Cons.prems(2) one(2)]
  have rest: "fst (for_each f xs s') \<noteq> Panic" "rel s' (snd (for_each f xs s'))" by simp_all
  show ?case using one rest rel_trans [OF one(2) rest(2)] x by (cases r) simp_all
qed

lemma for_each_rel:
  assumes "\<And>x s. x \<in> set xs \<Longrightarrow> good s \<Longrightarrow> rel s (snd (f x s))" and "good s"
  shows "rel s (snd (for_each f xs s))"
  using assms
proof (induction xs arbitrary: s)
  case (Cons x xs)
  obtain r s' where x: "f x s = (r, s')" by fastforce
  have one: "rel s s'" using Cons.prems(1) [of x s] Cons.prems(2) x by simp
  with Cons.IH [of s'] Cons.prems(1) rel_good [OF Cons.prems(2) one] have "rel s' (snd (for_each f xs s'))" by simp
  with one rel_trans [OF one] x show ?case by (cases r) simp_all
qed (simp add: rel_refl)

lemma then_progress:
  assumes c: "fst c \<noteq> Panic" "rel s (snd c)" and "good s"
    and k: "\<And>s. good s \<Longrightarrow> fst (k s) \<noteq> Panic \<and> rel s (snd (k s))"
  shows "fst (then_do c k) \<noteq> Panic \<and> rel s (snd (then_do c k))"
proof -
  obtain r s' where [simp]: "c = (r, s')" by fastforce
  have "good s'" using rel_good [OF assms(3)] c by simp
  with k [of s'] c rel_trans [of s s'] show ?thesis by (cases r) (auto simp: then_do_def)
qed

lemma fold_progress:
  assumes "\<And>x s. good s \<Longrightarrow> rel s (f x s)" and "good s"
  shows "rel s (fold f xs s)"
  using assms(2)
proof (induction xs arbitrary: s)
  case (Cons x xs)
  then show ?case using assms(1) [of s x] rel_good rel_trans by auto
qed (simp add: rel_refl)

end

definition ts_good :: "tick_state \<Rightarrow> bool" where
  "ts_good ts \<longleftrightarrow> tx_reach (ts_tx ts) \<and> tx_state (ts_tx ts) = Active"

definition ts_grows :: "tick_state \<Rightarrow> tick_state \<Rightarrow> bool" where
  "ts_grows ts ts' \<longleftrightarrow> tx_grows (ts_tx ts) (ts_tx ts')"

interpretation tick: progress ts_good ts_grows
proof
  show "ts_grows a c" if "ts_grows a b" "ts_grows b c" for a b c
    using that tx_grows_trans by (auto simp: ts_grows_def)
qed (auto simp: ts_good_def ts_grows_def tx_grows_def rs_extends_refl)

interpretation merge: progress "\<lambda>s. ts_good (fst s)" "\<lambda>s s'. ts_grows (fst s) (fst s')"
  using tick.rel_refl tick.rel_trans tick.rel_good by unfold_locales blast+

section \<open>The phases of a tick\<close>

text \<open>WebAssembly modules are a parameter of the model. The engine turns a trap, a lack of fuel or memory and a malformed
  value of a module into an error, so a module is taken not to panic by itself; what its calls of the context do is
  proved here, for a sound store.\<close>

definition wasm_total :: "wasm_modules option \<Rightarrow> bool" where
  "wasm_total m \<longleftrightarrow> (\<forall>ms name f args. m = Some ms \<longrightarrow> om_get ms name = Some f \<longrightarrow> no_panic (f args))"

definition env_sound :: "exec_env \<Rightarrow> bool" where
  "env_sound env \<longleftrightarrow> wasm_total (xe_wasm env) \<and> store_wf (xe_store env)"

lemma wasm_invoke_grows:
  "tx_grows tx (snd (wasm_invoke_in_tx modules st name args tx))"
  "wasm_total (Some modules) \<Longrightarrow> store_wf st \<Longrightarrow> fst (wasm_invoke_in_tx modules st name args tx) \<noteq> Panic"
proof -
  have "tx_grows tx (rc_tx (snd (run_reducer st (f args) (reducer_context_new tx))))" for f
    using run_reducer_grows [of "reducer_context_new tx" st "f args"] by (simp add: reducer_context_new_def)
  then show "tx_grows tx (snd (wasm_invoke_in_tx modules st name args tx))"
    by (cases "om_get modules name") (simp_all add: wasm_invoke_in_tx_def split_def)
  show "fst (wasm_invoke_in_tx modules st name args tx) \<noteq> Panic" if "wasm_total (Some modules)" "store_wf st"
  proof (cases "om_get modules name")
    case (Some f)
    with that(1) have "no_panic (f args)" by (simp add: wasm_total_def)
    then have "fst (run_reducer st (f args) (reducer_context_new tx)) \<noteq> Panic" by (rule run_reducer_not_Panic [OF that(2)])
    with Some show ?thesis
      by (cases "fst (run_reducer st (f args) (reducer_context_new tx))") (auto simp: wasm_invoke_in_tx_def split_def)
  qed (simp add: wasm_invoke_in_tx_def)
qed

lemma invoke_reducer_grows:
  "tx_grows tx (snd (invoke_reducer env name args tx))"
  "env_sound env \<Longrightarrow> fst (invoke_reducer env name args tx) \<noteq> Panic"
  using invoke_in_tx_grows wasm_invoke_grows by (auto simp: invoke_reducer_def env_sound_def split: option.splits)

lemma xc_via_grows:
  "(\<And>tx. tx_grows tx (snd (f tx))) \<Longrightarrow> tx_grows (xc_tx ctx) (xc_tx (snd (xc_via f ctx)))"
  by (simp add: xc_via_def split_def)

lemma xc_append_tx [simp]: "xc_tx (snd (xc_append env es ctx)) = xc_tx ctx"
  by (simp add: xc_append_def split_def)

lemma xc_emit_tx [simp]: "xc_tx (snd (xc_emit env name payload ctx)) = xc_tx ctx"
  by (simp add: xc_emit_def)

lemma send_to_tx [simp]: "xc_tx (snd (send_to env dst kind payload ctx)) = xc_tx ctx"
  by (simp add: send_to_def try_res_def split: res.splits)

lemma xc_then_append:
  "xc_tx (snd (case c of (r, ctx) \<Rightarrow> try_res r ctx (\<lambda>(v, events).
     case xc_append env events ctx of (r, ctx) \<Rightarrow> try_res r ctx (\<lambda>_. (Ok v, ctx))))) = xc_tx (snd c)"
proof -
  have "xc_tx (snd (case xc_append env events ctx of (r, ctx) \<Rightarrow> try_res r ctx (\<lambda>_. (Ok v, ctx)))) = xc_tx ctx"
    for events ctx and v :: 'a
    using xc_append_tx [of env events ctx] by (cases "xc_append env events ctx"; cases "fst (xc_append env events ctx)") simp_all
  then show ?thesis by (cases c; cases "fst c") auto
qed

lemma xc_invoke_grows:
  "tx_grows (xc_tx ctx) (xc_tx (snd (xc_invoke env name args ctx)))"
  "tx_grows (xc_tx ctx) (xc_tx (snd (xc_invoke_wasm env name args ctx)))"
  unfolding xc_invoke_def xc_invoke_wasm_def xc_then_append
  by (rule xc_via_grows, rule invoke_in_tx_grows)
    (auto simp: xc_then_append split: option.splits intro!: xc_via_grows wasm_invoke_grows(1))

lemma run_prog_grows: "tx_grows (xc_tx ctx) (xc_tx (snd (run_prog env p ctx)))"
  by (induction p arbitrary: ctx)
    (simp_all, (rule resume_grows [where h = xc_tx],
      (rule xc_via_grows, rule tx_user_grows | rule xc_invoke_grows | simp), simp)+)

lemma run_system_grows:
  "tx_grows (xc_tx ctx) (xc_tx (snd (run_system env inputs d ctx)))" "fst (run_system env inputs d ctx) \<noteq> Panic"
  using run_prog_grows by (auto simp: run_system_def split_def split: res.splits)

lemma serial_system_grows:
  "ts_grows ts (snd (serial_system env inputs d ts))" "fst (serial_system env inputs d ts) \<noteq> Panic"
proof -
  let ?ctx = "\<lparr>xc_tx = ts_tx ts, xc_events = ts_events ts, xc_outbound = ts_outbound ts\<rparr>"
  show "ts_grows ts (snd (serial_system env inputs d ts))" "fst (serial_system env inputs d ts) \<noteq> Panic"
    using run_system_grows [where ctx = ?ctx and env = env and inputs = inputs and d = d]
    by (simp_all add: serial_system_def ts_grows_def split_def)
qed

lemma append_events_not_Panic [simp]: "fst (append_events mx src dst) \<noteq> Panic"
  by (simp add: append_events_def)

lemma ts_append_grows: "fst (ts_append env es ts) \<noteq> Panic \<and> ts_grows ts (snd (ts_append env es ts))"
  by (simp add: ts_append_def split_def ts_grows_def)

lemma ts_append_after:
  "tx_grows (ts_tx ts) tx \<Longrightarrow>
     fst (ts_append env es (ts\<lparr>ts_tx := tx, ts_results := rs\<rparr>)) \<noteq> Panic \<and>
     ts_grows ts (snd (ts_append env es (ts\<lparr>ts_tx := tx, ts_results := rs\<rparr>)))"
  by (simp add: ts_append_def split_def ts_grows_def)

lemma invoke_append_grows:
  assumes "tx_grows (ts_tx ts) tx"
  shows "ts_grows ts (snd (try_res r (ts\<lparr>ts_tx := tx\<rparr>) (\<lambda>p. ts_append env (snd p) (ts\<lparr>ts_tx := tx\<rparr>))))"
    and "r \<noteq> Panic \<Longrightarrow> fst (try_res r (ts\<lparr>ts_tx := tx\<rparr>) (\<lambda>p. ts_append env (snd p) (ts\<lparr>ts_tx := tx\<rparr>))) \<noteq> Panic"
  using assms by (cases r; auto simp: ts_append_def split_def ts_grows_def)+

lemma deliver_message_grows:
  "ts_grows ts (snd (deliver_message env m ts))" "env_sound env \<Longrightarrow> fst (deliver_message env m ts) \<noteq> Panic"
  unfolding deliver_message_def split_def
  by (rule invoke_append_grows, rule invoke_reducer_grows) (rule invoke_append_grows(2), (rule invoke_reducer_grows | assumption)+)

lemma run_event_grows: "fst (run_event env e ts) \<noteq> Panic \<and> ts_grows ts (snd (run_event env e ts))"
  unfolding run_event_def split_def using invoke_append_grows invoke_in_tx_grows by blast

text \<open>A call that fails is undone: the transaction has the writes it had before the call.\<close>

lemma run_call_cases:
  assumes good: "ts_good ts"
  obtains (ok) v events tx where
      "invoke_reducer env (rcall_reducer c) (rcall_args c) (ts_tx ts) = (Ok (v, events), tx)" "tx_grows (ts_tx ts) tx"
      "run_call env c ts = ts_append env events
         (ts\<lparr>ts_tx := tx, ts_results := ts_results ts @ [call_ok (rcall_request c) v]\<rparr>)"
    | (err) e tx where
      "fst (invoke_reducer env (rcall_reducer c) (rcall_args c) (ts_tx ts)) = Err e" "tx_grows (ts_tx ts) tx"
      "tx_writes tx = tx_writes (ts_tx ts)" "tx_provisional tx = tx_provisional (ts_tx ts)"
      "rs_insert_order (tx_reads tx) = rs_insert_order (tx_reads (ts_tx ts))"
      "run_call env c ts = (Ok (), ts\<lparr>ts_tx := tx, ts_results := ts_results ts @ [call_err (rcall_request c) e]\<rparr>)"
    | (panic) tx where
      "fst (invoke_reducer env (rcall_reducer c) (rcall_args c) (ts_tx ts)) = Panic" "tx_grows (ts_tx ts) tx"
      "run_call env c ts = (Panic, ts\<lparr>ts_tx := tx\<rparr>)"
proof -
  obtain r tx where inv: "invoke_reducer env (rcall_reducer c) (rcall_args c) (ts_tx ts) = (r, tx)" by fastforce
  have g: "tx_grows (ts_tx ts) tx"
    using invoke_reducer_grows(1) [of "ts_tx ts" env "rcall_reducer c" "rcall_args c"] by (simp add: inv)
  have wf: "tx_wf (ts_tx ts)" using good by (simp add: ts_good_def tx_reach_wf)
  show thesis
  proof (cases r)
    case (Ok p)
    then show thesis using ok [of "fst p" "snd p" tx] inv g by (cases p) (simp add: run_call_def)
  next
    case (Err e)
    obtain tx' where "tx_rollback (tx_snapshot_of (ts_tx ts)) tx = Ok tx'" "tx_grows (ts_tx ts) tx'"
      "tx_writes tx' = tx_writes (ts_tx ts)" "tx_provisional tx' = tx_provisional (ts_tx ts)"
      "rs_insert_order (tx_reads tx') = rs_insert_order (tx_reads (ts_tx ts))"
      using tx_rollback_grown [OF wf g] by blast
    then show thesis using err [of e tx'] inv Err by (simp add: run_call_def)
  next
    case Panic
    then show thesis using panic [of tx] inv g by (simp add: run_call_def)
  qed
qed

lemma run_call_grows:
  assumes "ts_good ts"
  shows "ts_grows ts (snd (run_call env c ts))" and "env_sound env \<Longrightarrow> fst (run_call env c ts) \<noteq> Panic"
proof -
  show "ts_grows ts (snd (run_call env c ts))"
    by (rule run_call_cases [OF assms, of env c]) (auto simp: ts_append_def split_def ts_grows_def)
  show "fst (run_call env c ts) \<noteq> Panic" if "env_sound env"
    using invoke_reducer_grows(2) [OF that]
    by (cases rule: run_call_cases [OF assms, of env c]) (auto simp: ts_append_def split_def)
qed

lemma rejected_call:
  assumes "ts_good ts" and "invoke_reducer env (rcall_reducer c) (rcall_args c) (ts_tx ts) = (Err e, tx)"
  shows "\<exists>tx'. run_call env c ts = (Ok (), ts\<lparr>ts_tx := tx', ts_results := ts_results ts @ [call_err (rcall_request c) e]\<rparr>) \<and>
    tx_writes tx' = tx_writes (ts_tx ts) \<and> tx_provisional tx' = tx_provisional (ts_tx ts) \<and>
    tx_id tx' = tx_id (ts_tx ts) \<and> tx_state tx' = Active \<and>
    rs_insert_order (tx_reads tx') = rs_insert_order (tx_reads (ts_tx ts))"
  using assms by (cases rule: run_call_cases [OF assms(1), of env c]) (auto simp: tx_grows_def ts_good_def)

section \<open>Groups\<close>

lemma rs_absorb_extends:
  assumes "rs_wf rs"
  shows "rs_extends rs (rs_absorb other rs)"
proof -
  have one: "rs_extends rs (fold (\<lambda>((tid, rid), observed). rs_record tid rid observed) xs rs')"
    if "rs_extends rs rs'" for xs rs'
    using that by (induction xs arbitrary: rs') (auto intro: rs_record_extends)
  have two: "rs_extends rs (fold (\<lambda>(tid, epoch). rs_record_table tid epoch) xs rs')"
    if "rs_extends rs rs'" for xs rs'
    using that by (induction xs arbitrary: rs') (auto intro: rs_record_table_extends)
  show ?thesis unfolding rs_absorb_def by (intro two one rs_extends_refl assms)
qed

lemma tx_absorb_grows:
  assumes "tx_reach child" and "tx_state child = Active" and "tx_state tx = Active"
  shows "fst (tx_absorb child tx) = Ok () \<and> tx_grows tx (snd (tx_absorb child tx))"
proof -
  have "tx_reach tx \<Longrightarrow> tx_reach (snd (tx_absorb child tx))" by (rule tx_reach.absorb [OF _ assms(1)])
  with assms rs_absorb_extends show ?thesis by (simp add: tx_absorb_def ensure_active_def tx_grows_def)
qed

lemma run_slot_child:
  assumes "tx_reach parent" and "tx_state parent = Active"
  shows "run_slot env inputs systems parent i \<noteq> Panic"
    and "run_slot env inputs systems parent i = Ok ctx \<Longrightarrow> tx_reach (xc_tx ctx) \<and> tx_state (xc_tx ctx) = Active"
proof -
  define new where "new = tx_new (word_of_nat (i + 1))"
  define child where "child = snd (branch_of parent new)"
  let ?ctx = "\<lparr>xc_tx = child, xc_events = [], xc_outbound = []\<rparr>"
  have b: "branch_of parent new = (Ok (), child)" "tx_state child = Active"
    using assms(2) by (simp_all add: child_def branch_of_def ensure_active_def new_def tx_new_def)
  have "tx_reach child" unfolding child_def new_def by (rule tx_reach.branch [OF tx_reach.fresh assms(1)])
  then have g: "tx_reach (xc_tx (snd (run_system env inputs d ?ctx)))"
    "tx_state (xc_tx (snd (run_system env inputs d ?ctx))) = Active" for d
    using run_system_grows(1) [of ?ctx env inputs d] b(2) by (simp_all add: tx_grows_def)
  obtain r c where rc: "run_system env inputs (systems ! i) ?ctx = (r, c)" by fastforce
  have np: "r \<noteq> Panic" using run_system_grows(2) [of env inputs "systems ! i" ?ctx] rc by simp
  have slot: "run_slot env inputs systems parent i = (case r of Ok _ \<Rightarrow> Ok c | Err e \<Rightarrow> Err e | Panic \<Rightarrow> Panic)"
    unfolding run_slot_def new_def [symmetric] b(1) by (simp add: rc split: res.splits)
  show "run_slot env inputs systems parent i \<noteq> Panic" using slot np by (cases r) simp_all
  show "tx_reach (xc_tx ctx) \<and> tx_state (xc_tx ctx) = Active" if "run_slot env inputs systems parent i = Ok ctx"
    using slot that g [of "systems ! i"] rc by (cases r) auto
qed

lemma merge_child_grows:
  assumes child: "tx_reach (xc_tx ctx)" "tx_state (xc_tx ctx) = Active" and good: "ts_good (fst s)"
  shows "fst (merge_child env snapshot ctx s) \<noteq> Panic \<and> ts_grows (fst s) (fst (snd (merge_child env snapshot ctx s)))"
proof -
  obtain ts sib where [simp]: "s = (ts, sib)" by fastforce
  obtain tx where a: "tx_absorb (xc_tx ctx) (ts_tx ts) = (Ok (), tx)" and g: "tx_grows (ts_tx ts) tx"
    using tx_absorb_grows [OF child, of "ts_tx ts"] good by (cases "tx_absorb (xc_tx ctx) (ts_tx ts)") (auto simp: ts_good_def)
  show ?thesis
    using g by (auto simp: merge_child_def Let_def a ts_grows_def append_events_def split: if_splits)
qed

lemma map_res_not_Panic: "(\<And>x. x \<in> set xs \<Longrightarrow> f x \<noteq> Panic) \<Longrightarrow> map_res f xs \<noteq> Panic"
proof (induction xs)
  case (Cons x xs)
  then show ?case by (cases "f x"; cases "map_res f xs") auto
qed simp

lemma execute_group_grows:
  assumes good: "ts_good ts"
  shows "fst (execute_group env inputs systems members ts) \<noteq> Panic \<and>
    ts_grows ts (snd (execute_group env inputs systems members ts))"
proof -
  have p: "tx_reach (ts_tx ts)" "tx_state (ts_tx ts) = Active" using good by (simp_all add: ts_good_def)
  let ?run = "map_res (run_slot env inputs systems (ts_tx ts)) members"
  show ?thesis
  proof (cases ?run)
    case (Ok children)
    let ?m = "merge_child env (fst ` set (ws_entries (tx_writes (ts_tx ts))))"
    have kids: "tx_reach (xc_tx c) \<and> tx_state (xc_tx c) = Active" if "c \<in> set children" for c
      using that Ok run_slot_child(2) [OF p] by (auto simp: map_res_Ok in_set_conv_nth)
    have "fst (for_each ?m children s) \<noteq> Panic \<and> ts_grows (fst s) (fst (snd (for_each ?m children s)))"
      if "ts_good (fst s)" for s
      by (rule merge.for_each_progress [OF _ that]) (use merge_child_grows kids in blast)
    from this [of "(ts, \<lparr>sib_writes = {}, sib_tables = {}\<rparr>)"] good Ok show ?thesis
      by (simp add: execute_group_def split_def)
  next
    case (Err e)
    then show ?thesis using tick.rel_refl [OF good] by (simp add: execute_group_def)
  next
    case Panic
    then show ?thesis using map_res_not_Panic run_slot_child(1) [OF p] by metis
  qed
qed

lemma run_group_grows:
  assumes "ts_good ts"
  shows "fst (run_group env inputs systems members ts) \<noteq> Panic \<and>
    ts_grows ts (snd (run_group env inputs systems members ts))"
  using execute_group_grows [OF assms] serial_system_grows by (simp add: run_group_def)

section \<open>The plan\<close>

lemma bind_total: "m \<noteq> Panic \<Longrightarrow> (\<And>x. k x \<noteq> Panic) \<Longrightarrow> bind_res m k \<noteq> Panic"
  by (cases m) simp_all

lemma resolve_access_not_Panic: "resolve_access st a \<noteq> Panic"
proof -
  have "map_res (\<lambda>n. map_err (\<lambda>_. InvalidArgument) (resolve_table st n)) ns \<noteq> Panic" for ns
  proof (rule map_res_not_Panic)
    show "map_err (\<lambda>_. InvalidArgument) (resolve_table st n) \<noteq> Panic" for n
      by (cases "store_table st n") (simp_all add: resolve_table_def)
  qed
  then show ?thesis unfolding resolve_access_def by (cases "sa_opaque a") (simp, simp, intro bind_total, simp_all)
qed

lemma plan_loop_not_Panic: "plan_loop st xs groups current rs ws \<noteq> Panic"
proof (induction st xs groups current rs ws rule: plan_loop.induct)
  case (2 st i s ss groups current rs ws)
  then show ?case using resolve_access_not_Panic [of st "sd_access s"]
    by (cases "resolve_access st (sd_access s)") (auto simp: Let_def split: option.splits)
qed simp

lemma tick_plan_not_Panic: "tick_plan st systems \<noteq> Panic"
  by (simp add: tick_plan_def plan_loop_not_Panic)

lemma concat_plan_flush [simp]: "concat (plan_flush current groups) = concat groups @ current"
  by (simp add: plan_flush_def)

lemma plan_loop_order:
  "plan_loop st xs groups current rs ws = Ok gs \<Longrightarrow> concat gs = concat groups @ current @ map fst xs"
proof (induction xs arbitrary: groups current rs ws)
  case (Cons x xs)
  obtain i s where [simp]: "x = (i, s)" by fastforce
  from Cons.prems obtain f where f: "resolve_access st (sd_access s) = Ok f" by (auto simp: bind_res_eq_Ok)
  show ?case
    using Cons.prems Cons.IH by (cases f) (fastforce simp: f Let_def split: if_splits)+
qed auto

lemma tick_plan_order: "tick_plan st systems = Ok groups \<Longrightarrow> concat groups = [0..<length systems]"
  unfolding tick_plan_def by (drule plan_loop_order) (simp add: enumerate_eq_zip)

text \<open>Two systems whose declared footprints do not meet.\<close>

definition footprints_apart :: "table_store \<Rightarrow> system_definition \<Rightarrow> system_definition \<Rightarrow> bool" where
  "footprints_apart st d d' \<longleftrightarrow>
     (case (resolve_access st (sd_access d), resolve_access st (sd_access d')) of
        (Ok (Some (r, w)), Ok (Some (r', w'))) \<Rightarrow> w \<inter> r' = {} \<and> w \<inter> w' = {} \<and> r \<inter> w' = {}
      | _ \<Rightarrow> False)"

lemma footprints_apart_sym: "footprints_apart st d d' \<longleftrightarrow> footprints_apart st d' d"
  by (auto simp: footprints_apart_def split: res.splits option.splits)

definition group_apart :: "table_store \<Rightarrow> system_definition list \<Rightarrow> nat list \<Rightarrow> bool" where
  "group_apart st systems g \<longleftrightarrow>
     g \<noteq> [] \<and> (\<forall>i \<in> set g. \<forall>j \<in> set g. i \<noteq> j \<longrightarrow> footprints_apart st (systems ! i) (systems ! j))"

definition within :: "table_store \<Rightarrow> system_definition \<Rightarrow> table_id set \<Rightarrow> table_id set \<Rightarrow> bool" where
  "within st d rs ws \<longleftrightarrow> (\<exists>r w. resolve_access st (sd_access d) = Ok (Some (r, w)) \<and> r \<subseteq> rs \<and> w \<subseteq> ws)"

lemma within_mono: "within st d rs ws \<Longrightarrow> rs \<subseteq> rs' \<Longrightarrow> ws \<subseteq> ws' \<Longrightarrow> within st d rs' ws'"
  unfolding within_def by blast

lemma plan_loop_apart:
  assumes "plan_loop st xs groups current rs ws = Ok gs" and "\<forall>(i, d) \<in> set xs. systems ! i = d"
    and "\<forall>g \<in> set groups. group_apart st systems g" and "current \<noteq> [] \<longrightarrow> group_apart st systems current"
    and "\<forall>i \<in> set current. within st (systems ! i) rs ws"
  shows "\<forall>g \<in> set gs. group_apart st systems g"
  using assms
proof (induction xs arbitrary: groups current rs ws)
  case Nil
  then show ?case by (auto simp: plan_flush_def split: if_splits)
next
  case (Cons x ss)
  obtain i s where [simp]: "x = (i, s)" by fastforce
  have s: "systems ! i = s" and ss: "\<forall>(i, d) \<in> set ss. systems ! i = d" using Cons.prems(2) by auto
  have flushed: "\<forall>g \<in> set (plan_flush current groups). group_apart st systems g"
    using Cons.prems(3,4) by (simp add: plan_flush_def)
  obtain f where f: "resolve_access st (sd_access s) = Ok f" using Cons.prems(1) by (auto simp: bind_res_eq_Ok)
  have one: "group_apart st systems [i]" by (simp add: group_apart_def)
  show ?case
  proof (cases f)
    case None
    then show ?thesis using Cons.IH [of "plan_flush current groups @ [[i]]" "[]"] Cons.prems(1) f ss flushed one by simp
  next
    case (Some p)
    obtain r w where p: "p = (r, w)" by fastforce
    let ?c = "w \<inter> rs \<noteq> {} \<or> w \<inter> ws \<noteq> {} \<or> r \<inter> ws \<noteq> {}"
    have me: "within st (systems ! i) r w" using f Some p s by (auto simp: within_def)
    show ?thesis
    proof (cases "current = [] \<or> \<not> ?c")
      case True
      have "footprints_apart st (systems ! i) (systems ! j)" if "j \<in> set current" for j
        using Cons.prems(5) that True f Some p s by (fastforce simp: within_def footprints_apart_def)
      then have "group_apart st systems (current @ [i])"
        using Cons.prems(4) footprints_apart_sym by (auto simp: group_apart_def)
      moreover have "\<forall>j \<in> set (current @ [i]). within st (systems ! j) (rs \<union> r) (ws \<union> w)"
        using Cons.prems(5) me within_mono [of st _ _ _ "rs \<union> r" "ws \<union> w"] by auto
      ultimately show ?thesis using Cons.IH [of groups "current @ [i]"] Cons.prems(1) f Some p ss Cons.prems(3) True by simp
    next
      case False
      then have "plan_loop st ss (plan_flush current groups) [i] r w = Ok gs"
        using Cons.prems(1) by (simp add: f Some p Let_def) (auto split: if_splits)
      then show ?thesis using Cons.IH [of "plan_flush current groups" "[i]"] ss flushed one me by simp
    qed
  qed
qed

lemma tick_plan_apart: "tick_plan st systems = Ok groups \<Longrightarrow> g \<in> set groups \<Longrightarrow> group_apart st systems g"
  unfolding tick_plan_def by (drule plan_loop_apart [where systems = systems]) (auto simp: enumerate_eq_zip in_set_zip)

section \<open>One tick, one transaction\<close>

lemma run_systems_grows:
  assumes "ts_good ts"
  shows "fst (run_systems env mode inputs systems ts) \<noteq> Panic \<and> ts_grows ts (snd (run_systems env mode inputs systems ts))"
proof (cases mode)
  case Serial
  show ?thesis unfolding run_systems_def Serial execution_mode.case
    by (rule tick.for_each_progress [OF _ assms]) (simp add: serial_system_grows)
next
  case (Parallel w)
  have "fst (for_each (run_group env inputs systems) groups ts) \<noteq> Panic \<and>
      ts_grows ts (snd (for_each (run_group env inputs systems) groups ts))" for groups
    by (rule tick.for_each_progress [OF _ assms]) (rule run_group_grows)
  then show ?thesis using tick_plan_not_Panic [of "xe_store env" systems] tick.rel_refl [OF assms]
    by (cases "tick_plan (xe_store env) systems") (simp_all add: run_systems_def Parallel)
qed

lemma tick_body_grows:
  assumes "env_sound env" and "ts_good ts"
  shows "fst (tick_body env mode systems inputs batch due calls ts) \<noteq> Panic \<and>
    ts_grows ts (snd (tick_body env mode systems inputs batch due calls ts))"
proof -
  have 1: "fst (for_each (deliver_message env) batch ts) \<noteq> Panic \<and> ts_grows ts (snd (for_each (deliver_message env) batch ts))"
    by (rule tick.for_each_progress [OF _ assms(2)]) (use deliver_message_grows assms(1) in blast)
  have 2: "fst (for_each (run_event env) due ts) \<noteq> Panic \<and> ts_grows ts (snd (for_each (run_event env) due ts))"
    if "ts_good ts" for ts by (rule tick.for_each_progress [OF _ that]) (rule run_event_grows)
  have 3: "fst (for_each (run_call env) calls ts) \<noteq> Panic \<and> ts_grows ts (snd (for_each (run_call env) calls ts))"
    if "ts_good ts" for ts by (rule tick.for_each_progress [OF _ that]) (use run_call_grows assms(1) in blast)
  show ?thesis unfolding tick_body_def
    using 1 2 3 run_systems_grows assms(2) by (intro tick.then_progress; simp)
qed

lemma tick_run_grows:
  assumes "wasm_total (pt_wasm p)" and "store_wf (pt_store p)"
  shows "fst (tick_run p inputs delivered calls) \<noteq> Panic \<and>
    tx_grows (fst (tx_begin (pt_store p))) (ts_tx (snd (tick_run p inputs delivered calls)))"
proof -
  let ?st = "snd (tx_begin (pt_store p))"
  let ?ts = "\<lparr>ts_tx = fst (tx_begin (pt_store p)), ts_events = [], ts_outbound = [], ts_results = []\<rparr>"
  have "ts_good ?ts" by (simp add: ts_good_def tx_begin_fields)
  moreover have "store_wf ?st"
    using assms(2) by (simp add: tx_begin_def alloc_transaction_id_def store_wf_def)
  then have "env_sound (exec_env_of p ?st tick)" for tick using assms(1) by (simp add: exec_env_of_def env_sound_def)
  ultimately show ?thesis
    using tick_body_grows [where ts = ?ts] by (simp add: tick_run_def split_def ts_grows_def)
qed

text \<open>What one tick does.\<close>

definition tick_step :: "partition \<Rightarrow> tick_outcome \<Rightarrow> partition \<Rightarrow> bool" where
  "tick_step p out p' \<longleftrightarrow>
     (case out of
        Tick_Panicked \<Rightarrow> False
      | Tick_Failed n e \<Rightarrow> n = pt_tick p \<and> pt_store p' = snd (tx_begin (pt_store p))
      | Ticked r \<Rightarrow>
          tr_tick r = pt_tick p \<and> tr_tx_id r = next_transaction_id (pt_store p) \<and>
          history (pt_store p) [(tr_tx_id r, tr_changes r)] (pt_store p'))"

lemma tick_with_calls_step:
  assumes plain: "store_plain (pt_store p)" and fresh: "next_transaction_id (pt_store p) \<noteq> - 1"
    and total: "wasm_total (pt_wasm p)" and gate: "tick_gate p inputs delivered calls = Ok ()"
    and room: "has_room (pt_store p) (length (ws_entries (tx_writes (ts_tx (snd (tick_run p inputs delivered calls))))))"
    and tick: "tick_with_calls inputs delivered calls p = (out, p')"
  shows "tick_step p out p' \<and>
    (\<exists>st. p' = p\<lparr>pt_tick := pt_tick p + 1, pt_schedule := snd (take_due (pt_tick p) (pt_schedule p)), pt_store := st\<rparr>)"
proof -
  obtain r ts where run: "tick_run p inputs delivered calls = (r, ts)" by fastforce
  have "store_wf (pt_store p)" using plain by (simp add: store_plain_def)
  then have g: "r \<noteq> Panic" "tx_grows (fst (tx_begin (pt_store p))) (ts_tx ts)"
    using tick_run_grows [OF total, of inputs delivered calls] by (simp_all add: run)
  consider (err) e tx' where "tx_commit (ts_tx ts) (snd (tx_begin (pt_store p))) = (Err e, tx', snd (tx_begin (pt_store p)))"
    | (ok) cs tx' st' where "tx_commit (ts_tx ts) (snd (tx_begin (pt_store p))) = (Ok cs, tx', st')"
        "tx_id tx' = next_transaction_id (pt_store p)" "history (pt_store p) [(next_transaction_id (pt_store p), cs)] st'"
    using begin_commit_step [OF plain fresh g(2)] room run by auto
  then show ?thesis
    using tick g(1) by cases (cases r; force simp: tick_with_calls_def gate run Let_def tick_step_def)+
qed

section \<open>The results of the calls\<close>

lemma for_each_results:
  assumes "\<And>x s. x \<in> set xs \<Longrightarrow> ts_results (snd (f x s)) = ts_results s"
  shows "ts_results (snd (for_each f xs ts)) = ts_results ts"
  using assms
proof (induction xs arbitrary: ts)
  case (Cons x xs)
  obtain r s where "f x ts = (r, s)" by fastforce
  then show ?case using Cons.IH [of s] Cons.prems Cons.prems [of x ts] by (cases r) simp_all
qed simp

lemma phases_results [simp]:
  "ts_results (snd (ts_append env es ts)) = ts_results ts"
  "ts_results (snd (deliver_message env m ts)) = ts_results ts"
  "ts_results (snd (run_event env e ts)) = ts_results ts"
  "ts_results (snd (serial_system env inputs d ts)) = ts_results ts"
  by (simp_all add: ts_append_def deliver_message_def run_event_def serial_system_def split_def try_res_def split: res.splits)

lemma merge_child_results [simp]: "ts_results (fst (snd (merge_child env snapshot ctx s))) = ts_results (fst s)"
  by (auto simp: merge_child_def Let_def try_res_def append_events_def split: prod.splits res.splits if_splits)

lemma for_each_merge_results:
  "ts_results (fst (snd (for_each (merge_child env snapshot) cs s))) = ts_results (fst s)"
proof (induction cs arbitrary: s)
  case (Cons c cs)
  obtain r s' where m: "merge_child env snapshot c s = (r, s')" by (cases "merge_child env snapshot c s")
  then show ?case using Cons.IH [of s'] merge_child_results [of env snapshot c s] by (cases r) simp_all
qed simp

lemma execute_group_results [simp]:
  "ts_results (snd (execute_group env inputs systems members ts)) = ts_results ts"
  using for_each_merge_results by (simp add: execute_group_def split_def try_res_def split: res.splits)

lemma run_systems_results [simp]: "ts_results (snd (run_systems env mode inputs systems ts)) = ts_results ts"
  by (auto simp: run_systems_def run_group_def try_res_def split: execution_mode.splits res.splits
      intro!: for_each_results)

lemma run_calls_results:
  assumes "ts_good ts" and "for_each (run_call env) calls ts = (Ok (), ts')"
  shows "map cr_request (ts_results ts') = map cr_request (ts_results ts) @ map rcall_request calls"
  using assms
proof (induction calls arbitrary: ts)
  case (Cons c calls)
  obtain ts1 where one: "run_call env c ts = (Ok (), ts1)" and rest: "for_each (run_call env) calls ts1 = (Ok (), ts')"
    using Cons.prems(2) by (cases "run_call env c ts"; cases "fst (run_call env c ts)") auto
  have "ts_good ts1" using tick.rel_good [OF Cons.prems(1)] run_call_grows(1) [OF Cons.prems(1), of env c] one by simp
  moreover have "map cr_request (ts_results ts1) = map cr_request (ts_results ts) @ [rcall_request c]"
  proof (rule run_call_cases [OF Cons.prems(1), of env c])
    fix v events tx
    let ?ts = "ts\<lparr>ts_tx := tx, ts_results := ts_results ts @ [call_ok (rcall_request c) v]\<rparr>"
    assume "run_call env c ts = ts_append env events ?ts"
    then have "ts_results ts1 = ts_results ?ts" using phases_results(1) [of env events ?ts] one by (metis snd_conv)
    then show ?thesis by (simp add: call_ok_def)
  qed (use one in \<open>auto simp: call_err_def\<close>)
  ultimately show ?case using Cons.IH rest by simp
qed simp

lemma then_do_Ok: "then_do c k = (Ok (), s) \<longleftrightarrow> (\<exists>s'. c = (Ok (), s') \<and> k s' = (Ok (), s))"
  by (cases c; cases "fst c") (auto simp: then_do_def)

lemma for_each_good:
  assumes "\<And>x s. ts_grows s (snd (f x s))" and "ts_good ts"
  shows "ts_good (snd (for_each f xs ts))"
  using tick.rel_good [OF assms(2) tick.for_each_rel [OF assms(1,2)]] .

lemma ticked_results:
  assumes tick: "tick_with_calls inputs delivered calls p = (Ticked r, p')"
  shows "map cr_request (tr_reducer_results r) = map rcall_request calls"
proof -
  let ?tx = "fst (tx_begin (pt_store p))" and ?st = "snd (tx_begin (pt_store p))"
  define env where "env = exec_env_of p ?st (pt_tick p)"
  define ts0 where "ts0 = \<lparr>ts_tx = ?tx, ts_events = [], ts_outbound = [], ts_results = []\<rparr>"
  obtain ts where run: "tick_run p inputs delivered calls = (Ok (), ts)" and r: "tr_reducer_results r = ts_results ts"
    using tick by (auto simp: tick_with_calls_def Let_def split: res.splits prod.splits)
  obtain ts1 ts2 ts3 where
    1: "for_each (deliver_message env) (sort_key (\<lambda>m. (pm_sent_tick m, pm_from m, pm_seq m)) delivered) ts0 = (Ok (), ts1)" and
    2: "for_each (run_event env) (fst (take_due (pt_tick p) (pt_schedule p))) ts1 = (Ok (), ts2)" and
    3: "for_each (run_call env) calls ts2 = (Ok (), ts3)" and
    4: "run_systems env (pc_execution (pt_config p)) inputs (pt_systems p) ts3 = (Ok (), ts)"
    using run by (auto simp: tick_run_def tick_body_def then_do_Ok split_def env_def ts0_def)
  have g0: "ts_good ts0" by (simp add: ts0_def ts_good_def tx_begin_fields)
  note ends = 1 [THEN arg_cong [of _ _ snd], unfolded snd_conv, symmetric]
    2 [THEN arg_cong [of _ _ snd], unfolded snd_conv, symmetric] 4 [THEN arg_cong [of _ _ snd], unfolded snd_conv, symmetric]
  have g1: "ts_good ts1" unfolding ends(1) by (rule for_each_good [OF deliver_message_grows(1) g0])
  have g2: "ts_good ts2" unfolding ends(2) by (rule for_each_good [OF conjunct2 [OF run_event_grows] g1])
  have "ts_results ts1 = ts_results ts0" unfolding ends(1) by (rule for_each_results) simp
  moreover have "ts_results ts2 = ts_results ts1" unfolding ends(2) by (rule for_each_results) simp
  moreover have "ts_results ts0 = []" by (simp add: ts0_def)
  moreover have "ts_results ts = ts_results ts3" unfolding ends(3) by (rule run_systems_results)
  ultimately show ?thesis using run_calls_results [OF g2 3] r by simp
qed

section \<open>Serial and parallel\<close>

lemma for_each_singletons:
  assumes "\<forall>g \<in> set groups. length g = 1"
  shows "for_each (run_group env inputs systems) groups ts
    = for_each (serial_system env inputs) (map (\<lambda>i. systems ! i) (concat groups)) ts"
  using assms
proof (induction groups arbitrary: ts)
  case (Cons g groups)
  then obtain i where "g = [i]" by (auto simp: length_Suc_conv)
  with Cons show ?case by (simp add: run_group_def)
qed simp

lemma parallel_singletons:
  assumes "tick_plan (xe_store env) systems = Ok groups" and "\<forall>g \<in> set groups. length g = 1"
  shows "run_systems env (Parallel w) inputs systems ts = run_systems env Serial inputs systems ts"
  using assms by (simp add: run_systems_def for_each_singletons tick_plan_order map_nth)

section \<open>The schedule\<close>

abbreviation se_key :: "scheduled_event \<Rightarrow> u64 \<times> u64" where
  "se_key e \<equiv> (se_at_tick e, se_id e)"

definition schedule_wf :: "schedule \<Rightarrow> bool" where
  "schedule_wf s \<longleftrightarrow>
     sorted (map se_key (sc_events s)) \<and> distinct (map se_id (sc_events s)) \<and>
     (\<forall>e \<in> set (sc_events s). se_id e < sc_next_id s) \<and> length (sc_events s) \<le> sc_max s"

lemma schedule_new_wf: "schedule_wf (schedule_new mx)"
  by (simp add: schedule_wf_def schedule_new_def)

lemma schedule_add_wf:
  assumes wf: "schedule_wf s" and ids: "sc_next_id s \<noteq> - 1"
  shows "schedule_wf (snd (schedule_add at_tick reducer args s))"
proof -
  let ?e = "\<lparr>se_id = sc_next_id s, se_at_tick = at_tick, se_reducer = reducer, se_args = args\<rparr>"
  let ?es = "sort_key se_key (sc_events s @ [?e])"
  have up: "sc_next_id s < sc_next_id s + 1" using version_next_greater [OF ids] by (simp add: version_next_def)
  have "sc_next_id s \<notin> se_id ` set (sc_events s)" using wf by (auto simp: schedule_wf_def)
  moreover have "distinct (map se_id ?es) \<longleftrightarrow> distinct (map se_id (sc_events s @ [?e]))"
    unfolding distinct_map by simp
  ultimately have "distinct (map se_id ?es)" using wf by (simp add: schedule_wf_def)
  then show ?thesis using wf up by (auto simp: schedule_add_def Let_def schedule_wf_def)
qed

lemma remove_first_Some:
  assumes "remove_first P xs = Some ys"
  shows "\<exists>as x bs. xs = as @ x # bs \<and> ys = as @ bs \<and> P x \<and> (\<forall>a \<in> set as. \<not> P a)"
proof -
  have ex: "\<exists>x \<in> set xs. P x" and ys: "ys = takeWhile (\<lambda>x. \<not> P x) xs @ tl (dropWhile (\<lambda>x. \<not> P x) xs)"
    using assms by (auto simp: remove_first_def list_ex_iff split: if_splits)
  then obtain x bs where d: "dropWhile (\<lambda>x. \<not> P x) xs = x # bs" by (metis dropWhile_eq_Nil_conv neq_Nil_conv)
  then have "P x" by (metis dropWhile_eq_Cons_conv)
  with d ys show ?thesis by (metis list.sel(3) set_takeWhileD takeWhile_dropWhile_id)
qed

lemma schedule_cancel_wf: "schedule_wf s \<Longrightarrow> schedule_wf (snd (schedule_cancel i s))"
  by (auto simp: schedule_cancel_def schedule_wf_def sorted_append split: option.splits dest!: remove_first_Some)

lemma take_due_exact:
  assumes wf: "schedule_wf s"
  shows "fst (take_due tick s) = filter (\<lambda>e. se_at_tick e \<le> tick) (sc_events s)"
    and "sc_events (snd (take_due tick s)) = filter (\<lambda>e. tick < se_at_tick e) (sc_events s)"
    and "schedule_wf (snd (take_due tick s))"
proof -
  let ?P = "\<lambda>e. se_at_tick e \<le> tick"
  have "sorted (map se_key (sc_events s))" using wf by (simp add: schedule_wf_def)
  then have *: "takeWhile ?P (sc_events s) = filter ?P (sc_events s) \<and>
      dropWhile ?P (sc_events s) = filter (\<lambda>e. tick < se_at_tick e) (sc_events s)"
  proof (induction "sc_events s" arbitrary: s)
    case (Cons e es)
    have "filter ?P es = [] \<and> filter (\<lambda>e. tick < se_at_tick e) es = es" if "\<not> ?P e"
      using that Cons.prems Cons.hyps(2) [symmetric] by (force simp: filter_empty_conv filter_id_conv)
    with Cons.hyps(1) [of "\<lparr>sc_events = es, sc_next_id = 0, sc_max = 0\<rparr>"] Cons.prems Cons.hyps(2) [symmetric] show ?case
      by (auto simp: not_le)
  qed simp
  then show "fst (take_due tick s) = filter ?P (sc_events s)"
    and "sc_events (snd (take_due tick s)) = filter (\<lambda>e. tick < se_at_tick e) (sc_events s)"
    by (simp_all add: take_due_def)
  show "schedule_wf (snd (take_due tick s))"
    using wf * le_trans [OF length_filter_le]
    by (auto simp: take_due_def schedule_wf_def distinct_map_filter intro: sorted_filter)
qed

end
