(* ===== verification/Exec_Examples.thy ===== *)
theory Exec_Examples
  imports Exec_Exact Nexum_Runs
begin

text \<open>A partition over the example store: two reducers, one that rejects after a write, a WebAssembly module that
  looks rows up in an index, a system, and a tick that runs them.\<close>

definition ex_grant :: reducer_definition where
  "ex_grant = \<lparr>rd_id = 1, rd_name = ''grant'',
     rd_execute = (\<lambda>args. Insert ''units'' (ex_row 7 70) (\<lambda>r. Finish (bind_res r (\<lambda>rid. Ok (VU64 7)))))\<rparr>"

definition ex_reject :: reducer_definition where
  "ex_reject = \<lparr>rd_id = 2, rd_name = ''reject'',
     rd_execute = (\<lambda>args. Update ''units'' 0 (ex_row 1 99) (\<lambda>r. Finish (Err InvalidArgument)))\<rparr>"

definition ex_registry :: reducer_registry where
  "ex_registry = snd (reducer_register ex_reject (snd (reducer_register ex_grant reducer_registry_new)))"

definition ex_module :: wasm_modules where
  "ex_module = [(''find'', \<lambda>args. Lookup_Index ''units'' ''by_owner'' [VU64 10]
     (\<lambda>r. Finish (bind_res r (\<lambda>ids. Ok (VU64 (word_of_nat (length ids)))))))]"

definition ex_system :: "u64 \<Rightarrow> system_definition" where
  "ex_system i = \<lparr>sd_id = i, sd_name = ''system'', sd_priority = 0, sd_access = access_new [] [],
     sd_execute = (\<lambda>info inputs. Sys_Emit ''tick'' (VU64 (si_tick info)) (\<lambda>r. Sys_Finish (Ok ())))\<rparr>"

definition ex_limits :: "nat \<Rightarrow> partition_config" where
  "ex_limits n = \<lparr>pc_seed = 0, pc_execution = Serial, pc_max_commands_per_frame = n, pc_max_events_per_tick = n,
     pc_max_scheduled_events = n, pc_max_messages_per_tick = n, pc_max_message_kind_len = 9, pc_max_message_args = n,
     pc_max_reducer_calls_per_tick = n, pc_max_reducer_name_len = 9, pc_max_reducer_args = n\<rparr>"

definition ex_partition :: partition where
  "ex_partition = \<lparr>pt_id = 0, pt_partition = 0, pt_known = [], pt_store = ex_store,
     pt_config = ex_limits 5, pt_tick = 0, pt_systems = [ex_system 1], pt_native = ex_registry,
     pt_wasm = Some ex_module, pt_schedule = snd (schedule_add 0 ''grant'' [] (schedule_new 5))\<rparr>"

definition ex_calls :: "reducer_call list" where
  "ex_calls = [\<lparr>rcall_request = 5, rcall_reducer = ''reject'', rcall_args = []\<rparr>,
     \<lparr>rcall_request = 6, rcall_reducer = ''find'', rcall_args = []\<rparr>]"

lemma ex_partition_fields:
  "pt_store ex_partition = ex_store" "pt_wasm ex_partition = Some ex_module" "next_transaction_id (pt_store ex_partition) \<noteq> - 1"
  "pt_tick ex_partition = 0" "tick_gate ex_partition (input_frame_new 0) [] ex_calls = Ok ()"
  "length (ws_entries (tx_writes (ts_tx (snd (tick_run ex_partition (input_frame_new 0) [] ex_calls))))) = 1"
proof -
  show "pt_store ex_partition = ex_store" "pt_wasm ex_partition = Some ex_module" "pt_tick ex_partition = 0" by (simp_all add: ex_partition_def)
  show "next_transaction_id (pt_store ex_partition) \<noteq> - 1" by code_simp
  show "tick_gate ex_partition (input_frame_new 0) [] ex_calls = Ok ()" by code_simp
  show "length (ws_entries (tx_writes (ts_tx (snd (tick_run ex_partition (input_frame_new 0) [] ex_calls))))) = 1" by code_simp
qed

lemma ex_ticked:
  "(case fst (tick_with_calls (input_frame_new 0) [] ex_calls ex_partition) of
      Ticked r \<Rightarrow> Some (tr_changes r, tr_reducer_results r, length (tr_events r)) | _ \<Rightarrow> None)
    = Some ([change_insert 0 1 (ex_row 7 70) 0], [call_err 5 InvalidArgument, call_ok 6 (VU64 1)], 1)"
  by code_simp

text \<open>An environment that allows one event per tick, and the state of a tick that has just begun.\<close>

definition ex_env :: exec_env where
  "ex_env = exec_env_of (ex_partition\<lparr>pt_store := store_new,
     pt_config := ex_limits 1\<rparr>) store_new 0"

definition ex_begun_tick :: tick_state where
  "ex_begun_tick = \<lparr>ts_tx = tx_new 0, ts_events = [], ts_outbound = [], ts_results = []\<rparr>"

lemma ex_wasm: "wasm_total (pt_wasm ex_partition)"
  by (simp add: wasm_total_def ex_partition_fields(2) ex_module_def bind_res_not_Panic)

end
