(* ===== verification/Run_World.thy ===== *)
theory Run_World
  imports Exec_Tick Wal_Recovery Sub_Registry
begin

text \<open>
  \<^verbatim>\<open>nexum-runtime\<close>, one world (\<^verbatim>\<open>world.rs\<close>, \<^verbatim>\<open>error.rs\<close>, \<^verbatim>\<open>event.rs\<close>): an entry holds a partition with its
  queues, its log and snapshot directory and its subscriptions, and one tick of an entry
  (\<^verbatim>\<open>tick_entry_collected\<close>) gathers the inputs, runs the tick of the partition, makes it durable and then
  tells the subscriptions. What the file system does during a tick, and the time, is an argument. Durations are
  left out of events and metrics.
\<close>

section \<open>Errors and events\<close>

datatype partition_lifecycle = PCreated | PRunning | PStopped | PFailed

datatype worker_state = WRunning | WFailed | WStopped

datatype runtime_error =
    InvalidConfig
  | UnknownPartition u64
  | UnknownWorker u64
  | DuplicatePartition u64
  | UnknownRouting u64
  | DuplicateRouting u64
  | OwnershipConflict u64 u64
  | InvalidPartitionState u64 partition_lifecycle
  | InvalidWorkerState u64 worker_state
  | InputRejected u64 error
  | ReducerCallRejected u64 error
  | Persistence error
  | Core error
  | TickError u64 error
  | WorkerFailedError u64
  | ShutdownError
  | InternalError

datatype 'a run_res = ROk 'a | RErr runtime_error | RPanic

fun run_bind :: "'a run_res \<Rightarrow> 's \<Rightarrow> ('a \<Rightarrow> 'b run_res \<times> 's) \<Rightarrow> 'b run_res \<times> 's" where
  "run_bind (ROk x) s k = k x"
| "run_bind (RErr e) s k = (RErr e, s)"
| "run_bind RPanic s k = (RPanic, s)"

text \<open>\<^verbatim>\<open>map_err(f)\<close> on a result of the lower crates.\<close>

fun run_of :: "(error \<Rightarrow> runtime_error) \<Rightarrow> 'a res \<Rightarrow> 'a run_res" where
  "run_of f (Ok x) = ROk x"
| "run_of f (Err e) = RErr (f e)"
| "run_of f Panic = RPanic"

fun run_or :: "runtime_error \<Rightarrow> 'a option \<Rightarrow> 'a run_res" where
  "run_or e (Some x) = ROk x"
| "run_or e None = RErr e"

datatype runtime_event =
    EvPartitionCreated u64 u64
  | EvPartitionStarted u64
  | EvPartitionStopped u64
  | EvPartitionFailed u64 error
  | EvPartitionDestroyed u64
  | EvPartitionRecovered u64 nat
  | EvWorkerFailed u64
  | EvTickCompleted u64 u64
  | EvTickFailed u64 u64 error
  | EvPersistenceFailure u64 u64 error
  | EvInputRejected u64 error
  | EvReducerCallRejected u64 error
  | EvPartitionRegistered u64 u64
  | EvPartitionUnregistered u64
  | EvMessageDropped u64 u64 error
  | EvShutdown

definition can_start :: "partition_lifecycle \<Rightarrow> bool" where
  "can_start s \<longleftrightarrow> s = PCreated \<or> s = PStopped"

definition can_stop :: "partition_lifecycle \<Rightarrow> bool" where
  "can_stop s \<longleftrightarrow> s = PCreated \<or> s = PRunning"

section \<open>World entries\<close>

record world_entry =
  we_world :: partition
  we_worker :: u64
  we_state :: partition_lifecycle
  we_inputs :: "input_frame list"
  we_calls :: "reducer_call list"
  we_wal :: "wal option"
  we_snapshots :: "directory option"
  we_subscriptions :: registry
  we_ticks_run :: u64
  we_since_snapshot :: u64

definition world_entry_new :: "partition \<Rightarrow> u64 \<Rightarrow> wal option \<Rightarrow> directory option \<Rightarrow> world_entry" where
  "world_entry_new world worker w dir =
     \<lparr>we_world = world, we_worker = worker, we_state = PCreated, we_inputs = [], we_calls = [], we_wal = w,
      we_snapshots = dir, we_subscriptions = registry_new, we_ticks_run = 0, we_since_snapshot = 0\<rparr>"

record partition_status =
  ps_id :: u64
  ps_worker :: u64
  ps_state :: partition_lifecycle
  ps_next_tick :: u64
  ps_queued_inputs :: nat
  ps_subscriptions :: nat
  ps_ticks_run :: u64

definition entry_status :: "world_entry \<Rightarrow> partition_status" where
  "entry_status e =
     \<lparr>ps_id = pt_id (we_world e), ps_worker = we_worker e, ps_state = we_state e, ps_next_tick = pt_tick (we_world e),
      ps_queued_inputs = length (we_inputs e), ps_subscriptions = length (rg_subs (we_subscriptions e)),
      ps_ticks_run = we_ticks_run e\<rparr>"

section \<open>One tick of an entry\<close>

datatype tick_failure_policy = FailWorld | Continue

record tick_io =
  io_append :: io_fault
  io_snapshot :: snapshot_fault
  io_now :: u64

record world_outcome =
  wo_result :: "runtime_error + tick_result"
  wo_events :: "runtime_event list"
  wo_outbound :: "partition_message list"
  wo_ticks_succeeded :: u64
  wo_ticks_failed :: u64
  wo_changes_committed :: u64
  wo_wal_appends :: u64
  wo_wal_failures :: u64
  wo_partition_failures :: u64
  wo_snapshots :: u64
  wo_evaluations :: u64
  wo_deltas :: u64

text \<open>The frame of a tick: the first of the queue, or an empty one; the frames behind it that are for
  the same tick are merged into it.\<close>

fun merge_frames :: "u64 \<Rightarrow> input_frame \<Rightarrow> input_frame list \<Rightarrow> input_frame \<times> input_frame list" where
  "merge_frames tick frame [] = (frame, [])"
| "merge_frames tick frame (f # fs) =
     (if if_tick f \<noteq> tick then (frame, f # fs)
      else merge_frames tick (fold input_frame_push (if_commands f) frame) fs)"

definition take_frame :: "world_entry \<Rightarrow> input_frame \<times> input_frame list" where
  "take_frame e =
     (let tick = pt_tick (we_world e);
          (frame, rest) = (case we_inputs e of [] \<Rightarrow> (input_frame_new tick, []) | f # fs \<Rightarrow> (f, fs)) in
      if if_tick frame = tick then merge_frames tick frame rest else (frame, rest))"

definition periodic_snapshot :: "tick_io \<Rightarrow> u64 option \<Rightarrow> world_entry \<Rightarrow> (u64 \<times> world_entry) res" where
  "periodic_snapshot io interval e =
     (case interval of
        None \<Rightarrow> Ok (0, e)
      | Some n \<Rightarrow>
          let e = e\<lparr>we_since_snapshot := we_since_snapshot e + 1\<rparr> in
          if we_since_snapshot e < n then Ok (0, e)
          else
            (case we_snapshots e of
               None \<Rightarrow> Ok (0, e)
             | Some dir \<Rightarrow>
                 (case we_wal e of
                    None \<Rightarrow> Panic
                  | Some w \<Rightarrow>
                      (case snapshot_write (snapshot_capture (io_now io) (pt_store (we_world e)) (word_of_nat (w_next_lsn w)))
                              (io_snapshot io) dir of
                         (Ok _, dir) \<Rightarrow> Ok (1, e\<lparr>we_snapshots := Some dir, we_since_snapshot := 0\<rparr>)
                       | (_, dir) \<Rightarrow> Ok (0, e\<lparr>we_snapshots := Some dir\<rparr>)))))"

text \<open>The subscriptions hear of a tick only when it changed something.\<close>

definition observe_tick :: "change list \<Rightarrow> world_entry \<Rightarrow> (u64 \<times> u64 \<times> world_entry) res" where
  "observe_tick changes e =
     (if changes = [] then Ok (0, 0, e)
      else
        bind_res (apply_changes (pt_store (we_world e)) changes (we_subscriptions e)) (\<lambda>(report, rg).
          Ok (ar_evaluations report, ar_deltas report, e\<lparr>we_subscriptions := rg\<rparr>)))"

definition failed_tick ::
    "tick_failure_policy \<Rightarrow> u64 \<Rightarrow> u64 \<Rightarrow> error \<Rightarrow> reducer_call list \<Rightarrow> world_entry \<Rightarrow> world_outcome \<times> world_entry" where
  "failed_tick policy world tick err calls e =
     (let e = e\<lparr>we_calls := calls @ we_calls e\<rparr>; dead = (policy = FailWorld) in
      (\<lparr>wo_result = Inl (TickError world err),
        wo_events = EvTickFailed world tick err # (if dead then [EvPartitionFailed world err] else []),
        wo_outbound = [], wo_ticks_succeeded = 0, wo_ticks_failed = 1, wo_changes_committed = 0, wo_wal_appends = 0,
        wo_wal_failures = 0, wo_partition_failures = (if dead then 1 else 0), wo_snapshots = 0, wo_evaluations = 0,
        wo_deltas = 0\<rparr>,
       if dead then e\<lparr>we_state := PFailed\<rparr> else e))"

text \<open>Durability: \<^verbatim>\<open>None\<close> when nothing is persisted, otherwise the outcome of the append.\<close>

definition append_tick :: "tick_io \<Rightarrow> tick_result \<Rightarrow> world_entry \<Rightarrow> nat res option \<times> world_entry" where
  "append_tick io r e =
     (case we_wal e of
        None \<Rightarrow> (None, e)
      | Some w \<Rightarrow>
          (case wal_append (tr_tx_id r) (tr_changes r) (io_append io) w of (res, w) \<Rightarrow>
             (Some res, e\<lparr>we_wal := Some w\<rparr>)))"

definition finish_tick :: "tick_io \<Rightarrow> u64 option \<Rightarrow> u64 \<Rightarrow> tick_result \<Rightarrow> world_entry \<Rightarrow> world_outcome res \<times> world_entry" where
  "finish_tick io interval world r e =
     (let e = e\<lparr>we_ticks_run := we_ticks_run e + 1\<rparr>;
          out = \<lparr>wo_result = Inr r, wo_events = [EvTickCompleted world (tr_tick r)], wo_outbound = [],
                 wo_ticks_succeeded = 1, wo_ticks_failed = 0, wo_changes_committed = len_u64 (tr_changes r),
                 wo_wal_appends = 0, wo_wal_failures = 0, wo_partition_failures = 0, wo_snapshots = 0,
                 wo_evaluations = 0, wo_deltas = 0\<rparr> in
      case append_tick io r e of
        (Some (Err err), e) \<Rightarrow>
          (Ok (out\<lparr>wo_result := Inl (Persistence err),
                   wo_events := wo_events out @ [EvPersistenceFailure world (tr_tick r) err],
                   wo_wal_failures := 1, wo_partition_failures := 1\<rparr>), e\<lparr>we_state := PFailed\<rparr>)
      | (Some Panic, e) \<Rightarrow> (Panic, e)
      | (logged, e) \<Rightarrow>
          (case (if logged = None then Ok (0, e) else periodic_snapshot io interval e) of
             Ok (snapshots, e) \<Rightarrow>
               (case observe_tick (tr_changes r) e of
                  Ok (evaluations, deltas, e) \<Rightarrow>
                    (Ok (out\<lparr>wo_outbound := tr_outbound r, wo_wal_appends := (if logged = None then 0 else 1),
                             wo_snapshots := snapshots, wo_evaluations := evaluations, wo_deltas := deltas\<rparr>), e)
                | _ \<Rightarrow> (Panic, e))
           | _ \<Rightarrow> (Panic, e)))"

definition tick_entry_collected ::
    "tick_io \<Rightarrow> tick_failure_policy \<Rightarrow> u64 option \<Rightarrow> u64 \<Rightarrow> partition_message list \<Rightarrow> world_entry \<Rightarrow>
      world_outcome res \<times> world_entry" where
  "tick_entry_collected io policy interval world delivered e =
     (case take_frame e of (frame, rest) \<Rightarrow>
        let per_tick = pc_max_reducer_calls_per_tick (pt_config (we_world e));
            calls = take per_tick (we_calls e);
            e = e\<lparr>we_inputs := rest, we_calls := drop per_tick (we_calls e)\<rparr> in
        (case tick_with_calls frame delivered calls (we_world e) of
           (Ticked r, p) \<Rightarrow> finish_tick io interval world r (e\<lparr>we_world := p\<rparr>)
         | (Tick_Failed tick err, p) \<Rightarrow>
             (case failed_tick policy world tick err calls (e\<lparr>we_world := p\<rparr>) of (out, e) \<Rightarrow> (Ok out, e))
         | (Tick_Panicked, p) \<Rightarrow> (Panic, e\<lparr>we_world := p\<rparr>)))"

end
