(* ===== verification/Run_Exact.thy ===== *)
theory Run_Exact
  imports Run_World Exec_Exact Sub_Observe
begin

text \<open>
  The life of one world of the runtime: ticks make the partition, its log, its snapshots and its subscriptions move
  together. Whatever happens, the log and the snapshot directory are those of a run from which recovery
  is exact, and the subscriptions are those of a run in which clients hold the answers of their queries.
\<close>

section \<open>What a tick commits\<close>

lemma tick_commits:
  assumes plain: "store_plain (pt_store p)" and fresh: "next_transaction_id (pt_store p) \<noteq> - 1" and total: "wasm_total (pt_wasm p)"
    and room: "has_room (pt_store p) (length (ws_entries (tx_writes (ts_tx (snd (tick_run p inputs delivered calls))))))"
    and tick: "tick_with_calls inputs delivered calls p = (Ticked r, p')"
  shows "\<exists>tx tx'. tx_reach tx \<and> tx_id tx = tr_tx_id r \<and> tx_id tx < next_transaction_id (snd (tx_begin (pt_store p))) \<and>
    has_room (snd (tx_begin (pt_store p))) (length (ws_entries (tx_writes tx))) \<and>
    tx_commit tx (snd (tx_begin (pt_store p))) = (Ok (tr_changes r), tx', pt_store p')"
proof -
  let ?st = "snd (tx_begin (pt_store p))"
  obtain res ts where run: "tick_run p inputs delivered calls = (res, ts)" by fastforce
  have g: "tx_grows (fst (tx_begin (pt_store p))) (ts_tx ts)"
    using tick_run_grows [OF total, of inputs delivered calls] plain by (simp add: run store_plain_def)
  have "\<exists>tx'. tx_commit (ts_tx ts) ?st = (Ok (tr_changes r), tx', pt_store p') \<and> tx_id tx' = tr_tx_id r"
    using tick run by (auto simp: tick_with_calls_def Let_def split: res.splits prod.splits)
  then obtain tx' where c: "tx_commit (ts_tx ts) ?st = (Ok (tr_changes r), tx', pt_store p')" "tx_id tx' = tr_tx_id r" by blast
  have "tx_id tx' = tx_id (ts_tx ts)" using c(1) by (auto simp: tx_commit_def split: res.splits prod.splits)
  with c tx_begin_grown [OF g fresh] room run show ?thesis
    by (intro exI [of _ "ts_tx ts"] exI [of _ tx']) (simp add: has_room_begin)
qed

section \<open>The life of a world\<close>

text \<open>\<open>tick_fits\<close>: the counters, the records of the log and, if the world takes snapshots, the snapshot of this tick have room.\<close>

definition tick_fits :: "tick_io \<Rightarrow> u64 option \<Rightarrow> partition_message list \<Rightarrow> world_entry \<Rightarrow> bool" where
  "tick_fits io interval delivered e \<longleftrightarrow>
     (let p = we_world e; frame = fst (take_frame e);
          calls = take (pc_max_reducer_calls_per_tick (pt_config p)) (we_calls e) in
      next_transaction_id (pt_store p) \<noteq> - 1 \<and> wasm_total (pt_wasm p) \<and>
      has_room (pt_store p) (length (ws_entries (tx_writes (ts_tx (snd (tick_run p frame delivered calls)))))) \<and>
      (\<forall>r p' w. tick_with_calls frame delivered calls p = (Ticked r, p') \<longrightarrow> we_wal e = Some w \<longrightarrow>
         tx_loggable (tr_tx_id r, tr_changes r) \<and>
         (let w' = snd (wal_append (tr_tx_id r) (tr_changes r) IoOk w) in
          interval \<noteq> None \<longrightarrow> w_next_lsn w' < 2 ^ 64 \<and> snapshot_ok (snapshot_capture (io_now io) (pt_store p') (word_of_nat (w_next_lsn w'))))))"

text \<open>\<open>serving\<close>: the life of a world that was created with a fresh log, its committed transactions and what its clients
  hold. Every append to the log succeeds (a failed one ends the agreement of store and log, and the world is failed),
  every tick fits, and subscriptions have windows of at least two rows and ids left. Queueing, starting, stopping and
  moving the world may happen at any time: the relation does not look at the state of the world.\<close>

inductive serving ::
    "table_store \<Rightarrow> u64 \<Rightarrow> (transaction_id \<times> change list) list \<Rightarrow> world_entry \<Rightarrow> clients \<Rightarrow> bool"
  for st0 now where
  boot: "serving st0 now [] (world_entry_new p worker (Some (wal_create now policy)) (Some [])) (\<lambda>_. Map.empty)"
    if "pt_store p = st0" "store_plain st0"
| tick: "serving st0 now (case wo_result out of Inr r \<Rightarrow> txs @ [(tr_tx_id r, tr_changes r)] | Inl _ \<Rightarrow> txs) e' cl"
    if "serving st0 now txs e cl" "tick_fits io interval delivered e" "io_append io = IoOk"
      "tick_entry_collected io policy interval world delivered e = (Ok out, e')"
| queue: "serving st0 now txs (e\<lparr>we_inputs := fs, we_calls := calls, we_state := state, we_worker := worker\<rparr>) cl"
    if "serving st0 now txs e cl"
| route: "serving st0 now txs (e\<lparr>we_world := set_known_partitions known (set_partition part (we_world e))\<rparr>) cl"
    if "serving st0 now txs e cl"
| snap: "serving st0 now txs (e\<lparr>we_snapshots := Some (snd (snapshot_write s fault dir))\<rparr>) cl"
    if "serving st0 now txs e cl" "we_snapshots e = Some dir" "we_wal e = Some w" "w_next_lsn w < 2 ^ 64"
      "s = snapshot_capture when (pt_store (we_world e)) (word_of_nat (w_next_lsn w))" "snapshot_ok s"
| subscribe: "serving st0 now txs (e\<lparr>we_subscriptions := rg'\<rparr>) cl"
    if "serving st0 now txs e cl" "subscribe (pt_store (we_world e)) q (we_subscriptions e) = (res, rg')"
      "2 \<le> query_cap default_config q" "rg_next_id (we_subscriptions e) \<noteq> - 1"
| drain: "serving st0 now txs (e\<lparr>we_subscriptions := rg'\<rparr>) (receive sid us cl)"
    if "serving st0 now txs e cl" "drain sid (we_subscriptions e) = (Ok us, rg')"
| drain_all: "serving st0 now txs (e\<lparr>we_subscriptions := rg'\<rparr>) (fold (\<lambda>(sid, us). receive sid us) out cl)"
    if "serving st0 now txs e cl" "drain_all_pending (we_subscriptions e) = (out, rg')"
| resync: "serving st0 now txs (e\<lparr>we_subscriptions := rg'\<rparr>) cl"
    if "serving st0 now txs e cl" "resync (pt_store (we_world e)) sid (we_subscriptions e) = (res, rg')"
| unsubscribe: "serving st0 now txs (e\<lparr>we_subscriptions := rg'\<rparr>) cl"
    if "serving st0 now txs e cl" "unsubscribe sid (we_subscriptions e) = (res, rg')"

text \<open>What holds of an entry in service.\<close>

definition entry_durable :: "table_store \<Rightarrow> u64 \<Rightarrow> (transaction_id \<times> change list) list \<Rightarrow> world_entry \<Rightarrow> bool" where
  "entry_durable st0 now txs e \<longleftrightarrow>
     (\<exists>w dir. we_wal e = Some w \<and> we_snapshots e = Some dir \<and> running st0 now txs (pt_store (we_world e)) w dir)"

definition entry_sound ::
    "table_store \<Rightarrow> u64 \<Rightarrow> (transaction_id \<times> change list) list \<Rightarrow> world_entry \<Rightarrow> clients \<Rightarrow> bool" where
  "entry_sound st0 now txs e cl \<longleftrightarrow>
     entry_durable st0 now txs e \<and> observing default_config (pt_store (we_world e)) (we_subscriptions e) cl"

lemma registry_new_valid: "with_config default_config = Ok registry_new" "max_buffered default_config < usize_max"
  by (simp_all add: with_config_def registry_new_def config_validate_def default_config_def usize_max_def)

lemma observing_plain: "observing config st rg cl \<Longrightarrow> store_plain st"
  using observing_observed by (auto simp: observed_def)

lemma begin_alloc: "snd (tx_begin st) = snd (alloc_transaction_id st)"
  by (simp add: tx_begin_def split_def)

text \<open>The periodic snapshot is a snapshot of the run, or nothing.\<close>

lemma periodic_snapshot_durable:
  assumes sound: "entry_durable st0 now txs e"
    and fits: "\<And>w. interval \<noteq> None \<Longrightarrow> we_wal e = Some w \<Longrightarrow> w_next_lsn w < 2 ^ 64 \<and>
      snapshot_ok (snapshot_capture (io_now io) (pt_store (we_world e)) (word_of_nat (w_next_lsn w)))"
  shows "\<exists>n e'. periodic_snapshot io interval e = Ok (n, e') \<and> entry_durable st0 now txs e' \<and>
    we_world e' = we_world e \<and> we_subscriptions e' = we_subscriptions e"
proof -
  obtain w dir where e: "we_wal e = Some w" "we_snapshots e = Some dir" and
    run: "running st0 now txs (pt_store (we_world e)) w dir"
    using sound by (auto simp: entry_durable_def)
  let ?s = "snapshot_capture (io_now io) (pt_store (we_world e)) (word_of_nat (w_next_lsn w))"
  have snap: "running st0 now txs (pt_store (we_world e)) w (snd (snapshot_write ?s (io_snapshot io) dir))" if "interval \<noteq> None"
    using running.snap [OF run refl] fits [OF that e(1)] by blast
  obtain res dir' where d: "snapshot_write ?s (io_snapshot io) dir = (res, dir')" by fastforce
  show ?thesis
    using snap run by (cases interval; cases res) (auto simp: periodic_snapshot_def Let_def e d entry_durable_def)
qed

lemma observe_tick_sound:
  assumes dur: "entry_durable st0 now txs e" and obs: "observing default_config st (we_subscriptions e) cl"
    and h: "history st [(tid, cs)] (pt_store (we_world e))"
  shows "\<exists>n m e'. observe_tick cs e = Ok (n, m, e') \<and> entry_sound st0 now txs e' cl"
proof (cases "cs = []")
  case True
  then show ?thesis using dur observing.idle [OF obs h] by (simp add: observe_tick_def entry_sound_def)
next
  case False
  obtain report rg where rg: "apply_changes (pt_store (we_world e)) cs (we_subscriptions e) = Ok (report, rg)"
    using apply_changes_exact [OF observing_observed [OF obs] h] by auto
  from observing.commit [OF obs h this] show ?thesis
    using False rg dur by (simp add: observe_tick_def entry_sound_def entry_durable_def)
qed

lemma finish_tick_sound:
  assumes run: "running st0 now txs (pt_store (we_world e)) w' dir"
    and e: "we_wal e = Some w" "we_snapshots e = Some dir"
    and app: "wal_append (tr_tx_id r) (tr_changes r) IoOk w = (Ok lsn, w')" and io: "io_append io = IoOk"
    and fits: "interval \<noteq> None \<longrightarrow> w_next_lsn w' < 2 ^ 64 \<and>
      snapshot_ok (snapshot_capture (io_now io) (pt_store (we_world e)) (word_of_nat (w_next_lsn w')))"
    and obs: "observing default_config st (we_subscriptions e) cl"
    and h: "history st [(tr_tx_id r, tr_changes r)] (pt_store (we_world e))"
  shows "\<exists>out e'. finish_tick io interval world r e = (Ok out, e') \<and> wo_result out = Inr r \<and> entry_sound st0 now txs e' cl"
proof -
  define e1 where "e1 = e\<lparr>we_ticks_run := we_ticks_run e + 1, we_wal := Some w'\<rparr>"
  have append: "append_tick io r (e\<lparr>we_ticks_run := we_ticks_run e + 1\<rparr>) = (Some (Ok lsn), e1)"
    by (simp add: append_tick_def e io app e1_def)
  have "entry_durable st0 now txs e1" using run e by (simp add: entry_durable_def e1_def)
  then obtain n e2 where e2: "periodic_snapshot io interval e1 = Ok (n, e2)" "entry_durable st0 now txs e2"
    "we_world e2 = we_world e" "we_subscriptions e2 = we_subscriptions e"
    using periodic_snapshot_durable [of st0 now txs e1 interval io] fits by (auto simp: e1_def)
  obtain n' m' e3 where "observe_tick (tr_changes r) e2 = Ok (n', m', e3)" "entry_sound st0 now txs e3 cl"
    using observe_tick_sound [OF e2(2), of st cl "tr_tx_id r" "tr_changes r"] obs h e2(3,4) by auto
  then show ?thesis by (simp add: finish_tick_def Let_def append e2(1))
qed

lemma failed_tick_sound:
  assumes "entry_sound st0 now txs e cl"
  shows "\<exists>out e'. failed_tick policy world tick err calls e = (out, e') \<and> isl (wo_result out) \<and> entry_sound st0 now txs e' cl"
  using assms by (simp add: failed_tick_def Let_def entry_sound_def entry_durable_def)

text \<open>A tick of a sound entry always returns, and leaves a sound entry with at most one more transaction.\<close>

lemma tick_entry_sound:
  assumes sound: "entry_sound st0 now txs e cl" and fits: "tick_fits io interval delivered e" and io: "io_append io = IoOk"
  shows "\<exists>out e'. tick_entry_collected io policy interval world delivered e = (Ok out, e') \<and>
    entry_sound st0 now (case wo_result out of Inr r \<Rightarrow> txs @ [(tr_tx_id r, tr_changes r)] | Inl _ \<Rightarrow> txs) e' cl"
proof -
  define p where "p = we_world e"
  obtain frame rest where fr: "take_frame e = (frame, rest)" by fastforce
  define calls where "calls = take (pc_max_reducer_calls_per_tick (pt_config p)) (we_calls e)"
  define e1 where "e1 = e\<lparr>we_inputs := rest, we_calls := drop (pc_max_reducer_calls_per_tick (pt_config p)) (we_calls e)\<rparr>"
  obtain w dir where e: "we_wal e = Some w" "we_snapshots e = Some dir" and run: "running st0 now txs (pt_store p) w dir"
    and obs: "observing default_config (pt_store p) (we_subscriptions e) cl"
    using sound by (auto simp: entry_sound_def entry_durable_def p_def)
  have f: "next_transaction_id (pt_store p) \<noteq> - 1" "wasm_total (pt_wasm p)"
    "has_room (pt_store p) (length (ws_entries (tx_writes (ts_tx (snd (tick_run p frame delivered calls))))))"
    "\<And>r p'. tick_with_calls frame delivered calls p = (Ticked r, p') \<Longrightarrow> tx_loggable (tr_tx_id r, tr_changes r) \<and>
       (interval \<noteq> None \<longrightarrow> w_next_lsn (snd (wal_append (tr_tx_id r) (tr_changes r) IoOk w)) < 2 ^ 64 \<and>
       snapshot_ok (snapshot_capture (io_now io) (pt_store p')
         (word_of_nat (w_next_lsn (snd (wal_append (tr_tx_id r) (tr_changes r) IoOk w))))))"
    using fits e(1) by (auto simp: tick_fits_def Let_def fr p_def calls_def)
  have unfold: "tick_entry_collected io policy interval world delivered e =
      (case tick_with_calls frame delivered calls p of
           (Ticked r, p) \<Rightarrow> finish_tick io interval world r (e1\<lparr>we_world := p\<rparr>)
         | (Tick_Failed tick err, p) \<Rightarrow>
             (case failed_tick policy world tick err calls (e1\<lparr>we_world := p\<rparr>) of (out, e) \<Rightarrow> (Ok out, e))
         | (Tick_Panicked, p) \<Rightarrow> (Panic, e1\<lparr>we_world := p\<rparr>))"
    by (simp add: tick_entry_collected_def fr Let_def p_def calls_def e1_def split: prod.split tick_outcome.split)
  obtain out p' where t: "tick_with_calls frame delivered calls p = (out, p')" by fastforce
  have begun: "running st0 now txs (snd (tx_begin (pt_store p))) w dir"
    "observing default_config (snd (tx_begin (pt_store p))) (we_subscriptions e) cl"
    using running.begin_tx [OF run f(1)] observing.idle [OF obs history_plain_begin [OF f(1)]] by (simp_all add: begin_alloc)
  show ?thesis
  proof (cases "tick_gate p frame delivered calls")
    case (Ok u)
    have step: "tick_step p out p'"
      using tick_with_calls_step [OF observing_plain [OF obs] f(1,2) _ f(3) t] Ok by simp
    show ?thesis
    proof (cases out)
      case (Ticked r)
      obtain tx tx' where tx: "tx_reach tx" "tx_id tx = tr_tx_id r" "tx_id tx < next_transaction_id (snd (tx_begin (pt_store p)))"
        "has_room (snd (tx_begin (pt_store p))) (length (ws_entries (tx_writes tx)))"
        "tx_commit tx (snd (tx_begin (pt_store p))) = (Ok (tr_changes r), tx', pt_store p')"
        using tick_commits [OF observing_plain [OF obs] f(1-3)] t Ticked by blast
      obtain lsn w' where app: "wal_append (tr_tx_id r) (tr_changes r) IoOk w = (Ok lsn, w')"
        by (simp add: wal_append_eq)
      have fit: "tx_loggable (tr_tx_id r, tr_changes r)" "interval \<noteq> None \<longrightarrow> w_next_lsn w' < 2 ^ 64 \<and>
        snapshot_ok (snapshot_capture (io_now io) (pt_store p') (word_of_nat (w_next_lsn w')))"
        using f(4) [of r p'] t Ticked app by simp_all
      have run': "running st0 now (txs @ [(tr_tx_id r, tr_changes r)]) (pt_store p') w' dir"
        using running.commit [OF begun(1) tx(1,3,4,5)] fit(1) app tx(2) by simp
      have h: "history (pt_store p) [(tr_tx_id r, tr_changes r)] (pt_store p')"
        using step unfolding Ticked tick_step_def tick_outcome.case by blast
      define e2 where "e2 = e1\<lparr>we_world := p'\<rparr>"
      have e2: "we_wal e2 = Some w" "we_snapshots e2 = Some dir" "pt_store (we_world e2) = pt_store p'"
        "we_subscriptions e2 = we_subscriptions e" using e by (simp_all add: e2_def e1_def)
      obtain o' e' where "finish_tick io interval world r e2 = (Ok o', e')" "wo_result o' = Inr r"
        "entry_sound st0 now (txs @ [(tr_tx_id r, tr_changes r)]) e' cl"
        using finish_tick_sound [of st0 now "txs @ [(tr_tx_id r, tr_changes r)]" e2 w' dir w r lsn io interval "pt_store p" cl world,
          unfolded e2(3,4), OF run' e2(1,2) app io fit(2) obs h] by blast
      then show ?thesis by (simp add: unfold t Ticked e2_def)
    next
      case (Tick_Failed n err)
      then have "pt_store p' = snd (tx_begin (pt_store p))" using step by (simp add: tick_step_def)
      with begun e have "entry_sound st0 now txs (e1\<lparr>we_world := p'\<rparr>) cl"
        by (simp add: entry_sound_def entry_durable_def e1_def)
      from failed_tick_sound [OF this, of policy world n err calls] show ?thesis
        by (auto simp: unfold t Tick_Failed split: sum.splits)
    next
      case Tick_Panicked
      then show ?thesis using step by (simp add: tick_step_def)
    qed
  next
    case (Err err)
    then have t': "tick_with_calls frame delivered calls p = (Tick_Failed (pt_tick p) err, p)"
      by (simp add: tick_with_calls_def)
    have "entry_sound st0 now txs (e1\<lparr>we_world := p\<rparr>) cl"
      using run obs e by (simp add: entry_sound_def entry_durable_def e1_def)
    from failed_tick_sound [OF this, of policy world "pt_tick p" err calls] show ?thesis
      by (auto simp: unfold t' split: sum.splits)
  next
    case Panic
    then show ?thesis by (simp add: tick_gate_def Let_def split: if_splits)
  qed
qed

lemma serving_sound: "serving st0 now txs e cl \<Longrightarrow> entry_sound st0 now txs e cl"
proof (induction rule: serving.induct)
  case (boot p worker policy)
  then show ?case
    using running.boot [of st0 now policy] observing.start [OF _ registry_new_valid, of st0]
    by (simp add: entry_sound_def entry_durable_def world_entry_new_def)
next
  case (tick txs e cl io interval delivered policy world out e')
  then show ?case using tick_entry_sound [OF tick.IH, of io interval delivered policy world] tick.hyps by auto
next
  case (snap txs e cl dir w s t fault)
  then have "running st0 now txs (pt_store (we_world e)) w (snd (snapshot_write s fault dir))"
    by (auto simp: entry_sound_def entry_durable_def intro: running.snap)
  with snap show ?case by (auto simp: entry_sound_def entry_durable_def)
qed (auto simp: entry_sound_def entry_durable_def set_known_partitions_def set_partition_def
    intro: observing.subscribe observing.drain observing.drain_all observing.resync observing.unsubscribe)

end
