(* ===== verification/Run_Runtime.thy ===== *)
theory Run_Runtime
  imports Run_World
begin

text \<open>
  \<^verbatim>\<open>nexum-runtime\<close>: configuration (\<^verbatim>\<open>config.rs\<close>), workers (\<^verbatim>\<open>worker.rs\<close>), routing (\<^verbatim>\<open>partition.rs\<close>), metrics
  and the runtime itself (\<^verbatim>\<open>runtime.rs\<close>). The vector of worlds is indexed by the id of a world. The
  files of worlds that are not open are part of the state (\<open>rt_disk\<close>); those of an open world are in its
  entry. \<^verbatim>\<open>BTreeSet\<close>s are sorted lists without duplicates. The threads on which independent worlds tick
  touch disjoint entries and their outcomes are applied in order, so worlds tick one after the other here.
\<close>

section \<open>Configuration\<close>

datatype persistence_policy = PersistNone | PersistFlush | PersistSync

definition persist_durability :: "persistence_policy \<Rightarrow> durability_policy option" where
  "persist_durability p = (case p of PersistNone \<Rightarrow> None | PersistFlush \<Rightarrow> Some Flush | PersistSync \<Rightarrow> Some Sync)"

record runtime_config =
  rcf_worker_count :: nat
  rcf_factory :: "u64 \<Rightarrow> table_store \<Rightarrow> partition_config \<Rightarrow> partition res"
  rcf_persistence :: persistence_policy
  rcf_dir :: bool
  rcf_max_inputs :: nat
  rcf_max_messages :: nat
  rcf_max_calls :: nat
  rcf_policy :: tick_failure_policy
  rcf_interval :: "u64 option"
  rcf_event_limit :: nat

definition runtime_config_new :: "(u64 \<Rightarrow> table_store \<Rightarrow> partition_config \<Rightarrow> partition res) \<Rightarrow> runtime_config" where
  "runtime_config_new factory =
     \<lparr>rcf_worker_count = 1, rcf_factory = factory, rcf_persistence = PersistNone, rcf_dir = False, rcf_max_inputs = 1024,
      rcf_max_messages = 10000, rcf_max_calls = 1024, rcf_policy = FailWorld, rcf_interval = None, rcf_event_limit = 1024\<rparr>"

definition runtime_config_validate :: "runtime_config \<Rightarrow> unit res" where
  "runtime_config_validate c =
     (if rcf_worker_count c = 0 then Err InvalidArgument
      else if rcf_max_inputs c = 0 then Err InvalidArgument
      else if rcf_max_messages c = 0 then Err InvalidArgument
      else if rcf_max_calls c = 0 then Err InvalidArgument
      else if rcf_event_limit c = 0 then Err InvalidArgument
      else if rcf_interval c = Some 0 then Err InvalidArgument
      else if rcf_persistence c \<noteq> PersistNone \<and> \<not> rcf_dir c then Err InvalidArgument
      else Ok ())"

section \<open>State\<close>

record worker =
  wk_id :: u64
  wk_state :: worker_state
  wk_worlds :: "u64 list"

definition worker_new :: "u64 \<Rightarrow> worker" where
  "worker_new i = \<lparr>wk_id = i, wk_state = WRunning, wk_worlds = []\<rparr>"

definition add_world :: "u64 \<Rightarrow> worker \<Rightarrow> worker" where
  "add_world i w = w\<lparr>wk_worlds := insort_insert i (wk_worlds w)\<rparr>"

definition remove_world :: "u64 \<Rightarrow> worker \<Rightarrow> worker" where
  "remove_world i w = w\<lparr>wk_worlds := filter (\<lambda>x. x \<noteq> i) (wk_worlds w)\<rparr>"

record routing =
  ro_world :: u64
  ro_worker :: u64
  ro_inbound :: "partition_message list"

definition routing_new :: "u64 \<Rightarrow> u64 \<Rightarrow> routing" where
  "routing_new world worker = \<lparr>ro_world = world, ro_worker = worker, ro_inbound = []\<rparr>"

record metrics =
  mt_partitions :: nat
  mt_ticks_total :: u64
  mt_ticks_succeeded :: u64
  mt_ticks_failed :: u64
  mt_inputs_accepted :: u64
  mt_inputs_rejected :: u64
  mt_calls_accepted :: u64
  mt_calls_rejected :: u64
  mt_messages_sent :: u64
  mt_messages_delivered :: u64
  mt_messages_dropped :: u64
  mt_wal_appends :: u64
  mt_wal_failures :: u64
  mt_snapshots :: u64
  mt_evaluations :: u64
  mt_deltas :: u64
  mt_changes_committed :: u64
  mt_creations :: u64
  mt_recoveries :: u64
  mt_failures :: u64

definition metrics_empty :: metrics where
  "metrics_empty =
     \<lparr>mt_partitions = 0, mt_ticks_total = 0, mt_ticks_succeeded = 0, mt_ticks_failed = 0, mt_inputs_accepted = 0,
      mt_inputs_rejected = 0, mt_calls_accepted = 0, mt_calls_rejected = 0, mt_messages_sent = 0,
      mt_messages_delivered = 0, mt_messages_dropped = 0, mt_wal_appends = 0, mt_wal_failures = 0, mt_snapshots = 0,
      mt_evaluations = 0, mt_deltas = 0, mt_changes_committed = 0, mt_creations = 0, mt_recoveries = 0, mt_failures = 0\<rparr>"

datatype runtime_state = RtRunning | RtStopping | RtStopped

record runtime =
  rt_config :: runtime_config
  rt_state :: runtime_state
  rt_workers :: "(u64, worker) omap"
  rt_worlds :: "world_entry option list"
  rt_partitions :: "(u64, routing) omap"
  rt_topology :: "u64 list"
  rt_sent_seq :: "(u64, u64) omap"
  rt_assign :: u64
  rt_events :: "runtime_event list"
  rt_metrics :: metrics
  rt_disk :: "(u64, u8 list \<times> directory) omap"

text \<open>\<open>dir_ok\<close>: the persistence directory can be created.\<close>

definition runtime_new :: "(u64, u8 list \<times> directory) omap \<Rightarrow> bool \<Rightarrow> runtime_config \<Rightarrow> runtime run_res" where
  "runtime_new disk dir_ok config =
     (case runtime_config_validate config of
        Ok _ \<Rightarrow>
          if rcf_dir config \<and> \<not> dir_ok then RErr (Persistence Internal)
          else
            ROk \<lparr>rt_config = config, rt_state = RtRunning,
                 rt_workers = map (\<lambda>i. (word_of_nat i, worker_new (word_of_nat i))) [0..<rcf_worker_count config],
                 rt_worlds = [], rt_partitions = [], rt_topology = [], rt_sent_seq = [], rt_assign = 0, rt_events = [],
                 rt_metrics = metrics_empty, rt_disk = disk\<rparr>
      | Err _ \<Rightarrow> RErr InvalidConfig
      | Panic \<Rightarrow> RPanic)"

definition ensure_running :: "runtime \<Rightarrow> unit run_res" where
  "ensure_running rt = (if rt_state rt = RtRunning then ROk () else RErr ShutdownError)"

definition push_event :: "runtime_event \<Rightarrow> runtime \<Rightarrow> runtime" where
  "push_event ev rt =
     rt\<lparr>rt_events := (if rcf_event_limit (rt_config rt) \<le> length (rt_events rt) then tl (rt_events rt) else rt_events rt) @ [ev]\<rparr>"

definition tally :: "(metrics \<Rightarrow> metrics) \<Rightarrow> runtime \<Rightarrow> runtime" where
  "tally f rt = rt\<lparr>rt_metrics := f (rt_metrics rt)\<rparr>"

section \<open>Slots\<close>

definition world_get :: "runtime \<Rightarrow> u64 \<Rightarrow> world_entry option" where
  "world_get rt i = (if unat i < length (rt_worlds rt) then rt_worlds rt ! unat i else None)"

definition world_contains :: "runtime \<Rightarrow> u64 \<Rightarrow> bool" where
  "world_contains rt i \<longleftrightarrow> world_get rt i \<noteq> None"

text \<open>Writing through the reference to an entry that is present.\<close>

definition world_set :: "u64 \<Rightarrow> world_entry \<Rightarrow> runtime \<Rightarrow> runtime" where
  "world_set i e rt = rt\<lparr>rt_worlds := (rt_worlds rt)[unat i := Some e]\<rparr>"

definition world_remove :: "u64 \<Rightarrow> runtime \<Rightarrow> world_entry option \<times> runtime" where
  "world_remove i rt = (world_get rt i, rt\<lparr>rt_worlds := (rt_worlds rt)[unat i := None]\<rparr>)"

text \<open>\<^verbatim>\<open>resize_with(idx + 1)\<close>: the addition wraps. Asking for more slots than any allocation can have panics.\<close>

definition ensure_world_slot :: "u64 \<Rightarrow> runtime \<Rightarrow> unit run_res \<times> runtime" where
  "ensure_world_slot i rt =
     (let ws = rt_worlds rt; n = unat (i + 1) in
      if unat i < length ws then (ROk (), rt)
      else if isize_max < n then (RPanic, rt)
      else (ROk (), rt\<lparr>rt_worlds := take n ws @ replicate (n - length ws) None\<rparr>))"

definition world_insert :: "u64 \<Rightarrow> world_entry \<Rightarrow> runtime \<Rightarrow> unit run_res \<times> runtime" where
  "world_insert i e rt =
     (case ensure_world_slot i rt of (res, rt) \<Rightarrow>
        run_bind res rt (\<lambda>_.
          if unat i < length (rt_worlds rt) then (ROk (), world_set i e rt) else (RPanic, rt)))"

definition with_worker :: "u64 \<Rightarrow> (worker \<Rightarrow> worker) \<Rightarrow> runtime \<Rightarrow> unit run_res \<times> runtime" where
  "with_worker i f rt =
     (case om_get (rt_workers rt) i of
        None \<Rightarrow> (RPanic, rt)
      | Some w \<Rightarrow> (ROk (), rt\<lparr>rt_workers := om_put i (f w) (rt_workers rt)\<rparr>))"

section \<open>Workers\<close>

fun assign_loop :: "(u64, worker) omap \<Rightarrow> u64 \<Rightarrow> u64 \<Rightarrow> nat list \<Rightarrow> u64 option" where
  "assign_loop ws start n [] = None"
| "assign_loop ws start n (k # ks) =
     (let i = (start + word_of_nat k) mod n in
      case om_get ws i of
        Some w \<Rightarrow> if wk_state w = WRunning then Some i else assign_loop ws start n ks
      | None \<Rightarrow> assign_loop ws start n ks)"

definition assign_worker :: "runtime \<Rightarrow> u64 run_res \<times> runtime" where
  "assign_worker rt =
     (let n = word_of_nat (rcf_worker_count (rt_config rt)) in
      case assign_loop (rt_workers rt) (rt_assign rt mod n) n [0..<rcf_worker_count (rt_config rt)] of
        Some i \<Rightarrow> (ROk i, rt\<lparr>rt_assign := rt_assign rt + 1\<rparr>)
      | None \<Rightarrow> (RErr InternalError, rt))"

fun fail_worlds :: "u64 list \<Rightarrow> runtime \<Rightarrow> unit run_res \<times> runtime" where
  "fail_worlds [] rt = (ROk (), rt)"
| "fail_worlds (i # is) rt =
     (case world_get rt i of
        None \<Rightarrow> (RPanic, rt)
      | Some e \<Rightarrow>
          fail_worlds is
            (if we_state e = PFailed then rt
             else push_event (EvPartitionFailed i Internal)
                    (tally (\<lambda>m. m\<lparr>mt_failures := mt_failures m + 1\<rparr>) (world_set i (e\<lparr>we_state := PFailed\<rparr>) rt))))"

definition fail_worker :: "u64 \<Rightarrow> runtime \<Rightarrow> unit run_res \<times> runtime" where
  "fail_worker i rt =
     run_bind (ensure_running rt) rt (\<lambda>_.
     run_bind (run_or (UnknownWorker i) (om_get (rt_workers rt) i)) rt (\<lambda>w.
       if wk_state w = WFailed then (ROk (), rt)
       else
         fail_worlds (wk_worlds w)
           (push_event (EvWorkerFailed i) (rt\<lparr>rt_workers := om_put i (w\<lparr>wk_state := WFailed\<rparr>) (rt_workers rt)\<rparr>))))"

definition partition_for_world :: "runtime \<Rightarrow> u64 \<Rightarrow> u64 option" where
  "partition_for_world rt world = map_option fst (find (\<lambda>(_, r). ro_world r = world) (rt_partitions rt))"

definition reassign_partition :: "u64 \<Rightarrow> u64 \<Rightarrow> runtime \<Rightarrow> unit run_res \<times> runtime" where
  "reassign_partition world to rt =
     run_bind (ensure_running rt) rt (\<lambda>_.
     run_bind (run_or (UnknownWorker to) (om_get (rt_workers rt) to)) rt (\<lambda>target.
       if wk_state target \<noteq> WRunning then (RErr (InvalidWorkerState to (wk_state target)), rt)
       else
         run_bind (run_or (UnknownPartition world) (world_get rt world)) rt (\<lambda>e.
           let from = we_worker e in
           if from = to then (ROk (), rt)
           else
             (case with_worker from (remove_world world) rt of (res, rt) \<Rightarrow>
              run_bind res rt (\<lambda>_.
             (case with_worker to (add_world world) rt of (res, rt) \<Rightarrow>
              run_bind res rt (\<lambda>_.
                let rt = world_set world (e\<lparr>we_worker := to\<rparr>) rt in
                (case partition_for_world rt world of
                   None \<Rightarrow> (ROk (), rt)
                 | Some p \<Rightarrow>
                     (case om_get (rt_partitions rt) p of
                        None \<Rightarrow> (ROk (), rt)
                      | Some r \<Rightarrow>
                          (ROk (), rt\<lparr>rt_partitions := om_put p (r\<lparr>ro_worker := to\<rparr>) (rt_partitions rt)\<rparr>))))))))))"

definition assigned_worker :: "runtime \<Rightarrow> u64 \<Rightarrow> u64 run_res" where
  "assigned_worker rt world = run_or (UnknownPartition world) (map_option we_worker (world_get rt world))"

definition worker_status :: "runtime \<Rightarrow> u64 \<Rightarrow> (u64 \<times> worker_state \<times> u64 list) run_res" where
  "worker_status rt i =
     run_or (UnknownWorker i) (map_option (\<lambda>w. (wk_id w, wk_state w, wk_worlds w)) (om_get (rt_workers rt) i))"

section \<open>Worlds\<close>

text \<open>What the file system does when a world is opened: whether the directory and the log can be created, and
  the time.\<close>

record open_io =
  oi_dir :: bool
  oi_log :: bool
  oi_now :: u64

definition open_persistence :: "open_io \<Rightarrow> u64 \<Rightarrow> runtime \<Rightarrow> (wal option \<times> directory option) run_res" where
  "open_persistence io world rt =
     (if \<not> rcf_dir (rt_config rt) then ROk (None, None)
      else
        (case persist_durability (rcf_persistence (rt_config rt)) of
           None \<Rightarrow> ROk (None, None)
         | Some durability \<Rightarrow>
             if \<not> oi_dir io then RErr (Persistence Internal)
             else if om_get (rt_disk rt) world \<noteq> None then RErr (Persistence AlreadyExists)
             else if \<not> oi_log io then RErr (Persistence Internal)
             else ROk (Some (wal_create (oi_now io) durability), Some [])))"

text \<open>The files of a world that is not in memory.\<close>

definition keep_files :: "u64 \<Rightarrow> wal option \<Rightarrow> directory option \<Rightarrow> runtime \<Rightarrow> runtime" where
  "keep_files world w dir rt =
     (case (w, dir) of
        (Some w, Some d) \<Rightarrow> rt\<lparr>rt_disk := om_put world (f_bytes (w_file w), d) (rt_disk rt)\<rparr>
      | _ \<Rightarrow> rt)"

text \<open>While a world is open its files are in its entry.\<close>

definition open_files :: "u64 \<Rightarrow> wal option \<Rightarrow> runtime \<Rightarrow> runtime" where
  "open_files world w rt = (if w = None then rt else rt\<lparr>rt_disk := om_del world (rt_disk rt)\<rparr>)"

definition create_partition :: "open_io \<Rightarrow> u64 \<Rightarrow> partition_config \<Rightarrow> runtime \<Rightarrow> unit run_res \<times> runtime" where
  "create_partition io world sim rt =
     run_bind (ensure_running rt) rt (\<lambda>_.
       if world_contains rt world then (RErr (DuplicatePartition world), rt)
       else
         run_bind (run_of (\<lambda>_. InternalError) (rcf_factory (rt_config rt) world store_new sim)) rt (\<lambda>p.
           (case assign_worker rt of (res, rt) \<Rightarrow>
            run_bind res rt (\<lambda>worker.
            run_bind (open_persistence io world rt) rt (\<lambda>(w, dir).
              (case with_worker worker (add_world world) (keep_files world w dir rt) of (res, rt) \<Rightarrow>
               run_bind res rt (\<lambda>_.
                 (case world_insert world (world_entry_new p worker w dir) rt of (res, rt) \<Rightarrow>
                  run_bind res rt (\<lambda>_.
                    (ROk (), push_event (EvPartitionCreated world worker)
                       (tally (\<lambda>m. m\<lparr>mt_creations := mt_creations m + 1\<rparr>) (open_files world w rt))))))))))))"

text \<open>The two modes of recovery: with a snapshot the factory wraps the recovered store, without one the log is
  replayed into the store the factory made.\<close>

definition recover_world ::
    "(u64 \<Rightarrow> table_store \<Rightarrow> partition_config \<Rightarrow> partition res) \<Rightarrow> u64 \<Rightarrow> partition_config \<Rightarrow> directory \<Rightarrow> wal \<Rightarrow>
      (partition \<times> recovery_report) run_res \<times> wal" where
  "recover_world factory world sim dir w =
     run_bind (run_of Persistence (find_latest (Some dir))) w (\<lambda>latest.
       if latest \<noteq> None then
         (case recover (Some dir) w store_new of (res, w, st) \<Rightarrow>
            run_bind (run_of Persistence res) w (\<lambda>report.
            run_bind (run_of (\<lambda>_. InternalError) (factory world st sim)) w (\<lambda>p. (ROk (p, report), w))))
       else
         run_bind (run_of (\<lambda>_. InternalError) (factory world store_new sim)) w (\<lambda>p.
           (case recover (Some dir) w (pt_store p) of (res, w, st) \<Rightarrow>
              run_bind (run_of Persistence res) w (\<lambda>report. (ROk (p\<lparr>pt_store := st\<rparr>, report), w)))))"

definition recover_partition ::
    "u64 \<Rightarrow> u64 \<Rightarrow> partition_config \<Rightarrow> u64 option \<Rightarrow> runtime \<Rightarrow> recovery_report run_res \<times> runtime" where
  "recover_partition now world sim start rt =
     run_bind (ensure_running rt) rt (\<lambda>_.
       if world_contains rt world then (RErr (DuplicatePartition world), rt)
       else
         (case persist_durability (rcf_persistence (rt_config rt)) of
            None \<Rightarrow> (RErr (Persistence Unsupported), rt)
          | Some durability \<Rightarrow>
              (case om_get (rt_disk rt) world of
                 None \<Rightarrow> (RErr (Persistence NotFound), rt)
               | Some (bytes, dir) \<Rightarrow>
                   run_bind (run_of Persistence (wal_open now durability (Some bytes))) rt (\<lambda>w.
                     (case recover_world (rcf_factory (rt_config rt)) world sim dir w of (res, w) \<Rightarrow>
                        let rt = keep_files world (Some w) (Some dir) rt in
                        run_bind res rt (\<lambda>(p, report).
                          let p = (case start of Some tick \<Rightarrow> resume_tick tick p | None \<Rightarrow> p) in
                          (case assign_worker rt of (res, rt) \<Rightarrow>
                           run_bind res rt (\<lambda>worker.
                           (case with_worker worker (add_world world) rt of (res, rt) \<Rightarrow>
                            run_bind res rt (\<lambda>_.
                            (case world_insert world (world_entry_new p worker (Some w) (Some dir)) rt of (res, rt) \<Rightarrow>
                             run_bind res rt (\<lambda>_.
                               (ROk report, push_event (EvPartitionRecovered world (rep_replayed_txs report))
                                  (tally (\<lambda>m. m\<lparr>mt_recoveries := mt_recoveries m + 1, mt_creations := mt_creations m + 1\<rparr>)
                                     (open_files world (Some w) rt)))))))))))))))"

definition start_partition :: "u64 \<Rightarrow> runtime \<Rightarrow> unit run_res \<times> runtime" where
  "start_partition world rt =
     run_bind (ensure_running rt) rt (\<lambda>_.
     run_bind (run_or (UnknownPartition world) (world_get rt world)) rt (\<lambda>e.
       if we_state e = PRunning then (ROk (), rt)
       else if \<not> can_start (we_state e) then (RErr (InvalidPartitionState world (we_state e)), rt)
       else (ROk (), push_event (EvPartitionStarted world) (world_set world (e\<lparr>we_state := PRunning\<rparr>) rt))))"

definition stop_partition :: "u64 \<Rightarrow> runtime \<Rightarrow> unit run_res \<times> runtime" where
  "stop_partition world rt =
     run_bind (ensure_running rt) rt (\<lambda>_.
     run_bind (run_or (UnknownPartition world) (world_get rt world)) rt (\<lambda>e.
       if we_state e = PStopped then (ROk (), rt)
       else if \<not> can_stop (we_state e) then (RErr (InvalidPartitionState world (we_state e)), rt)
       else (ROk (), push_event (EvPartitionStopped world) (world_set world (e\<lparr>we_state := PStopped\<rparr>) rt))))"

section \<open>Routing\<close>

definition propagate_topology :: "runtime \<Rightarrow> runtime" where
  "propagate_topology rt =
     rt\<lparr>rt_worlds := map (map_option (\<lambda>e. e\<lparr>we_world := set_known_partitions (rt_topology rt) (we_world e)\<rparr>)) (rt_worlds rt)\<rparr>"

definition register_partition :: "u64 \<Rightarrow> u64 \<Rightarrow> runtime \<Rightarrow> unit run_res \<times> runtime" where
  "register_partition part world rt =
     run_bind (ensure_running rt) rt (\<lambda>_.
       if om_get (rt_partitions rt) part \<noteq> None then (RErr (DuplicateRouting part), rt)
       else
         run_bind (run_or (UnknownPartition world) (world_get rt world)) rt (\<lambda>e.
           let rt = world_set world (e\<lparr>we_world := set_partition part (we_world e)\<rparr>) rt;
               rt = propagate_topology (rt\<lparr>rt_topology := insort_insert part (rt_topology rt)\<rparr>);
               rt = rt\<lparr>rt_partitions := om_put part (routing_new world (we_worker e)) (rt_partitions rt)\<rparr> in
           (ROk (), push_event (EvPartitionRegistered part world)
              (tally (\<lambda>m. m\<lparr>mt_partitions := length (rt_partitions rt)\<rparr>) rt))))"

definition unregister_partition :: "u64 \<Rightarrow> runtime \<Rightarrow> unit run_res \<times> runtime" where
  "unregister_partition part rt =
     run_bind (ensure_running rt) rt (\<lambda>_.
       if om_get (rt_partitions rt) part = None then (ROk (), rt)
       else
         let rt = rt\<lparr>rt_partitions := om_del part (rt_partitions rt),
                     rt_topology := filter (\<lambda>x. x \<noteq> part) (rt_topology rt), rt_sent_seq := om_del part (rt_sent_seq rt)\<rparr>;
             rt = propagate_topology rt in
         (ROk (), push_event (EvPartitionUnregistered part)
            (tally (\<lambda>m. m\<lparr>mt_partitions := length (rt_partitions rt)\<rparr>) rt)))"

definition destroy_partition :: "u64 \<Rightarrow> runtime \<Rightarrow> unit run_res \<times> runtime" where
  "destroy_partition world rt =
     run_bind (ensure_running rt) rt (\<lambda>_.
       (case (case partition_for_world rt world of
                None \<Rightarrow> (ROk (), rt) | Some part \<Rightarrow> unregister_partition part rt) of (res, rt) \<Rightarrow>
        run_bind res rt (\<lambda>_.
          (case world_remove world rt of (slot, rt) \<Rightarrow>
           run_bind (run_or (UnknownPartition world) slot) rt (\<lambda>e.
             (case with_worker (we_worker e) (remove_world world) (keep_files world (we_wal e) (we_snapshots e) rt) of (res, rt) \<Rightarrow>
              run_bind res rt (\<lambda>_. (ROk (), push_event (EvPartitionDestroyed world) rt))))))))"

definition partition_status_of :: "runtime \<Rightarrow> u64 \<Rightarrow> partition_status run_res" where
  "partition_status_of rt world = run_or (UnknownPartition world) (map_option entry_status (world_get rt world))"

definition list_partitions :: "runtime \<Rightarrow> (u64 \<times> partition_status) list" where
  "list_partitions rt =
     List.map_filter (\<lambda>(i, slot). map_option (\<lambda>e. (word_of_nat i, entry_status e)) slot) (enumerate 0 (rt_worlds rt))"

definition snapshot_partition :: "tick_io \<Rightarrow> u64 \<Rightarrow> runtime \<Rightarrow> unit run_res \<times> runtime" where
  "snapshot_partition io world rt =
     run_bind (ensure_running rt) rt (\<lambda>_.
     run_bind (run_or (UnknownPartition world) (world_get rt world)) rt (\<lambda>e.
     run_bind (run_or (Persistence Unsupported) (we_snapshots e)) rt (\<lambda>dir.
     run_bind (run_or (Persistence Unsupported) (we_wal e)) rt (\<lambda>w.
       (case snapshot_write (snapshot_capture (io_now io) (pt_store (we_world e)) (word_of_nat (w_next_lsn w)))
               (io_snapshot io) dir of (res, dir) \<Rightarrow>
          let rt = world_set world (e\<lparr>we_snapshots := Some dir\<rparr>) rt in
          run_bind (run_of (\<lambda>_. Persistence Internal) res) rt (\<lambda>_.
            (ROk (), tally (\<lambda>m. m\<lparr>mt_snapshots := mt_snapshots m + 1\<rparr>) rt)))))))"

text \<open>World, worker and number of queued messages of a partition.\<close>

definition routing_status :: "runtime \<Rightarrow> u64 \<Rightarrow> (u64 \<times> u64 \<times> nat) run_res" where
  "routing_status rt part =
     run_or (UnknownRouting part)
       (map_option (\<lambda>r. (ro_world r, ro_worker r, length (ro_inbound r))) (om_get (rt_partitions rt) part))"

definition enqueue_message :: "partition_message \<Rightarrow> runtime \<Rightarrow> runtime" where
  "enqueue_message msg rt =
     (let refuse = (\<lambda>why. push_event (EvMessageDropped (pm_from msg) (pm_to msg) why)
                    (tally (\<lambda>m. m\<lparr>mt_messages_dropped := mt_messages_dropped m + 1\<rparr>) rt)) in
      case om_get (rt_partitions rt) (pm_to msg) of
        None \<Rightarrow> refuse NotFound
      | Some r \<Rightarrow>
          if rcf_max_messages (rt_config rt) \<le> length (ro_inbound r) then refuse Capacity
          else
            tally (\<lambda>m. m\<lparr>mt_messages_sent := mt_messages_sent m + 1\<rparr>)
              (rt\<lparr>rt_partitions := om_put (pm_to msg) (r\<lparr>ro_inbound := ro_inbound r @ [msg]\<rparr>) (rt_partitions rt)\<rparr>))"

definition send_message :: "u64 \<Rightarrow> u64 \<Rightarrow> string \<Rightarrow> reducer_args \<Rightarrow> runtime \<Rightarrow> unit run_res \<times> runtime" where
  "send_message from to kind payload rt =
     run_bind (ensure_running rt) rt (\<lambda>_.
       if from = to then (RErr InvalidConfig, rt)
       else
         run_bind (run_or (UnknownRouting from) (om_get (rt_partitions rt) from)) rt (\<lambda>r.
         (case world_get rt (ro_world r) of
            None \<Rightarrow> (RPanic, rt)
          | Some e \<Rightarrow>
              run_bind (run_or (UnknownRouting to) (om_get (rt_partitions rt) to)) rt (\<lambda>_.
                let seq = (case om_get (rt_sent_seq rt) from of Some n \<Rightarrow> n | None \<Rightarrow> 0);
                    rt = rt\<lparr>rt_sent_seq := om_put from seq (rt_sent_seq rt)\<rparr> in
                run_bind (run_of Core (partition_message_new from to (pt_tick (we_world e)) seq kind payload)) rt (\<lambda>msg.
                  (ROk (), enqueue_message msg (rt\<lparr>rt_sent_seq := om_put from (seq + 1) (rt_sent_seq rt)\<rparr>)))))))"

definition take_deliverable :: "u64 \<Rightarrow> u64 \<Rightarrow> runtime \<Rightarrow> partition_message list \<times> runtime" where
  "take_deliverable world tick rt =
     (case find (\<lambda>(_, r). ro_world r = world) (rt_partitions rt) of
        None \<Rightarrow> ([], rt)
      | Some (part, r) \<Rightarrow>
          let due = (\<lambda>msg. pm_sent_tick msg < tick); batch = filter due (ro_inbound r);
              r = r\<lparr>ro_inbound := filter (\<lambda>msg. \<not> due msg) (ro_inbound r)\<rparr> in
          (batch, tally (\<lambda>m. m\<lparr>mt_messages_delivered := mt_messages_delivered m + len_u64 batch\<rparr>)
             (rt\<lparr>rt_partitions := om_put part r (rt_partitions rt)\<rparr>)))"

section \<open>Inputs\<close>

definition submit_reducer_call :: "u64 \<Rightarrow> u64 \<Rightarrow> string \<Rightarrow> reducer_args \<Rightarrow> runtime \<Rightarrow> unit run_res \<times> runtime" where
  "submit_reducer_call world request name args rt =
     run_bind (ensure_running rt) rt (\<lambda>_.
     run_bind (run_of Core (reducer_call_new request name args)) rt (\<lambda>call.
     run_bind (run_or (UnknownPartition world) (world_get rt world)) rt (\<lambda>e.
       if we_state e \<noteq> PRunning then (RErr (InvalidPartitionState world (we_state e)), rt)
       else if rcf_max_calls (rt_config rt) \<le> length (we_calls e) then
         (RErr (ReducerCallRejected world Capacity),
          push_event (EvReducerCallRejected world Capacity)
            (tally (\<lambda>m. m\<lparr>mt_calls_rejected := mt_calls_rejected m + 1\<rparr>) rt))
       else
         (ROk (), tally (\<lambda>m. m\<lparr>mt_calls_accepted := mt_calls_accepted m + 1\<rparr>)
            (world_set world (e\<lparr>we_calls := we_calls e @ [call]\<rparr>) rt)))))"

definition reject_input :: "u64 \<Rightarrow> error \<Rightarrow> runtime \<Rightarrow> unit run_res \<times> runtime" where
  "reject_input world why rt =
     (RErr (InputRejected world why),
      push_event (EvInputRejected world why) (tally (\<lambda>m. m\<lparr>mt_inputs_rejected := mt_inputs_rejected m + 1\<rparr>) rt))"

definition submit_input :: "u64 \<Rightarrow> input_frame \<Rightarrow> runtime \<Rightarrow> unit run_res \<times> runtime" where
  "submit_input world frame rt =
     run_bind (ensure_running rt) rt (\<lambda>_.
     run_bind (run_or (UnknownPartition world) (world_get rt world)) rt (\<lambda>e.
       if we_state e \<noteq> PRunning then (RErr (InvalidPartitionState world (we_state e)), rt)
       else if if_tick frame < pt_tick (we_world e) then reject_input world InvalidArgument rt
       else if rcf_max_inputs (rt_config rt) \<le> length (we_inputs e) then reject_input world Capacity rt
       else
         (ROk (), tally (\<lambda>m. m\<lparr>mt_inputs_accepted := mt_inputs_accepted m + 1\<rparr>)
            (world_set world (e\<lparr>we_inputs := we_inputs e @ [frame]\<rparr>) rt))))"

section \<open>Ticks\<close>

definition apply_outcome :: "world_outcome \<Rightarrow> runtime \<Rightarrow> runtime" where
  "apply_outcome out rt =
     fold enqueue_message (wo_outbound out)
       (tally (\<lambda>m. m\<lparr>mt_ticks_total := mt_ticks_total m + 1, mt_ticks_succeeded := mt_ticks_succeeded m + wo_ticks_succeeded out,
           mt_ticks_failed := mt_ticks_failed m + wo_ticks_failed out,
           mt_changes_committed := mt_changes_committed m + wo_changes_committed out,
           mt_wal_appends := mt_wal_appends m + wo_wal_appends out, mt_wal_failures := mt_wal_failures m + wo_wal_failures out,
           mt_failures := mt_failures m + wo_partition_failures out, mt_snapshots := mt_snapshots m + wo_snapshots out,
           mt_evaluations := mt_evaluations m + wo_evaluations out, mt_deltas := mt_deltas m + wo_deltas out\<rparr>)
         (fold push_event (wo_events out) rt))"

definition tick_world :: "(u64 \<Rightarrow> tick_io) \<Rightarrow> u64 \<Rightarrow> partition_message list \<Rightarrow> world_entry \<Rightarrow> runtime \<Rightarrow>
      world_outcome run_res \<times> runtime" where
  "tick_world io world batch e rt =
     (case tick_entry_collected (io world) (rcf_policy (rt_config rt)) (rcf_interval (rt_config rt)) world batch e of
        (Ok out, e) \<Rightarrow> (ROk out, world_set world e rt)
      | (_, e) \<Rightarrow> (RPanic, world_set world e rt))"

definition tick_once :: "(u64 \<Rightarrow> tick_io) \<Rightarrow> u64 \<Rightarrow> runtime \<Rightarrow> tick_result run_res \<times> runtime" where
  "tick_once io world rt =
     run_bind (ensure_running rt) rt (\<lambda>_.
     run_bind (run_or (UnknownPartition world) (world_get rt world)) rt (\<lambda>e.
       if we_state e \<noteq> PRunning then (RErr (InvalidPartitionState world (we_state e)), rt)
       else
         (case take_deliverable world (pt_tick (we_world e)) rt of (batch, rt) \<Rightarrow>
            (case tick_world io world batch e rt of (res, rt) \<Rightarrow>
               run_bind res rt (\<lambda>out.
                 (case wo_result out of Inr r \<Rightarrow> ROk r | Inl err \<Rightarrow> RErr err, apply_outcome out rt))))))"

definition step_order :: "runtime \<Rightarrow> u64 list" where
  "step_order rt = concat (map (\<lambda>(_, w). wk_worlds w) (rt_workers rt))"

fun deliver_all :: "u64 list \<Rightarrow> runtime \<Rightarrow> (u64 \<times> partition_message list) list run_res \<times> runtime" where
  "deliver_all [] rt = (ROk [], rt)"
| "deliver_all (i # is) rt =
     (case world_get rt i of
        None \<Rightarrow> (RPanic, rt)
      | Some e \<Rightarrow>
          if we_state e \<noteq> PRunning then deliver_all is rt
          else
            (case take_deliverable i (pt_tick (we_world e)) rt of (batch, rt) \<Rightarrow>
               (case deliver_all is rt of (res, rt) \<Rightarrow>
                  run_bind res rt (\<lambda>ds. (ROk (if batch = [] then ds else (i, batch) # ds), rt)))))"

definition batch_of :: "(u64 \<times> partition_message list) list \<Rightarrow> u64 \<Rightarrow> partition_message list" where
  "batch_of delivered i = (case map_of delivered i of Some batch \<Rightarrow> batch | None \<Rightarrow> [])"

fun tick_worlds ::
    "(u64 \<Rightarrow> tick_io) \<Rightarrow> (u64 \<times> partition_message list) list \<Rightarrow> u64 list \<Rightarrow> runtime \<Rightarrow>
      (u64 \<times> world_outcome) list run_res \<times> runtime" where
  "tick_worlds io delivered [] rt = (ROk [], rt)"
| "tick_worlds io delivered (i # is) rt =
     (case world_get rt i of
        None \<Rightarrow> (RPanic, rt)
      | Some e \<Rightarrow>
          if we_state e \<noteq> PRunning then tick_worlds io delivered is rt
          else
            (case tick_world io i (batch_of delivered i) e rt of (res, rt) \<Rightarrow>
               run_bind res rt (\<lambda>out.
                 (case tick_worlds io delivered is rt of (res, rt) \<Rightarrow>
                    run_bind res rt (\<lambda>outs. (ROk ((i, out) # outs), rt))))))"

definition step_outcomes :: "(u64 \<Rightarrow> tick_io) \<Rightarrow> runtime \<Rightarrow> (u64 \<times> world_outcome) list run_res \<times> runtime" where
  "step_outcomes io rt =
     run_bind (ensure_running rt) rt (\<lambda>_.
       let order = step_order rt in
       (case deliver_all order rt of (res, rt) \<Rightarrow>
          run_bind res rt (\<lambda>delivered.
            (case tick_worlds io delivered order rt of (res, rt) \<Rightarrow>
               run_bind res rt (\<lambda>outs. (ROk outs, fold (\<lambda>(_, out). apply_outcome out) outs rt))))))"

record step_report =
  sr_worlds :: nat
  sr_ticks :: nat
  sr_succeeded :: nat
  sr_failed :: nat
  sr_wal_appends :: u64

definition is_running_world :: "runtime \<Rightarrow> u64 \<Rightarrow> bool" where
  "is_running_world rt i \<longleftrightarrow> (case world_get rt i of Some e \<Rightarrow> we_state e = PRunning | None \<Rightarrow> False)"

definition runtime_step :: "(u64 \<Rightarrow> tick_io) \<Rightarrow> runtime \<Rightarrow> step_report run_res \<times> runtime" where
  "runtime_step io rt =
     (let worlds = length (filter (is_running_world rt) (step_order rt)) in
      case step_outcomes io rt of (res, rt) \<Rightarrow>
        run_bind res rt (\<lambda>outs.
          let good = filter (\<lambda>(_, out). \<not> isl (wo_result out)) outs in
          (ROk \<lparr>sr_worlds = worlds, sr_ticks = length outs, sr_succeeded = length good,
                sr_failed = length outs - length good,
                sr_wal_appends = sum_list (map (\<lambda>(_, out). wo_wal_appends out) good)\<rparr>, rt)))"

definition step_detailed :: "(u64 \<Rightarrow> tick_io) \<Rightarrow> runtime \<Rightarrow> (u64 \<times> tick_result) list run_res \<times> runtime" where
  "step_detailed io rt =
     (case step_outcomes io rt of (res, rt) \<Rightarrow>
        run_bind res rt (\<lambda>outs.
          (ROk (List.map_filter (\<lambda>(i, out). case wo_result out of Inr r \<Rightarrow> Some (i, r) | Inl _ \<Rightarrow> None) outs), rt)))"

section \<open>Subscriptions\<close>

definition on_registry ::
    "u64 \<Rightarrow> (world_entry \<Rightarrow> 'a res \<times> registry) \<Rightarrow> runtime \<Rightarrow> 'a run_res \<times> runtime" where
  "on_registry world f rt =
     run_bind (ensure_running rt) rt (\<lambda>_.
     run_bind (run_or (UnknownPartition world) (world_get rt world)) rt (\<lambda>e.
       (case f e of (res, rg) \<Rightarrow> (run_of Core res, world_set world (e\<lparr>we_subscriptions := rg\<rparr>) rt))))"

definition run_subscribe :: "u64 \<Rightarrow> query \<Rightarrow> runtime \<Rightarrow> u64 run_res \<times> runtime" where
  "run_subscribe world q = on_registry world (\<lambda>e. subscribe (pt_store (we_world e)) q (we_subscriptions e))"

definition run_drain :: "u64 \<Rightarrow> u64 \<Rightarrow> runtime \<Rightarrow> subscription_update list run_res \<times> runtime" where
  "run_drain world sid = on_registry world (\<lambda>e. drain sid (we_subscriptions e))"

definition run_drain_all :: "u64 \<Rightarrow> runtime \<Rightarrow> (u64 \<times> subscription_update list) list run_res \<times> runtime" where
  "run_drain_all world = on_registry world (\<lambda>e. case drain_all_pending (we_subscriptions e) of (out, rg) \<Rightarrow> (Ok out, rg))"

definition run_has_pending :: "u64 \<Rightarrow> u64 \<Rightarrow> runtime \<Rightarrow> bool run_res \<times> runtime" where
  "run_has_pending world sid = on_registry world (\<lambda>e. (has_pending (we_subscriptions e) sid, we_subscriptions e))"

definition run_unsubscribe :: "u64 \<Rightarrow> u64 \<Rightarrow> runtime \<Rightarrow> unit run_res \<times> runtime" where
  "run_unsubscribe world sid = on_registry world (\<lambda>e. unsubscribe sid (we_subscriptions e))"

definition run_resync :: "u64 \<Rightarrow> u64 \<Rightarrow> runtime \<Rightarrow> unit run_res \<times> runtime" where
  "run_resync world sid = on_registry world (\<lambda>e. resync (pt_store (we_world e)) sid (we_subscriptions e))"

definition run_is_stale :: "u64 \<Rightarrow> u64 \<Rightarrow> runtime \<Rightarrow> bool run_res" where
  "run_is_stale world sid rt =
     (case world_get rt world of
        None \<Rightarrow> RErr (UnknownPartition world)
      | Some e \<Rightarrow> run_of Core (is_stale (we_subscriptions e) sid))"

section \<open>Events, metrics and shutdown\<close>

definition drain_events :: "runtime \<Rightarrow> runtime_event list \<times> runtime" where
  "drain_events rt = (rt_events rt, rt\<lparr>rt_events := []\<rparr>)"

text \<open>The gauges of \<^verbatim>\<open>metrics()\<close>: worlds, running worlds, subscriptions, views.\<close>

definition gauges :: "runtime \<Rightarrow> nat \<times> nat \<times> nat \<times> nat" where
  "gauges rt =
     (let es = List.map_filter (\<lambda>slot. slot) (rt_worlds rt) in
      (length es, length (filter (\<lambda>e. we_state e = PRunning) es),
       sum_list (map (\<lambda>e. length (rg_subs (we_subscriptions e))) es),
       sum_list (map (\<lambda>e. view_count (we_subscriptions e)) es)))"

text \<open>Flushing the log of a world may fail.\<close>

fun shutdown_worlds ::
    "(u64 \<Rightarrow> error option) \<Rightarrow> (nat \<times> world_entry option) list \<Rightarrow> runtime_error option \<Rightarrow> runtime \<Rightarrow>
      runtime_error option \<times> runtime" where
  "shutdown_worlds flush [] failed rt = (failed, rt)"
| "shutdown_worlds flush ((i, slot) # ws) failed rt =
     (case slot of
        None \<Rightarrow> shutdown_worlds flush ws failed rt
      | Some e \<Rightarrow>
          let world = word_of_nat i;
              stop = world_set world (e\<lparr>we_state := (if we_state e = PRunning then PStopped else we_state e)\<rparr>) in
          (case (we_wal e, flush world) of
             (Some _, Some err) \<Rightarrow>
               shutdown_worlds flush ws (Some (Persistence err))
                 (stop (push_event (EvPersistenceFailure world (pt_tick (we_world e)) err) rt))
           | _ \<Rightarrow> shutdown_worlds flush ws failed (stop rt)))"

definition shutdown :: "(u64 \<Rightarrow> error option) \<Rightarrow> runtime \<Rightarrow> unit run_res \<times> runtime" where
  "shutdown flush rt =
     (if rt_state rt = RtStopped then (ROk (), rt)
      else
        (case shutdown_worlds flush (enumerate 0 (rt_worlds rt)) None (rt\<lparr>rt_state := RtStopping\<rparr>) of (failed, rt) \<Rightarrow>
           let rt = rt\<lparr>rt_workers := map (\<lambda>(i, w). (i, w\<lparr>wk_state := WStopped\<rparr>)) (rt_workers rt), rt_state := RtStopped\<rparr> in
           (case failed of None \<Rightarrow> ROk () | Some err \<Rightarrow> RErr err, push_event EvShutdown rt)))"

section \<open>The configuration is fixed\<close>

lemma run_bind_snd:
  assumes "P s" and "\<And>x. r = ROk x \<Longrightarrow> P (snd (k x))"
  shows "P (snd (run_bind r s k))"
  using assms by (cases r) simp_all

lemma helper_config:
  "rt_config (push_event ev rt) = rt_config rt" "rt_config (tally f rt) = rt_config rt"
  "rt_config (world_set i e rt) = rt_config rt" "rt_config (keep_files i w dir rt) = rt_config rt"
  "rt_config (open_files i w rt) = rt_config rt" "rt_config (snd (with_worker i g rt)) = rt_config rt"
  "rt_config (snd (assign_worker rt)) = rt_config rt" "rt_config (snd (world_insert i e rt)) = rt_config rt"
  by (auto simp: push_event_def tally_def world_set_def keep_files_def open_files_def with_worker_def assign_worker_def
      world_insert_def ensure_world_slot_def Let_def split: option.split)

lemma helper_state:
  "rt_state (push_event ev rt) = rt_state rt" "rt_state (tally f rt) = rt_state rt" "rt_state (world_set i e rt) = rt_state rt"
  by (simp_all add: push_event_def tally_def world_set_def)

lemma create_partition_config: "rt_config (snd (create_partition io world sim rt)) = rt_config rt"
  unfolding create_partition_def split_def
  by (intro run_bind_snd [where P = "\<lambda>rt'. rt_config rt' = rt_config rt"] refl)
    (auto simp: helper_config intro!: run_bind_snd [where P = "\<lambda>rt'. rt_config rt' = rt_config rt"])

lemma start_partition_config: "rt_config (snd (start_partition world rt)) = rt_config rt"
  unfolding start_partition_def
  by (intro run_bind_snd [where P = "\<lambda>rt'. rt_config rt' = rt_config rt"] refl) (auto simp: helper_config)

end
