(* ===== verification/Run_Recover.thy ===== *)
theory Run_Recover
  imports Run_Exact Run_Runtime
begin

text \<open>
  Recovery of a world by the runtime: whatever the world did and wherever the crash cut its log, the runtime
  finds a prefix of its transactions that holds everything that was logged completely.
\<close>

section \<open>What the factory is relied on for\<close>

text \<open>The world factory is code of the embedding program. It builds the partition around the store it is given:
  an empty store gets the tables of the game, a store that has its tables already is left as it is.\<close>

definition factory_wraps ::
    "(u64 \<Rightarrow> table_store \<Rightarrow> partition_config \<Rightarrow> partition res) \<Rightarrow> u64 \<Rightarrow> partition_config \<Rightarrow> table_store \<Rightarrow> bool" where
  "factory_wraps factory world sim st0 \<longleftrightarrow>
     (\<exists>p. factory world store_new sim = Ok p \<and> pt_store p = st0) \<and>
     (\<forall>st. next_table_id st = next_table_id st0 \<longrightarrow> (\<exists>p. factory world st sim = Ok p \<and> pt_store p = st))"

lemma history_next_table_id:
  assumes "history st0 txs st" and plain: "store_plain st0"
  shows "next_table_id st = next_table_id st0"
  using assms(1)
proof (induction rule: history.induct)
  case (h_commit txs st tx cs tx' st')
  note st = history_plain [OF h_commit(1) plain] and ws = tx_writes_wf [OF tx_reach_wf [OF h_commit(2)]]
  have c: "commit tx st = (Ok cs, st')"
    using h_commit(5) by (auto simp: tx_commit_def split: res.splits prod.splits)
  then have "validate st tx = Ok ()" using commit_failed [OF st ws h_commit(4)] by auto
  then show ?case using commit_ok [OF st ws h_commit(4)] c h_commit(6) by auto
qed (simp_all add: alloc_transaction_id_def store_drain_changes_def)

section \<open>Recovering\<close>

lemma recover_world_running:
  assumes plain: "store_plain st0" and run: "running st0 now txs st w dir" and fac: "factory_wraps factory world sim st0"
  shows "\<exists>w1 p report w2 j st2.
    wal_open now' policy (Some (take (header_len + k) (f_bytes (w_file w)))) = Ok w1 \<and>
    recover_world factory world sim dir w1 = (ROk (p, report), w2) \<and>
    j \<le> length txs \<and> (\<forall>m \<le> length txs. length (frames (log_records (take m txs))) \<le> k \<longrightarrow> m \<le> j) \<and>
    history st0 (take j txs) st2 \<and> (j = length txs \<longrightarrow> st2 = st) \<and> store_covers st2 (pt_store p) \<and>
    (\<forall>(tid, cs) \<in> set (take j txs). tid < next_transaction_id (pt_store p)) \<and> (\<exists>rs. log_state now rs w2)"
proof -
  obtain w1 report w2 u j st2 where r:
    "wal_open now' policy (Some (take (header_len + k) (f_bytes (w_file w)))) = Ok w1"
    "recover (Some dir) w1 (recovery_base dir st0) = (Ok report, w2, u)"
    "j \<le> length txs" "\<forall>m \<le> length txs. length (frames (log_records (take m txs))) \<le> k \<longrightarrow> m \<le> j"
    "history st0 (take j txs) st2" "j = length txs \<longrightarrow> st2 = st" "store_covers st2 u"
    "\<forall>(tid, cs) \<in> set (take j txs). tid < next_transaction_id u" "\<exists>rs. log_state now rs w2"
    using recover_running [OF plain run, of now' policy k] by blast
  have "\<exists>p. recover_world factory world sim dir w1 = (ROk (p, report), w2) \<and> pt_store p = u"
  proof (cases "find_latest (Some dir) = Ok None")
    case True
    then have base: "recovery_base dir st0 = st0" by (simp add: recovery_base_def)
    obtain p where "factory world store_new sim = Ok p" "pt_store p = st0" using fac by (auto simp: factory_wraps_def)
    then show ?thesis using r(2) by (simp add: recover_world_def True base)
  next
    case False
    then have base: "recovery_base dir st0 = store_new" by (simp add: recovery_base_def)
    obtain found where found: "find_latest (Some dir) = Ok (Some found)"
      using found_snapshot [of dir "snapshot_of st0 txs st"] running_inv [OF run] False by fastforce
    have "next_table_id u = next_table_id st0" using r(7) history_next_table_id [OF r(5) plain] by (simp add: store_covers_def)
    then obtain p where "factory world u sim = Ok p" "pt_store p = u" using fac by (auto simp: factory_wraps_def)
    then show ?thesis using r(2) by (simp add: recover_world_def found base)
  qed
  with r show ?thesis by blast
qed

lemma assign_loop_known: "assign_loop ws start n ks = Some i \<Longrightarrow> \<exists>w. om_get ws i = Some w"
  by (induction ws start n ks rule: assign_loop.induct) (auto simp: Let_def split: option.splits if_splits)

lemma assigned_known: "assign_worker rt = (ROk i, rt') \<Longrightarrow> \<exists>w. om_get (rt_workers rt) i = Some w"
  by (auto simp: assign_worker_def Let_def assign_loop_known split: option.splits)

text \<open>The slot of a new world, when its id is one that a vector can have.\<close>

lemma world_insert_ok:
  assumes "unat i < isize_max"
  shows "\<exists>rt'. world_insert i e rt = (ROk (), rt') \<and> world_get rt' i = Some e \<and> (\<forall>j. j \<noteq> i \<longrightarrow> world_get rt' j = world_get rt j) \<and>
    (\<exists>ws. rt' = rt\<lparr>rt_worlds := ws\<rparr> \<and> length ws \<le> max (length (rt_worlds rt)) isize_max)"
proof -
  have "unat i + 1 < 2 ^ 64" using assms by (simp add: isize_max_def)
  then have n: "unat (i + 1) = Suc (unat i)" by (simp add: unat_word_ariths)
  define ws where "ws = (if unat i < length (rt_worlds rt) then rt_worlds rt
    else take (Suc (unat i)) (rt_worlds rt) @ replicate (Suc (unat i) - length (rt_worlds rt)) None)"
  have slot: "ensure_world_slot i rt = (ROk (), rt\<lparr>rt_worlds := ws\<rparr>)"
    using assms by (simp add: ensure_world_slot_def Let_def n ws_def)
  have len: "unat i < length ws" by (simp add: ws_def)
  have same: "world_get (rt\<lparr>rt_worlds := ws\<rparr>) j = world_get rt j" for j
    by (auto simp: world_get_def ws_def nth_append)
  have "world_insert i e rt = (ROk (), world_set i e (rt\<lparr>rt_worlds := ws\<rparr>))"
    by (simp add: world_insert_def slot len)
  moreover have "world_get (world_set i e (rt\<lparr>rt_worlds := ws\<rparr>)) i = Some e" using len by (simp add: world_get_def world_set_def)
  moreover have "world_get (world_set i e (rt\<lparr>rt_worlds := ws\<rparr>)) j = world_get rt j" if "j \<noteq> i" for j
  proof -
    have "unat j \<noteq> unat i" using that by (simp add: word_unat_eq_iff)
    then show ?thesis using same [of j] by (simp add: world_get_def world_set_def split: if_splits)
  qed
  moreover have "length ws \<le> max (length (rt_worlds rt)) isize_max" using assms by (auto simp: ws_def)
  ultimately show ?thesis by (intro exI [of _ "world_set i e (rt\<lparr>rt_worlds := ws\<rparr>)"]) (auto simp: world_set_def)
qed

text \<open>The runtime recovers a world whenever its log can be opened and replayed.\<close>

lemma world_get_more:
  "world_get (push_event ev rt) = world_get rt" "world_get (tally f rt) = world_get rt"
  "world_get (open_files i w rt) = world_get rt" "world_get (keep_files i w dir rt) = world_get rt"
  by (auto simp: fun_eq_iff world_get_def push_event_def tally_def open_files_def keep_files_def split: option.splits)

lemma recover_partition_ok:
  assumes rt: "rt_state rt = RtRunning" "world_get rt world = None"
      "persist_durability (rcf_persistence (rt_config rt)) = Some durability" "om_get (rt_disk rt) world = Some (bytes, dir)"
      "assign_worker rt = (ROk worker, rt1)" "unat world < isize_max"
    and opened: "wal_open now durability (Some bytes) = Ok w1"
      "recover_world (rcf_factory (rt_config rt)) world sim dir w1 = (ROk (p, report), w2)"
  shows "\<exists>rt'. recover_partition now world sim None rt = (ROk report, rt') \<and>
    world_get rt' world = Some (world_entry_new p worker (Some w2) (Some dir))"
proof -
  define rt2 where "rt2 = keep_files world (Some w2) (Some dir) rt"
  obtain wk where wk: "om_get (rt_workers rt) worker = Some wk" using assigned_known [OF rt(5)] by blast
  have assign: "assign_worker rt2 = (ROk worker, rt2\<lparr>rt_assign := rt_assign rt + 1\<rparr>)"
    using rt(5) by (auto simp: assign_worker_def rt2_def keep_files_def Let_def split: option.splits)
  have "om_get (rt_workers (rt2\<lparr>rt_assign := rt_assign rt + 1\<rparr>)) worker = Some wk"
    by (simp add: rt2_def keep_files_def wk)
  then obtain rt3 where w: "with_worker worker (add_world world) (rt2\<lparr>rt_assign := rt_assign rt + 1\<rparr>) = (ROk (), rt3)"
    by (simp add: with_worker_def)
  obtain rt4 where ins: "world_insert world (world_entry_new p worker (Some w2) (Some dir)) rt3 = (ROk (), rt4)"
    "world_get rt4 world = Some (world_entry_new p worker (Some w2) (Some dir))"
    using world_insert_ok [OF rt(6)] by blast
  show ?thesis
    using rt opened by (simp add: recover_partition_def ensure_running_def world_contains_def Let_def assign w ins world_get_more
        flip: rt2_def)
qed

section \<open>A tick of the runtime\<close>

lemma world_get_fold: "(\<And>x rt. world_get (f x rt) = world_get rt) \<Longrightarrow> world_get (fold f xs rt) = world_get rt"
  by (induction xs arbitrary: rt) simp_all

lemma world_get_outcome:
  "world_get (enqueue_message msg rt) = world_get rt" "world_get (apply_outcome out rt) = world_get rt"
  "world_get (snd (take_deliverable world tick rt)) = world_get rt"
proof -
  have put: "world_get (rt\<lparr>rt_partitions := ps\<rparr>) = world_get rt" for ps and rt :: runtime by (simp add: fun_eq_iff world_get_def)
  show enq: "world_get (enqueue_message msg rt) = world_get rt" for msg rt
    by (simp add: enqueue_message_def Let_def world_get_more put split: option.split)
  show "world_get (apply_outcome out rt) = world_get rt"
    by (simp add: apply_outcome_def world_get_more world_get_fold [where f = enqueue_message, OF enq]
        world_get_fold [where f = push_event, OF world_get_more(1)])
  show "world_get (snd (take_deliverable world tick rt)) = world_get rt"
    by (simp add: take_deliverable_def Let_def world_get_more put split: option.split prod.split)
qed

lemma world_get_set: "world_get rt i = Some e \<Longrightarrow> world_get (world_set i e' rt) = (world_get rt)(i \<mapsto> e')"
  by (auto simp: fun_eq_iff world_get_def world_set_def nth_list_update word_unat_eq_iff split: if_splits)

lemma take_deliverable_config: "rt_config (snd (take_deliverable world tick rt)) = rt_config rt"
  by (simp add: take_deliverable_def Let_def tally_def split: option.split prod.split)

text \<open>What a tick does to the state of the world, when its record reaches the log.\<close>

definition state_after :: "tick_failure_policy \<Rightarrow> bool \<Rightarrow> partition_lifecycle \<Rightarrow> partition_lifecycle" where
  "state_after policy failed state = (if failed \<and> policy = FailWorld then PFailed else state)"

lemma finish_tick_state:
  assumes "finish_tick io interval world r e = (Ok out, e')" "io_append io = IoOk"
  shows "we_state e' = we_state e \<and> wo_result out = Inr r"
proof -
  have snap: "we_state e2 = we_state e1" if "periodic_snapshot io interval e1 = Ok (n, e2)" for n e1 e2
    using that by (auto simp: periodic_snapshot_def Let_def split: option.splits res.splits prod.splits if_splits)
  have obs: "we_state e2 = we_state e1" if "observe_tick cs e1 = Ok (n, m, e2)" for cs n m e1 e2
    using that by (cases "apply_changes (pt_store (we_world e1)) cs (we_subscriptions e1)") (auto simp: observe_tick_def split: if_splits)
  obtain logged e1 where a: "append_tick io r (e\<lparr>we_ticks_run := we_ticks_run e + 1\<rparr>) = (logged, e1)" by fastforce
  then have "we_state e1 = we_state e" "\<forall>err. logged \<noteq> Some (Err err)"
    using assms(2) by (auto simp: append_tick_def wal_append_eq split: option.splits)
  then show ?thesis
    using assms(1) by (auto simp: finish_tick_def Let_def a split: option.splits res.splits prod.splits if_splits dest!: snap obs)
qed

lemma tick_entry_state:
  assumes "tick_entry_collected io policy interval world delivered e = (Ok out, e')" "io_append io = IoOk"
  shows "we_state e' = state_after policy (isl (wo_result out)) (we_state e)"
  using assms
  by (auto simp: tick_entry_collected_def Let_def failed_tick_def state_after_def split: prod.splits tick_outcome.splits if_splits
      dest!: finish_tick_state)

lemma tick_once_serves:
  assumes serve: "serving st0 now txs e cl" and rt: "rt_state rt = RtRunning" "world_get rt world = Some e" "we_state e = PRunning"
    and fits: "tick_fits (io world) (rcf_interval (rt_config rt)) (fst (take_deliverable world (pt_tick (we_world e)) rt)) e"
    and io: "io_append (io world) = IoOk"
  shows "\<exists>res rt' e'. tick_once io world rt = (res, rt') \<and> res \<noteq> RPanic \<and> world_get rt' world = Some e' \<and>
    serving st0 now (case res of ROk r \<Rightarrow> txs @ [(tr_tx_id r, tr_changes r)] | _ \<Rightarrow> txs) e' cl \<and>
    we_state e' = state_after (rcf_policy (rt_config rt)) (\<forall>r. res \<noteq> ROk r) PRunning"
proof -
  obtain batch rt1 where d: "take_deliverable world (pt_tick (we_world e)) rt = (batch, rt1)" by fastforce
  have rt1: "world_get rt1 = world_get rt" "rt_config rt1 = rt_config rt"
    using world_get_outcome(3) take_deliverable_config d by (metis snd_conv)+
  obtain out e' where t: "tick_entry_collected (io world) (rcf_policy (rt_config rt)) (rcf_interval (rt_config rt)) world batch e = (Ok out, e')"
    using tick_entry_sound [OF serving_sound [OF serve] fits io] d by fastforce
  have s: "serving st0 now (case wo_result out of Inr r \<Rightarrow> txs @ [(tr_tx_id r, tr_changes r)] | Inl _ \<Rightarrow> txs) e' cl"
    using serving.tick [OF serve fits io] t d by simp
  have "world_get (apply_outcome out (world_set world e' rt1)) world = Some e'"
    using world_get_set [of rt1 world e] rt by (simp add: world_get_outcome rt1)
  then show ?thesis using s rt tick_entry_state [OF t io]
    by (cases "wo_result out") (simp_all add: tick_once_def ensure_running_def d tick_world_def rt1 t)
qed

section \<open>The last id\<close>

lemma last_slot:
  assumes rt: "rt_state rt = RtRunning" "length (rt_worlds rt) \<le> isize_max" and fac: "rcf_factory (rt_config rt) (- 1) store_new sim = Ok p"
    and worker: "assign_worker rt = (ROk worker, rt1)" and none: "rcf_persistence (rt_config rt) = PersistNone"
  shows "\<exists>rt'. create_partition io (- 1) sim rt = (RPanic, rt') \<and> rt_worlds rt' = []"
proof -
  have big: "\<not> unat (- 1 :: u64) < length (rt_worlds rt)" using rt(2) by (simp add: isize_max_def unsigned_minus_1_eq_mask mask_eq_exp_minus_1)
  then have get: "world_get rt (- 1) = None" by (simp add: world_get_def)
  have rt1: "rt1 = rt\<lparr>rt_assign := rt_assign rt + 1\<rparr>" using worker by (auto simp: assign_worker_def Let_def split: option.splits)
  obtain wk where "om_get (rt_workers rt) worker = Some wk" using assigned_known [OF worker] by blast
  then show ?thesis
    using rt(1) fac worker none big
    by (simp add: create_partition_def ensure_running_def world_contains_def get open_persistence_def persist_durability_def
        keep_files_def rt1 with_worker_def world_insert_def ensure_world_slot_def Let_def)
qed

section \<open>Frames that are merged\<close>

lemma merged_frames:
  assumes rt: "rt_state rt = RtRunning" "world_get rt world = Some e" "we_state e = PRunning" "we_inputs e = []"
      "2 \<le> rcf_max_inputs (rt_config rt)"
    and f: "if_tick f = pt_tick (we_world e)" "if_tick g = pt_tick (we_world e)"
      "pc_max_commands_per_frame (pt_config (we_world e)) < length (if_commands f) + length (if_commands g)"
  shows "\<exists>rt1 rt2 rt3 e'. submit_input world f rt = (ROk (), rt1) \<and> submit_input world g rt1 = (ROk (), rt2) \<and>
    tick_once io world rt2 = (RErr (TickError world InvalidArgument), rt3) \<and> world_get rt3 world = Some e' \<and>
    we_state e' = state_after (rcf_policy (rt_config rt)) True PRunning \<and> we_inputs e' = [] \<and> pt_store (we_world e') = pt_store (we_world e)"
proof -
  let ?policy = "rcf_policy (rt_config rt)"
  let ?count = "tally (\<lambda>m. m\<lparr>mt_inputs_accepted := mt_inputs_accepted m + 1\<rparr>)"
  let ?e2 = "e\<lparr>we_inputs := [f, g]\<rparr>"
  define rt1 where "rt1 = ?count (world_set world (e\<lparr>we_inputs := [f]\<rparr>) rt)"
  define rt2 where "rt2 = ?count (world_set world ?e2 rt1)"
  have rt1: "world_get rt1 world = Some (e\<lparr>we_inputs := [f]\<rparr>)" "rt_state rt1 = RtRunning" "rt_config rt1 = rt_config rt"
    using rt(1,2) by (simp_all add: rt1_def world_get_more world_get_set helper_config helper_state)
  have rt2: "world_get rt2 world = Some ?e2" "rt_state rt2 = RtRunning" "rt_config rt2 = rt_config rt"
    using rt1 by (simp_all add: rt2_def world_get_more world_get_set helper_config helper_state)
  have s1: "submit_input world f rt = (ROk (), rt1)"
    using rt f by (simp add: submit_input_def ensure_running_def rt1_def)
  have s2: "submit_input world g rt1 = (ROk (), rt2)"
    using rt f rt1 by (simp add: submit_input_def ensure_running_def rt2_def)
  obtain batch rt3 where d: "take_deliverable world (pt_tick (we_world e)) rt2 = (batch, rt3)" by fastforce
  have rt3: "world_get rt3 = world_get rt2" "rt_config rt3 = rt_config rt"
    using world_get_outcome(3) take_deliverable_config d rt2(3) by (metis snd_conv)+
  have push: "if_tick (fold input_frame_push cs f) = if_tick f \<and> if_commands (fold input_frame_push cs f) = if_commands f @ cs" for cs f
    by (induction cs arbitrary: f) (simp_all add: input_frame_push_def)
  have frame: "take_frame ?e2 = (fold input_frame_push (if_commands g) f, [])"
    using f by (simp add: take_frame_def Let_def)
  have gate: "tick_gate (we_world e) (fold input_frame_push (if_commands g) f) batch calls = Err InvalidArgument" for calls
    using f push [of "if_commands g" f] by (simp add: tick_gate_def Let_def)
  obtain out e' where t: "tick_entry_collected (io world) ?policy (rcf_interval (rt_config rt)) world batch ?e2 = (Ok out, e')"
    "wo_result out = Inl (TickError world InvalidArgument)" "we_state e' = state_after ?policy True PRunning" "we_inputs e' = []"
    "pt_store (we_world e') = pt_store (we_world e)"
    using rt(3) by (simp add: tick_entry_collected_def frame Let_def tick_with_calls_def gate failed_tick_def state_after_def)
  have "world_get (apply_outcome out (world_set world e' rt3)) world = Some e'"
    using world_get_set [of rt3 world ?e2] rt2 by (simp add: world_get_outcome rt3)
  moreover have "tick_once io world rt2 = (RErr (TickError world InvalidArgument), apply_outcome out (world_set world e' rt3))"
    using rt2 rt(3) t by (simp add: tick_once_def ensure_running_def d tick_world_def rt3)
  ultimately show ?thesis using s1 s2 t(3-5) by blast
qed

section \<open>Bindings\<close>

lemma world_get_propagate:
  "world_get (propagate_topology rt) i =
     map_option (\<lambda>e. e\<lparr>we_world := set_known_partitions (rt_topology rt) (we_world e)\<rparr>) (world_get rt i)"
  by (simp add: world_get_def propagate_topology_def)

lemma propagate_fields:
  "rt_state (propagate_topology rt) = rt_state rt" "rt_partitions (propagate_topology rt) = rt_partitions rt"
  "rt_workers (propagate_topology rt) = rt_workers rt" "rt_config (propagate_topology rt) = rt_config rt"
  by (simp_all add: propagate_topology_def)

lemma world_get_routes:
  "world_get (rt\<lparr>rt_partitions := ps\<rparr>) = world_get rt" "world_get (rt\<lparr>rt_topology := ps'\<rparr>) = world_get rt"
  "world_get (rt\<lparr>rt_sent_seq := seqs\<rparr>) = world_get rt" "world_get (rt\<lparr>rt_workers := ws\<rparr>) = world_get rt"
  "world_get (rt\<lparr>rt_assign := n\<rparr>) = world_get rt"
  by (simp_all add: fun_eq_iff world_get_def)

lemma register_ok:
  assumes "rt_state rt = RtRunning" "om_get (rt_partitions rt) part = None" "world_get rt world = Some e"
  shows "\<exists>rt'. register_partition part world rt = (ROk (), rt') \<and> rt_state rt' = RtRunning \<and> rt_workers rt' = rt_workers rt \<and>
    rt_partitions rt' = om_put part (routing_new world (we_worker e)) (rt_partitions rt) \<and>
    (\<forall>i. map_option we_worker (world_get rt' i) = map_option we_worker (world_get rt i))"
  using assms
  by (simp add: register_partition_def ensure_running_def Let_def world_get_more world_get_propagate world_get_routes world_get_set
      helper_state propagate_fields option.map_comp comp_def)
    (simp add: push_event_def tally_def world_set_def propagate_topology_def)

lemma keep_files_fields:
  "rt_workers (keep_files i w dir rt) = rt_workers rt" "rt_partitions (keep_files i w dir rt) = rt_partitions rt"
  "rt_state (keep_files i w dir rt) = rt_state rt" "rt_worlds (keep_files i w dir rt) = rt_worlds rt"
  by (simp_all add: keep_files_def split: option.split)

lemma world_get_removed: "world_get (snd (world_remove i rt)) = (world_get rt)(i := None)"
  by (auto simp: fun_eq_iff world_get_def world_remove_def nth_list_update word_unat_eq_iff)

lemma double_binding:
  assumes rt: "rt_state rt = RtRunning" "world_get rt world = Some e" "om_get (rt_workers rt) (we_worker e) = Some wk"
    and wf: "om_wf (rt_partitions rt)" and free: "\<forall>(part, r) \<in> set (rt_partitions rt). ro_world r \<noteq> world"
    and new: "om_get (rt_partitions rt) p = None" "om_get (rt_partitions rt) q = None" "p \<noteq> q"
    and target: "om_get (rt_partitions rt) target = Some r"
  shows "\<exists>rt1 rt2 rt3 left. register_partition p world rt = (ROk (), rt1) \<and> register_partition q world rt1 = (ROk (), rt2) \<and>
    destroy_partition world rt2 = (ROk (), rt3) \<and> left \<in> {p, q} \<and> send_message left target kind payload rt3 = (RPanic, rt3)"
proof -
  let ?r = "routing_new world (we_worker e)"
  obtain rt1 where r1: "register_partition p world rt = (ROk (), rt1)" "rt_state rt1 = RtRunning" "rt_workers rt1 = rt_workers rt"
    "rt_partitions rt1 = om_put p ?r (rt_partitions rt)"
    "\<forall>i. map_option we_worker (world_get rt1 i) = map_option we_worker (world_get rt i)"
    using register_ok [OF rt(1) new(1) rt(2)] by blast
  then have "map_option we_worker (world_get rt1 world) = Some (we_worker e)" using rt(2) by simp
  then obtain e1 where e1: "world_get rt1 world = Some e1" "we_worker e1 = we_worker e" by auto
  have "om_get (rt_partitions rt1) q = None" using new wf by (simp add: r1(4) omap_simps)
  from register_ok [OF r1(2) this e1(1)] obtain rt2 where
    r2: "register_partition q world rt1 = (ROk (), rt2)" "rt_state rt2 = RtRunning" "rt_workers rt2 = rt_workers rt"
    "rt_partitions rt2 = om_put q ?r (om_put p ?r (rt_partitions rt))"
    "\<forall>i. map_option we_worker (world_get rt2 i) = map_option we_worker (world_get rt1 i)"
    unfolding r1(3,4) e1(2) by blast
  then have "map_option we_worker (world_get rt2 world) = Some (we_worker e)" using e1 by simp
  then obtain e2 where e2: "world_get rt2 world = Some e2" "we_worker e2 = we_worker e" by auto
  have wf2: "om_wf (rt_partitions rt2)" and get2: "om_get (rt_partitions rt2) = (om_get (rt_partitions rt))(p \<mapsto> ?r, q \<mapsto> ?r)"
    using wf by (simp_all add: r2(4) omap_simps wf_intros)
  have bound: "x = p \<or> x = q" if "(x, y) \<in> set (rt_partitions rt2)" "ro_world y = world" for x y
  proof (rule ccontr)
    assume "\<not> ?thesis"
    then have "om_get (rt_partitions rt) x = Some y" using om_get_mem [OF wf2, of x y] that(1) get2 by auto
    then show False using free that(2) by (auto dest: map_of_SomeD)
  qed
  have "(p, ?r) \<in> set (rt_partitions rt2)" using om_get_mem [OF wf2, of p ?r] new(3) get2 by simp
  then have "find (\<lambda>(_, r). ro_world r = world) (rt_partitions rt2) \<noteq> None"
    unfolding find_None_iff by (force simp: routing_new_def)
  then obtain x y where x: "find (\<lambda>(_, r). ro_world r = world) (rt_partitions rt2) = Some (x, y)" by auto
  then have mem: "(x, y) \<in> set (rt_partitions rt2)" "ro_world y = world" by (auto simp: find_Some_iff dest: nth_mem)
  then have xpq: "x = p \<or> x = q" by (rule bound)
  define l where "l = (if x = p then q else p)"
  have l: "l \<in> {p, q}" "l \<noteq> x" "om_get (rt_partitions rt2) l = Some ?r" using xpq new(3) get2 by (auto simp: l_def)
  have x_some: "om_get (rt_partitions rt2) x \<noteq> None" using om_get_mem [OF wf2, of x y] mem(1) by auto
  obtain rt3 where u: "unregister_partition x rt2 = (ROk (), rt3)" "rt_state rt3 = RtRunning" "rt_workers rt3 = rt_workers rt"
    "rt_partitions rt3 = om_del x (rt_partitions rt2)" "map_option we_worker (world_get rt3 world) = Some (we_worker e)"
    using r2(2,3) x_some e2
    by (simp add: unregister_partition_def ensure_running_def Let_def world_get_more world_get_propagate world_get_routes
        helper_state propagate_fields) (simp add: world_get_def propagate_topology_def push_event_def tally_def)
  then obtain e3 where e3: "world_get rt3 world = Some e3" "we_worker e3 = we_worker e" by auto
  obtain rt4 where d: "destroy_partition world rt2 = (ROk (), rt4)" "rt_state rt4 = RtRunning" "rt_partitions rt4 = rt_partitions rt3"
    "world_get rt4 world = None"
    using r2(2) u(1-3) rt(3) e3 world_get_removed [of world rt3]
    by (simp add: destroy_partition_def ensure_running_def partition_for_world_def x world_remove_def with_worker_def
        keep_files_fields world_get_more world_get_routes helper_state) (simp add: push_event_def keep_files_fields)
  have "send_message l target kind payload rt4 = (RPanic, rt4)"
    using d(2,4) l target new by (auto simp: send_message_def ensure_running_def d(3) u(4) omap_simps routing_new_def)
  with r1(1) r2(1) d(1) l(1) show ?thesis by blast
qed

end
