(* ===== verification/Run_Invariant.thy ===== *)
theory Run_Invariant
  imports Run_Recover
begin

text \<open>
  The bookkeeping of the runtime: every world is owned by exactly one worker, the lists of the workers, the
  owners noted in the worlds and the owners noted in the routing table agree, a world has at most one
  partition, and every queue stays within its limit. The operations keep this, so the panics that guard it are
  never reached.
\<close>

section \<open>The invariant\<close>

definition owner_of :: "runtime \<Rightarrow> u64 \<Rightarrow> u64 option" where
  "owner_of rt x = map_option we_worker (world_get rt x)"

definition held_by :: "runtime \<Rightarrow> u64 \<Rightarrow> u64 list option" where
  "held_by rt i = map_option wk_worlds (om_get (rt_workers rt) i)"

definition bound_to :: "runtime \<Rightarrow> u64 \<Rightarrow> (u64 \<times> u64) option" where
  "bound_to rt p = map_option (\<lambda>r. (ro_world r, ro_worker r)) (om_get (rt_partitions rt) p)"

definition own_ok :: "runtime \<Rightarrow> bool" where
  "own_ok rt \<longleftrightarrow> om_wf (rt_workers rt) \<and> om_wf (rt_partitions rt) \<and>
     (\<forall>i ws. held_by rt i = Some ws \<longrightarrow> sorted ws \<and> distinct ws \<and> (\<forall>x. x \<in> set ws \<longleftrightarrow> owner_of rt x = Some i)) \<and>
     (\<forall>x i. owner_of rt x = Some i \<longrightarrow> held_by rt i \<noteq> None) \<and>
     (\<forall>p x i. bound_to rt p = Some (x, i) \<longrightarrow> owner_of rt x = Some i) \<and>
     (\<forall>p q x i j. bound_to rt p = Some (x, i) \<longrightarrow> bound_to rt q = Some (x, j) \<longrightarrow> p = q) \<and>
     sorted (rt_topology rt) \<and> distinct (rt_topology rt) \<and> set (rt_topology rt) = dom (bound_to rt)"

definition queues_ok :: "runtime_config \<Rightarrow> world_entry \<Rightarrow> bool" where
  "queues_ok c e \<longleftrightarrow> length (we_inputs e) \<le> rcf_max_inputs c \<and> length (we_calls e) \<le> rcf_max_calls c"

definition bounds_ok :: "runtime \<Rightarrow> bool" where
  "bounds_ok rt \<longleftrightarrow> 0 < rcf_event_limit (rt_config rt) \<and> length (rt_events rt) \<le> rcf_event_limit (rt_config rt) \<and>
     length (rt_worlds rt) \<le> isize_max \<and> (\<forall>x e. world_get rt x = Some e \<longrightarrow> queues_ok (rt_config rt) e) \<and>
     (\<forall>p r. om_get (rt_partitions rt) p = Some r \<longrightarrow> length (ro_inbound r) \<le> rcf_max_messages (rt_config rt))"

definition rt_ok :: "runtime \<Rightarrow> bool" where
  "rt_ok rt \<longleftrightarrow> own_ok rt \<and> bounds_ok rt"

text \<open>\<open>keeps\<close>: a step that moves neither worlds nor bindings.\<close>

definition keeps :: "runtime \<Rightarrow> runtime \<Rightarrow> bool" where
  "keeps rt rt' \<longleftrightarrow> (rt_ok rt \<longrightarrow> rt_ok rt' \<and> owner_of rt' = owner_of rt \<and> held_by rt' = held_by rt \<and> bound_to rt' = bound_to rt \<and>
     rt_config rt' = rt_config rt)"

lemma keeps_refl [simp, intro]: "keeps rt rt"
  by (simp add: keeps_def)

lemma keeps_trans: "keeps a b \<Longrightarrow> keeps b c \<Longrightarrow> keeps a c"
  by (simp add: keeps_def)

lemma own_ok_cong:
  assumes "own_ok rt" "owner_of rt' = owner_of rt" "held_by rt' = held_by rt" "bound_to rt' = bound_to rt" "rt_topology rt' = rt_topology rt"
    "om_wf (rt_workers rt')" "om_wf (rt_partitions rt')"
  shows "own_ok rt'"
  using assms by (simp add: own_ok_def)

lemma keepsI:
  assumes "rt_ok rt \<Longrightarrow> owner_of rt' = owner_of rt \<and> held_by rt' = held_by rt \<and> bound_to rt' = bound_to rt \<and> rt_topology rt' = rt_topology rt \<and>
      om_wf (rt_workers rt') \<and> om_wf (rt_partitions rt') \<and> rt_config rt' = rt_config rt \<and> bounds_ok rt'"
  shows "keeps rt rt'"
  using assms own_ok_cong by (auto simp: keeps_def rt_ok_def)

lemma rt_okD:
  assumes "rt_ok rt"
  shows "om_wf (rt_workers rt)" "om_wf (rt_partitions rt)" "bounds_ok rt" "own_ok rt"
  using assms by (auto simp: rt_ok_def own_ok_def)

section \<open>Steps that keep the bookkeeping\<close>

lemma keeps_other:
  assumes "rt_worlds rt' = rt_worlds rt" "rt_workers rt' = rt_workers rt" "rt_partitions rt' = rt_partitions rt"
    "rt_topology rt' = rt_topology rt" "rt_config rt' = rt_config rt"
    and "bounds_ok rt \<Longrightarrow> length (rt_events rt') \<le> rcf_event_limit (rt_config rt)"
  shows "keeps rt rt'"
proof (rule keepsI)
  assume ok: "rt_ok rt"
  have get: "world_get rt' = world_get rt" using assms(1) by (simp add: fun_eq_iff world_get_def)
  have "bounds_ok rt'" using rt_okD(3) [OF ok] assms by (simp add: bounds_ok_def get)
  then show "owner_of rt' = owner_of rt \<and> held_by rt' = held_by rt \<and> bound_to rt' = bound_to rt \<and> rt_topology rt' = rt_topology rt \<and>
      om_wf (rt_workers rt') \<and> om_wf (rt_partitions rt') \<and> rt_config rt' = rt_config rt \<and> bounds_ok rt'"
    using rt_okD(1,2) [OF ok] assms by (simp add: owner_of_def held_by_def bound_to_def fun_eq_iff get)
qed

lemma keeps_plain:
  "keeps rt (tally f rt)" "keeps rt (push_event ev rt)" "keeps rt (rt\<lparr>rt_sent_seq := seqs\<rparr>)" "keeps rt (rt\<lparr>rt_assign := n\<rparr>)"
  "keeps rt (rt\<lparr>rt_state := s\<rparr>)" "keeps rt (rt\<lparr>rt_disk := d\<rparr>)" "keeps rt (rt\<lparr>rt_events := []\<rparr>)"
  "keeps rt (keep_files i w dir rt)" "keeps rt (open_files i w rt)"
  by (rule keeps_other; auto simp: tally_def push_event_def keep_files_def open_files_def bounds_ok_def split: option.splits)+

lemma keeps_then:
  "keeps a b \<Longrightarrow> keeps a (tally f b)" "keeps a b \<Longrightarrow> keeps a (push_event ev b)"
  by (meson keeps_trans keeps_plain)+

lemma keeps_world_set:
  assumes "world_get rt x = Some e" "we_worker e' = we_worker e" "queues_ok (rt_config rt) e \<Longrightarrow> queues_ok (rt_config rt) e'"
  shows "keeps rt (world_set x e' rt)"
proof (rule keepsI)
  assume ok: "rt_ok rt"
  have f: "rt_workers (world_set x e' rt) = rt_workers rt" "rt_partitions (world_set x e' rt) = rt_partitions rt"
    "rt_topology (world_set x e' rt) = rt_topology rt" "rt_events (world_set x e' rt) = rt_events rt"
    "length (rt_worlds (world_set x e' rt)) = length (rt_worlds rt)" by (simp_all add: world_set_def)
  show "owner_of (world_set x e' rt) = owner_of rt \<and> held_by (world_set x e' rt) = held_by rt \<and> bound_to (world_set x e' rt) = bound_to rt \<and>
      rt_topology (world_set x e' rt) = rt_topology rt \<and> om_wf (rt_workers (world_set x e' rt)) \<and>
      om_wf (rt_partitions (world_set x e' rt)) \<and> rt_config (world_set x e' rt) = rt_config rt \<and> bounds_ok (world_set x e' rt)"
    using rt_okD [OF ok] assms
    by (auto simp: f owner_of_def held_by_def bound_to_def world_get_set [OF assms(1)] fun_eq_iff helper_config bounds_ok_def)
qed

lemma keeps_routes:
  assumes "om_get (rt_partitions rt) p = Some r" "ro_world r' = ro_world r" "ro_worker r' = ro_worker r"
    and "length (ro_inbound r) \<le> rcf_max_messages (rt_config rt) \<Longrightarrow> length (ro_inbound r') \<le> rcf_max_messages (rt_config rt)"
  shows "keeps rt (rt\<lparr>rt_partitions := om_put p r' (rt_partitions rt)\<rparr>)"
proof (rule keepsI)
  assume ok: "rt_ok rt"
  note wf = rt_okD(2) [OF ok]
  show "owner_of (rt\<lparr>rt_partitions := om_put p r' (rt_partitions rt)\<rparr>) = owner_of rt \<and>
      held_by (rt\<lparr>rt_partitions := om_put p r' (rt_partitions rt)\<rparr>) = held_by rt \<and>
      bound_to (rt\<lparr>rt_partitions := om_put p r' (rt_partitions rt)\<rparr>) = bound_to rt \<and>
      rt_topology (rt\<lparr>rt_partitions := om_put p r' (rt_partitions rt)\<rparr>) = rt_topology rt \<and>
      om_wf (rt_workers (rt\<lparr>rt_partitions := om_put p r' (rt_partitions rt)\<rparr>)) \<and>
      om_wf (rt_partitions (rt\<lparr>rt_partitions := om_put p r' (rt_partitions rt)\<rparr>)) \<and>
      rt_config (rt\<lparr>rt_partitions := om_put p r' (rt_partitions rt)\<rparr>) = rt_config rt \<and>
      bounds_ok (rt\<lparr>rt_partitions := om_put p r' (rt_partitions rt)\<rparr>)"
    using rt_okD [OF ok] assms
    by (auto simp: owner_of_def held_by_def bound_to_def world_get_routes fun_eq_iff om_get_put [OF wf] om_wf_put bounds_ok_def)
qed

lemma keeps_if: "(rt_ok rt \<Longrightarrow> keeps rt rt') \<Longrightarrow> keeps rt rt'"
  by (auto simp: keeps_def)

lemma keeps_worker:
  assumes "om_get (rt_workers rt) i = Some w" "wk_worlds w' = wk_worlds w"
  shows "keeps rt (rt\<lparr>rt_workers := om_put i w' (rt_workers rt)\<rparr>)"
proof (rule keepsI)
  assume ok: "rt_ok rt"
  let ?rt = "rt\<lparr>rt_workers := om_put i w' (rt_workers rt)\<rparr>"
  show "owner_of ?rt = owner_of rt \<and> held_by ?rt = held_by rt \<and> bound_to ?rt = bound_to rt \<and> rt_topology ?rt = rt_topology rt \<and>
      om_wf (rt_workers ?rt) \<and> om_wf (rt_partitions ?rt) \<and> rt_config ?rt = rt_config rt \<and> bounds_ok ?rt"
    using rt_okD [OF ok] assms
    by (auto simp: owner_of_def held_by_def bound_to_def world_get_routes fun_eq_iff om_get_put om_wf_put bounds_ok_def)
qed

lemma keeps_propagate: "keeps rt (propagate_topology rt)"
proof (rule keepsI)
  assume ok: "rt_ok rt"
  have f: "rt_events (propagate_topology rt) = rt_events rt" "rt_topology (propagate_topology rt) = rt_topology rt"
    "length (rt_worlds (propagate_topology rt)) = length (rt_worlds rt)"
    by (simp_all add: propagate_topology_def)
  show "owner_of (propagate_topology rt) = owner_of rt \<and> held_by (propagate_topology rt) = held_by rt \<and> bound_to (propagate_topology rt) = bound_to rt \<and>
      rt_topology (propagate_topology rt) = rt_topology rt \<and> om_wf (rt_workers (propagate_topology rt)) \<and>
      om_wf (rt_partitions (propagate_topology rt)) \<and> rt_config (propagate_topology rt) = rt_config rt \<and> bounds_ok (propagate_topology rt)"
    using rt_okD [OF ok]
    by (auto simp: owner_of_def held_by_def bound_to_def world_get_propagate propagate_fields f fun_eq_iff option.map_comp comp_def bounds_ok_def
        queues_ok_def)
qed

interpretation bookkeeping: progress "\<lambda>_. True" keeps
  by unfold_locales (auto intro: keeps_trans)

lemma keeps_fold: "(\<And>x rt. keeps rt (f x rt)) \<Longrightarrow> keeps rt (fold f xs rt)"
  by (rule bookkeeping.fold_progress) auto

lemmas keeps_bind = run_bind_snd [where P = "keeps rt" for rt]

lemma keeps_enqueue: "keeps rt (enqueue_message msg rt)"
proof (cases "om_get (rt_partitions rt) (pm_to msg)")
  case None
  then show ?thesis by (auto simp: enqueue_message_def intro: keeps_trans keeps_plain)
next
  case (Some r)
  then show ?thesis
    by (auto simp: enqueue_message_def Let_def intro!: keeps_trans [OF keeps_routes [OF Some] keeps_plain(1)] intro: keeps_trans keeps_plain)
qed

lemma keeps_deliver: "keeps rt (snd (take_deliverable world tick rt))"
proof (rule keeps_if)
  assume ok: "rt_ok rt"
  show ?thesis
  proof (cases "find (\<lambda>(_, r). ro_world r = world) (rt_partitions rt)")
    case (Some pr)
    obtain p r where pr: "pr = (p, r)" by fastforce
    have "(p, r) \<in> set (rt_partitions rt)" using Some pr by (auto simp: find_Some_iff dest: nth_mem)
    then have get: "om_get (rt_partitions rt) p = Some r" using om_get_mem [OF rt_okD(2) [OF ok]] by blast
    show ?thesis
      by (auto simp: take_deliverable_def Some pr Let_def intro!: keeps_trans [OF keeps_routes [OF get] keeps_plain(1)]
          intro: order_trans [OF length_filter_le])
  qed (simp add: take_deliverable_def)
qed

lemma keeps_outcome: "keeps rt (apply_outcome out rt)"
  unfolding apply_outcome_def by (intro keeps_trans [OF _ keeps_fold] keeps_trans [OF keeps_fold keeps_plain(1)] keeps_enqueue keeps_plain)

section \<open>Ticks keep the bookkeeping\<close>

lemma merge_frames_shorter: "length (snd (merge_frames tick f fs)) \<le> length fs"
  by (induction tick f fs rule: merge_frames.induct) auto

lemma take_frame_shorter: "length (snd (take_frame e)) \<le> length (we_inputs e)"
  using merge_frames_shorter by (auto simp: take_frame_def Let_def le_SucI split: list.split)

lemma observe_tick_fields:
  assumes "observe_tick cs e = Ok (n, m, e')"
  shows "we_worker e' = we_worker e \<and> we_inputs e' = we_inputs e \<and> we_calls e' = we_calls e"
  using assms
  by (cases "apply_changes (pt_store (we_world e)) cs (we_subscriptions e)") (auto simp: observe_tick_def split: if_splits)

lemma periodic_snapshot_fields:
  assumes "periodic_snapshot io interval e = Ok (n, e')"
  shows "we_worker e' = we_worker e \<and> we_inputs e' = we_inputs e \<and> we_calls e' = we_calls e"
  using assms by (auto simp: periodic_snapshot_def Let_def split: option.splits res.splits prod.splits if_splits)

lemma append_tick_fields:
  "append_tick io r e = (logged, e') \<Longrightarrow> we_worker e' = we_worker e \<and> we_inputs e' = we_inputs e \<and> we_calls e' = we_calls e"
  by (auto simp: append_tick_def split: option.splits prod.splits)

lemma finish_tick_fields:
  assumes "finish_tick io interval world r e = (res, e')"
  shows "we_worker e' = we_worker e \<and> we_inputs e' = we_inputs e \<and> we_calls e' = we_calls e"
proof -
  obtain logged e1 where a: "append_tick io r (e\<lparr>we_ticks_run := we_ticks_run e + 1\<rparr>) = (logged, e1)" by fastforce
  show ?thesis
    using assms append_tick_fields [OF a]
    by (auto simp: finish_tick_def Let_def a split: option.splits res.splits prod.splits if_splits
        dest!: observe_tick_fields periodic_snapshot_fields)
qed

lemma tick_entry_fields:
  assumes "tick_entry_collected io policy interval world delivered e = (res, e')"
  shows "we_worker e' = we_worker e" and "queues_ok c e \<Longrightarrow> queues_ok c e'"
proof -
  obtain frame rest where fr: "take_frame e = (frame, rest)" by fastforce
  have len: "length rest \<le> length (we_inputs e)" using take_frame_shorter [of e] fr by simp
  have "we_worker e' = we_worker e \<and> we_inputs e' = rest \<and> length (we_calls e') \<le> length (we_calls e)"
    using assms
    by (auto simp: tick_entry_collected_def fr Let_def failed_tick_def split: prod.splits tick_outcome.splits if_splits
        dest!: finish_tick_fields)
  with len show "we_worker e' = we_worker e" and "queues_ok c e \<Longrightarrow> queues_ok c e'" by (auto simp: queues_ok_def)
qed

lemma tick_world_keeps:
  assumes "world_get rt x = Some e"
  shows "keeps rt (snd (tick_world io x batch e rt))"
proof -
  obtain res e' where t: "tick_entry_collected (io x) (rcf_policy (rt_config rt)) (rcf_interval (rt_config rt)) x batch e = (res, e')" by fastforce
  from keeps_world_set [OF assms tick_entry_fields [OF t]] show ?thesis by (cases res) (simp_all add: tick_world_def t)
qed

lemma deliver_all_keeps: "keeps rt (snd (deliver_all order rt))"
proof (induction order arbitrary: rt)
  case (Cons x xs)
  show ?case
  proof (cases "world_get rt x")
    case (Some e)
    obtain batch rt1 where d: "take_deliverable x (pt_tick (we_world e)) rt = (batch, rt1)" by fastforce
    have k: "keeps rt rt1" using keeps_deliver [of rt x] d by (metis snd_conv)
    obtain res rt2 where r: "deliver_all xs rt1 = (res, rt2)" by fastforce
    have "keeps rt1 rt2" using Cons [of rt1] r by simp
    then show ?thesis using Cons [of rt] k by (cases res) (auto simp: Some d r intro: keeps_trans)
  qed simp
qed simp

lemma tick_worlds_keeps: "keeps rt (snd (tick_worlds io delivered order rt))"
proof (induction order arbitrary: rt)
  case (Cons x xs)
  show ?case
  proof (cases "world_get rt x")
    case (Some e)
    obtain res rt1 where t: "tick_world io x (batch_of delivered x) e rt = (res, rt1)" by fastforce
    have k: "keeps rt rt1" using tick_world_keeps [OF Some, of io "batch_of delivered x"] t by simp
    obtain res2 rt2 where r: "tick_worlds io delivered xs rt1 = (res2, rt2)" by fastforce
    have "keeps rt1 rt2" using Cons [of rt1] r by simp
    then show ?thesis using Cons [of rt] k by (cases res; cases res2) (auto simp: Some t r intro: keeps_trans)
  qed simp
qed simp

lemma step_outcomes_keeps: "keeps rt (snd (step_outcomes io rt))"
proof -
  obtain res rt1 where d: "deliver_all (step_order rt) rt = (res, rt1)" by fastforce
  have k1: "keeps rt rt1" using deliver_all_keeps [of rt "step_order rt"] d by simp
  show ?thesis
  proof (cases res)
    case (ROk delivered)
    obtain res2 rt2 where t: "tick_worlds io delivered (step_order rt) rt1 = (res2, rt2)" by fastforce
    have "keeps rt1 rt2" using tick_worlds_keeps [of rt1 io delivered "step_order rt"] t by simp
    with k1 have k2: "keeps rt rt2" by (rule keeps_trans)
    moreover have "keeps rt2 (fold (\<lambda>(_, out). apply_outcome out) outs rt2)" for outs :: "(u64 \<times> world_outcome) list"
      by (rule keeps_fold) (auto simp: keeps_outcome split: prod.split)
    ultimately show ?thesis
      by (cases "ensure_running rt"; cases res2) (auto simp: step_outcomes_def Let_def d ROk t intro: keeps_trans)
  qed (use k1 in \<open>(cases "ensure_running rt"; auto simp: step_outcomes_def Let_def d)+\<close>)
qed

lemma ensure_running_cases: "ensure_running rt = ROk () \<or> ensure_running rt = RErr ShutdownError"
  by (simp add: ensure_running_def)

lemma tick_once_keeps: "keeps rt (snd (tick_once io world rt))"
proof (cases "world_get rt world")
  case (Some e)
  obtain batch rt1 where d: "take_deliverable world (pt_tick (we_world e)) rt = (batch, rt1)" by fastforce
  have k: "keeps rt rt1" using keeps_deliver [of rt world] d by (metis snd_conv)
  obtain res rt2 where t: "tick_world io world batch e rt1 = (res, rt2)" by fastforce
  have "world_get rt1 world = Some e" using world_get_outcome(3) [of world "pt_tick (we_world e)" rt] d Some by simp
  from keeps_trans [OF k tick_world_keeps [OF this, of io batch]] have k2: "keeps rt rt2" by (simp add: t)
  then have "keeps rt (apply_outcome out rt2)" for out using keeps_trans keeps_outcome by blast
  with k2 show ?thesis
    using ensure_running_cases [of rt] by (cases res) (auto simp: tick_once_def Some d t)
qed (use ensure_running_cases [of rt] in \<open>auto simp: tick_once_def\<close>)

lemma start_keeps: "keeps rt (snd (start_partition world rt))"
  using ensure_running_cases [of rt]
  by (cases "world_get rt world")
    (auto simp: start_partition_def queues_ok_def intro!: keeps_trans [OF keeps_world_set keeps_plain(2)])

lemma stop_keeps: "keeps rt (snd (stop_partition world rt))"
  using ensure_running_cases [of rt]
  by (cases "world_get rt world")
    (auto simp: stop_partition_def queues_ok_def intro!: keeps_trans [OF keeps_world_set keeps_plain(2)])

lemma snapshot_keeps: "keeps rt (snd (snapshot_partition io world rt))"
proof (cases "world_get rt world")
  case (Some e)
  then have "keeps rt (world_set world (e\<lparr>we_snapshots := dir\<rparr>) rt)" for dir by (rule keeps_world_set) (simp_all add: queues_ok_def)
  moreover from this have "keeps rt (tally f (world_set world (e\<lparr>we_snapshots := dir\<rparr>) rt))" for dir f
    by (rule keeps_trans) (rule keeps_plain)
  ultimately show ?thesis
    using ensure_running_cases [of rt]
    by (cases "we_snapshots e"; cases "we_wal e") (auto simp: snapshot_partition_def Some Let_def intro!: keeps_bind split: prod.split)
qed (use ensure_running_cases [of rt] in \<open>auto simp: snapshot_partition_def\<close>)

lemma reject_keeps: "keeps rt (snd (reject_input world why rt))"
  by (auto simp: reject_input_def intro: keeps_then)

lemma submit_input_keeps: "keeps rt (snd (submit_input world frame rt))"
proof (cases "world_get rt world")
  case (Some e)
  have "keeps rt (world_set world (e\<lparr>we_inputs := we_inputs e @ [frame]\<rparr>) rt)" if "length (we_inputs e) < rcf_max_inputs (rt_config rt)"
    using Some by (rule keeps_world_set) (use that in \<open>simp_all add: queues_ok_def\<close>)
  then show ?thesis
    using ensure_running_cases [of rt]
    by (auto simp: submit_input_def Some reject_keeps intro: keeps_then)
qed (use ensure_running_cases [of rt] in \<open>auto simp: submit_input_def\<close>)

lemma submit_call_keeps: "keeps rt (snd (submit_reducer_call world request name args rt))"
proof (cases "world_get rt world")
  case (Some e)
  have "keeps rt (world_set world (e\<lparr>we_calls := we_calls e @ [call]\<rparr>) rt)" if "length (we_calls e) < rcf_max_calls (rt_config rt)" for call
    using Some by (rule keeps_world_set) (use that in \<open>simp_all add: queues_ok_def\<close>)
  then show ?thesis
    using ensure_running_cases [of rt]
    by (cases "reducer_call_new request name args") (auto simp: submit_reducer_call_def Some intro!: keeps_then)
qed (use ensure_running_cases [of rt] in \<open>cases "reducer_call_new request name args"; auto simp: submit_reducer_call_def\<close>)

lemma on_registry_keeps: "keeps rt (snd (on_registry world f rt))"
proof (cases "world_get rt world")
  case (Some e)
  then have "keeps rt (world_set world (e\<lparr>we_subscriptions := rg\<rparr>) rt)" for rg by (rule keeps_world_set) (simp_all add: queues_ok_def)
  then show ?thesis using ensure_running_cases [of rt] by (auto simp: on_registry_def Some split: prod.split)
qed (use ensure_running_cases [of rt] in \<open>auto simp: on_registry_def\<close>)

lemma send_keeps: "keeps rt (snd (send_message from to kind payload rt))"
proof -
  have seq: "keeps rt (rt\<lparr>rt_sent_seq := s\<rparr>)" for s by (rule keeps_plain)
  have "keeps rt (enqueue_message msg (rt\<lparr>rt_sent_seq := s\<rparr>))" for msg s using keeps_trans [OF seq keeps_enqueue] .
  with seq show ?thesis
    using ensure_running_cases [of rt]
    by (cases "om_get (rt_partitions rt) from"; cases "om_get (rt_partitions rt) to")
      (auto simp: send_message_def Let_def intro!: keeps_bind split: option.split)
qed

lemma fail_worlds_keeps: "keeps rt (snd (fail_worlds xs rt))"
proof (induction xs arbitrary: rt)
  case (Cons x xs)
  show ?case
  proof (cases "world_get rt x")
    case (Some e)
    then have "keeps rt (world_set x (e\<lparr>we_state := PFailed\<rparr>) rt)" by (rule keeps_world_set) (simp_all add: queues_ok_def)
    then have "keeps rt (push_event ev (tally f (world_set x (e\<lparr>we_state := PFailed\<rparr>) rt)))" for ev f
      by (intro keeps_then)
    from keeps_trans [OF this Cons] Cons [of rt] show ?thesis by (simp add: Some)
  qed simp
qed simp

lemma fail_worker_keeps: "keeps rt (snd (fail_worker i rt))"
proof (cases "om_get (rt_workers rt) i")
  case (Some w)
  then have "keeps rt (rt\<lparr>rt_workers := om_put i (w\<lparr>wk_state := WFailed\<rparr>) (rt_workers rt)\<rparr>)" by (rule keeps_worker) simp
  then have "keeps rt (push_event ev (rt\<lparr>rt_workers := om_put i (w\<lparr>wk_state := WFailed\<rparr>) (rt_workers rt)\<rparr>))" for ev
    by (rule keeps_trans) (rule keeps_plain)
  then show ?thesis
    using ensure_running_cases [of rt] fail_worlds_keeps keeps_trans by (fastforce simp: fail_worker_def Some)
qed (use ensure_running_cases [of rt] in \<open>auto simp: fail_worker_def\<close>)

lemma shutdown_worlds_keeps:
  assumes "distinct (map fst ws)" "\<forall>(i, slot) \<in> set ws. i < 2 ^ 64 \<and> world_get rt (word_of_nat i) = slot"
  shows "keeps rt (snd (shutdown_worlds flush ws failed rt))"
  using assms
proof (induction ws arbitrary: rt failed)
  case (Cons p ws)
  obtain i slot where p: "p = (i, slot)" by fastforce
  show ?case
  proof (cases slot)
    case None
    then show ?thesis using Cons by (simp add: p)
  next
    case (Some e)
    have get: "world_get rt (word_of_nat i) = Some e" and i: "i < 2 ^ 64" using Cons.prems(2) by (auto simp: p Some)
    define rt1 where "rt1 = (case (we_wal e, flush (word_of_nat i)) of
        (Some _, Some err) \<Rightarrow> push_event (EvPersistenceFailure (word_of_nat i) (pt_tick (we_world e)) err) rt | _ \<Rightarrow> rt)"
    define rt2 where "rt2 = world_set (word_of_nat i) (e\<lparr>we_state := (if we_state e = PRunning then PStopped else we_state e)\<rparr>) rt1"
    have rt1: "keeps rt rt1" "world_get rt1 = world_get rt"
      by (auto simp: rt1_def world_get_more intro: keeps_then split: option.split)
    have "keeps rt1 rt2"
      unfolding rt2_def by (rule keeps_world_set [where e = e]) (simp_all add: rt1 get queues_ok_def)
    with rt1(1) have k: "keeps rt rt2" by (rule keeps_trans)
    have "\<forall>(j, slot) \<in> set ws. j < 2 ^ 64 \<and> world_get rt2 (word_of_nat j) = slot"
    proof (clarify)
      fix j slot assume j: "(j, slot) \<in> set ws"
      then have "j \<noteq> i" "j < 2 ^ 64" "world_get rt (word_of_nat j) = slot" using Cons.prems by (auto simp: p image_iff)
      moreover from this i have "(word_of_nat j :: u64) \<noteq> word_of_nat i"
        by (simp add: word_of_nat_eq_iff take_bit_nat_eq_self)
      ultimately show "j < 2 ^ 64 \<and> world_get rt2 (word_of_nat j) = slot"
        using world_get_set [of rt1 "word_of_nat i" e] get by (simp add: rt2_def rt1)
    qed
    with Cons.IH Cons.prems(1) have "keeps rt2 (snd (shutdown_worlds flush ws failed rt2))" for failed by (simp add: p)
    with k have "keeps rt (snd (shutdown_worlds flush ws failed rt2))" for failed using keeps_trans by blast
    then show ?thesis
      by (cases "we_wal e"; cases "flush (word_of_nat i)"; cases "we_state e = PRunning")
        (simp_all add: p Some Let_def rt2_def rt1_def)
  qed
qed simp

lemma shutdown_keeps: "keeps rt (snd (shutdown flush rt))"
proof (rule keeps_if)
  assume ok: "rt_ok rt"
  let ?rt = "rt\<lparr>rt_state := RtStopping\<rparr>"
  have "\<forall>(i, slot) \<in> set (enumerate 0 (rt_worlds rt)). i < 2 ^ 64 \<and> world_get ?rt (word_of_nat i) = slot"
    using rt_okD(3) [OF ok]
    by (auto simp: in_set_enumerate_eq bounds_ok_def world_get_def isize_max_def unat_of_nat take_bit_nat_eq_self)
  then have k: "keeps rt (snd (shutdown_worlds flush (enumerate 0 (rt_worlds rt)) None ?rt))"
    by (intro keeps_trans [OF keeps_plain(5) shutdown_worlds_keeps]) simp_all
  obtain failed rt1 where s: "shutdown_worlds flush (enumerate 0 (rt_worlds rt)) None ?rt = (failed, rt1)" by fastforce
  let ?rt2 = "rt1\<lparr>rt_workers := map (\<lambda>(i, w). (i, w\<lparr>wk_state := WStopped\<rparr>)) (rt_workers rt1), rt_state := RtStopped\<rparr>"
  have "keeps rt1 ?rt2"
  proof (rule keepsI)
    assume ok1: "rt_ok rt1"
    have get: "om_get (map (\<lambda>(i, w). (i, w\<lparr>wk_state := WStopped\<rparr>)) ws) i = map_option (\<lambda>w. w\<lparr>wk_state := WStopped\<rparr>) (om_get ws i)"
      for ws :: "(u64, worker) omap" and i by (simp add: map_of_map)
    have "map fst (map (\<lambda>(i, w). (i, w\<lparr>wk_state := WStopped\<rparr>)) ws) = map fst ws" for ws :: "(u64, worker) omap" by auto
    then have "om_wf (map (\<lambda>(i, w). (i, w\<lparr>wk_state := WStopped\<rparr>)) (rt_workers rt1))"
      using rt_okD(1) [OF ok1] by (simp only: om_wf_def)
    moreover have "world_get ?rt2 = world_get rt1" by (simp add: fun_eq_iff world_get_def)
    ultimately show "owner_of ?rt2 = owner_of rt1 \<and> held_by ?rt2 = held_by rt1 \<and> bound_to ?rt2 = bound_to rt1 \<and> rt_topology ?rt2 = rt_topology rt1 \<and>
        om_wf (rt_workers ?rt2) \<and> om_wf (rt_partitions ?rt2) \<and> rt_config ?rt2 = rt_config rt1 \<and> bounds_ok ?rt2"
      using rt_okD [OF ok1] by (simp add: owner_of_def held_by_def bound_to_def fun_eq_iff get option.map_comp comp_def bounds_ok_def)
  qed
  with k show ?thesis by (auto simp: shutdown_def s Let_def intro!: keeps_then intro: keeps_trans)
qed

section \<open>Steps that move worlds and bindings\<close>

lemma own_insert:
  assumes ok: "own_ok rt" and new: "owner_of rt x = None" and i: "held_by rt i = Some ws"
    and "owner_of rt' = (owner_of rt)(x \<mapsto> i)" "held_by rt' = (held_by rt)(i \<mapsto> insort_insert x ws)" "bound_to rt' = bound_to rt"
    "rt_topology rt' = rt_topology rt" "om_wf (rt_workers rt')" "om_wf (rt_partitions rt')"
  shows "own_ok rt'"
  using assms unfolding own_ok_def
  by (auto simp: set_insort_insert sorted_insort_insert distinct_insort_insert split: if_splits)

lemma own_remove:
  assumes ok: "own_ok rt" and x: "owner_of rt x = Some i" "held_by rt i = Some ws" "\<forall>p j. bound_to rt p \<noteq> Some (x, j)"
    and "owner_of rt' = (owner_of rt)(x := None)" "held_by rt' = (held_by rt)(i \<mapsto> filter (\<lambda>y. y \<noteq> x) ws)" "bound_to rt' = bound_to rt"
    "rt_topology rt' = rt_topology rt" "om_wf (rt_workers rt')" "om_wf (rt_partitions rt')"
  shows "own_ok rt'"
  using assms unfolding own_ok_def
  by (auto simp: sorted_wrt_filter split: if_splits)

lemma own_move:
  assumes ok: "own_ok rt" and x: "owner_of rt x = Some i" "held_by rt i = Some ws" "held_by rt j = Some vs" "i \<noteq> j"
    and "owner_of rt' = (owner_of rt)(x \<mapsto> j)"
      "held_by rt' = (held_by rt)(i \<mapsto> filter (\<lambda>y. y \<noteq> x) ws, j \<mapsto> insort_insert x vs)"
      "bound_to rt' = (\<lambda>p. map_option (\<lambda>(y, k). (y, if y = x then j else k)) (bound_to rt p))"
    "rt_topology rt' = rt_topology rt" "om_wf (rt_workers rt')" "om_wf (rt_partitions rt')"
  shows "own_ok rt'"
  using assms unfolding own_ok_def
  by (auto simp: sorted_wrt_filter set_insort_insert sorted_insort_insert distinct_insort_insert split: if_splits)

lemma own_register:
  assumes ok: "own_ok rt" and p: "bound_to rt p = None" "owner_of rt x = Some i" "\<forall>q j. bound_to rt q \<noteq> Some (x, j)"
    and "owner_of rt' = owner_of rt" "held_by rt' = held_by rt" "bound_to rt' = (bound_to rt)(p \<mapsto> (x, i))"
    "rt_topology rt' = insort_insert p (rt_topology rt)" "om_wf (rt_workers rt')" "om_wf (rt_partitions rt')"
  shows "own_ok rt'"
  using assms unfolding own_ok_def
  by (auto simp: set_insort_insert sorted_insort_insert distinct_insort_insert split: if_splits)

lemma own_unregister:
  assumes ok: "own_ok rt" and "owner_of rt' = owner_of rt" "held_by rt' = held_by rt" "bound_to rt' = (bound_to rt)(p := None)"
    "rt_topology rt' = filter (\<lambda>q. q \<noteq> p) (rt_topology rt)" "om_wf (rt_workers rt')" "om_wf (rt_partitions rt')"
  shows "own_ok rt'"
  using assms unfolding own_ok_def
  by (auto simp: sorted_wrt_filter split: if_splits)

lemma place_ok:
  assumes ok: "rt_ok rt" and x: "world_get rt x = None" "unat x < isize_max" and i: "om_get (rt_workers rt) i = Some w"
    and e: "we_worker e = i" "queues_ok (rt_config rt) e"
  shows "\<exists>rt1 rt2. with_worker i (add_world x) rt = (ROk (), rt1) \<and> world_insert x e rt1 = (ROk (), rt2) \<and> rt_ok rt2"
proof -
  let ?rt1 = "rt\<lparr>rt_workers := om_put i (add_world x w) (rt_workers rt)\<rparr>"
  obtain ws where ins: "world_insert x e ?rt1 = (ROk (), ?rt1\<lparr>rt_worlds := ws\<rparr>)"
    "world_get (?rt1\<lparr>rt_worlds := ws\<rparr>) x = Some e" "\<forall>y. y \<noteq> x \<longrightarrow> world_get (?rt1\<lparr>rt_worlds := ws\<rparr>) y = world_get ?rt1 y"
    "length ws \<le> max (length (rt_worlds rt)) isize_max"
    using world_insert_ok [OF x(2), of e ?rt1] by auto
  let ?rt2 = "?rt1\<lparr>rt_worlds := ws\<rparr>"
  have get: "world_get ?rt2 = (world_get rt)(x \<mapsto> e)" using ins(2,3) by (auto simp: fun_eq_iff world_get_routes)
  note d = rt_okD [OF ok]
  have "own_ok ?rt2"
  proof (rule own_insert [OF d(4)])
    show "owner_of rt x = None" "held_by rt i = Some (wk_worlds w)" using x(1) i by (simp_all add: owner_of_def held_by_def)
    show "owner_of ?rt2 = (owner_of rt)(x \<mapsto> i)" using get e(1) by (auto simp: owner_of_def fun_eq_iff)
    show "held_by ?rt2 = (held_by rt)(i \<mapsto> insort_insert x (wk_worlds w))"
      by (auto simp: held_by_def fun_eq_iff om_get_put [OF d(1)] add_world_def)
  qed (use d in \<open>simp_all add: bound_to_def fun_eq_iff om_wf_put\<close>)
  moreover have "bounds_ok ?rt2" using d(3) e(2) ins(4) by (auto simp: bounds_ok_def get)
  ultimately show ?thesis using ins(1) by (simp add: with_worker_def i rt_ok_def)
qed

lemma keeps_ok: "keeps rt rt' \<Longrightarrow> rt_ok rt \<Longrightarrow> rt_ok rt'"
  by (simp add: keeps_def)

lemma entry_new_ok: "we_worker (world_entry_new p i w dir) = i" "queues_ok c (world_entry_new p i w dir)"
  by (simp_all add: world_entry_new_def queues_ok_def)

lemma assign_result:
  "(\<exists>i w. assign_worker rt = (ROk i, rt\<lparr>rt_assign := rt_assign rt + 1\<rparr>) \<and> om_get (rt_workers rt) i = Some w) \<or>
   assign_worker rt = (RErr InternalError, rt)"
  by (auto simp: assign_worker_def Let_def split: option.split dest: assign_loop_known)

lemma assign_cases:
  obtains i w where "assign_worker rt = (ROk i, rt\<lparr>rt_assign := rt_assign rt + 1\<rparr>)" "om_get (rt_workers rt) i = Some w"
  | "assign_worker rt = (RErr InternalError, rt)"
  using assign_result [of rt] by blast

text \<open>An id for which no vector can have a slot: the insertion panics.\<close>

lemma world_insert_big:
  assumes "length (rt_worlds rt) \<le> isize_max" "\<not> unat x < isize_max"
  shows "fst (world_insert x e rt) = RPanic"
proof (cases "x = - 1")
  case True
  then show ?thesis using assms by (simp add: world_insert_def ensure_world_slot_def Let_def)
next
  case False
  then have "1 + x \<noteq> 0" by (simp add: add_eq_0_iff)
  then have "unat (x + 1) = Suc (unat x)" using unatSuc [of x] by (simp add: add.commute)
  then show ?thesis using assms by (simp add: world_insert_def ensure_world_slot_def Let_def)
qed

lemma place_cases:
  assumes ok: "rt_ok rt" and x: "world_get rt x = None" and i: "om_get (rt_workers rt) i = Some w"
    and e: "we_worker e = i" "queues_ok (rt_config rt) e"
  obtains rt1 rt2 where "unat x < isize_max" "with_worker i (add_world x) rt = (ROk (), rt1)" "world_insert x e rt1 = (ROk (), rt2)" "rt_ok rt2"
  | rt1 rt2 where "\<not> unat x < isize_max" "with_worker i (add_world x) rt = (ROk (), rt1)" "world_insert x e rt1 = (RPanic, rt2)"
proof (cases "unat x < isize_max")
  case True
  then show thesis using place_ok [OF ok x True i e] that(1) by blast
next
  case False
  let ?rt = "rt\<lparr>rt_workers := om_put i (add_world x w) (rt_workers rt)\<rparr>"
  have "fst (world_insert x e ?rt) = RPanic" using rt_okD(3) [OF ok] False by (intro world_insert_big) (simp_all add: bounds_ok_def)
  then show thesis
    using that(2) [OF False, of ?rt "snd (world_insert x e ?rt)"] i by (simp add: with_worker_def prod_eq_iff)
qed

lemma create_cases:
  assumes ok: "rt_ok rt"
  shows "(fst (create_partition io world sim rt) \<noteq> RPanic \<longrightarrow> rt_ok (snd (create_partition io world sim rt))) \<and>
    (unat world < isize_max \<longrightarrow> rcf_factory (rt_config rt) world store_new sim \<noteq> Panic \<longrightarrow>
      fst (create_partition io world sim rt) \<noteq> RPanic)"
proof (cases "ensure_running rt = ROk () \<and> world_get rt world = None \<and> (\<exists>p. rcf_factory (rt_config rt) world store_new sim = Ok p)")
  case False
  then show ?thesis
    using ok ensure_running_cases [of rt]
    by (cases "rcf_factory (rt_config rt) world store_new sim") (auto simp: create_partition_def world_contains_def)
next
  case True
  then obtain p where p: "rcf_factory (rt_config rt) world store_new sim = Ok p" by blast
  show ?thesis
  proof (cases rule: assign_cases [of rt])
    case (1 i w)
    let ?rt = "rt\<lparr>rt_assign := rt_assign rt + 1\<rparr>"
    have ok1: "rt_ok ?rt" using keeps_ok [OF keeps_plain(4) ok] .
    show ?thesis
    proof (cases "open_persistence io world ?rt")
      case (ROk wd)
      obtain wal dir where wd: "wd = (wal, dir)" by fastforce
      let ?rt1 = "keep_files world wal dir ?rt"
      have ok2: "rt_ok ?rt1" using keeps_ok [OF keeps_plain(8) ok1] .
      have w: "world_get ?rt1 world = None" "om_get (rt_workers ?rt1) i = Some w"
        using True 1 by (simp_all add: world_get_more world_get_routes keep_files_fields)
      show ?thesis
        by (rule place_cases [OF ok2 w entry_new_ok, of p wal dir])
          (use True p 1 ROk wd in \<open>auto simp: create_partition_def world_contains_def
            intro: keeps_ok [OF keeps_then(2) [OF keeps_then(1) [OF keeps_plain(9)]]]\<close>)
    next
      case RPanic
      then show ?thesis by (auto simp: open_persistence_def split: if_splits option.splits)
    qed (use True p 1 ok1 in \<open>simp_all add: create_partition_def world_contains_def\<close>)
  qed (use True p ok in \<open>simp add: create_partition_def world_contains_def\<close>)
qed

text \<open>\<open>recovery_returns\<close>: replaying the files of the world does not panic.\<close>

definition recovery_returns :: "u64 \<Rightarrow> partition_config \<Rightarrow> runtime \<Rightarrow> bool" where
  "recovery_returns world sim rt \<longleftrightarrow>
     (\<forall>bytes dir now policy w. om_get (rt_disk rt) world = Some (bytes, dir) \<longrightarrow> wal_open now policy (Some bytes) = Ok w \<longrightarrow>
        fst (recover_world (rcf_factory (rt_config rt)) world sim dir w) \<noteq> RPanic)"

lemma wal_open_not_Panic: "wal_open now policy disk \<noteq> Panic"
  by (simp add: wal_open_def Let_def split: option.split prod.split)

lemma recover_cases:
  assumes ok: "rt_ok rt"
  shows "(fst (recover_partition now world sim start rt) \<noteq> RPanic \<longrightarrow> rt_ok (snd (recover_partition now world sim start rt))) \<and>
    (unat world < isize_max \<longrightarrow> recovery_returns world sim rt \<longrightarrow> fst (recover_partition now world sim start rt) \<noteq> RPanic)"
proof (cases "ensure_running rt = ROk () \<and> world_get rt world = None")
  case False
  then show ?thesis using ok ensure_running_cases [of rt] by (auto simp: recover_partition_def world_contains_def)
next
  case True
  note rec = recover_partition_def world_contains_def Let_def
  show ?thesis
  proof (cases "persist_durability (rcf_persistence (rt_config rt))")
    case (Some durability)
    note some = Some
    show ?thesis
    proof (cases "om_get (rt_disk rt) world")
      case (Some files)
      obtain bytes dir where files: "files = (bytes, dir)" by fastforce
      show ?thesis
      proof (cases "wal_open now durability (Some bytes)")
        case (Ok w)
        obtain res w2 where rw: "recover_world (rcf_factory (rt_config rt)) world sim dir w = (res, w2)" by fastforce
        let ?rt = "keep_files world (Some w2) (Some dir) rt"
        have ok1: "rt_ok ?rt" using keeps_ok [OF keeps_plain(8) ok] .
        have returns: "res \<noteq> RPanic" if "recovery_returns world sim rt"
          using that Some files Ok rw unfolding recovery_returns_def by fastforce
        show ?thesis
        proof (cases res)
          case (ROk pr)
          obtain p report where pr: "pr = (p, report)" by fastforce
          define q where "q = (case start of Some tick \<Rightarrow> resume_tick tick p | None \<Rightarrow> p)"
          show ?thesis
          proof (cases rule: assign_cases [of ?rt])
            case (1 i wk)
            let ?rt1 = "?rt\<lparr>rt_assign := rt_assign ?rt + 1\<rparr>"
            have ok2: "rt_ok ?rt1" using keeps_ok [OF keeps_plain(4) ok1] .
            have w: "world_get ?rt1 world = None" "om_get (rt_workers ?rt1) i = Some wk"
              using True 1 by (simp_all add: world_get_more world_get_routes)
            show ?thesis
              by (rule place_cases [OF ok2 w entry_new_ok, of q "Some w2" "Some dir"])
                (use True some Some files Ok rw ROk pr 1 in \<open>auto simp: rec q_def
                  intro: keeps_ok [OF keeps_then(2) [OF keeps_then(1) [OF keeps_plain(9)]]]\<close>)
          qed (use True some Some files Ok rw ROk pr ok1 in \<open>simp add: rec\<close>)
        qed (use True some Some files Ok rw ok1 returns in \<open>auto simp: rec\<close>)
      qed (use True some Some files ok wal_open_not_Panic in \<open>simp_all add: rec\<close>)
    qed (use True some ok in \<open>simp add: rec\<close>)
  qed (use True ok in \<open>simp add: rec\<close>)
qed

lemma partition_for_world_None:
  assumes "om_wf (rt_partitions rt)"
  shows "partition_for_world rt x = None \<longleftrightarrow> (\<forall>p j. bound_to rt p \<noteq> Some (x, j))"
  using om_get_mem [OF assms] by (fastforce simp: partition_for_world_def find_None_iff bound_to_def)

lemma partition_for_world_Some:
  assumes "om_wf (rt_partitions rt)" "partition_for_world rt x = Some p"
  shows "\<exists>j. bound_to rt p = Some (x, j)"
proof -
  obtain r where "find (\<lambda>(_, r). ro_world r = x) (rt_partitions rt) = Some (p, r)" using assms(2) by (auto simp: partition_for_world_def)
  then have "(p, r) \<in> set (rt_partitions rt)" "ro_world r = x" by (auto simp: find_Some_iff dest: nth_mem)
  then show ?thesis using om_get_mem [OF assms(1), of p r] by (auto simp: bound_to_def)
qed

lemma register_keeps_ok:
  assumes ok: "rt_ok rt" and free: "partition_for_world rt world = None"
  shows "rt_ok (snd (register_partition part world rt))"
proof (cases "ensure_running rt = ROk () \<and> om_get (rt_partitions rt) part = None \<and> world_get rt world \<noteq> None")
  case False
  then show ?thesis
    using ok ensure_running_cases [of rt] by (cases "world_get rt world") (auto simp: register_partition_def)
next
  case True
  then obtain e where e: "world_get rt world = Some e" by blast
  define rt1 where "rt1 = propagate_topology ((world_set world (e\<lparr>we_world := set_partition part (we_world e)\<rparr>) rt)
    \<lparr>rt_topology := insort_insert part (rt_topology rt)\<rparr>)"
  define rt2 where "rt2 = rt1\<lparr>rt_partitions := om_put part (routing_new world (we_worker e)) (rt_partitions rt)\<rparr>"
  note d = rt_okD [OF ok]
  have get: "world_get rt2 y = map_option (\<lambda>e. e\<lparr>we_world := set_known_partitions (insort_insert part (rt_topology rt)) (we_world e)\<rparr>)
      (((world_get rt)(world \<mapsto> e\<lparr>we_world := set_partition part (we_world e)\<rparr>)) y)" for y
    by (simp add: rt2_def rt1_def world_get_routes world_get_propagate world_get_set [OF e])
  have f: "rt_workers rt2 = rt_workers rt" "rt_partitions rt2 = om_put part (routing_new world (we_worker e)) (rt_partitions rt)"
    "rt_topology rt2 = insort_insert part (rt_topology rt)" "rt_config rt2 = rt_config rt" "rt_events rt2 = rt_events rt"
    "length (rt_worlds rt2) = length (rt_worlds rt)"
    by (simp_all add: rt2_def rt1_def propagate_topology_def world_set_def)
  have "own_ok rt2"
  proof (rule own_register [OF d(4)])
    show "bound_to rt part = None" "owner_of rt world = Some (we_worker e)" using True e by (simp_all add: bound_to_def owner_of_def)
    show "\<forall>q j. bound_to rt q \<noteq> Some (world, j)" using partition_for_world_None [OF d(2)] free by blast
    show "owner_of rt2 = owner_of rt" using e by (auto simp: owner_of_def get fun_eq_iff option.map_comp comp_def)
    show "bound_to rt2 = (bound_to rt)(part \<mapsto> (world, we_worker e))"
      by (auto simp: bound_to_def f om_get_put [OF d(2)] fun_eq_iff routing_new_def)
  qed (use d in \<open>simp_all add: f held_by_def fun_eq_iff om_wf_put\<close>)
  moreover have "bounds_ok rt2"
    using d(3) e by (auto simp: bounds_ok_def get f queues_ok_def om_get_put [OF d(2)] routing_new_def split: if_splits)
  ultimately have ok2: "rt_ok rt2" by (simp add: rt_ok_def)
  have "register_partition part world rt = (ROk (), push_event (EvPartitionRegistered part world)
      (tally (\<lambda>m. m\<lparr>mt_partitions := length (rt_partitions rt2)\<rparr>) rt2))"
    using True e by (simp add: register_partition_def Let_def rt2_def rt1_def world_set_def propagate_topology_def)
  then show ?thesis using keeps_ok [OF keeps_then(2) [OF keeps_plain(1)] ok2] by simp
qed

lemma unregister_keeps_ok:
  assumes ok: "rt_ok rt"
  shows "rt_ok (snd (unregister_partition part rt)) \<and> fst (unregister_partition part rt) \<noteq> RPanic \<and>
    owner_of (snd (unregister_partition part rt)) = owner_of rt \<and>
    (ensure_running rt = ROk () \<longrightarrow> fst (unregister_partition part rt) = ROk () \<and>
      bound_to (snd (unregister_partition part rt)) = (bound_to rt)(part := None))"
proof (cases "ensure_running rt = ROk () \<and> om_get (rt_partitions rt) part \<noteq> None")
  case False
  then show ?thesis
    using ok ensure_running_cases [of rt] by (auto simp: unregister_partition_def bound_to_def fun_eq_iff)
next
  case True
  define rt1 where "rt1 = rt\<lparr>rt_partitions := om_del part (rt_partitions rt),
     rt_topology := filter (\<lambda>x. x \<noteq> part) (rt_topology rt), rt_sent_seq := om_del part (rt_sent_seq rt)\<rparr>"
  note d = rt_okD [OF ok]
  have get: "world_get rt1 = world_get rt" by (simp add: rt1_def fun_eq_iff world_get_def)
  have f: "rt_workers rt1 = rt_workers rt" "rt_partitions rt1 = om_del part (rt_partitions rt)"
    "rt_topology rt1 = filter (\<lambda>x. x \<noteq> part) (rt_topology rt)" "rt_config rt1 = rt_config rt" "rt_events rt1 = rt_events rt"
    "rt_worlds rt1 = rt_worlds rt" by (simp_all add: rt1_def)
  have o: "owner_of rt1 = owner_of rt" "bound_to rt1 = (bound_to rt)(part := None)"
    by (auto simp: owner_of_def bound_to_def get f fun_eq_iff om_get_del)
  have "own_ok rt1"
    by (rule own_unregister [OF d(4) o(1) _ o(2)]) (use d in \<open>simp_all add: f held_by_def fun_eq_iff om_wf_del\<close>)
  moreover have "bounds_ok rt1" using d(3) by (auto simp: bounds_ok_def get f om_get_del split: if_splits)
  ultimately have ok1: "rt_ok rt1" by (simp add: rt_ok_def)
  have u: "unregister_partition part rt = (ROk (), push_event (EvPartitionUnregistered part)
      (tally (\<lambda>m. m\<lparr>mt_partitions := length (rt_partitions (propagate_topology rt1))\<rparr>) (propagate_topology rt1)))"
    using True by (auto simp: unregister_partition_def Let_def rt1_def)
  have "keeps rt1 (snd (unregister_partition part rt))" unfolding u snd_conv by (intro keeps_then keeps_propagate)
  with ok1 o u show ?thesis by (simp add: keeps_def)
qed

text \<open>The binding of a world goes before the world does.\<close>

definition unbind :: "u64 \<Rightarrow> runtime \<Rightarrow> unit run_res \<times> runtime" where
  "unbind world rt = (case partition_for_world rt world of None \<Rightarrow> (ROk (), rt) | Some part \<Rightarrow> unregister_partition part rt)"

lemma unbind_ok:
  assumes ok: "rt_ok rt" and run: "ensure_running rt = ROk ()"
  shows "\<exists>rt1. unbind world rt = (ROk (), rt1) \<and> rt_ok rt1 \<and> owner_of rt1 = owner_of rt \<and> (\<forall>p j. bound_to rt1 p \<noteq> Some (world, j))"
proof (cases "partition_for_world rt world")
  case None
  then have "\<forall>p j. bound_to rt p \<noteq> Some (world, j)" using partition_for_world_None [OF rt_okD(2) [OF ok]] by blast
  with None ok show ?thesis by (simp add: unbind_def)
next
  case (Some p)
  obtain j where p: "bound_to rt p = Some (world, j)" using partition_for_world_Some [OF rt_okD(2) [OF ok] Some] by blast
  then have only: "q = p" if "bound_to rt q = Some (world, k)" for q k using rt_okD(4) [OF ok] that unfolding own_ok_def by blast
  obtain res rt1 where u: "unregister_partition p rt = (res, rt1)" by fastforce
  have "res = ROk ()" "rt_ok rt1" "owner_of rt1 = owner_of rt" "bound_to rt1 = (bound_to rt)(p := None)"
    using unregister_keeps_ok [OF ok, of p] run by (simp_all add: u)
  with only show ?thesis by (auto simp: unbind_def Some u)
qed

lemma owned_held:
  assumes ok: "rt_ok rt" and e: "world_get rt x = Some e"
  shows "\<exists>w. om_get (rt_workers rt) (we_worker e) = Some w"
proof -
  have "owner_of rt x = Some (we_worker e)" using e by (simp add: owner_of_def)
  then have "held_by rt (we_worker e) \<noteq> None" using rt_okD(4) [OF ok] unfolding own_ok_def by blast
  then show ?thesis by (simp add: held_by_def)
qed

lemma destroy_keeps_ok:
  assumes ok: "rt_ok rt"
  shows "rt_ok (snd (destroy_partition world rt)) \<and> fst (destroy_partition world rt) \<noteq> RPanic"
proof (cases "ensure_running rt = ROk ()")
  case False
  then show ?thesis using ok ensure_running_cases [of rt] by (auto simp: destroy_partition_def)
next
  case True
  obtain rt1 where u: "unbind world rt = (ROk (), rt1)" "rt_ok rt1" "\<forall>p j. bound_to rt1 p \<noteq> Some (world, j)"
    using unbind_ok [OF ok True] by blast
  note d = rt_okD [OF u(2)]
  let ?rt2 = "rt1\<lparr>rt_worlds := (rt_worlds rt1)[unat world := None]\<rparr>"
  have get: "world_get ?rt2 = (world_get rt1)(world := None)" using world_get_removed [of world rt1] by (simp add: world_remove_def)
  have des: "destroy_partition world rt = run_bind (run_or (UnknownPartition world) (world_get rt1 world)) ?rt2 (\<lambda>e.
      (case with_worker (we_worker e) (remove_world world) (keep_files world (we_wal e) (we_snapshots e) ?rt2) of (res, rt) \<Rightarrow>
        run_bind res rt (\<lambda>_. (ROk (), push_event (EvPartitionDestroyed world) rt))))"
    using u(1) unfolding unbind_def by (simp add: destroy_partition_def True world_remove_def)
  have same: "om_wf (rt_workers ?rt2)" "om_wf (rt_partitions ?rt2)" "bound_to ?rt2 = bound_to rt1" "held_by ?rt2 = held_by rt1"
    using d(1,2) by (simp_all add: bound_to_def held_by_def fun_eq_iff)
  have bounds: "bounds_ok ?rt2" using d(3) by (auto simp: bounds_ok_def get)
  show ?thesis
  proof (cases "world_get rt1 world")
    case None
    then have "owner_of ?rt2 = owner_of rt1" by (auto simp: owner_of_def get fun_eq_iff)
    with own_ok_cong [OF d(4) this same(4,3)] same bounds None show ?thesis by (simp add: des rt_ok_def)
  next
    case (Some e)
    obtain w where w: "om_get (rt_workers rt1) (we_worker e) = Some w" using owned_held [OF u(2) Some] by blast
    define rt3 where "rt3 = keep_files world (we_wal e) (we_snapshots e) ?rt2"
    define rt4 where "rt4 = rt3\<lparr>rt_workers := om_put (we_worker e) (remove_world world w) (rt_workers rt1)\<rparr>"
    have f: "rt_workers rt3 = rt_workers rt1" "rt_partitions rt3 = rt_partitions rt1" "rt_worlds rt3 = rt_worlds ?rt2"
      "world_get rt3 = (world_get rt1)(world := None)" by (simp_all add: rt3_def keep_files_fields world_get_more get)
    have g: "rt_topology rt3 = rt_topology rt1" "rt_config rt3 = rt_config rt1" "rt_events rt3 = rt_events rt1"
      by (simp_all add: rt3_def keep_files_def split: option.split)
    have get4: "world_get rt4 = (world_get rt1)(world := None)" by (simp add: rt4_def world_get_routes f)
    have "own_ok rt4"
    proof (rule own_remove [OF d(4)])
      show "owner_of rt1 world = Some (we_worker e)" "held_by rt1 (we_worker e) = Some (wk_worlds w)" using Some w by (simp_all add: owner_of_def held_by_def)
      show "owner_of rt4 = (owner_of rt1)(world := None)" by (auto simp: owner_of_def get4 fun_eq_iff)
      show "held_by rt4 = (held_by rt1)(we_worker e \<mapsto> filter (\<lambda>y. y \<noteq> world) (wk_worlds w))"
        by (auto simp: held_by_def rt4_def om_get_put [OF d(1)] fun_eq_iff remove_world_def)
    qed (use d u(3) in \<open>simp_all add: rt4_def f g bound_to_def fun_eq_iff om_wf_put\<close>)
    moreover have "bounds_ok rt4"
      using d(3) by (auto simp: bounds_ok_def get4) (auto simp: rt4_def f g)
    ultimately have "rt_ok rt4" by (simp add: rt_ok_def)
    moreover have "destroy_partition world rt = (ROk (), push_event (EvPartitionDestroyed world) rt4)"
      by (simp add: des Some with_worker_def f w rt4_def flip: rt3_def)
    ultimately show ?thesis using keeps_ok [OF keeps_plain(2)] by simp
  qed
qed

lemma reassign_keeps_ok:
  assumes ok: "rt_ok rt"
  shows "rt_ok (snd (reassign_partition world to rt)) \<and> fst (reassign_partition world to rt) \<noteq> RPanic"
proof (cases "ensure_running rt = ROk () \<and> (\<exists>t e. om_get (rt_workers rt) to = Some t \<and> wk_state t = WRunning \<and>
    world_get rt world = Some e \<and> we_worker e \<noteq> to)")
  case False
  then show ?thesis
    using ok ensure_running_cases [of rt]
    by (cases "om_get (rt_workers rt) to"; cases "world_get rt world") (auto simp: reassign_partition_def Let_def)
next
  case True
  then obtain t e where t: "om_get (rt_workers rt) to = Some t" "wk_state t = WRunning"
    and e: "world_get rt world = Some e" "we_worker e \<noteq> to" by blast
  note d = rt_okD [OF ok]
  let ?from = "we_worker e"
  obtain w where w: "om_get (rt_workers rt) ?from = Some w" using owned_held [OF ok e(1)] by blast
  define ws where "ws = om_put to (add_world world t) (om_put ?from (remove_world world w) (rt_workers rt))"
  define rt1 where "rt1 = world_set world (e\<lparr>we_worker := to\<rparr>) (rt\<lparr>rt_workers := ws\<rparr>)"
  define ps where "ps = (case partition_for_world rt world of None \<Rightarrow> rt_partitions rt
    | Some p \<Rightarrow> (case om_get (rt_partitions rt) p of None \<Rightarrow> rt_partitions rt
        | Some r \<Rightarrow> om_put p (r\<lparr>ro_worker := to\<rparr>) (rt_partitions rt)))"
  define rt2 where "rt2 = rt1\<lparr>rt_partitions := ps\<rparr>"
  have wf: "om_wf ws" "om_wf ps" using d(1,2) by (auto simp: ws_def ps_def om_wf_put split: option.split)
  have get: "world_get rt2 = (world_get rt)(world \<mapsto> e\<lparr>we_worker := to\<rparr>)"
    using world_get_set [of "rt\<lparr>rt_workers := ws\<rparr>" world e] e(1) by (simp add: rt2_def rt1_def world_get_routes)
  have f: "rt_workers rt2 = ws" "rt_partitions rt2 = ps" "rt_topology rt2 = rt_topology rt" "rt_config rt2 = rt_config rt"
    "rt_events rt2 = rt_events rt" "length (rt_worlds rt2) = length (rt_worlds rt)" by (simp_all add: rt2_def rt1_def world_set_def)
  have b: "bound_to rt2 q = map_option (\<lambda>(y, k). (y, if y = world then to else k)) (bound_to rt q)" for q
  proof (cases "partition_for_world rt world")
    case None
    then have "\<forall>k. bound_to rt q \<noteq> Some (world, k)" using partition_for_world_None [OF d(2)] by blast
    moreover have "bound_to rt2 q = bound_to rt q" by (simp add: bound_to_def f ps_def None)
    ultimately show ?thesis by (cases "bound_to rt q") auto
  next
    case (Some p)
    obtain j where j: "bound_to rt p = Some (world, j)" using partition_for_world_Some [OF d(2) Some] by blast
    then obtain r where r: "om_get (rt_partitions rt) p = Some r" "ro_world r = world" by (auto simp: bound_to_def)
    have "q = p" if "bound_to rt q = Some (world, k)" for k using d(4) that j unfolding own_ok_def by blast
    moreover have "bound_to rt2 = (bound_to rt)(p \<mapsto> (world, to))"
      by (auto simp: bound_to_def f ps_def Some r om_get_put [OF d(2)] fun_eq_iff)
    ultimately show ?thesis using j by (cases "bound_to rt q") auto
  qed
  have "own_ok rt2"
  proof (rule own_move [OF d(4)])
    show "owner_of rt world = Some ?from" "held_by rt ?from = Some (wk_worlds w)" "held_by rt to = Some (wk_worlds t)"
      using e w t by (simp_all add: owner_of_def held_by_def)
    show "owner_of rt2 = (owner_of rt)(world \<mapsto> to)" by (auto simp: owner_of_def get fun_eq_iff)
    show "held_by rt2 = (held_by rt)(?from \<mapsto> filter (\<lambda>y. y \<noteq> world) (wk_worlds w), to \<mapsto> insort_insert world (wk_worlds t))"
      using e(2) by (auto simp: held_by_def f ws_def om_get_put d(1) om_wf_put fun_eq_iff remove_world_def add_world_def)
  qed (use e(2) b wf in \<open>auto simp: f\<close>)
  moreover have "bounds_ok rt2"
    using d(3) e(1) by (auto simp: bounds_ok_def get f ps_def om_get_put [OF d(2)] queues_ok_def split: option.splits if_splits)
  ultimately have "rt_ok rt2" by (simp add: rt_ok_def)
  moreover have "reassign_partition world to rt = (ROk (), rt2)"
  proof -
    have p1: "partition_for_world rt1 world = partition_for_world rt world" "rt_partitions rt1 = rt_partitions rt"
      by (simp_all add: partition_for_world_def rt1_def world_set_def)
    have same: "rt1\<lparr>rt_partitions := rt_partitions rt\<rparr> = rt1" using p1(2) by (metis runtime.surjective runtime.update_convs(5))
    have "om_get (om_put ?from (remove_world world w) (rt_workers rt)) to = Some t" using t e(2) by (simp add: om_get_put [OF d(1)])
    with True t e w have "reassign_partition world to rt = (case partition_for_world rt1 world of None \<Rightarrow> (ROk (), rt1)
        | Some p \<Rightarrow> (case om_get (rt_partitions rt1) p of None \<Rightarrow> (ROk (), rt1)
            | Some r \<Rightarrow> (ROk (), rt1\<lparr>rt_partitions := om_put p (r\<lparr>ro_worker := to\<rparr>) (rt_partitions rt1)\<rparr>)))"
      by (simp add: reassign_partition_def with_worker_def Let_def rt1_def ws_def split: option.split)
    then show ?thesis by (simp add: p1 rt2_def ps_def same split: option.split)
  qed
  ultimately show ?thesis by simp
qed

section \<open>Every reachable runtime\<close>

text \<open>Every id is allowed where a world is created or recovered, as long as the call returns: the ids no vector has
  a slot for make it panic, and the runtime is gone. A world is bound to one partition at a time.\<close>

inductive operating :: "runtime_config \<Rightarrow> runtime \<Rightarrow> bool" for config where
  boot: "operating config rt" if "runtime_new disk dir_ok config = ROk rt" "rcf_worker_count config < 2 ^ 64"
| create: "operating config (snd (create_partition io world sim rt))"
    if "operating config rt" "fst (create_partition io world sim rt) \<noteq> RPanic"
| recover: "operating config (snd (recover_partition now world sim start rt))"
    if "operating config rt" "fst (recover_partition now world sim start rt) \<noteq> RPanic"
| start: "operating config (snd (start_partition world rt))" if "operating config rt"
| stop: "operating config (snd (stop_partition world rt))" if "operating config rt"
| destroy: "operating config (snd (destroy_partition world rt))" if "operating config rt"
| register: "operating config (snd (register_partition part world rt))"
    if "operating config rt" "partition_for_world rt world = None"
| unregister: "operating config (snd (unregister_partition part rt))" if "operating config rt"
| fail: "operating config (snd (fail_worker i rt))" if "operating config rt"
| reassign: "operating config (snd (reassign_partition world to rt))" if "operating config rt"
| snap: "operating config (snd (snapshot_partition io world rt))" if "operating config rt"
| input: "operating config (snd (submit_input world frame rt))" if "operating config rt"
| call: "operating config (snd (submit_reducer_call world request name args rt))" if "operating config rt"
| send: "operating config (snd (send_message from to kind payload rt))" if "operating config rt"
| tick: "operating config (snd (tick_once ios world rt))" if "operating config rt"
| step: "operating config (snd (step_outcomes ios rt))" if "operating config rt"
| subscribe: "operating config (snd (run_subscribe world q rt))" if "operating config rt"
| drain: "operating config (snd (run_drain world sid rt))" if "operating config rt"
| drain_all: "operating config (snd (run_drain_all world rt))" if "operating config rt"
| resync: "operating config (snd (run_resync world sid rt))" if "operating config rt"
| unsubscribe: "operating config (snd (run_unsubscribe world sid rt))" if "operating config rt"
| events: "operating config (snd (drain_events rt))" if "operating config rt"
| stopping: "operating config (snd (shutdown flush rt))" if "operating config rt"

lemma runtime_new_ok:
  assumes "runtime_new disk dir_ok config = ROk rt" "rcf_worker_count config < 2 ^ 64"
  shows "rt_ok rt"
proof -
  let ?ws = "map (\<lambda>i. (word_of_nat i :: u64, worker_new (word_of_nat i))) [0..<rcf_worker_count config]"
  have limit: "0 < rcf_event_limit config" and rt: "rt_config rt = config" "rt_workers rt = ?ws" "rt_worlds rt = []" "rt_partitions rt = []"
    "rt_topology rt = []" "rt_events rt = []"
    using assms(1) by (auto simp: runtime_new_def runtime_config_validate_def split: if_splits)
  have "sorted_wrt (<) (map word_of_nat [0..<n] :: u64 list)" if "n < 2 ^ 64" for n
    using that by (auto simp: sorted_wrt_iff_nth_less word_less_nat_alt unat_of_nat take_bit_nat_eq_self)
  then have wf: "om_wf ?ws" using assms(2) by (simp add: om_wf_def comp_def)
  have none: "world_get rt x = None" for x by (simp add: world_get_def rt)
  have held_by: "ws = []" if "held_by rt i = Some ws" for i ws
    using that by (auto simp: held_by_def rt dest!: map_of_SomeD) (simp add: worker_new_def)
  have "own_ok rt" using wf by (auto dest!: held_by simp: own_ok_def owner_of_def bound_to_def none rt dom_def)
  moreover have "bounds_ok rt" using limit by (simp add: bounds_ok_def rt none)
  ultimately show ?thesis by (simp add: rt_ok_def)
qed

lemmas kept = create_cases [THEN conjunct1, rule_format] recover_cases [THEN conjunct1, rule_format] register_keeps_ok unregister_keeps_ok [THEN conjunct1] destroy_keeps_ok [THEN conjunct1]
  reassign_keeps_ok [THEN conjunct1] keeps_ok [OF start_keeps] keeps_ok [OF stop_keeps] keeps_ok [OF fail_worker_keeps]
  keeps_ok [OF snapshot_keeps] keeps_ok [OF submit_input_keeps] keeps_ok [OF submit_call_keeps] keeps_ok [OF send_keeps]
  keeps_ok [OF tick_once_keeps] keeps_ok [OF step_outcomes_keeps] keeps_ok [OF on_registry_keeps] keeps_ok [OF shutdown_keeps]

lemma operating_ok: "operating config rt \<Longrightarrow> rt_ok rt"
proof (induction rule: operating.induct)
  case (boot disk dir_ok rt)
  then show ?case by (rule runtime_new_ok)
next
  case (events rt)
  then show ?case using keeps_ok [OF keeps_plain(7)] by (simp add: drain_events_def)
qed (auto simp: run_subscribe_def run_drain_def run_drain_all_def run_resync_def run_unsubscribe_def intro: kept)

section \<open>The guarded panics\<close>

lemma fail_worlds_ok: "(\<forall>x \<in> set xs. world_get rt x \<noteq> None) \<Longrightarrow> fst (fail_worlds xs rt) = ROk ()"
proof (induction xs arbitrary: rt)
  case (Cons x xs)
  then obtain e where e: "world_get rt x = Some e" by auto
  have "world_get (push_event ev (tally f (world_set x e' rt))) y \<noteq> None" if "world_get rt y \<noteq> None" for ev f e' y
    using that world_get_set [OF e] by (simp add: world_get_more)
  then show ?case using Cons e by simp
qed simp

lemma held_worlds:
  assumes ok: "rt_ok rt" and w: "om_get (rt_workers rt) i = Some w"
  shows "distinct (wk_worlds w)" "x \<in> set (wk_worlds w) \<longleftrightarrow> owner_of rt x = Some i"
proof -
  have "held_by rt i = Some (wk_worlds w)" using w by (simp add: held_by_def)
  then show "distinct (wk_worlds w)" "x \<in> set (wk_worlds w) \<longleftrightarrow> owner_of rt x = Some i"
    using rt_okD(4) [OF ok] unfolding own_ok_def by blast+
qed

lemma fail_worker_no_panic:
  assumes "rt_ok rt"
  shows "fst (fail_worker i rt) \<noteq> RPanic"
proof (cases "om_get (rt_workers rt) i")
  case (Some w)
  have "\<forall>x \<in> set (wk_worlds w). world_get rt x \<noteq> None" using held_worlds(2) [OF assms Some] by (auto simp: owner_of_def)
  then have "fst (fail_worlds (wk_worlds w) (push_event (EvWorkerFailed i)
      (rt\<lparr>rt_workers := om_put i (w\<lparr>wk_state := WFailed\<rparr>) (rt_workers rt)\<rparr>))) = ROk ()"
    by (intro fail_worlds_ok) (simp add: world_get_more world_get_routes)
  then show ?thesis using ensure_running_cases [of rt] by (auto simp: fail_worker_def Some)
qed (use ensure_running_cases [of rt] in \<open>auto simp: fail_worker_def\<close>)

lemma send_no_panic:
  assumes "rt_ok rt"
  shows "fst (send_message from to kind payload rt) \<noteq> RPanic"
proof (cases "om_get (rt_partitions rt) from")
  case (Some r)
  then have "bound_to rt from = Some (ro_world r, ro_worker r)" by (simp add: bound_to_def)
  then have "owner_of rt (ro_world r) = Some (ro_worker r)" using rt_okD(4) [OF assms] unfolding own_ok_def by blast
  then obtain e where e: "world_get rt (ro_world r) = Some e" by (auto simp: owner_of_def)
  have "partition_message_new from to tick seq kind payload \<noteq> Panic" for tick seq by (simp add: partition_message_new_def)
  then show ?thesis
    using ensure_running_cases [of rt]
    by (cases "om_get (rt_partitions rt) to"; cases "partition_message_new from to (pt_tick (we_world e))
          (case om_get (rt_sent_seq rt) from of Some n \<Rightarrow> n | None \<Rightarrow> 0) kind payload")
      (auto simp: send_message_def Some e Let_def)
qed (use ensure_running_cases [of rt] in \<open>auto simp: send_message_def\<close>)

section \<open>A step ticks every running world once\<close>

lemma concat_owned:
  assumes "distinct (map fst m)" "\<forall>(i, w) \<in> set m. distinct (wk_worlds w) \<and> (\<forall>x \<in> set (wk_worlds w). f x = Some i)"
  shows "distinct (concat (map (\<lambda>(_, w). wk_worlds w) m))"
  using assms
proof (induction m)
  case (Cons p m)
  obtain i w where p: "p = (i, w)" by fastforce
  have "f x \<noteq> Some i" if "x \<in> set (concat (map (\<lambda>(_, w). wk_worlds w) m))" for x
    using that Cons.prems by (force simp: p image_iff)
  then have "set (wk_worlds w) \<inter> set (concat (map (\<lambda>(_, w). wk_worlds w) m)) = {}" using Cons.prems(2) by (auto simp: p)
  with Cons show ?case by (simp add: p)
qed simp

lemma step_order_exact:
  assumes ok: "rt_ok rt"
  shows "distinct (step_order rt)" "x \<in> set (step_order rt) \<longleftrightarrow> world_get rt x \<noteq> None"
proof -
  have mem: "om_get (rt_workers rt) i = Some w" if "(i, w) \<in> set (rt_workers rt)" for i w
    using om_get_mem [OF rt_okD(1) [OF ok]] that by blast
  show "distinct (step_order rt)"
    unfolding step_order_def
    by (rule concat_owned [where f = "owner_of rt", OF om_wf_distinct [OF rt_okD(1) [OF ok]]]) (use held_worlds [OF ok mem] in auto)
  show "x \<in> set (step_order rt) \<longleftrightarrow> world_get rt x \<noteq> None"
  proof
    assume "x \<in> set (step_order rt)"
    then obtain i w where "(i, w) \<in> set (rt_workers rt)" "x \<in> set (wk_worlds w)" by (auto simp: step_order_def)
    then show "world_get rt x \<noteq> None" using held_worlds(2) [OF ok mem] by (fastforce simp: owner_of_def)
  next
    assume "world_get rt x \<noteq> None"
    then obtain e where e: "world_get rt x = Some e" by blast
    obtain w where w: "om_get (rt_workers rt) (we_worker e) = Some w" using owned_held [OF ok e] by blast
    then have "x \<in> set (wk_worlds w)" using held_worlds(2) [OF ok w] e by (simp add: owner_of_def)
    then show "x \<in> set (step_order rt)" using map_of_SomeD [OF w] by (force simp: step_order_def)
  qed
qed

text \<open>The messages a world is given do not depend on what other worlds are given.\<close>

lemma find_bound:
  assumes ok: "rt_ok rt"
  shows "find (\<lambda>(_, r). ro_world r = x) (rt_partitions rt) = Some (p, r) \<longleftrightarrow>
    om_get (rt_partitions rt) p = Some r \<and> ro_world r = x"
proof
  assume "find (\<lambda>(_, r). ro_world r = x) (rt_partitions rt) = Some (p, r)"
  then have "(p, r) \<in> set (rt_partitions rt)" "ro_world r = x" by (auto simp: find_Some_iff dest: nth_mem)
  then show "om_get (rt_partitions rt) p = Some r \<and> ro_world r = x" using om_get_mem [OF rt_okD(2) [OF ok]] by blast
next
  assume r: "om_get (rt_partitions rt) p = Some r \<and> ro_world r = x"
  then have "(p, r) \<in> set (rt_partitions rt)" by (auto dest: map_of_SomeD)
  with r have "find (\<lambda>(_, r). ro_world r = x) (rt_partitions rt) \<noteq> None" unfolding find_None_iff by force
  then obtain q s where f: "find (\<lambda>(_, r). ro_world r = x) (rt_partitions rt) = Some (q, s)" by auto
  then have "(q, s) \<in> set (rt_partitions rt)" "ro_world s = x" by (auto simp: find_Some_iff dest: nth_mem)
  then have s: "om_get (rt_partitions rt) q = Some s" "ro_world s = x" using om_get_mem [OF rt_okD(2) [OF ok]] by blast+
  then have "bound_to rt q = Some (x, ro_worker s)" "bound_to rt p = Some (x, ro_worker r)" using r by (simp_all add: bound_to_def)
  then have "q = p" using rt_okD(4) [OF ok] unfolding own_ok_def by blast
  with f s r show "find (\<lambda>(_, r). ro_world r = x) (rt_partitions rt) = Some (p, r)" by simp
qed

lemma deliver_other:
  assumes ok: "rt_ok rt" and "x \<noteq> y"
  shows "fst (take_deliverable x t (snd (take_deliverable y u rt))) = fst (take_deliverable x t rt)"
proof -
  define rt1 where "rt1 = snd (take_deliverable y u rt)"
  have ok1: "rt_ok rt1" unfolding rt1_def using keeps_ok [OF keeps_deliver ok] .
  have same: "om_get (rt_partitions rt1) p = Some r \<and> ro_world r = x \<longleftrightarrow> om_get (rt_partitions rt) p = Some r \<and> ro_world r = x" for p r
  proof (cases "find (\<lambda>(_, r). ro_world r = y) (rt_partitions rt)")
    case (Some qs)
    obtain q s where qs: "qs = (q, s)" by fastforce
    have "om_get (rt_partitions rt) q = Some s" "ro_world s = y" using find_bound [OF ok] Some qs by blast+
    then show ?thesis
      using \<open>x \<noteq> y\<close> by (auto simp: rt1_def take_deliverable_def Some qs Let_def tally_def om_get_put [OF rt_okD(2) [OF ok]] split: if_splits)
  qed (simp add: rt1_def take_deliverable_def)
  have "find (\<lambda>(_, r). ro_world r = x) (rt_partitions rt1) = Some pr \<longleftrightarrow>
      find (\<lambda>(_, r). ro_world r = x) (rt_partitions rt) = Some pr" for pr
    using find_bound [OF ok] find_bound [OF ok1] same by (cases pr) blast
  then have "find (\<lambda>(_, r). ro_world r = x) (rt_partitions rt1) = find (\<lambda>(_, r). ro_world r = x) (rt_partitions rt)"
    by (metis option.exhaust)
  then show ?thesis
    unfolding rt1_def [symmetric] by (simp add: take_deliverable_def [of x] Let_def split: option.split prod.split)
qed

abbreviation inbox :: "runtime \<Rightarrow> u64 \<Rightarrow> world_entry \<Rightarrow> partition_message list" where
  "inbox rt x e \<equiv> fst (take_deliverable x (pt_tick (we_world e)) rt)"

lemma deliver_all_ok:
  assumes "rt_ok rt" "distinct xs" "\<forall>x \<in> set xs. world_get rt x \<noteq> None"
  shows "\<exists>ds rt'. deliver_all xs rt = (ROk ds, rt') \<and> world_get rt' = world_get rt \<and> rt_config rt' = rt_config rt \<and>
    fst ` set ds \<subseteq> set xs \<and>
    (\<forall>x e. x \<in> set xs \<longrightarrow> world_get rt x = Some e \<longrightarrow> we_state e = PRunning \<longrightarrow> batch_of ds x = inbox rt x e)"
  using assms
proof (induction xs arbitrary: rt)
  case (Cons x xs)
  then obtain e where e: "world_get rt x = Some e" by auto
  show ?case
  proof (cases "we_state e = PRunning")
    case False
    obtain ds rt1 where "deliver_all xs rt = (ROk ds, rt1)" "world_get rt1 = world_get rt" "rt_config rt1 = rt_config rt" "fst ` set ds \<subseteq> set xs"
      "\<forall>y f. y \<in> set xs \<longrightarrow> world_get rt y = Some f \<longrightarrow> we_state f = PRunning \<longrightarrow> batch_of ds y = inbox rt y f"
      using Cons.IH [of rt] Cons.prems by auto
    then show ?thesis using False e by auto
  next
    case True
    obtain batch rt1 where d: "take_deliverable x (pt_tick (we_world e)) rt = (batch, rt1)" by fastforce
    have rt1: "world_get rt1 = world_get rt" "rt_config rt1 = rt_config rt" "rt_ok rt1"
      using world_get_outcome(3) take_deliverable_config keeps_ok [OF keeps_deliver Cons.prems(1)] d by (metis snd_conv)+
    obtain ds rt2 where ds: "deliver_all xs rt1 = (ROk ds, rt2)" "world_get rt2 = world_get rt" "rt_config rt2 = rt_config rt"
      "fst ` set ds \<subseteq> set xs"
      "\<forall>y f. y \<in> set xs \<longrightarrow> world_get rt y = Some f \<longrightarrow> we_state f = PRunning \<longrightarrow> batch_of ds y = inbox rt1 y f"
      using Cons.IH [OF rt1(3)] Cons.prems by (auto simp: rt1)
    let ?ds = "if batch = [] then ds else (x, batch) # ds"
    have "x \<notin> fst ` set ds" using ds(4) Cons.prems(2) by auto
    then have "batch_of ?ds x = batch" by (auto simp: batch_of_def map_of_eq_None_iff [symmetric] dom_map_of_conv_image_fst split: option.split)
    moreover have "batch_of ?ds y = inbox rt y f" if "y \<in> set xs" "world_get rt y = Some f" "we_state f = PRunning" for y f
      using ds(5) that deliver_other [OF Cons.prems(1), of y x "pt_tick (we_world f)" "pt_tick (we_world e)"] d Cons.prems(2)
      by (auto simp: batch_of_def)
    ultimately have "\<forall>y f. y \<in> set (x # xs) \<longrightarrow> world_get rt y = Some f \<longrightarrow> we_state f = PRunning \<longrightarrow> batch_of ?ds y = inbox rt y f"
      using e d by auto
    moreover have "deliver_all (x # xs) rt = (ROk ?ds, rt2)" using True e d ds(1) by simp
    ultimately show ?thesis using ds(2-4) by (intro exI [of _ ?ds] exI [of _ rt2]) auto
  qed
qed simp

text \<open>The tick of a world in a step of the runtime.\<close>

abbreviation step_tick :: "(u64 \<Rightarrow> tick_io) \<Rightarrow> runtime \<Rightarrow> u64 \<Rightarrow> partition_message list \<Rightarrow> world_entry \<Rightarrow> world_outcome res \<times> world_entry" where
  "step_tick io rt x batch e \<equiv> tick_entry_collected (io x) (rcf_policy (rt_config rt)) (rcf_interval (rt_config rt)) x batch e"

lemma tick_worlds_ok:
  assumes "distinct xs" "\<forall>x \<in> set xs. world_get rt x \<noteq> None"
    and "\<And>x e. x \<in> set xs \<Longrightarrow> world_get rt x = Some e \<Longrightarrow> we_state e = PRunning \<Longrightarrow> fst (step_tick io rt x (batch_of ds x) e) \<in> range Ok"
  shows "\<exists>outs rt'. tick_worlds io ds xs rt = (ROk outs, rt') \<and> map fst outs = filter (is_running_world rt) xs \<and>
    (\<forall>x. x \<in> set xs \<longrightarrow> is_running_world rt x \<longrightarrow> (\<exists>out e'. step_tick io rt x (batch_of ds x) (the (world_get rt x)) = (Ok out, e') \<and>
       (x, out) \<in> set outs \<and> world_get rt' x = Some e')) \<and>
    (\<forall>x. \<not> (x \<in> set xs \<and> is_running_world rt x) \<longrightarrow> world_get rt' x = world_get rt x)"
  using assms
proof (induction xs arbitrary: rt)
  case (Cons x xs)
  then obtain e where e: "world_get rt x = Some e" by auto
  show ?case
  proof (cases "we_state e = PRunning")
    case False
    obtain outs rt' where "tick_worlds io ds xs rt = (ROk outs, rt')" "map fst outs = filter (is_running_world rt) xs"
      "\<forall>y. y \<in> set xs \<longrightarrow> is_running_world rt y \<longrightarrow> (\<exists>out e'. step_tick io rt y (batch_of ds y) (the (world_get rt y)) = (Ok out, e') \<and>
         (y, out) \<in> set outs \<and> world_get rt' y = Some e')"
      "\<forall>y. \<not> (y \<in> set xs \<and> is_running_world rt y) \<longrightarrow> world_get rt' y = world_get rt y"
      using Cons.IH [of rt] Cons.prems by auto
    moreover have "\<not> is_running_world rt x" using False e by (simp add: is_running_world_def)
    ultimately show ?thesis using False e by auto
  next
    case True
    obtain out e' where t: "step_tick io rt x (batch_of ds x) e = (Ok out, e')"
      using Cons.prems(3) [of x e] e True by (auto simp: prod_eq_iff)
    let ?rt = "world_set x e' rt"
    have x: "x \<notin> set xs" using Cons.prems(1) by simp
    have get: "world_get ?rt = (world_get rt)(x \<mapsto> e')" using world_get_set [OF e] .
    have same: "is_running_world ?rt y = is_running_world rt y" if "y \<noteq> x" for y using that by (simp add: is_running_world_def get)
    have cfg: "rt_config ?rt = rt_config rt" by (simp add: helper_config)
    obtain outs rt' where o: "tick_worlds io ds xs ?rt = (ROk outs, rt')" "map fst outs = filter (is_running_world ?rt) xs"
      "\<forall>y. y \<in> set xs \<longrightarrow> is_running_world ?rt y \<longrightarrow> (\<exists>out e'. step_tick io ?rt y (batch_of ds y) (the (world_get ?rt y)) = (Ok out, e') \<and>
         (y, out) \<in> set outs \<and> world_get rt' y = Some e')"
      "\<forall>y. \<not> (y \<in> set xs \<and> is_running_world ?rt y) \<longrightarrow> world_get rt' y = world_get ?rt y"
    proof (atomize_elim, rule Cons.IH)
      show "distinct xs" "\<forall>y \<in> set xs. world_get ?rt y \<noteq> None" using Cons.prems(1,2) by (auto simp: get)
      show "fst (step_tick io ?rt y (batch_of ds y) f) \<in> range Ok" if "y \<in> set xs" "world_get ?rt y = Some f" "we_state f = PRunning" for y f
        using that Cons.prems(3) [of y f] x unfolding cfg by (auto simp: get split: if_splits)
    qed
    have "filter (is_running_world ?rt) xs = filter (is_running_world rt) xs" by (rule filter_cong [OF refl]) (use same x in metis)
    then have "map fst ((x, out) # outs) = filter (is_running_world rt) (x # xs)"
      using o(2) e True by (simp add: is_running_world_def [of rt x])
    moreover have "tick_worlds io ds (x # xs) rt = (ROk ((x, out) # outs), rt')" using o(1) True e t by (simp add: tick_world_def)
    moreover have "\<exists>out' f. step_tick io rt y (batch_of ds y) (the (world_get rt y)) = (Ok out', f) \<and> (y, out') \<in> set ((x, out) # outs) \<and> world_get rt' y = Some f"
      if y: "y \<in> set (x # xs)" "is_running_world rt y" for y
    proof (cases "y = x")
      case True
      then show ?thesis using t e o(4) x get by auto
    next
      case False
      then show ?thesis using o(3) y same [OF False] get unfolding cfg by auto
    qed
    moreover have "world_get rt' y = world_get rt y" if "\<not> (y \<in> set (x # xs) \<and> is_running_world rt y)" for y
    proof -
      have "y \<noteq> x" using that e True by (auto simp: is_running_world_def)
      then show ?thesis using o(4) that same get by auto
    qed
    ultimately show ?thesis by blast
  qed
qed simp

lemma step_ticks_all:
  assumes ok: "rt_ok rt" and run: "rt_state rt = RtRunning"
    and tick: "\<And>x e. world_get rt x = Some e \<Longrightarrow> we_state e = PRunning \<Longrightarrow> fst (step_tick io rt x (inbox rt x e) e) \<in> range Ok"
  shows "\<exists>outs rt'. step_outcomes io rt = (ROk outs, rt') \<and> distinct (map fst outs) \<and> set (map fst outs) = {x. is_running_world rt x} \<and>
    (\<forall>x e. world_get rt x = Some e \<longrightarrow> we_state e = PRunning \<longrightarrow>
       (\<exists>out e'. step_tick io rt x (inbox rt x e) e = (Ok out, e') \<and> (x, out) \<in> set outs \<and> world_get rt' x = Some e')) \<and>
    (\<forall>x. \<not> is_running_world rt x \<longrightarrow> world_get rt' x = world_get rt x)"
proof -
  note order = step_order_exact [OF ok]
  obtain ds rt1 where d: "deliver_all (step_order rt) rt = (ROk ds, rt1)" "world_get rt1 = world_get rt" "rt_config rt1 = rt_config rt"
    "\<forall>x e. x \<in> set (step_order rt) \<longrightarrow> world_get rt x = Some e \<longrightarrow> we_state e = PRunning \<longrightarrow> batch_of ds x = inbox rt x e"
    using deliver_all_ok [OF ok order(1)] order(2) by auto
  have all: "batch_of ds x = inbox rt x e" if "world_get rt x = Some e" "we_state e = PRunning" for x e using d(4) order(2) that by auto
  have run1: "is_running_world rt1 = is_running_world rt" by (simp add: fun_eq_iff is_running_world_def d(2))
  obtain outs rt2 where t: "tick_worlds io ds (step_order rt) rt1 = (ROk outs, rt2)" "map fst outs = filter (is_running_world rt1) (step_order rt)"
    "\<forall>x. x \<in> set (step_order rt) \<longrightarrow> is_running_world rt1 x \<longrightarrow> (\<exists>out e'. step_tick io rt1 x (batch_of ds x) (the (world_get rt1 x)) = (Ok out, e') \<and>
       (x, out) \<in> set outs \<and> world_get rt2 x = Some e')"
    "\<forall>x. \<not> (x \<in> set (step_order rt) \<and> is_running_world rt1 x) \<longrightarrow> world_get rt2 x = world_get rt1 x"
  proof (atomize_elim, rule tick_worlds_ok [OF order(1)])
    show "\<forall>x \<in> set (step_order rt). world_get rt1 x \<noteq> None" using order(2) d(2) by simp
    show "fst (step_tick io rt1 x (batch_of ds x) e) \<in> range Ok" if "world_get rt1 x = Some e" "we_state e = PRunning" for x e
      using tick [of x e] all [of x e] that d(2,3) by simp
  qed
  let ?rt' = "fold (\<lambda>(_, out). apply_outcome out) outs rt2"
  have get: "world_get ?rt' = world_get rt2" by (rule world_get_fold) (simp add: world_get_outcome(2) split: prod.split)
  have mem: "x \<in> set (step_order rt)" if "is_running_world rt x" for x
    using that order(2) by (auto simp: is_running_world_def split: option.splits)
  have "set (map fst outs) = {x. is_running_world rt x}" unfolding t(2) run1 using mem by auto
  moreover have "distinct (map fst outs)" unfolding t(2) using order(1) by simp
  moreover have "\<exists>out e'. step_tick io rt x (inbox rt x e) e = (Ok out, e') \<and> (x, out) \<in> set outs \<and> world_get ?rt' x = Some e'"
    if e: "world_get rt x = Some e" "we_state e = PRunning" for x e
  proof -
    have r: "is_running_world rt x" using e by (simp add: is_running_world_def)
    from t(3) [unfolded run1 d(2,3), rule_format, OF mem [OF r] r] e(1) all [OF e] show ?thesis unfolding get by simp
  qed
  moreover have "world_get ?rt' x = world_get rt x" if "\<not> is_running_world rt x" for x using that t(4) unfolding run1 d(2) get by simp
  ultimately show ?thesis using run by (auto simp: step_outcomes_def ensure_running_def Let_def d(1) t(1))
qed

lemma step_no_panic:
  assumes ok: "rt_ok rt"
    and tick: "\<And>x e. world_get rt x = Some e \<Longrightarrow> we_state e = PRunning \<Longrightarrow> fst (step_tick io rt x (inbox rt x e) e) \<in> range Ok"
  shows "fst (step_outcomes io rt) \<noteq> RPanic"
proof (cases "rt_state rt = RtRunning")
  case True
  then show ?thesis using step_ticks_all [OF ok True tick] by auto
qed (simp add: step_outcomes_def ensure_running_def)

end
