(* ===== verification/Run_Examples.thy ===== *)
theory Run_Examples
  imports Run_Invariant Exec_Examples
begin

text \<open>A runtime with one worker over the example partition, and the first tick of its world.\<close>

definition ex_factory :: "u64 \<Rightarrow> table_store \<Rightarrow> partition_config \<Rightarrow> partition res" where
  "ex_factory world st sim =
     Ok (ex_partition\<lparr>pt_id := world, pt_store := (if next_table_id st = 0 then ex_store else st), pt_config := sim\<rparr>)"

definition ex_run_config :: "persistence_policy \<Rightarrow> runtime_config" where
  "ex_run_config persist =
     \<lparr>rcf_worker_count = 1, rcf_factory = ex_factory, rcf_persistence = persist, rcf_dir = True, rcf_max_inputs = 4,
      rcf_max_messages = 4, rcf_max_calls = 4, rcf_policy = FailWorld, rcf_interval = None, rcf_event_limit = 4\<rparr>"

definition ex_runtime :: "persistence_policy \<Rightarrow> (u64, u8 list \<times> directory) omap \<Rightarrow> runtime" where
  "ex_runtime persist disk = (case runtime_new disk True (ex_run_config persist) of ROk rt \<Rightarrow> rt)"

definition ex_io :: tick_io where
  "ex_io = \<lparr>io_append = IoOk, io_snapshot = SnapOk, io_now = 0\<rparr>"

definition ex_open :: open_io where
  "ex_open = \<lparr>oi_dir = True, oi_log = True, oi_now = 0\<rparr>"

definition ex_entry :: world_entry where
  "ex_entry = (world_entry_new ex_partition 0 (Some (wal_create 0 Sync)) (Some []))
     \<lparr>we_inputs := [], we_calls := ex_calls, we_state := PRunning, we_worker := 0\<rparr>"

text \<open>Two worlds with the limits of \<open>n\<close>, running, without persistence.\<close>

definition ex_two :: "nat \<Rightarrow> runtime" where
  "ex_two n =
     (let rt = snd (create_partition ex_open 0 (ex_limits n) (ex_runtime PersistNone []));
          rt = snd (create_partition ex_open 1 (ex_limits n) rt) in
      snd (start_partition 1 (snd (start_partition 0 rt))))"

lemma ex_runtime_fields:
  "ex_runtime persist disk =
     \<lparr>rt_config = ex_run_config persist, rt_state = RtRunning, rt_workers = [(0, worker_new 0)], rt_worlds = [], rt_partitions = [],
      rt_topology = [], rt_sent_seq = [], rt_assign = 0, rt_events = [], rt_metrics = metrics_empty, rt_disk = disk\<rparr>"
  by (simp add: ex_runtime_def runtime_new_def runtime_config_validate_def ex_run_config_def)

definition ex_two_entry :: "nat \<Rightarrow> u64 \<Rightarrow> world_entry" where
  "ex_two_entry n i = world_entry_new (ex_partition\<lparr>pt_id := i, pt_config := ex_limits n\<rparr>) 0 None None\<lparr>we_state := PRunning\<rparr>"

lemma ex_two_eq:
  "ex_two n =
     \<lparr>rt_config = ex_run_config PersistNone, rt_state = RtRunning,
      rt_workers = [(0, \<lparr>wk_id = 0, wk_state = WRunning, wk_worlds = [0, 1]\<rparr>)],
      rt_worlds = [Some (ex_two_entry n 0), Some (ex_two_entry n 1)], rt_partitions = [], rt_topology = [], rt_sent_seq = [],
      rt_assign = 2, rt_events = [EvPartitionCreated 0 0, EvPartitionCreated 1 0, EvPartitionStarted 0, EvPartitionStarted 1],
      rt_metrics = metrics_empty\<lparr>mt_creations := 2\<rparr>, rt_disk = []\<rparr>"
proof -
  have fac: "rcf_factory (ex_run_config PersistNone) i store_new (ex_limits n) = Ok (ex_partition\<lparr>pt_id := i, pt_config := ex_limits n\<rparr>)" for i
    by (simp add: ex_run_config_def ex_factory_def store_new_def ex_partition_def)
  have rest: "rcf_worker_count (ex_run_config PersistNone) = 1" "rcf_persistence (ex_run_config PersistNone) = PersistNone"
    "rcf_event_limit (ex_run_config PersistNone) = 4" by (simp_all add: ex_run_config_def)
  let ?rt = "\<lambda>ws es n evs m. \<lparr>rt_config = ex_run_config PersistNone, rt_state = RtRunning,
      rt_workers = [(0, \<lparr>wk_id = 0, wk_state = WRunning, wk_worlds = ws\<rparr>)], rt_worlds = es, rt_partitions = [], rt_topology = [],
      rt_sent_seq = [], rt_assign = n, rt_events = evs, rt_metrics = m, rt_disk = []\<rparr>"
  note create = create_partition_def ensure_running_def world_contains_def world_get_def fac rest assign_worker_def open_persistence_def
    persist_durability_def keep_files_def with_worker_def world_insert_def ensure_world_slot_def world_set_def push_event_def tally_def
    open_files_def isize_max_def add_world_def
  have c0: "create_partition ex_open 0 (ex_limits n) (ex_runtime PersistNone []) =
      (ROk (), ?rt [0] [Some (ex_two_entry n 0\<lparr>we_state := PCreated\<rparr>)] 1 [EvPartitionCreated 0 0] (metrics_empty\<lparr>mt_creations := 1\<rparr>))"
    by (simp add: create ex_runtime_fields worker_new_def ex_two_entry_def world_entry_new_def metrics_empty_def insort_insert_key_def)
  have c1: "create_partition ex_open 1 (ex_limits n)
        (?rt [0] [Some (ex_two_entry n 0\<lparr>we_state := PCreated\<rparr>)] 1 [EvPartitionCreated 0 0] (metrics_empty\<lparr>mt_creations := 1\<rparr>)) =
      (ROk (), ?rt [0, 1] [Some (ex_two_entry n 0\<lparr>we_state := PCreated\<rparr>), Some (ex_two_entry n 1\<lparr>we_state := PCreated\<rparr>)] 2
         [EvPartitionCreated 0 0, EvPartitionCreated 1 0] (metrics_empty\<lparr>mt_creations := 2\<rparr>))"
    by (simp add: create ex_two_entry_def world_entry_new_def metrics_empty_def insort_insert_key_def)
  have "ex_two_entry n i\<lparr>we_state := PRunning\<rparr> = ex_two_entry n i" for i by (simp add: ex_two_entry_def)
  then show ?thesis
    by (simp add: ex_two_def c0 c1 start_partition_def ensure_running_def world_get_def world_set_def push_event_def rest can_start_def)
qed

lemma ex_factory_wraps: "factory_wraps ex_factory world sim ex_store"
proof -
  have "next_table_id ex_store = 1" by code_simp
  then show ?thesis by (simp add: factory_wraps_def ex_factory_def store_new_def)
qed

lemma ex_entry_fields:
  "take_frame ex_entry = (input_frame_new 0, [])"
  "take (pc_max_reducer_calls_per_tick (pt_config ex_partition)) (we_calls ex_entry) = ex_calls"
  "we_world ex_entry = ex_partition" "we_wal ex_entry = Some (wal_create 0 Sync)" "we_snapshots ex_entry = Some []"
  by (simp_all add: ex_entry_def world_entry_new_def take_frame_def ex_partition_def ex_limits_def ex_calls_def Let_def)

text \<open>A runtime whose only world has been created, started and given a call.\<close>

definition ex_operating :: runtime where
  "ex_operating =
     (let rt = snd (create_partition ex_open 0 (ex_limits 5) (ex_runtime PersistSync []));
          rt = snd (start_partition 0 rt) in
      snd (submit_reducer_call 0 6 ''find'' [] (snd (submit_reducer_call 0 5 ''reject'' [] rt))))"

lemma ex_operating_fields:
  "rt_config ex_operating = ex_run_config PersistSync" "rt_state ex_operating = RtRunning" "rt_worlds ex_operating = [Some ex_entry]"
  "rt_partitions ex_operating = []" "step_order ex_operating = [0]"
proof -
  have fac: "rcf_factory (ex_run_config PersistSync) 0 store_new (ex_limits 5) = Ok ex_partition"
    by (simp add: ex_run_config_def ex_factory_def store_new_def ex_partition_def)
  have rest: "rcf_worker_count (ex_run_config PersistSync) = 1" "rcf_persistence (ex_run_config PersistSync) = PersistSync"
    "rcf_event_limit (ex_run_config PersistSync) = 4" "rcf_dir (ex_run_config PersistSync)" "rcf_max_calls (ex_run_config PersistSync) = 4"
    by (simp_all add: ex_run_config_def)
  let ?e = "world_entry_new ex_partition 0 (Some (wal_create 0 Sync)) (Some [])"
  let ?rt = "\<lambda>e evs m. \<lparr>rt_config = ex_run_config PersistSync, rt_state = RtRunning,
      rt_workers = [(0, \<lparr>wk_id = 0, wk_state = WRunning, wk_worlds = [0]\<rparr>)], rt_worlds = [Some e], rt_partitions = [], rt_topology = [],
      rt_sent_seq = [], rt_assign = 1, rt_events = evs, rt_metrics = m, rt_disk = []\<rparr>"
  obtain m where c: "create_partition ex_open 0 (ex_limits 5) (ex_runtime PersistSync []) = (ROk (), ?rt ?e [EvPartitionCreated 0 0] m)"
    by (simp add: create_partition_def ensure_running_def world_contains_def world_get_def fac rest assign_worker_def open_persistence_def
        persist_durability_def keep_files_def with_worker_def world_insert_def ensure_world_slot_def world_set_def push_event_def tally_def
        open_files_def isize_max_def add_world_def ex_runtime_fields worker_new_def insort_insert_key_def ex_open_def om_del_def)
  let ?e1 = "?e\<lparr>we_state := PRunning\<rparr>"
  have s: "start_partition 0 (?rt ?e [EvPartitionCreated 0 0] m) = (ROk (), ?rt ?e1 [EvPartitionCreated 0 0, EvPartitionStarted 0] m)"
    by (simp add: start_partition_def ensure_running_def world_get_def world_set_def push_event_def rest can_start_def world_entry_new_def)
  have call: "\<exists>m'. submit_reducer_call 0 i name [] (?rt e evs m) =
      (ROk (), ?rt (e\<lparr>we_calls := we_calls e @ [\<lparr>rcall_request = i, rcall_reducer = name, rcall_args = []\<rparr>]\<rparr>) evs m')"
    if "we_state e = PRunning" "length (we_calls e) < 4" "name \<noteq> []" for i name e evs m
    using that by (simp add: submit_reducer_call_def ensure_running_def reducer_call_new_def world_get_def world_set_def rest tally_def)
  let ?evs = "[EvPartitionCreated 0 0, EvPartitionStarted 0]"
  let ?c = "[\<lparr>rcall_request = 5, rcall_reducer = ''reject'', rcall_args = []\<rparr>]"
  have e1: "we_state ?e1 = PRunning" "we_calls ?e1 = []" by (simp_all add: world_entry_new_def)
  obtain m1 where m1: "submit_reducer_call 0 5 ''reject'' [] (?rt ?e1 ?evs m) = (ROk (), ?rt (?e1\<lparr>we_calls := ?c\<rparr>) ?evs m1)"
    using call [of ?e1 "''reject''" 5 ?evs m] e1 by auto
  have "?e1\<lparr>we_calls := ex_calls\<rparr> = ex_entry" by (simp add: ex_entry_def world_entry_new_def)
  then obtain m' where m': "submit_reducer_call 0 6 ''find'' [] (?rt (?e1\<lparr>we_calls := ?c\<rparr>) ?evs m1) = (ROk (), ?rt ex_entry ?evs m')"
    using call [of "?e1\<lparr>we_calls := ?c\<rparr>" "''find''" 6 ?evs m1] e1 by (auto simp: ex_calls_def)
  have op: "ex_operating = ?rt ex_entry ?evs m'" by (simp only: ex_operating_def Let_def c s m1 m' snd_conv)
  show "rt_config ex_operating = ex_run_config PersistSync" "rt_state ex_operating = RtRunning" "rt_worlds ex_operating = [Some ex_entry]"
    "rt_partitions ex_operating = []" "step_order ex_operating = [0]" unfolding op by (simp_all add: step_order_def)
qed

lemma ex_operating: "operating (ex_run_config PersistSync) ex_operating"
proof -
  have "runtime_new [] True (ex_run_config PersistSync) = ROk (ex_runtime PersistSync [])"
    by (simp add: ex_runtime_def runtime_new_def runtime_config_validate_def ex_run_config_def)
  then have "operating (ex_run_config PersistSync) (ex_runtime PersistSync [])"
    by (rule operating.boot) (simp add: ex_run_config_def)
  moreover from this have "fst (create_partition ex_open 0 (ex_limits 5) (ex_runtime PersistSync [])) \<noteq> RPanic"
    by (intro create_cases [OF operating_ok, THEN conjunct2, rule_format])
      (simp_all add: isize_max_def ex_runtime_fields ex_run_config_def ex_factory_def)
  ultimately show ?thesis
    unfolding ex_operating_def Let_def by (intro operating.call operating.start operating.create) simp_all
qed

lemma ex_serving: "serving ex_store 0 [] ex_entry (\<lambda>_. Map.empty)"
  unfolding ex_entry_def by (intro serving.queue serving.boot) (simp_all add: ex_partition_fields ex_store_plain)

lemma ex_tick:
  "\<exists>r p'. tick_with_calls (input_frame_new 0) [] ex_calls ex_partition = (Ticked r, p') \<and>
     tr_tx_id r = 0 \<and> tr_changes r = [change_insert 0 1 (ex_row 7 70) 0]"
proof -
  have "(case fst (tick_with_calls (input_frame_new 0) [] ex_calls ex_partition) of
      Ticked r \<Rightarrow> Some (tr_tx_id r, tr_changes r) | _ \<Rightarrow> None) = Some (0, [change_insert 0 1 (ex_row 7 70) 0])"
    by code_simp
  then show ?thesis
    by (cases "tick_with_calls (input_frame_new 0) [] ex_calls ex_partition") (auto split: tick_outcome.splits)
qed

lemma ex_tick_loggable: "tx_loggable (0, [change_insert 0 1 (ex_row 7 70) 0])"
  using ex_row_ok [unfolded ex_row_def]
  by (auto simp: tx_loggable_def change_ok_def change_insert_def payload_fits_def
      encode_change_def put_opt_row_def put_opt_version_def put_row_def ex_row_def put_column_type_def)

lemma ex_fits: "tick_fits ex_io None [] ex_entry"
proof -
  obtain r p' where "tick_with_calls (input_frame_new 0) [] ex_calls ex_partition = (Ticked r, p')"
    "tr_tx_id r = 0" "tr_changes r = [change_insert 0 1 (ex_row 7 70) 0]" using ex_tick by blast
  then show ?thesis
    using ex_partition_fields ex_wasm ex_room [of 1] ex_tick_loggable
    by (simp add: tick_fits_def Let_def ex_entry_fields)
qed

lemma ex_served:
  "\<exists>e. serving ex_store 0 [(0, [change_insert 0 1 (ex_row 7 70) 0])] e (\<lambda>_. Map.empty) \<and> we_wal e \<noteq> None \<and> we_snapshots e \<noteq> None"
proof -
  have io: "io_append ex_io = IoOk" by (simp add: ex_io_def)
  obtain out e where t: "tick_entry_collected ex_io FailWorld None 0 [] ex_entry = (Ok out, e)"
    using tick_entry_sound [OF serving_sound [OF ex_serving] ex_fits io] by blast
  obtain r p' where r: "tick_with_calls (input_frame_new 0) [] ex_calls ex_partition = (Ticked r, p')"
    "tr_tx_id r = 0" "tr_changes r = [change_insert 0 1 (ex_row 7 70) 0]" using ex_tick by blast
  have "wo_result out = Inr r"
    using t io by (auto simp: tick_entry_collected_def ex_entry_fields Let_def r(1) finish_tick_def append_tick_def wal_append_eq
        periodic_snapshot_def split: res.splits)
  with serving.tick [OF ex_serving ex_fits io t] r(2,3) have s: "serving ex_store 0 [(0, [change_insert 0 1 (ex_row 7 70) 0])] e (\<lambda>_. Map.empty)"
    by simp
  from serving_sound [OF s] s show ?thesis by (auto simp: entry_sound_def entry_durable_def)
qed

end
