(* ===== verification/Spec2Isabelle.thy ===== *)
theory Spec2Isabelle
  imports Nexum_Examples Nexum_Runs Storage_Columnar Sub_Examples Net_Codec Exec_Examples Run_Examples
begin

text \<open>
  Nexum is an embeddable, single-writer relational state engine for game servers, written as a
  workspace of Rust crates. This development models the crates that hold its state and make it
  transactional and durable, and proves the properties the code relies on.

  \<^bold>\<open>Parts of the program and where they are modelled.\<close>

  \<^item> \<^verbatim>\<open>nexum-core\<close>: ids, versions, values, rows and change kinds (\<open>Core_Value\<close>), schemas and their builder
    (\<open>Core_Schema\<close>, \<^verbatim>\<open>schema.rs\<close>), the binary encoding (\<open>Core_Binary\<close>, \<^verbatim>\<open>binary.rs\<close>), CRC-32 (\<open>Core_Crc\<close>).
  \<^item> \<^verbatim>\<open>nexum-storage\<close>: change records and the authoritative rows of one table (\<open>Storage_Table\<close>,
    \<^verbatim>\<open>change.rs\<close>, \<^verbatim>\<open>table.rs\<close>), what a run of operations can do to versions and epochs
    (\<open>Storage_History\<close>), the encoding of a captured table (\<open>Storage_Snapshot\<close>, \<^verbatim>\<open>snapshot.rs\<close>), the
    columnar mirror (\<open>Storage_Columnar\<close>, \<^verbatim>\<open>columnar.rs\<close>).
  \<^item> \<^verbatim>\<open>nexum-table\<close>: indexes (\<open>Table_Index\<close>, \<^verbatim>\<open>index.rs\<close>), tables with indexes (\<open>Table_Engine\<close>,
    \<^verbatim>\<open>table.rs\<close>), the store of all tables (\<open>Table_Store\<close>, \<^verbatim>\<open>store.rs\<close>).
  \<^item> \<^verbatim>\<open>nexum-tx\<close>: the read set (\<open>Tx_Read_Set\<close>), the layered write set (\<open>Tx_Write_Set\<close>), the transaction
    handle and the commit algorithm (\<open>Tx_Transaction\<close>, \<^verbatim>\<open>transaction.rs\<close> and \<^verbatim>\<open>commit.rs\<close>), the proof that
    a validated commit succeeds and what it leaves (\<open>Tx_Commit\<close>), the invariant of a handle
    (\<open>Tx_Invariant\<close>).
  \<^item> \<^verbatim>\<open>nexum-wal\<close>: record and change encoding (\<open>Wal_Record\<close>), reading a log (\<open>Wal_Log\<close>), the log as a file
    with a position (\<open>Wal_Journal\<close>, all \<^verbatim>\<open>wal.rs\<close>), replaying changes (\<open>Wal_Replay\<close>, \<^verbatim>\<open>recovery.rs\<close>),
    snapshot files (\<open>Wal_Snapshot\<close>, \<^verbatim>\<open>snapshot.rs\<close>), recovery and its correctness for whole runs of a server
    (\<open>Wal_Recovery\<close>, \<^verbatim>\<open>recovery.rs\<close>).
  \<^item> \<^verbatim>\<open>nexum-subscription\<close>: queries, their compilation and the order of values (\<open>Sub_Query\<close>, \<^verbatim>\<open>query.rs\<close>,
    \<^verbatim>\<open>config.rs\<close>, \<^verbatim>\<open>matcher.rs\<close>), the incrementally maintained window of a query (\<open>Sub_View\<close>,
    \<^verbatim>\<open>subscription.rs\<close>), the order of its keys (\<open>Sub_Order\<close>), that one change moves the window and its updates
    exactly (\<open>Sub_Exact\<close>), members and the registry (\<open>Sub_Registry\<close>, \<^verbatim>\<open>registry.rs\<close>), rebuilding and following a
    commit (\<open>Sub_Mirror\<close>), the invariant of the registry (\<open>Sub_Invariant\<close>), runs of a store with
    its registry and clients (\<open>Sub_Observe\<close>), and a concrete run (\<open>Sub_Examples\<close>).
  \<^item> \<^verbatim>\<open>nexum-network\<close>: the wire protocol: frames and checked readers (\<open>Net_Wire\<close>), messages and payloads
    (\<open>Net_Protocol\<close>), that both ends agree (\<open>Net_Codec\<close>, all \<^verbatim>\<open>protocol.rs\<close>).
  \<^item> \<^verbatim>\<open>nexum-reducer\<close>: arguments and events with the inputs of a tick (\<open>Exec_Data\<close>, \<^verbatim>\<open>args.rs\<close>, \<^verbatim>\<open>event.rs\<close>), the
    context, the registry and the invocation of reducers (\<open>Exec_Reducer\<close>, \<^verbatim>\<open>context.rs\<close>, \<^verbatim>\<open>registry.rs\<close>). User code can
    only call its context, so a reducer is the tree of the calls it makes.
  \<^item> \<^verbatim>\<open>nexum-execution\<close>: the generator (\<open>Exec_Rng\<close>, \<^verbatim>\<open>rng.rs\<close>), the schedule, systems and their context
    (\<open>Exec_System\<close>, \<^verbatim>\<open>schedule.rs\<close>, \<^verbatim>\<open>systems.rs\<close>, \<^verbatim>\<open>context.rs\<close>), the plan, parallel groups and the tick (\<open>Exec_Tick\<close>,
    \<^verbatim>\<open>parallel.rs\<close>, \<^verbatim>\<open>config.rs\<close>, \<^verbatim>\<open>world.rs\<close>), what a tick does to the store (\<open>Exec_Exact\<close>), and a concrete tick
    (\<open>Exec_Examples\<close>).
  \<^item> \<^verbatim>\<open>nexum-runtime\<close>: errors, events, world entries and one tick of an entry with its log, snapshots and subscriptions
    (\<open>Run_World\<close>, \<^verbatim>\<open>error.rs\<close>, \<^verbatim>\<open>event.rs\<close>, \<^verbatim>\<open>world.rs\<close>), configuration, workers, routing and the runtime itself
    (\<open>Run_Runtime\<close>, \<^verbatim>\<open>config.rs\<close>, \<^verbatim>\<open>worker.rs\<close>, \<^verbatim>\<open>partition.rs\<close>, \<^verbatim>\<open>metrics.rs\<close>, \<^verbatim>\<open>runtime.rs\<close>), the life of a world
    (\<open>Run_Exact\<close>), its recovery (\<open>Run_Recover\<close>), the bookkeeping of the runtime (\<open>Run_Invariant\<close>) and a concrete runtime
    (\<open>Run_Examples\<close>).

  \<open>Nexum_Prelude\<close> holds the shared vocabulary: outcomes, ordered maps, loops that stop at the first
  failure, and the locale \<open>codec\<close>; \<open>Nexum_Examples\<close> a concrete store and transaction, \<open>Nexum_Runs\<close> a
  run of the system.

  \<^bold>\<open>How the code is represented.\<close> A fallible call returns a value, an error or a panic (\<open>'a res\<close>); an
  operation on \<^verbatim>\<open>&mut self\<close> returns its outcome with the new state, so what a failed operation leaves is
  visible. Structs are records, enums datatypes with the same cases, \<^verbatim>\<open>u8\<close> to \<^verbatim>\<open>u64\<close> are words and their
  arithmetic wraps, as in release builds. \<^verbatim>\<open>BTreeMap\<close> is an association list with strictly increasing
  keys, a \<^verbatim>\<open>HashMap\<close> that is only read by key a map, one that is iterated an association list with distinct
  keys in unspecified order. Strings are their UTF-8 bytes. Messages of errors are not modelled.
  \<^verbatim>\<open>Vec::with_capacity\<close> panics when the requested bytes exceed \<open>2 ^ 63 - 1\<close>; running out of memory below
  that bound is not modelled. Floats are their bit patterns, which is how the code compares and encodes
  them. A file is its bytes and the position of the handle; an append may fail after any number of
  bytes. File offsets are natural numbers.

  \<^bold>\<open>Interfaces.\<close> \<open>codec\<close> (a decoder reads back what the encoder wrote) is interpreted by every
  encoder/decoder pair and gives round trips of sequences and injectivity; \<open>key_index\<close> (lookup, insert and
  remove of an index) is interpreted by the unique and non-unique index and gives that an index mirrors
  the rows; \<open>comparator\<close> (a total comparison) is interpreted by the order of query keys and gives
  how removal, insertion and successor act on the delivered prefix of a window; \<open>wire_codec\<close> (a reader of the
  network boundary reads back what was written) follows from \<open>codec\<close> for the readers of \<^verbatim>\<open>nexum-core\<close> and is
  interpreted by those of the protocol; \<open>progress\<close> (a reflexive and transitive relation between the states before
  and after a step) is interpreted by the states of a tick and of a merge and by the bookkeeping of the runtime, and gives that loops
  over steps that never panic never panic.

  \<^bold>\<open>What is shown.\<close> Commits are atomic and do exactly the planned writes; what was read is still current
  when validation succeeds; finished transactions stay finished. Table operations keep rows and indexes
  consistent, fail without effect and never panic; lookups return exactly the matching rows. Codecs
  round-trip and refuse malformed input where they claim to; the table-driven checksum is the bit-serial
  one. A log cut at any byte, or with one byte of a record altered, recovers exactly the transactions in
  front of the damage; recovery from the
  snapshot directory and a log cut anywhere rebuilds the store some prefix of the commits had built, with
  at least every transaction that is completely in the log. Subscribers that apply the updates they
  are sent hold exactly the answer of their query on the committed store, views are shared and buffers
  bounded. Both ends of a connection decode the message that was encoded, detect damage, and the
  server survives any bytes a client sends. A tick, with whatever reducers, systems, messages and calls, is one
  committed transaction or leaves the tables as they were; a rejected call leaves no trace in it; parallel groups
  have disjoint footprints; the rejection loop of the generator ends. A world of the runtime keeps its log, its snapshots and its subscribers in
  step with its store through every tick, so that a crash loses nothing that was logged and subscribers hold
  the current answers; every reachable runtime has every world owned by exactly one worker and all queues within their
  limits, and a step ticks each running world once. Properties whose text describes a misbehaviour are
  counterexamples to what the code documents.

  \<^bold>\<open>Hypotheses.\<close> \<open>has_room\<close> and \<open>ids_left\<close>: 64-bit row-id counters do not wrap. \<open>store_plain\<close>: no secondary
  index is called \<^verbatim>\<open>primary\<close> (the builder accepts the name, and the result \<open>reserved_index_panics\<close> shows what follows).
  \<open>row_ok\<close>, \<open>schema_ok\<close>, \<open>state_ok\<close>, \<open>tx_loggable\<close>: sizes that an allocation and a 32-bit record length can
  hold. Runs with subscriptions assume windows of at least two rows (a limit of one misbehaves, as shown) and
  that no table is dropped, which nothing outside \<^verbatim>\<open>nexum-table\<close> does. \<open>wasm_total\<close>: a WebAssembly module, which is a
  parameter of the model, does not panic by itself, whatever its calls of the context answer; the engine documents
  traps, lack of fuel and malformed results as errors. That its calls do not panic on a sound store is proved. Native
  reducers and systems may panic. \<open>serving\<close>, the life of one world, starts with a fresh log and consists of ticks whose
  append to the log succeeds and that satisfy \<open>tick_fits\<close> (ids, rows, the record of the log and the snapshot fit, and
  \<open>wasm_total\<close>), queueing, changes of state, worker and routing, snapshots that may fail, and subscription operations with
  windows of at least two rows; what a failed append does is a property of its own. \<open>operating\<close>, the life of a runtime, consists of
  all operations of the runtime with any arguments, except that creating and recovering a world returns (ids of \<open>2 ^ 63 - 1\<close> and
  above have no slot in any vector, and the call panics) and that no world is bound to two partitions at once (what follows
  then is a property of its own). Loops need no fuel: they recurse over lists or on the unread part of a file.

  \<^bold>\<open>Not modelled.\<close> The gateway and the transports, the
  WebAssembly host, the manifest loader, macros, the client SDK and the game server: they
  drive the modelled crates through sockets, threads and files. Errors of the file system while the log is created, opened, measured, cut or read and while a directory is listed, the
  effect of fsync, and timestamps (a parameter) are outside the model.
\<close>

section \<open>Properties\<close>

text \<open>C1. A world of the runtime that was created with a fresh log lives through any sequence of ticks (committed or failed), queued inputs and calls, state changes, routing changes, snapshots (periodic or on demand, which may fail) and subscription operations, as long as every append to the log succeeds, subscriptions have windows of at least two rows, no WebAssembly module panics by itself, and ids, rows, log records and snapshots stay within their encodings. Every active subscriber then holds, with what is in its buffer, exactly the current answer of its query; and if the process dies with the log cut at any byte behind the header, a running runtime with a free worker that finds these files and does not hold the world yet (whose id is below the greatest possible slot) recovers the world: the recovered world holds the state after a prefix of the committed transactions that contains every transaction logged completely, and all of them when nothing was cut. The world factory is only relied on to fill an empty store and to leave a filled one alone.\<close>

theorem world_end_to_end:
  assumes "store_plain st0" and "serving st0 now txs e cl" and "we_wal e = Some w" and "we_snapshots e = Some dir"
    and "factory_wraps (rcf_factory (rt_config rt)) world sim st0"
    and "rt_state rt = RtRunning" and "world_get rt world = None"
    and "persist_durability (rcf_persistence (rt_config rt)) = Some durability"
    and "om_get (rt_disk rt) world = Some (take (header_len + k) (f_bytes (w_file w)), dir)"
    and "assign_worker rt = (ROk worker, rt1)" and "unat world < isize_max"
  shows "(\<exists>report rt' e' j st2. recover_partition now' world sim None rt = (ROk report, rt') \<and> world_get rt' world = Some e' \<and>
      j \<le> length txs \<and> (\<forall>m \<le> length txs. length (frames (log_records (take m txs))) \<le> k \<longrightarrow> m \<le> j) \<and>
      history st0 (take j txs) st2 \<and> (j = length txs \<longrightarrow> st2 = pt_store (we_world e)) \<and>
      store_covers st2 (pt_store (we_world e'))) \<and>
    (\<forall>sid s. om_get (rg_subs (we_subscriptions e)) sid = Some s \<longrightarrow> s_state s = SubActive \<longrightarrow>
      (\<exists>t cq. store_table (pt_store (we_world e)) (q_table (s_query s)) = Some t \<and>
        compile (pt_store (we_world e)) (s_query s) default_config = Ok cq \<and>
        client_run (s_buffer s) (cl sid) = Some (answer cq (query_cap default_config (s_query s)) (table_rows t))))"
proof
  note sound = serving_sound [OF assms(2)]
  have "running st0 now txs (pt_store (we_world e)) w dir" using sound assms(3,4) by (simp add: entry_sound_def entry_durable_def)
  from recover_world_running [OF assms(1) this assms(5), of now' durability k]
  obtain w1 p report w2 j st2 where r: "wal_open now' durability (Some (take (header_len + k) (f_bytes (w_file w)))) = Ok w1"
      "recover_world (rcf_factory (rt_config rt)) world sim dir w1 = (ROk (p, report), w2)"
      "j \<le> length txs" "\<forall>m \<le> length txs. length (frames (log_records (take m txs))) \<le> k \<longrightarrow> m \<le> j"
      "history st0 (take j txs) st2" "j = length txs \<longrightarrow> st2 = pt_store (we_world e)" "store_covers st2 (pt_store p)" by blast
  from recover_partition_ok [OF assms(6-11) r(1,2)] obtain rt' where
    "recover_partition now' world sim None rt = (ROk report, rt')"
    "world_get rt' world = Some (world_entry_new p worker (Some w2) (Some dir))" by blast
  with r(3-7) show "\<exists>report rt' e' j st2. recover_partition now' world sim None rt = (ROk report, rt') \<and> world_get rt' world = Some e' \<and>
      j \<le> length txs \<and> (\<forall>m \<le> length txs. length (frames (log_records (take m txs))) \<le> k \<longrightarrow> m \<le> j) \<and>
      history st0 (take j txs) st2 \<and> (j = length txs \<longrightarrow> st2 = pt_store (we_world e)) \<and>
      store_covers st2 (pt_store (we_world e'))"
    by (intro exI [of _ report] exI [of _ rt'] exI [of _ "world_entry_new p worker (Some w2) (Some dir)"] exI [of _ j] exI [of _ st2])
      (simp add: world_entry_new_def)
qed (use observed_answer observing_observed serving_sound [OF assms(2)] in \<open>fastforce simp: entry_sound_def\<close>)

theorem world_end_to_end_witness:
  "\<exists>e w report rt' e' j st2. serving ex_store 0 [(0, [change_insert 0 1 (ex_row 7 70) 0])] e (\<lambda>_. Map.empty) \<and> we_wal e = Some w \<and>
     recover_partition 1 0 (ex_limits 5) None (ex_runtime PersistSync [(0, (take (header_len + 40) (f_bytes (w_file w)), the (we_snapshots e)))])
       = (ROk report, rt') \<and> world_get rt' 0 = Some e' \<and> j \<le> 1 \<and>
     history ex_store (take j [(0, [change_insert 0 1 (ex_row 7 70) 0])]) st2 \<and> store_covers st2 (pt_store (we_world e'))"
proof -
  let ?txs = "[(0 :: u64, [change_insert 0 1 (ex_row 7 70) 0])]"
  obtain e w dir where e: "serving ex_store 0 ?txs e (\<lambda>_. Map.empty)" "we_wal e = Some w" "we_snapshots e = Some dir"
    using ex_served by blast
  let ?rt = "ex_runtime PersistSync [(0, (take (header_len + 40) (f_bytes (w_file w)), dir))]"
  have rt: "rt_state ?rt = RtRunning" "world_get ?rt 0 = None" "rt_config ?rt = ex_run_config PersistSync"
    "om_get (rt_disk ?rt) 0 = Some (take (header_len + 40) (f_bytes (w_file w)), dir)"
    "fst (assign_worker ?rt) = ROk 0"
    by (simp_all add: ex_runtime_fields assign_worker_def Let_def worker_new_def ex_run_config_def world_get_def)
  obtain rt1 where a: "assign_worker ?rt = (ROk 0, rt1)" using rt(5) by (cases "assign_worker ?rt") simp
  have "factory_wraps (rcf_factory (rt_config ?rt)) 0 (ex_limits 5) ex_store"
    "persist_durability (rcf_persistence (rt_config ?rt)) = Some Sync" "unat (0 :: u64) < isize_max"
    using ex_factory_wraps by (simp_all add: rt(3) ex_run_config_def persist_durability_def isize_max_def)
  from world_end_to_end [OF ex_store_plain e this(1) rt(1,2) this(2) rt(4) a this(3), of 1] obtain report rt' e' j st2 where
    "recover_partition 1 0 (ex_limits 5) None ?rt = (ROk report, rt')" "world_get rt' 0 = Some e'" "j \<le> length ?txs"
    "history ex_store (take j ?txs) st2" "store_covers st2 (pt_store (we_world e'))" by blast
  with e show ?thesis
    by (intro exI [of _ e] exI [of _ w] exI [of _ report] exI [of _ rt'] exI [of _ e'] exI [of _ j] exI [of _ st2]) simp
qed





text \<open>C4. A step of a running runtime gives every running world the messages that are due for its partition and ticks it exactly once: as long as none of these ticks panics, the step returns exactly one outcome for each running world, the one of its tick, and the world is afterwards in the state its own tick left it in; every other world is untouched, and no world appears or goes away.\<close>

theorem step_ticks_each_world_once:
  assumes "operating config rt" and "rt_state rt = RtRunning"
    and "\<forall>x e. world_get rt x = Some e \<longrightarrow> we_state e = PRunning \<longrightarrow>
      fst (tick_entry_collected (io x) (rcf_policy (rt_config rt)) (rcf_interval (rt_config rt)) x
        (fst (take_deliverable x (pt_tick (we_world e)) rt)) e) \<in> range Ok"
  shows "\<exists>outs rt'. step_outcomes io rt = (ROk outs, rt') \<and> distinct (map fst outs) \<and> set (map fst outs) = {x. is_running_world rt x} \<and>
    (\<forall>x e. world_get rt x = Some e \<longrightarrow> we_state e = PRunning \<longrightarrow>
      (\<exists>out e'. tick_entry_collected (io x) (rcf_policy (rt_config rt)) (rcf_interval (rt_config rt)) x
          (fst (take_deliverable x (pt_tick (we_world e)) rt)) e = (Ok out, e') \<and>
        (x, out) \<in> set outs \<and> world_get rt' x = Some e')) \<and>
    (\<forall>x. \<not> is_running_world rt x \<longrightarrow> world_get rt' x = world_get rt x)"
  using step_ticks_all [OF operating_ok [OF assms(1)] assms(2), of io] assms(3) by blast

theorem step_ticks_each_world_once_witness:
  "\<exists>outs rt' out e'. step_outcomes (\<lambda>_. ex_io) ex_operating = (ROk outs, rt') \<and> distinct (map fst outs) \<and> set (map fst outs) = {0} \<and>
     tick_entry_collected ex_io FailWorld None 0 [] ex_entry = (Ok out, e') \<and> (0, out) \<in> set outs \<and> world_get rt' 0 = Some e'"
proof -
  have get: "world_get ex_operating x = (if x = 0 then Some ex_entry else None)" for x
    by (simp add: world_get_def ex_operating_fields unat_eq_0)
  have running: "we_state ex_entry = PRunning" by (simp add: ex_entry_def)
  have cfg: "rcf_policy (rt_config ex_operating) = FailWorld" "rcf_interval (rt_config ex_operating) = None"
    "fst (take_deliverable x t ex_operating) = []" for x t
    by (simp_all add: ex_operating_fields ex_run_config_def take_deliverable_def)
  have "fst (tick_entry_collected ex_io FailWorld None 0 [] ex_entry) \<in> range Ok"
    using tick_entry_sound [OF serving_sound [OF ex_serving] ex_fits, of FailWorld 0] by (auto simp: ex_io_def)
  then have "\<forall>x e. world_get ex_operating x = Some e \<longrightarrow> we_state e = PRunning \<longrightarrow>
      fst (tick_entry_collected ((\<lambda>_. ex_io) x) (rcf_policy (rt_config ex_operating)) (rcf_interval (rt_config ex_operating)) x
        (fst (take_deliverable x (pt_tick (we_world e)) ex_operating)) e) \<in> range Ok"
    unfolding cfg by (auto simp: get)
  from step_ticks_each_world_once [OF ex_operating ex_operating_fields(2) this] obtain outs rt' where
    s: "step_outcomes (\<lambda>_. ex_io) ex_operating = (ROk outs, rt')" "distinct (map fst outs)"
      "set (map fst outs) = {x. is_running_world ex_operating x}" and
    t: "\<forall>x e. world_get ex_operating x = Some e \<longrightarrow> we_state e = PRunning \<longrightarrow>
      (\<exists>out e'. tick_entry_collected ex_io FailWorld None x [] e = (Ok out, e') \<and> (x, out) \<in> set outs \<and> world_get rt' x = Some e')"
    unfolding cfg by blast
  have "{x. is_running_world ex_operating x} = {0}" by (auto simp: is_running_world_def get running split: if_splits)
  moreover have "world_get ex_operating 0 = Some ex_entry" by (simp add: get)
  with t running obtain out e' where
    "tick_entry_collected ex_io FailWorld None 0 [] ex_entry = (Ok out, e')" "(0, out) \<in> set outs" "world_get rt' 0 = Some e'" by blast
  ultimately show ?thesis using s by blast
qed

text \<open>C5. A server runs any sequence of begins, commits (each appended to the log), buffer drains and snapshots (whose writes may fail at any point), and then crashes with the log cut at any byte behind the header. Reopening the log and recovering succeeds, and the recovered store has exactly the rows, versions, epochs and row-id counters of the store after the first j commits, where j counts at least every transaction completely in the log (all of them if nothing was cut: then it is the live store). The change buffers are empty, the next transaction id is above every recovered one, and the log is ready for further appends.\<close>

theorem recovery_correct:
  assumes "store_plain st0" and "running st0 now txs st w dir"
  shows "\<exists>w1 report w2 u j st2.
    wal_open now' policy (Some (take (header_len + k) (f_bytes (w_file w)))) = Ok w1 \<and>
    recover (Some dir) w1 (recovery_base dir st0) = (Ok report, w2, u) \<and>
    j \<le> length txs \<and> (\<forall>m \<le> length txs. length (frames (log_records (take m txs))) \<le> k \<longrightarrow> m \<le> j) \<and>
    history st0 (take j txs) st2 \<and> (j = length txs \<longrightarrow> st2 = st) \<and> store_covers st2 u \<and>
    fst (store_drain_changes u) = [] \<and> (\<forall>(tid, cs) \<in> set (take j txs). tid < next_transaction_id u) \<and>
    (\<exists>rs. log_state now rs w2)"
  using assms by (rule recover_running)

theorem recovery_correct_witness:
  "\<exists>w1 report w2 u. wal_open 1 Sync (Some (take (header_len + 1000) (f_bytes (w_file ex_wal)))) = Ok w1 \<and>
     recover (Some []) w1 (recovery_base [] ex_store) = (Ok report, w2, u) \<and> 0 < next_transaction_id u \<and>
     store_covers ex_after u"
proof -
  have small: "length (frames (log_records (take 1 [(0, ex_changes)]))) \<le> 1000"
    by (simp add: group_records_def ex_changes_def change_insert_def change_update_def encode_change_def
        put_opt_row_def put_opt_version_def put_row_def ex_row_def put_column_type_def write_record_def)
  obtain w1 report w2 u j st2 where r:
      "wal_open 1 Sync (Some (take (header_len + 1000) (f_bytes (w_file ex_wal)))) = Ok w1"
      "recover (Some []) w1 (recovery_base [] ex_store) = (Ok report, w2, u)" "j \<le> 1"
      "\<forall>m \<le> 1. length (frames (log_records (take m [(0, ex_changes)]))) \<le> 1000 \<longrightarrow> m \<le> j"
      "j = 1 \<longrightarrow> st2 = ex_after" "store_covers st2 u"
      "\<forall>(tid, cs) \<in> set (take j [(0, ex_changes)]). tid < next_transaction_id u"
    using recovery_correct [OF ex_store_plain ex_running, of 1 Sync 1000, unfolded list.size One_nat_def [symmetric] add_0]
    by blast
  have "j = 1" using r(3) r(4) [rule_format, of 1] small by simp
  with r show ?thesis by auto
qed

text \<open>C6. A store, its subscription registry and its clients run in any order: transactions commit and the registry is told of their changes, clients subscribe (with a window of at least two rows), drain their buffers one by one or all together, resynchronise and leave. In every reachable state, an active client that applies the updates still waiting in its buffer to the rows it already has never meets an insert of a row it has or an update or delete of one it lacks, and ends with exactly the answer of its query on the committed store: the matching rows that fewer than the window size of matching rows precede in the query order, projected.\<close>

theorem subscribers_see_answer:
  assumes "observing config st rg cl" and "om_get (rg_subs rg) sid = Some s" and "s_state s = SubActive"
  shows "\<exists>t cq. store_table st (q_table (s_query s)) = Some t \<and> compile st (s_query s) config = Ok cq \<and>
    client_run (s_buffer s) (cl sid) = Some (answer cq (query_cap config (s_query s)) (table_rows t))"
  using observed_answer [OF observing_observed [OF assms(1)] assms(2,3)] .

theorem subscribers_see_answer_witness:
  "\<exists>t cq. store_table ex_after ''units'' = Some t \<and> compile ex_after ex_query ex_config = Ok cq \<and>
     client_run ex_buffer Map.empty = Some (answer cq (query_cap ex_config ex_query) (table_rows t))"
proof -
  obtain s where s: "om_get (rg_subs ex_reg_after) 0 = Some s" "s_query s = ex_query" "s_state s = SubActive" "s_buffer s = ex_buffer"
    using ex_member_after by auto
  have "q_table ex_query = ''units''" by code_simp
  then show ?thesis using subscribers_see_answer [OF ex_observing s(1,3)] s by simp
qed

text \<open>C7. One tick is one transaction. A tick whose frame, messages or calls are refused leaves the partition as it was. Every other tick, on a store that is sound and has room for one more transaction id and the rows of the tick, and unless a WebAssembly module panics by itself (the engine turns traps and lack of fuel into errors), advances the tick counter and takes the due events from the schedule, never panics, and either fails leaving every table as it was (only a transaction id is used up) or commits exactly one transaction, the one whose id and changes the result reports, as one step of the history of the store; whatever native reducers (which may panic), systems, messages and calls the tick runs, and in both execution modes.\<close>

theorem tick_one_transaction:
  assumes "store_plain (pt_store p)" and "next_transaction_id (pt_store p) \<noteq> - 1" and "wasm_total (pt_wasm p)"
    and "has_room (pt_store p) (length (ws_entries (tx_writes (ts_tx (snd (tick_run p inputs delivered calls))))))"
    and "tick_with_calls inputs delivered calls p = (out, p')"
  shows "(\<exists>e. tick_gate p inputs delivered calls = Err e \<and> out = Tick_Failed (pt_tick p) e \<and> p' = p) \<or>
    tick_gate p inputs delivered calls = Ok () \<and> store_plain (pt_store p') \<and>
    p' = p\<lparr>pt_tick := pt_tick p + 1, pt_schedule := snd (take_due (pt_tick p) (pt_schedule p)), pt_store := pt_store p'\<rparr> \<and>
    ((\<exists>e. out = Tick_Failed (pt_tick p) e \<and> pt_store p' = snd (tx_begin (pt_store p))) \<or>
     (\<exists>r. out = Ticked r \<and> tr_tick r = pt_tick p \<and> tr_tx_id r = next_transaction_id (pt_store p) \<and>
        history (pt_store p) [(tr_tx_id r, tr_changes r)] (pt_store p')))"
proof (cases "tick_gate p inputs delivered calls")
  case (Ok u)
  note step = tick_with_calls_step [OF assms(1-3) _ assms(4,5)]
  have "store_plain (pt_store p')"
    using step Ok history_plain [OF _ assms(1)] history_plain_begin [OF assms(2)]
    by (fastforce simp: tick_step_def split: tick_outcome.splits)
  then show ?thesis using step Ok by (auto simp: tick_step_def split: tick_outcome.splits)
next
  case (Err e)
  then show ?thesis using assms(5) by (auto simp: tick_with_calls_def)
next
  case Panic
  then show ?thesis by (simp add: tick_gate_def Let_def split: if_splits)
qed

theorem tick_one_transaction_witness:
  "\<exists>r p'. tick_with_calls (input_frame_new 0) [] ex_calls ex_partition = (Ticked r, p') \<and> tr_changes r \<noteq> [] \<and>
     history ex_store [(tr_tx_id r, tr_changes r)] (pt_store p')"
proof -
  obtain out p' where t: "tick_with_calls (input_frame_new 0) [] ex_calls ex_partition = (out, p')" by fastforce
  have room: "has_room (pt_store ex_partition)
      (length (ws_entries (tx_writes (ts_tx (snd (tick_run ex_partition (input_frame_new 0) [] ex_calls))))))"
    unfolding ex_partition_fields(1,6) by (rule ex_room) simp
  have plain: "store_plain (pt_store ex_partition)" by (simp add: ex_partition_fields ex_store_plain)
  from tick_one_transaction [OF plain ex_partition_fields(3) ex_wasm room t] ex_ticked show ?thesis
    by (auto simp: t ex_partition_fields(1,5))
qed

text \<open>C8. Committing an active transaction never panics and is all or nothing: either an error is returned, the handle is Aborted and the store is exactly as before, or the changes are returned, the handle is Committed, the store invariant holds and every table holds exactly the planned rows, which the returned changes describe.\<close>

theorem commit_atomic:
  assumes "store_plain st" and "tx_wf tx" and "tx_state tx = Active"
    and "has_room st (length (ws_entries (tx_writes tx)))"
  shows "(\<exists>e. tx_commit tx st = (Err e, tx\<lparr>tx_state := Aborted\<rparr>, st)) \<or>
    (\<exists>cs st'. tx_commit tx st = (Ok cs, tx\<lparr>tx_state := Committed\<rparr>, st') \<and> store_wf st' \<and>
       (\<forall>tid. rel_option (committed (ws_entries (tx_writes tx)) cs tid)
          (table_by_id st tid) (table_by_id st' tid)))"
proof -
  have act: "ensure_active tx = Ok ()" using assms(3) by (simp add: ensure_active_def)
  note ws = tx_writes_wf [OF assms(2)]
  from commit_failed [OF assms(1) ws assms(4)] show ?thesis
  proof (elim disjE exE conjE)
    fix e assume "commit tx st = (Err e, st)"
    with act show ?thesis by (simp add: tx_commit_def)
  next
    assume "validate st tx = Ok ()"
    from commit_ok [OF assms(1) ws assms(4) this] obtain cs st' where
      "commit tx st = (Ok cs, st')" "store_wf st'"
      "\<forall>tid. rel_option (committed (ws_entries (tx_writes tx)) cs tid)
         (table_by_id st tid) (table_by_id st' tid)" by blast
    with act show ?thesis by (simp add: tx_commit_def)
  qed
qed

theorem commit_atomic_witness:
  "(\<exists>e. tx_commit ex_tx ex_store = (Err e, ex_tx\<lparr>tx_state := Aborted\<rparr>, ex_store)) \<or>
   (\<exists>cs st'. tx_commit ex_tx ex_store = (Ok cs, ex_tx\<lparr>tx_state := Committed\<rparr>, st') \<and> store_wf st' \<and>
      (\<forall>tid. rel_option (committed (ws_entries (tx_writes ex_tx)) cs tid)
         (table_by_id ex_store tid) (table_by_id st' tid)))"
  using commit_atomic [OF ex_store_plain ex_tx_wf ex_writes(4) ex_room] ex_writes(3) by simp

text \<open>C9. When validation accepts a transaction, commit returns its changes: no existence or uniqueness check of the apply phase can fail, deletions free their keys before the other writes need them, and table ids and transaction ids are not consumed.\<close>

theorem commit_validated_succeeds:
  assumes "store_plain st" and "ws_wf (tx_writes tx)"
    and "has_room st (length (ws_entries (tx_writes tx)))" and "validate st tx = Ok ()"
  shows "\<exists>cs st'. commit tx st = (Ok cs, st') \<and> store_wf st' \<and>
    next_table_id st' = next_table_id st \<and> next_transaction_id st' = next_transaction_id st \<and>
    (\<forall>tid t. table_by_id st tid = Some t \<longrightarrow> (\<exists>t'. table_by_id st' tid = Some t' \<and>
       (\<forall>rid < next_id t. table_get t' rid =
          (if ((tid, rid), WDelete) \<in> set (ws_entries (tx_writes tx)) then None
           else map_option (\<lambda>old. case om_get (ws_entries (tx_writes tx)) (tid, rid) of
                  Some (WUpdate r) \<Rightarrow> r | _ \<Rightarrow> old) (table_get t rid)))))"
proof -
  obtain cs st' where c: "commit tx st = (Ok cs, st')" "store_wf st'"
      "next_table_id st' = next_table_id st" "next_transaction_id st' = next_transaction_id st"
      and rel: "\<forall>tid. rel_option (committed (ws_entries (tx_writes tx)) cs tid)
        (table_by_id st tid) (table_by_id st' tid)"
    using commit_ok [OF assms] by blast
  have "\<exists>t'. table_by_id st' tid = Some t' \<and> committed (ws_entries (tx_writes tx)) cs tid t t'"
    if "table_by_id st tid = Some t" for tid t
    using rel [rule_format, of tid] that by (auto elim: option.rel_cases)
  with c show ?thesis unfolding committed_def deleted_def new_row_def by blast
qed

theorem commit_validated_succeeds_witness:
  "\<exists>cs st'. commit ex_tx ex_store = (Ok cs, st') \<and> store_wf st' \<and> next_transaction_id st' = next_transaction_id ex_store"
proof -
  have room: "has_room ex_store (length (ws_entries (tx_writes ex_tx)))" by (rule ex_room) (simp add: ex_writes(3))
  show ?thesis
    using commit_validated_succeeds [OF ex_store_plain ex_writes(1) room ex_valid] by blast
qed

text \<open>C10. Optimistic concurrency control is sound: if a row version (or a table epoch) was observed when the storage was s, and validation later accepts the transaction although any operations ran on the table in between, the row (or the whole row map) is still the observed one.\<close>

theorem occ_reads_stable:
  assumes "validate st tx = Ok ()" and "table_by_id st tid = Some t"
    and "tb_storage t = storage_run ops s" and "history_ok s (length ops)"
  shows "(((tid, rid), storage_version_of s rid) \<in> set (rs_entries (tx_reads tx)) \<longrightarrow>
      storage_get (tb_storage t) rid = storage_get s rid) \<and>
    ((tid, st_epoch s) \<in> set (rs_tables (tx_reads tx)) \<longrightarrow> storage_scan (tb_storage t) = storage_scan s)"
proof (intro conjI impI)
  assume "((tid, rid), storage_version_of s rid) \<in> set (rs_entries (tx_reads tx))"
  with validate_reads_current(1) [OF assms(1)] assms(2)
  have "table_version_of t rid = storage_version_of s rid" by fastforce
  with assms(3) have "storage_version_of (storage_run ops s) rid = storage_version_of s rid"
    by (simp add: table_version_of_def)
  from version_unchanged_row_unchanged [OF assms(4) this]
  show "storage_get (tb_storage t) rid = storage_get s rid" by (simp add: assms(3))
next
  assume "(tid, st_epoch s) \<in> set (rs_tables (tx_reads tx))"
  with validate_reads_current(2) [OF assms(1)] assms(2) have "table_epoch t = st_epoch s" by fastforce
  with assms(3) have "st_epoch (storage_run ops s) = st_epoch s" by (simp add: table_epoch_def)
  moreover have "length ops < 2 ^ 64" using assms(4) by (simp add: history_ok_def)
  ultimately show "storage_scan (tb_storage t) = storage_scan s"
    using epoch_unchanged_rows_unchanged by (simp add: storage_scan_def assms(3))
qed

theorem occ_reads_stable_witness:
  "storage_get (tb_storage ex_table_later) 0 = storage_get (tb_storage ex_table) 0"
proof -
  have "table_by_id ex_store_later 0 \<noteq> None" by code_simp
  then have t: "table_by_id ex_store_later 0 = Some ex_table_later" by (auto simp: ex_table_later_def)
  have v: "validate ex_store_later ex_tx = Ok ()" by code_simp
  have run: "tb_storage ex_table_later = storage_run [SInsert (ex_row 3 30)] (tb_storage ex_table)" by code_simp
  have hist: "history_ok (tb_storage ex_table) (length [SInsert (ex_row 3 30)])"
    using ex_table_wf by (simp add: history_ok_def ex_tables(1) [OF ex_table])
  have "((0, 0), storage_version_of (tb_storage ex_table) 0) = hd (rs_entries (tx_reads ex_tx))"
    "rs_entries (tx_reads ex_tx) \<noteq> []" by code_simp+
  then have "((0, 0), storage_version_of (tb_storage ex_table) 0) \<in> set (rs_entries (tx_reads ex_tx))" by simp
  with occ_reads_stable [OF v t run hist, of 0] show ?thesis by blast
qed

text \<open>C11. Insert, update, delete and add_index keep the table invariant: rows conform to the schema, row ids stay below the counter, and every index, the primary one included, mirrors exactly the keys of the live rows.\<close>

theorem table_ops_invariant:
  assumes "table_wf t" and "ids_left (tb_storage t)"
  shows "table_wf (snd (table_insert r t)) \<and> table_wf (snd (table_update rid r t)) \<and>
    table_wf (snd (table_delete rid t)) \<and> table_wf (snd (table_add_index def t)) \<and>
    table_wf (snd (table_drain_changes t))"
  using assms by (simp add: table_insert_wf table_update_wf table_delete_wf table_add_index_wf table_drain_wf)

theorem table_ops_invariant_witness:
  "table_wf (snd (table_insert (ex_row 2 20) ex_table)) \<and> table_wf (snd (table_delete 0 ex_table))"
proof -
  have "ids_left (tb_storage ex_table)" by (simp add: ids_left_def ex_tables(1) [OF ex_table])
  then show ?thesis using table_ops_invariant [OF ex_table_wf] by blast
qed

text \<open>C12. A committed or aborted transaction is final: whatever operations of the handle follow, in any order and on any store, its state and its id stay as they are, every commit of it is refused and leaves the store alone, and every operation except rollback leaves the handle exactly as it is. Rollback does not look at the state: it still replaces the buffered writes by those of its snapshot, which the rest of the code never looks at again.\<close>

theorem transaction_final:
  assumes "tx_step\<^sup>*\<^sup>* tx tx'" and "tx_state tx \<noteq> Active"
  shows "tx_state tx' = tx_state tx \<and> tx_id tx' = tx_id tx \<and>
    (\<forall>st. \<exists>e \<in> {AlreadyCommitted, AlreadyAborted}. tx_commit tx' st = (Err e, tx', st)) \<and>
    (\<forall>tx''. tx_call tx' tx'' \<longrightarrow> tx'' = tx') \<and>
    (\<forall>sn tx''. tx_rollback sn tx' = Ok tx'' \<longrightarrow> tx_state tx'' = tx_state tx' \<and> tx_id tx'' = tx_id tx' \<and> tx_writes tx'' = sn_writes sn)"
proof -
  have fin: "tx_state tx' = tx_state tx \<and> tx_id tx' = tx_id tx" using assms by (rule tx_steps_inactive)
  then have "tx_state tx' \<noteq> Active" using assms(2) by simp
  with fin inactive_commit tx_call_inactive show ?thesis by (auto dest: tx_rollback_fields)
qed

theorem transaction_final_witness:
  "let tx = snd (tx_abort ex_tx) in
   \<exists>tx'. tx_rollback (tx_snapshot_of (fst (tx_begin ex_store))) (snd (tx_delete ex_store ''units'' 0 tx)) = Ok tx' \<and>
     tx_state tx' = Aborted \<and> tx_writes tx' \<noteq> tx_writes tx \<and> fst (tx_commit tx' ex_store) \<in> {Err AlreadyCommitted, Err AlreadyAborted}"
proof -
  let ?tx = "snd (tx_abort ex_tx)" and ?sn = "tx_snapshot_of (fst (tx_begin ex_store))"
  let ?tx1 = "snd (tx_delete ex_store ''units'' 0 ?tx)"
  have state: "tx_state ?tx = Aborted" by code_simp
  have "is_ok (tx_rollback ?sn ?tx1)" by code_simp
  then obtain tx' where r: "tx_rollback ?sn ?tx1 = Ok tx'" by (auto simp: is_ok_iff)
  have "tx_step ?tx ?tx1" by (intro tx_step.call tx_call.intros)
  moreover have "tx_step ?tx1 tx'" using r by (rule tx_step.rollback)
  ultimately have run: "tx_step\<^sup>*\<^sup>* ?tx ?tx1" "tx_step\<^sup>*\<^sup>* ?tx tx'" by auto
  have "length (ws_entries (sn_writes ?sn)) \<noteq> length (ws_entries (tx_writes ?tx))" by code_simp
  moreover have "tx_writes tx' = sn_writes ?sn" using transaction_final [OF run(1)] state r by auto
  ultimately have "tx_writes tx' \<noteq> tx_writes ?tx" by auto
  moreover have "tx_state tx' = Aborted" "\<exists>e \<in> {AlreadyCommitted, AlreadyAborted}. tx_commit tx' ex_store = (Err e, tx', ex_store)"
    using transaction_final [OF run(2)] state by auto
  ultimately show ?thesis using r unfolding Let_def by (intro exI [of _ tx']) auto
qed

text \<open>C13. If one byte of the kind, payload or checksum of a record is altered, recovery returns exactly the transactions committed before that record and reports a torn tail; the altered record and everything behind it is never interpreted.\<close>

theorem wal_corruption_detected:
  assumes "f_bytes (w_file w) = header_bytes now @ frames rs @ (write_record kind payload)[i := b] @ rest"
    and "fitting rs" and "payload_fits payload" and "run_records header_len (None, []) rs = Ok (grp, txs)"
    and "4 \<le> i" and "i < length (write_record kind payload)" and "b \<noteq> write_record kind payload ! i"
  shows "fst (wal_recover_changes w) = Ok (txs, True)"
  using assms by (rule recover_altered)

theorem wal_corruption_detected_witness:
  "fst (wal_recover_changes ((wal_create 0 Flush)\<lparr>w_file :=
     \<lparr>f_bytes = header_bytes 0 @ frames [] @ (write_record kind_begin [])[4 := 9] @ [], f_pos = 0\<rparr>\<rparr>)) = Ok ([], True)"
proof (rule wal_corruption_detected [where now = 0 and rs = "[]" and rest = "[]" and grp = None and kind = kind_begin and payload = "[]" and i = 4 and b = 9])
  show "(9 :: u8) \<noteq> write_record kind_begin [] ! 4" by (simp add: write_record_def nth_append kind_begin_def)
qed (simp_all add: payload_fits_def)

text \<open>C14. Recovery of a log to which any transactions were appended returns exactly those transactions with their changes, in order, reports no torn tail, and leaves the log ready for the next append.\<close>

theorem wal_recovers_all:
  assumes "\<forall>tx \<in> set txs. tx_loggable tx"
  shows "\<exists>ts w'. wal_recover_changes (append_all txs (wal_create now policy)) = (Ok (ts, False), w') \<and>
    map (\<lambda>t. (rt_tx_id t, rt_changes t)) ts = txs \<and> log_state now (log_records txs) w'"
proof -
  have st: "log_state now (log_records txs) (append_all txs (wal_create now policy))"
    using append_all_state [OF wal_create_state assms] by simp
  have "run_records header_len (None, []) (log_records txs) = Ok (None, log_txs header_len txs)"
    using run_log [OF assms, of header_len "[]"] by simp
  from wal_recover_state [OF _ _ _ this, of "append_all txs (wal_create now policy)" now] st
  show ?thesis using log_txs_fields [of header_len txs] by (auto simp: log_state_def)
qed

theorem wal_recovers_all_witness:
  "\<exists>ts w'. wal_recover_changes (append_all [(3, [change_insert 0 1 (ex_row 1 2) 0]), (4, [])] (wal_create 0 Sync))
      = (Ok (ts, False), w') \<and> map (\<lambda>t. (rt_tx_id t, rt_changes t)) ts
      = [(3, [change_insert 0 1 (ex_row 1 2) 0]), (4, [])]"
proof -
  have "tx_loggable (3, [change_insert 0 1 (ex_row 1 2) 0])" "tx_loggable (4, [])"
    using ex_row_ok
    by (simp_all add: tx_loggable_def change_ok_def change_insert_def payload_fits_def encode_change_def
        put_opt_row_def put_opt_version_def put_row_def ex_row_def put_column_type_def)
  then show ?thesis
    using wal_recovers_all [of "[(3, [change_insert 0 1 (ex_row 1 2) 0]), (4, [])]" 0 Sync] by auto
qed

text \<open>C15. Invoking a reducer on a store never panics, whatever the reducer does. When it succeeds, the store made exactly one step: the commit of one transaction with the reported id and changes. When it is rejected, unknown, panics inside, or loses validation, every table is as it was.\<close>

theorem reducer_invoke_atomic:
  assumes "store_plain st" and "next_transaction_id st \<noteq> - 1"
    and "\<And>d. reducer_lookup_by_name reg name = Some d \<Longrightarrow>
      has_room st (length (ws_entries (tx_writes (snd (execute_against_tx (rd_execute d) args (snd (tx_begin st)) (fst (tx_begin st)))))))"
    and "reducer_invoke reg st name args = (out, st')"
  shows "(\<exists>e. out = Err e \<and> (st' = st \<or> st' = snd (tx_begin st))) \<or>
    (\<exists>r. out = Ok r \<and> rr_tx_id r = next_transaction_id st \<and> history st [(rr_tx_id r, rr_changes r)] st')"
  using assms(4) reducer_invoke_cases [OF assms(1-3)] by blast

theorem reducer_invoke_atomic_witness:
  "\<exists>r st'. reducer_invoke ex_registry ex_store ''grant'' [] = (Ok r, st') \<and> history ex_store [(rr_tx_id r, rr_changes r)] st'"
proof -
  obtain out st' where i: "reducer_invoke ex_registry ex_store ''grant'' [] = (out, st')" by fastforce
  have ok: "is_ok (fst (reducer_invoke ex_registry ex_store ''grant'' []))" by code_simp
  have room: "has_room ex_store (length (ws_entries (tx_writes
      (snd (execute_against_tx (rd_execute d) [] (snd (tx_begin ex_store)) (fst (tx_begin ex_store)))))))"
    if "reducer_lookup_by_name ex_registry ''grant'' = Some d" for d
  proof (rule ex_room)
    have "(case reducer_lookup_by_name ex_registry ''grant'' of Some d \<Rightarrow> length (ws_entries (tx_writes
      (snd (execute_against_tx (rd_execute d) [] (snd (tx_begin ex_store)) (fst (tx_begin ex_store)))))) | None \<Rightarrow> 0) = 1"
      by code_simp
    with that show "length (ws_entries (tx_writes
      (snd (execute_against_tx (rd_execute d) [] (snd (tx_begin ex_store)) (fst (tx_begin ex_store)))))) < 100" by simp
  qed
  have "next_transaction_id ex_store \<noteq> - 1" by code_simp
  from reducer_invoke_atomic [OF ex_store_plain this room i] ok i show ?thesis by auto
qed

text \<open>C16. A reducer call that is rejected inside a tick is undone: the transaction of the tick has the writes and the provisional row handles it had before the call, no event or message of the call is kept, the tick goes on, and the result list gains exactly one failure with the request and the error of the call.\<close>

theorem rejected_call_leaves_no_trace:
  assumes "tx_reach (ts_tx ts)" and "tx_state (ts_tx ts) = Active"
    and "invoke_reducer env (rcall_reducer c) (rcall_args c) (ts_tx ts) = (Err e, tx)"
  shows "\<exists>tx'. run_call env c ts = (Ok (), ts\<lparr>ts_tx := tx', ts_results := ts_results ts @ [call_err (rcall_request c) e]\<rparr>) \<and>
    tx_writes tx' = tx_writes (ts_tx ts) \<and> tx_provisional tx' = tx_provisional (ts_tx ts) \<and>
    tx_id tx' = tx_id (ts_tx ts) \<and> tx_state tx' = Active \<and>
    rs_insert_order (tx_reads tx') = rs_insert_order (tx_reads (ts_tx ts))"
  using rejected_call [OF _ assms(3)] assms(1,2) by (simp add: ts_good_def)

theorem rejected_call_leaves_no_trace_witness:
  "\<exists>tx'. run_call (exec_env_of ex_partition ex_store 0) (hd ex_calls) (ex_begun_tick\<lparr>ts_tx := ex_tx\<rparr>)
      = (Ok (), ex_begun_tick\<lparr>ts_tx := tx', ts_results := [call_err 5 InvalidArgument]\<rparr>) \<and> tx_writes tx' = tx_writes ex_tx"
proof -
  let ?env = "exec_env_of ex_partition ex_store 0" and ?ts = "ex_begun_tick\<lparr>ts_tx := ex_tx\<rparr>"
  have "fst (invoke_reducer ?env ''reject'' [] ex_tx) = Err InvalidArgument" by code_simp
  then obtain tx where i: "invoke_reducer ?env (rcall_reducer (hd ex_calls)) (rcall_args (hd ex_calls)) (ts_tx ?ts) = (Err InvalidArgument, tx)"
    by (cases "invoke_reducer ?env ''reject'' [] ex_tx") (simp add: ex_calls_def)
  have tx: "tx_reach (ts_tx ?ts)" "tx_state (ts_tx ?ts) = Active" by (simp_all add: ex_tx_reach ex_writes)
  from rejected_call_leaves_no_trace [OF tx i] show ?thesis
    by (auto simp: ex_calls_def ex_begun_tick_def)
qed

text \<open>C17. A committed tick reports exactly one result for every reducer call it was given, in the order of the calls.\<close>

theorem tick_answers_every_call:
  assumes "tick_with_calls inputs delivered calls p = (Ticked r, p')"
  shows "map cr_request (tr_reducer_results r) = map rcall_request calls"
  using assms by (rule ticked_results)

theorem tick_answers_every_call_witness:
  "\<exists>r p'. tick_with_calls (input_frame_new 0) [] ex_calls ex_partition = (Ticked r, p') \<and> map cr_request (tr_reducer_results r) = [5, 6]"
proof -
  obtain r p' where t: "tick_with_calls (input_frame_new 0) [] ex_calls ex_partition = (Ticked r, p')"
    using ex_ticked by (cases "tick_with_calls (input_frame_new 0) [] ex_calls ex_partition") (auto split: tick_outcome.splits)
  from tick_answers_every_call [OF t] t show ?thesis by (simp add: ex_calls_def)
qed

text \<open>C18. The plan of a parallel tick runs every system exactly once and in the order of the registry, its groups are not empty, and any two different members of a group have declared footprints that do not meet: no table written by one is read or written by the other; a system without a declared footprint runs alone.\<close>

theorem plan_runs_disjoint_groups:
  assumes "tick_plan st systems = Ok groups"
  shows "concat groups = [0..<length systems] \<and> (\<forall>g \<in> set groups. g \<noteq> [] \<and>
    (\<forall>i \<in> set g. \<forall>j \<in> set g. i \<noteq> j \<longrightarrow> footprints_apart st (systems ! i) (systems ! j)))"
  using tick_plan_order [OF assms] tick_plan_apart [OF assms] by (simp add: group_apart_def)

theorem plan_runs_disjoint_groups_witness:
  "tick_plan store_new [ex_system 1, ex_system 2] = Ok [[0, 1]] \<and> footprints_apart store_new (ex_system 1) (ex_system 2)"
proof -
  have "tick_plan store_new [ex_system 1, ex_system 2] = Ok [[0, 1]]" by code_simp
  from plan_runs_disjoint_groups [OF this] this show ?thesis by (fastforce simp: numeral_2_eq_2)
qed

text \<open>C19. A subscription can always be brought back: in every reachable state resynchronising a member, stale or not, succeeds, makes it active, and leaves a single snapshot in its buffer that gives any client the answer of its query. No other subscription changes in any way, and every view delivers the rows it delivered before.\<close>

theorem resync_recovers:
  assumes "observing config st rg cl" and "om_get (rg_subs rg) sid = Some s"
  shows "\<exists>rg' s' t cq ds. resync st sid rg = (Ok (), rg') \<and> is_stale rg' sid = Ok False \<and>
    om_get (rg_subs rg') sid = Some s' \<and> s_buffer s' = [UResync (rg_next_seq rg) ds] \<and>
    store_table st (q_table (s_query s')) = Some t \<and> compile st (s_query s') config = Ok cq \<and>
    row_map ds = answer cq (query_cap config (s_query s')) (table_rows t) \<and> observed config st rg' cl \<and>
    (\<forall>j. j \<noteq> sid \<longrightarrow> om_get (rg_subs rg') j = om_get (rg_subs rg) j) \<and>
    (\<forall>i w. view_in rg i w \<longrightarrow> (\<exists>w'. view_in rg' i w' \<and> visible_map w' = visible_map w))"
proof -
  obtain rg' s' ds where r: "resync st sid rg = (Ok (), rg')" "observed config st rg' cl"
    "om_get (rg_subs rg') sid = Some s'" "s_state s' = SubActive" "s_buffer s' = [UResync (rg_next_seq rg) ds]"
    "\<forall>j. j \<noteq> sid \<longrightarrow> om_get (rg_subs rg') j = om_get (rg_subs rg) j"
    "\<forall>i w. view_in rg i w \<longrightarrow> (\<exists>w'. view_in rg' i w' \<and> visible_map w' = visible_map w)"
    using resync_exact [OF observing_observed [OF assms(1)] assms(2)] by blast
  obtain t cq where "store_table st (q_table (s_query s')) = Some t" "compile st (s_query s') config = Ok cq"
    "client_run (s_buffer s') (cl sid) = Some (answer cq (query_cap config (s_query s')) (table_rows t))"
    using observed_answer [OF r(2-4)] by blast
  with r show ?thesis
    by (intro exI [of _ rg'] exI [of _ s'] exI [of _ t] exI [of _ cq] exI [of _ ds]) (simp add: is_stale_def ok_or_def)
qed

theorem resync_recovers_witness:
  "\<exists>rg'. resync ex_after 0 ex_reg_after = (Ok (), rg') \<and> is_stale rg' 0 = Ok False \<and>
     (\<forall>j. j \<noteq> 0 \<longrightarrow> om_get (rg_subs rg') j = om_get (rg_subs ex_reg_after) j)"
proof -
  obtain s where "om_get (rg_subs ex_reg_after) 0 = Some s" using ex_member_after by auto
  from resync_recovers [OF ex_observing this] show ?thesis by blast
qed

text \<open>C20. Interest management: in every reachable state no two live views have the same query, every subscription uses the view of its own query, the member count of a slot is the number of its members, and a view is live exactly as long as it has members, so a commit evaluates each distinct query once.\<close>

theorem views_shared:
  assumes "observing config st rg cl"
  shows "(\<forall>i j v w. view_in rg i v \<and> view_in rg j w \<and> v_query v = v_query w \<longrightarrow> i = j) \<and>
    (\<forall>sid s. om_get (rg_subs rg) sid = Some s \<longrightarrow> (\<exists>v. view_in rg (s_view s) v \<and> v_query v = s_query s)) \<and>
    (\<forall>i < length (rg_views rg). rg_counts rg ! i = length (members rg i) \<and> (rg_views rg ! i = None \<longleftrightarrow> rg_counts rg ! i = 0))"
proof -
  have ok: "reg_ok rg" using observing_observed [OF assms] by (simp add: observed_def)
  have slot: "rg_views rg ! i = None \<longleftrightarrow> members rg i = []" if i: "i < length (rg_views rg)" for i
  proof (cases "rg_views rg ! i")
    case None
    have "sid \<notin> set (members rg i)" for sid
    proof
      assume "sid \<in> set (members rg i)"
      then obtain s where s: "om_get (rg_subs rg) sid = Some s" "s_view s = i"
        using members_mem [of rg sid i] ok by (auto simp: reg_ok_def)
      from reg_ok_member [OF ok s(1)] s(2) None show False by (auto simp: member_ok_def view_in_def)
    qed
    then show ?thesis using None by (cases "members rg i") auto
  next
    case (Some v)
    then have "view_in rg i v" using i by (simp add: view_in_def)
    with ok Some show ?thesis by (auto simp: reg_ok_def)
  qed
  have counts: "rg_counts rg ! i = length (members rg i)" if "i < length (rg_views rg)" for i
    using ok that by (simp add: reg_ok_def)
  have "\<exists>v. view_in rg (s_view s) v \<and> v_query v = s_query s" if "om_get (rg_subs rg) sid = Some s" for sid s
    using reg_ok_member [OF ok that] by (simp add: member_ok_def)
  moreover have "\<forall>i j v w. view_in rg i v \<and> view_in rg j w \<and> v_query v = v_query w \<longrightarrow> i = j"
    using ok unfolding reg_ok_def by blast
  ultimately show ?thesis using slot counts by auto
qed

theorem views_shared_witness:
  "\<exists>s v. om_get (rg_subs ex_reg_after) 0 = Some s \<and> view_in ex_reg_after (s_view s) v \<and> v_query v = s_query s"
  using views_shared [OF ex_observing] ex_member_after by blast

text \<open>C21. No buffer of a subscription ever holds more updates than the configured maximum; a commit that does not fit makes the subscription stale with a single marker instead.\<close>

theorem subscription_buffers_bounded:
  assumes "observing config st rg cl" and "om_get (rg_subs rg) sid = Some s"
  shows "length (s_buffer s) \<le> max_buffered config \<and>
    (push_commit us seq s = s\<lparr>s_buffer := s_buffer s @ us\<rparr> \<or> push_commit us seq s = mark_stale seq s \<or>
     s_state s = SubStale \<and> push_commit us seq s = s) \<and>
    length (s_buffer (push_commit us seq s)) \<le> max_buffered config"
proof -
  have ok: "reg_ok rg" "rg_config rg = config" using observing_observed [OF assms(1)] by (simp_all add: observed_def)
  have m: "length (s_buffer s) \<le> s_max_buffered s" "s_max_buffered s = max_buffered config"
    using reg_ok_member [OF ok(1) assms(2)] ok(2) by (simp_all add: member_ok_def)
  have "delivers us s (push_commit us seq s)"
    using ok m by (intro push_commit_delivers) (simp_all add: reg_ok_def)
  then have "length (s_buffer (push_commit us seq s)) \<le> max_buffered config" using m by (simp add: delivers_def)
  moreover have "push_commit us seq s = s\<lparr>s_buffer := s_buffer s @ us\<rparr> \<or> push_commit us seq s = mark_stale seq s \<or>
     s_state s = SubStale \<and> push_commit us seq s = s"
    by (rule push_commit_cases [of s us seq]) simp_all
  ultimately show ?thesis using m by simp
qed

theorem subscription_buffers_bounded_witness:
  "\<exists>s. om_get (rg_subs ex_reg_after) 0 = Some s \<and>
     length (s_buffer (push_commit (ex_buffer @ ex_buffer) 1 s)) \<le> max_buffered ex_config"
  using subscription_buffers_bounded [OF ex_observing] ex_member_after by blast

text \<open>C22. Every well-formed message of a client (its strings and byte strings are valid and fit an allocation, a reducer call has a name that is not empty and arguments sorted by distinct names, a subscription has a query whose parts fit) is either refused by the encoder because its payload exceeds the configured maximum, or encoded as a frame that the server decodes to the same message; followed by any further bytes of the stream the frame is cut off at exactly its end, and while only a proper prefix of it has arrived the parser asks for more bytes.\<close>

theorem client_messages_roundtrip:
  assumes "client_ok msg"
  shows "(\<exists>frame. encode_client msg mx = WOk frame \<and> decode_client frame mx = WOk msg \<and>
      (\<forall>rest. net_parse_frame (frame @ rest) mx = WOk (Some (frame, length frame))) \<and>
      (\<forall>n < length frame. net_parse_frame (take n frame) mx = WOk None)) \<or>
    encode_client msg mx = WErr NetCapacity \<and> unat mx < length (snd (client_parts msg))"
  using assms by (rule client_roundtrip)

theorem client_messages_roundtrip_witness:
  "\<exists>frame. encode_client (CallReducer 7 ''spawn'' [(''hp'', VU64 5)]) 100 = WOk frame \<and>
     decode_client frame 100 = WOk (CallReducer 7 ''spawn'' [(''hp'', VU64 5)])"
proof -
  have ok: "client_ok (CallReducer 7 ''spawn'' [(''hp'', VU64 5)])"
  proof -
    have "utf8 ''spawn''" "utf8 ''hp''" by code_simp+
    then show ?thesis by (simp add: args_ok_def om_wf_def str_ok_def alloc_fits_def isize_max_def)
  qed
  have fits: "\<not> unat (100 :: u32) < length (snd (client_parts (CallReducer 7 ''spawn'' [(''hp'', VU64 5)])))" by code_simp
  show ?thesis using client_messages_roundtrip [OF ok, of 100] fits by blast
qed

text \<open>C23. Every message of the server whose optional parts agree with its flags (a successful result carries its value, an insert or update its row) and whose sequences fit an allocation is refused because of its size or encoded as a frame that the client decodes to the same message, cut off from a stream at exactly its end.\<close>

theorem server_messages_roundtrip:
  assumes "server_ok msg"
  shows "(\<exists>frame. encode_server msg mx = WOk frame \<and> decode_server frame mx = WOk msg \<and>
      (\<forall>rest. net_parse_frame (frame @ rest) mx = WOk (Some (frame, length frame))) \<and>
      (\<forall>n < length frame. net_parse_frame (take n frame) mx = WOk None)) \<or>
    encode_server msg mx = WErr NetCapacity \<and> unat mx < length (snd (server_parts msg))"
  using assms by (rule server_roundtrip)

theorem server_messages_roundtrip_witness:
  "\<exists>frame. encode_server (SubscriptionDeltaBatch 3 0 [\<lparr>de_seq = 9, de_kind = DDelete, de_row_id = 4, de_row = None\<rparr>]) 100 = WOk frame \<and>
     decode_server frame 100 = WOk (SubscriptionDeltaBatch 3 0 [\<lparr>de_seq = 9, de_kind = DDelete, de_row_id = 4, de_row = None\<rparr>])"
proof -
  let ?m = "SubscriptionDeltaBatch 3 0 [\<lparr>de_seq = 9, de_kind = DDelete, de_row_id = 4, de_row = None\<rparr>]"
  have ok: "server_ok ?m" by (simp add: delta_ok_def delta_row_ok_def alloc_fits_def isize_max_def)
  have fits: "\<not> unat (100 :: u32) < length (snd (server_parts ?m))" by code_simp
  show ?thesis using server_messages_roundtrip [OF ok, of 100] fits by blast
qed

text \<open>C24. Whatever bytes a client sends, decoding them as a client message returns a message or a protocol error; no count, length or tag in them makes the server panic.\<close>

theorem client_decode_total:
  "(\<exists>msg. decode_client frame mx = WOk msg) \<or> (\<exists>e. decode_client frame mx = WErr e)"
  using decode_client_total [of frame mx] by (cases "decode_client frame mx") simp_all

text \<open>C25. When one byte of the kind, the payload or the checksum of a frame is altered in transit, the receiver reports a checksum error instead of a message.\<close>

theorem frame_damage_detected:
  assumes "build_frame kind payload mx = WOk frame" and "6 \<le> i" "i < length frame" "i \<notin> {7..10}" and "b \<noteq> frame ! i"
  shows "decode_client (frame[i := b]) mx = WErr BadChecksum \<and> decode_server (frame[i := b]) mx = WErr BadChecksum"
proof -
  from assms(1) have "length payload \<le> unat mx" "frame = frame_of kind payload"
    by (simp_all add: build_frame_eq split: if_splits)
  with altered_frame [of payload mx i kind b] assms(2-5) have "decode_frame (frame[i := b]) mx = WErr BadChecksum" by simp
  then show ?thesis
    by (simp add: decode_client_def decode_server_def)
qed

theorem frame_damage_detected_witness:
  "\<exists>frame. build_frame 0x09 [] 0 = WOk frame \<and> decode_client (frame[6 := 0x08]) 0 = WErr BadChecksum"
proof -
  obtain frame where f: "build_frame 0x09 [] 0 = WOk frame" by (simp add: build_frame_eq)
  then have "frame = frame_of 0x09 []" by (simp add: build_frame_eq)
  then have "length frame = 15" "frame ! 6 = 0x09" by (simp_all add: length_frame_of frame_kind)
  then have "decode_client (frame[6 := 0x08]) 0 = WErr BadChecksum"
    using frame_damage_detected [OF f, of 6 8] by simp
  with f show ?thesis by blast
qed

text \<open>C26. The order in which queries compare and sort values is a total order that agrees with bit-exact equality: floats included, any two values are ordered, the order is antisymmetric and transitive, and Equal means the same value.\<close>

theorem value_order_total:
  "(value_cmp a b = Equal \<longleftrightarrow> a = b) \<and> (value_cmp a b = Greater \<longleftrightarrow> value_cmp b a = Less) \<and>
   (value_cmp a b = Less \<and> value_cmp b c = Less \<longrightarrow> value_cmp a c = Less)"
  by (auto simp: value_cmp_rank value_rank_inj)

theorem value_order_total_witness:
  "value_cmp (VF32 0xFF800000) (VF32 0x80000000) = Less \<and> value_cmp (VF32 0xFF800000) (VF32 0) = Less"
proof -
  have "value_cmp (VF32 0xFF800000) (VF32 0x80000000) = Less" "value_cmp (VF32 0x80000000) (VF32 0) = Less"
    by (simp_all add: value_cmp_def cmp_of_def f32_key_def)
  then show ?thesis using value_order_total [of "VF32 0xFF800000" "VF32 0x80000000" "VF32 0"] by blast
qed

text \<open>C27. A transaction sees its own writes: after a successful update or insert, get returns the new row, and an insert hands out a provisional row id.\<close>

theorem read_your_writes:
  assumes "tx_wf tx"
  shows "(tx_update st name rid r tx = (Ok (), tx') \<longrightarrow> fst (tx_get st name rid tx') = Ok (Some r)) \<and>
    (tx_insert st name r tx = (Ok h, tx') \<longrightarrow>
      fst (tx_get st name h tx') = Ok (Some r) \<and> is_provisional h)"
  using tx_update_visible [OF assms] tx_insert_visible [OF assms] by blast

theorem read_your_writes_witness:
  "fst (tx_get ex_store ''units'' 0 (snd (tx_update ex_store ''units'' 0 (ex_row 1 12) ex_tx)))
     = Ok (Some (ex_row 1 12))"
proof -
  have "fst (tx_update ex_store ''units'' 0 (ex_row 1 12) ex_tx) = Ok ()" by code_simp
  then have "tx_update ex_store ''units'' 0 (ex_row 1 12) ex_tx
      = (Ok (), snd (tx_update ex_store ''units'' 0 (ex_row 1 12) ex_tx))" by (simp add: prod_eq_iff)
  then show ?thesis using read_your_writes [OF ex_tx_wf] by blast
qed

text \<open>C28. Insert, update and delete on a well-formed table never panic, and when they return an error the table, its indexes and its change buffer are untouched; the error is InvalidArgument for a row that does not fit the schema, NotFound for a missing row and AlreadyExists exactly for a unique-key conflict.\<close>

theorem table_ops_fail_clean:
  assumes "table_wf t"
  shows "(\<not> row_conforms (table_schema_of t) r \<longrightarrow>
        table_insert r t = (Err InvalidArgument, t) \<and> table_update rid r t = (Err InvalidArgument, t)) \<and>
    (row_conforms (table_schema_of t) r \<longrightarrow>
        (insert_conflict t r \<longleftrightarrow> table_insert r t = (Err AlreadyExists, t)) \<and>
        (\<not> insert_conflict t r \<longleftrightarrow> fst (table_insert r t) = Ok (next_id t)) \<and>
        (table_get t rid = None \<longleftrightarrow> table_update rid r t = (Err NotFound, t)) \<and>
        (table_get t rid \<noteq> None \<longrightarrow>
          (if update_conflict t rid r then table_update rid r t = (Err AlreadyExists, t)
           else fst (table_update rid r t) = Ok ()))) \<and>
    (if table_get t rid = None then table_delete rid t = (Err NotFound, t)
     else fst (table_delete rid t) = Ok ())"
  by (auto simp: table_insert_eq [OF assms] table_update_eq [OF assms] table_delete_eq [OF assms]
      table_get_rows split: option.splits)

theorem table_ops_fail_clean_witness:
  "table_update 5 (ex_row 1 1) ex_table = (Err NotFound, ex_table)"
proof -
  have "row_conforms (table_schema_of ex_table) (ex_row 1 1)" "table_get ex_table 5 = None" by code_simp+
  then show ?thesis using table_ops_fail_clean [OF ex_table_wf, of "ex_row 1 1" 5] by blast
qed

text \<open>C29. Snapshotting all tables of a well-formed store and restoring them into an empty store succeeds and gives back, under each name, the storage of its table (schema, rows, versions, epoch and row-id counter) with an empty change buffer, no other table, both id counters of the store, and the store invariant, so that the rebuilt indexes mirror the rows.\<close>

theorem store_restore_exact:
  assumes "store_wf st"
  shows "\<exists>st'. store_restore (snapshot_tables st) (next_table_id st) (next_transaction_id st) store_new
        = (Ok (), st') \<and> store_wf st' \<and>
      next_table_id st' = next_table_id st \<and> next_transaction_id st' = next_transaction_id st \<and>
      (\<forall>name. map_option tb_storage (store_table st' name)
         = map_option (\<lambda>t. (tb_storage t)\<lparr>st_changes := []\<rparr>) (store_table st name))"
  using assms by (rule store_restore_capture)

theorem store_restore_exact_witness:
  "\<exists>st'. store_restore (snapshot_tables ex_store) (next_table_id ex_store) (next_transaction_id ex_store) store_new
      = (Ok (), st') \<and> store_wf st'"
  using store_restore_exact [OF ex_store_wf] by blast

text \<open>C30. A well-formed columnar mirror with fewer than 2^32 rows refines a finite map from row ids to rows: for rows with its number of columns, inserting an id it does not hold, updating one it holds and deleting any id (with its swap of the last slot) change exactly the one entry and keep the slot invariant, and get and version_of read the entry.\<close>

theorem columnar_refines:
  assumes "columnar_wf cs" and "row_len r = num_columns cs" and "length (slot_to_row_id cs) < 2 ^ 32"
  shows "(columnar_abs cs rid = None \<longrightarrow>
       columnar_abs (columnar_insert rid r v cs) = (columnar_abs cs)(rid \<mapsto> \<lparr>sr_row = r, sr_version = v\<rparr>) \<and>
       columnar_wf (columnar_insert rid r v cs)) \<and>
     (columnar_abs cs rid \<noteq> None \<longrightarrow>
       columnar_abs (columnar_update rid r v cs) = (columnar_abs cs)(rid \<mapsto> \<lparr>sr_row = r, sr_version = v\<rparr>)) \<and>
     columnar_wf (columnar_update rid r v cs) \<and>
     columnar_abs (columnar_delete rid cs) = (columnar_abs cs)(rid := None) \<and>
     columnar_wf (columnar_delete rid cs) \<and>
     columnar_get cs rid = map_option sr_row (columnar_abs cs rid) \<and>
     columnar_version_of cs rid = map_option sr_version (columnar_abs cs rid)"
  using assms
  by (simp add: columnar_abs_None columnar_insert_abs columnar_insert_wf columnar_update_abs columnar_update_wf
      columnar_delete_abs columnar_delete_wf columnar_reads_abs)

theorem columnar_refines_witness:
  "columnar_abs (columnar_insert 4 (ex_row 1 2) 0 (columnar_new 2))
     = (columnar_abs (columnar_new 2))(4 \<mapsto> \<lparr>sr_row = ex_row 1 2, sr_version = 0\<rparr>)"
proof -
  have "row_len (ex_row 1 2) = num_columns (columnar_new 2)" "length (slot_to_row_id (columnar_new 2)) < 2 ^ 32"
    by (simp_all add: columnar_new_def ex_row_def row_len_def)
  from columnar_refines [OF columnar_new_wf this] show ?thesis by (simp add: columnar_new_abs)
qed

text \<open>C31. The table-driven CRC-32, fed in any number of pieces, equals the bit-serial division by the reflected polynomial.\<close>

theorem crc_table_correct:
  "crc32_finalize (crc32_chain ys (crc32_chain xs crc32_new)) = crc32_ref (xs @ ys) \<and> crc32 xs = crc32_ref xs"
  using crc32_eq_ref [of "xs @ ys"] crc32_eq_ref [of xs] by (simp add: crc32_def crc32_chain_append)

text \<open>C32. In a branched write set, deleting an inherited insert after updating it returns Ok but removes only the own entry, so the inherited row is visible again.\<close>

theorem nested_delete_resurrects:
  assumes "om_wf b" and "om_get b (tid, rid) = Some (WInsert r)"
  shows "\<exists>ws ws'. ws_update tid rid True r' \<lparr>ws_base = Some b, ws_own = []\<rparr> = (Ok (), ws) \<and>
    ws_delete tid rid True ws = (Ok (), ws') \<and> ws_get ws' tid rid = Some (WInsert r)"
  using assms by (simp add: ws_update_def ws_delete_def ws_get_def ws_set_def own_contains_def ws_remove_def om_del_def)

theorem nested_delete_resurrects_witness:
  "\<exists>ws ws'. ws_update 0 9 True (ex_row 2 2) \<lparr>ws_base = Some [((0, 9), WInsert (ex_row 1 1))], ws_own = []\<rparr> = (Ok (), ws) \<and>
    ws_delete 0 9 True ws = (Ok (), ws') \<and> ws_get ws' 0 9 = Some (WInsert (ex_row 1 1))"
  by (rule nested_delete_resurrects) (simp_all add: om_wf_def)

text \<open>C33. If the log was not cut when it was opened and ends in front of the position of the newest snapshot, a transaction that is then appended successfully and still ends at or before that position is skipped by the next recovery, which restores the snapshot, replays nothing and reports no torn tail.\<close>

theorem short_log_commit_lost:
  assumes "log_state now (log_records txs) w" and "w_truncated_on_open w = False"
    and "\<forall>tx \<in> set txs. tx_loggable tx" and "tx_loggable (tid, cs)"
    and "find_latest dir = Ok (Some (path, s))"
    and "store_restore (snap_tables s) (snap_next_table_id s) (snap_next_transaction_id s) store_new = (Ok (), st)"
    and "lsn_at (txs @ [(tid, cs)]) \<le> unat (snap_lsn s)"
    and "wal_append tid cs IoOk w = (Ok lsn, w1)"
  shows "\<exists>report w2. recover dir w1 store_new = (Ok report, w2, snd (store_drain_changes st)) \<and>
    rep_replayed_txs report = 0 \<and> \<not> rep_truncated_tail report"
  using assms by (rule short_log_skipped)

theorem short_log_commit_lost_witness:
  "\<exists>report w2. recover (Some [(snapshot_file_name 1000, snapshot_bytes (snapshot_capture 0 store_new 1000))])
       (snd (wal_append 7 [] IoOk (wal_create 0 Flush))) store_new
     = (Ok report, w2, snd (store_drain_changes store_new)) \<and> rep_replayed_txs report = 0"
proof -
  let ?s = "snapshot_capture 0 store_new 1000" and ?w = "wal_create 0 Flush"
  have ok: "snapshot_ok ?s"
    by (simp add: snapshot_ok_def snapshot_body_def snapshot_capture_def snapshot_tables_def store_new_def)
  have found: "find_latest (Some [(snapshot_file_name 1000, snapshot_bytes ?s)]) = Ok (Some (snapshot_file_name 1000, ?s))"
    by (rule find_latest_highest [OF _ snapshot_name_lsn_file snapshot_read_bytes [OF ok]]) simp_all
  have "store_restore (snap_tables ?s) (snap_next_table_id ?s) (snap_next_transaction_id ?s) store_new = (Ok (), store_new)"
    by (simp add: snapshot_capture_def store_new_def store_restore_def snapshot_tables_def)
  moreover have "lsn_at ([] @ [(7, [])]) \<le> unat (snap_lsn ?s)"
    by (simp add: lsn_at_def header_len_def group_records_def write_record_def snapshot_capture_def)
  moreover obtain lsn w1 where "wal_append 7 [] IoOk ?w = (Ok lsn, w1)" by (simp add: wal_append_eq)
  moreover have "log_state 0 (log_records []) ?w" using wal_create_state by simp
  moreover have "w_truncated_on_open ?w = False" by (simp add: wal_create_def write_header_def)
  ultimately have "\<exists>report w2. recover (Some [(snapshot_file_name 1000, snapshot_bytes ?s)]) w1 store_new
      = (Ok report, w2, snd (store_drain_changes store_new)) \<and> rep_replayed_txs report = 0 \<and> \<not> rep_truncated_tail report"
      "snd (wal_append 7 [] IoOk ?w) = w1"
    using short_log_commit_lost [of 0 "[]" ?w 7 "[]", OF _ _ _ _ found] by (simp_all add: tx_loggable_def)
  then show ?thesis by auto
qed

text \<open>C34. With a window of one row the incremental view goes wrong: take any exact view with a window of one row, and any update of its visible row to a row that still matches but now ranks behind another matching row. The update is delivered as an update in place, the row stays the visible one, the row ahead of it stays in the window undelivered, and the view is not exact any more.\<close>

theorem limit_one_window_stale:
  assumes "view_ok v" and "v_cap v = 1" and "ch_row_id c \<in> v_visible_ids v"
    and "ch_kind c = CUpdate" and "ch_old_row c = Some r0" and "ch_new_row c = Some r"
    and "cq_matches (v_compiled v) r" and "cq_safe (v_compiled v) r"
    and "(k, other) \<in> set (v_window v)" and "k_row_id k \<noteq> ch_row_id c"
    and "key_cmp k (key_at (v_compiled v) r (ch_row_id c)) = Less"
  shows "\<exists>v'. view_apply_change seq c (v, out)
      = Ok (v', out @ [UUpdate seq \<lparr>dr_row_id = ch_row_id c, dr_row = projected (v_compiled v) r\<rparr>]) \<and>
    v_visible_ids v' = {ch_row_id c} \<and> content v' = (content v)(ch_row_id c \<mapsto> r) \<and> (k, other) \<in> set (v_window v') \<and> \<not> vis_ok v'"
  using assms by (rule window_of_one)

theorem limit_one_window_stale_witness:
  "query_build ex_query_one = Ok ex_query_one \<and>
   (\<exists>v'. view_apply_change 5 ex_move (ex_view_one, [])
      = Ok (v', [UUpdate 5 \<lparr>dr_row_id = 0, dr_row = projected ex_compiled_one (ex_row 1 99)\<rparr>]) \<and> v_visible_ids v' = {0} \<and> \<not> vis_ok v')"
proof
  show "query_build ex_query_one = Ok ex_query_one" by code_simp
  have move: "ch_row_id ex_move = 0" "ch_kind ex_move = CUpdate" "ch_old_row ex_move = Some (ex_row 1 11)" "ch_new_row ex_move = Some (ex_row 1 99)"
    by (simp_all add: ex_move_def change_update_def)
  let ?k = "key_at ex_compiled_one (ex_row 2 20) 1"
  have "k_row_id ?k \<noteq> ch_row_id ex_move" by (simp add: move)
  from limit_one_window_stale [OF ex_view_one(1,3) _ move(2-4) _ _ _ this, of "ex_row 2 20" 5 "[]"]
  show "\<exists>v'. view_apply_change 5 ex_move (ex_view_one, [])
      = Ok (v', [UUpdate 5 \<lparr>dr_row_id = 0, dr_row = projected ex_compiled_one (ex_row 1 99)\<rparr>]) \<and> v_visible_ids v' = {0} \<and> \<not> vis_ok v'"
    using ex_view_one(4,5) ex_compiled_one(3) ex_safe_one ex_move_behind by (auto simp: ex_view_one(2) move)
qed

text \<open>C35. The schedule stays sorted by tick and id, with distinct ids below the next id and at most the configured number of events, under scheduling and cancelling; taking the due events returns exactly the events whose tick has come, in that order, and leaves exactly the others.\<close>

theorem schedule_due_exact:
  assumes "schedule_wf s"
  shows "schedule_wf (schedule_new mx) \<and>
    (sc_next_id s \<noteq> - 1 \<longrightarrow> schedule_wf (snd (schedule_add at_tick reducer args s))) \<and>
    schedule_wf (snd (schedule_cancel i s)) \<and> schedule_wf (snd (take_due tick s)) \<and>
    fst (take_due tick s) = filter (\<lambda>e. se_at_tick e \<le> tick) (sc_events s) \<and>
    sc_events (snd (take_due tick s)) = filter (\<lambda>e. tick < se_at_tick e) (sc_events s)"
  using take_due_exact [OF assms, of tick] schedule_add_wf [OF assms, of at_tick reducer args]
    schedule_cancel_wf [OF assms, of i] schedule_new_wf [of mx] by simp

theorem schedule_due_exact_witness:
  "schedule_wf (snd (schedule_add 3 ''grant'' [] (schedule_new 10))) \<and>
   fst (take_due 2 (schedule_new 10)) = []"
proof -
  have "schedule_wf (schedule_new 10)" by (simp add: schedule_wf_def schedule_new_def)
  from schedule_due_exact [OF this, of 5 3 "''grant''" "[]" 0 2] show ?thesis by (simp add: schedule_new_def)
qed

text \<open>C36. The generator draws uniformly below a bound by rejecting draws, in a loop without a limit on its iterations. From every state of the generator and for every positive bound the loop ends and gives a value below the bound.\<close>

theorem next_below_returns_in_range:
  assumes "bound \<noteq> 0"
  shows "\<exists>v g'. next_below bound g = Some (Ok v, g') \<and> v < bound"
  using assms by (rule next_below_returns)

theorem next_below_returns_in_range_witness:
  "\<exists>v g'. next_below 6 (rng_new 1) = Some (Ok v, g') \<and> v < 6"
  using next_below_returns_in_range [of 6 "rng_new 1"] by simp

text \<open>C37. When the append of a committed tick to the log fails, the tick reports a persistence error, the world is failed, no message of the tick leaves it, and its subscribers hear nothing of the tick.\<close>

theorem log_failure_fails_world:
  assumes "tick_with_calls (fst (take_frame e)) delivered (take (pc_max_reducer_calls_per_tick (pt_config (we_world e))) (we_calls e))
      (we_world e) = (Ticked r, p')"
    and "we_wal e = Some w" and "io_append io = IoFail n truncates"
  shows "\<exists>out e'. tick_entry_collected io policy interval world delivered e = (Ok out, e') \<and> wo_result out = Inl (Persistence Internal) \<and>
    wo_outbound out = [] \<and> wo_wal_failures out = 1 \<and> we_state e' = PFailed \<and> we_wal e' \<noteq> None \<and>
    we_subscriptions e' = we_subscriptions e \<and> we_snapshots e' = we_snapshots e \<and> we_since_snapshot e' = we_since_snapshot e"
  using assms by (simp add: tick_entry_collected_def Let_def finish_tick_def append_tick_def wal_append_eq split_def)

theorem log_failure_fails_world_witness:
  "\<exists>out e'. tick_entry_collected (ex_io\<lparr>io_append := IoFail 3 True\<rparr>) FailWorld None 0 [] ex_entry = (Ok out, e') \<and>
     wo_outbound out = [] \<and> we_state e' = PFailed"
proof -
  obtain r p' where r: "tick_with_calls (input_frame_new 0) [] ex_calls ex_partition = (Ticked r, p')"
    "tr_tx_id r = 0" "tr_changes r = [change_insert 0 1 (ex_row 7 70) 0]" using ex_tick by blast
  from log_failure_fails_world [of ex_entry "[]" r p' "wal_create 0 Sync" "ex_io\<lparr>io_append := IoFail 3 True\<rparr>" 3 True FailWorld None 0]
  show ?thesis using r(1) by (auto simp: ex_entry_fields)
qed

text \<open>C38. When a tick fails, every reducer call the world had accepted is still queued, in the order of acceptance; the log, the snapshots and the subscriptions are untouched and no message leaves the world. Under the policy to fail the world it is failed, under the policy to continue it stays as it was.\<close>

theorem failed_tick_keeps_calls:
  assumes "tick_with_calls (fst (take_frame e)) delivered (take (pc_max_reducer_calls_per_tick (pt_config (we_world e))) (we_calls e))
      (we_world e) = (Tick_Failed tick err, p')"
  shows "\<exists>out e'. tick_entry_collected io policy interval world delivered e = (Ok out, e') \<and> wo_result out = Inl (TickError world err) \<and>
    wo_outbound out = [] \<and> we_calls e' = we_calls e \<and> we_wal e' = we_wal e \<and> we_snapshots e' = we_snapshots e \<and>
    we_subscriptions e' = we_subscriptions e \<and> we_state e' = (if policy = FailWorld then PFailed else we_state e)"
  using assms by (simp add: tick_entry_collected_def Let_def failed_tick_def split_def)

theorem failed_tick_keeps_calls_witness:
  "\<exists>out e'. tick_entry_collected ex_io Continue None 0 [] (ex_entry\<lparr>we_inputs := [input_frame_new 3]\<rparr>) = (Ok out, e') \<and>
     we_calls e' = ex_calls \<and> we_state e' = PRunning"
proof -
  let ?e = "ex_entry\<lparr>we_inputs := [input_frame_new 3]\<rparr>"
  have frame: "take_frame ?e = (input_frame_new 3, [])"
    by (simp add: take_frame_def ex_entry_fields ex_partition_fields input_frame_new_def)
  have calls: "we_calls ?e = ex_calls" "we_state ?e = PRunning" by (simp_all add: ex_entry_def)
  have "tick_gate ex_partition (input_frame_new 3) [] ex_calls = Err InvalidArgument" by code_simp
  then have "tick_with_calls (input_frame_new 3) [] ex_calls ex_partition = (Tick_Failed 0 InvalidArgument, ex_partition)"
    by (simp add: tick_with_calls_def ex_partition_fields)
  with failed_tick_keeps_calls [of ?e "[]" 0 InvalidArgument ex_partition ex_io Continue None 0] show ?thesis
    using ex_entry_fields(2,3) calls unfolding frame by fastforce
qed

text \<open>C39. Two input frames for the current tick that a running world with an empty input queue accepts one after the other, each within the limit of commands per frame, are merged when the tick runs; if together they are over the limit the tick fails, although nothing invalid was ever accepted: both frames are gone, the tables are as they were, and the world is failed under the policy to fail worlds and still running under the policy to continue.\<close>

theorem merged_frames_fail_tick:
  assumes "rt_state rt = RtRunning" and "world_get rt world = Some e" and "we_state e = PRunning" and "we_inputs e = []"
    and "2 \<le> rcf_max_inputs (rt_config rt)"
    and "if_tick f = pt_tick (we_world e)" and "if_tick g = pt_tick (we_world e)"
    and "length (if_commands f) \<le> pc_max_commands_per_frame (pt_config (we_world e))"
    and "length (if_commands g) \<le> pc_max_commands_per_frame (pt_config (we_world e))"
    and "pc_max_commands_per_frame (pt_config (we_world e)) < length (if_commands f) + length (if_commands g)"
  shows "\<exists>rt1 rt2 rt3 e'. submit_input world f rt = (ROk (), rt1) \<and> submit_input world g rt1 = (ROk (), rt2) \<and>
    tick_once io world rt2 = (RErr (TickError world InvalidArgument), rt3) \<and> world_get rt3 world = Some e' \<and>
    we_state e' = (if rcf_policy (rt_config rt) = FailWorld then PFailed else PRunning) \<and> we_inputs e' = [] \<and>
    pt_store (we_world e') = pt_store (we_world e)"
  using merged_frames [OF assms(1-7,10)] unfolding state_after_def by simp

theorem merged_frames_fail_tick_witness:
  "let frame = input_frame_push \<lparr>ic_source = 1, ic_kind = ''go'', ic_payload = None\<rparr> (input_frame_new 0) in
   \<exists>rt1 rt2 rt3 e'. submit_input 0 frame (ex_two 1) = (ROk (), rt1) \<and> submit_input 0 frame rt1 = (ROk (), rt2) \<and>
     tick_once (\<lambda>_. ex_io) 0 rt2 = (RErr (TickError 0 InvalidArgument), rt3) \<and> world_get rt3 0 = Some e' \<and> we_state e' = PFailed"
proof -
  let ?f = "input_frame_push \<lparr>ic_source = 1, ic_kind = ''go'', ic_payload = None\<rparr> (input_frame_new 0)"
  have e: "we_state (ex_two_entry 1 0) = PRunning" "we_inputs (ex_two_entry 1 0) = []" "pt_tick (we_world (ex_two_entry 1 0)) = 0"
    "pc_max_commands_per_frame (pt_config (we_world (ex_two_entry 1 0))) = 1"
    by (simp_all add: ex_two_entry_def world_entry_new_def ex_partition_def ex_limits_def)
  have rt: "rt_state (ex_two 1) = RtRunning" "world_get (ex_two 1) 0 = Some (ex_two_entry 1 0)"
    "2 \<le> rcf_max_inputs (rt_config (ex_two 1))" "rcf_policy (rt_config (ex_two 1)) = FailWorld"
    unfolding ex_two_eq by (simp_all add: world_get_def ex_run_config_def)
  have f: "if_tick ?f = 0" "length (if_commands ?f) = 1" by (simp_all add: input_frame_push_def input_frame_new_def)
  have "if_tick ?f = pt_tick (we_world (ex_two_entry 1 0))"
    "length (if_commands ?f) \<le> pc_max_commands_per_frame (pt_config (we_world (ex_two_entry 1 0)))"
    "pc_max_commands_per_frame (pt_config (we_world (ex_two_entry 1 0))) < length (if_commands ?f) + length (if_commands ?f)"
    unfolding e f by simp_all
  from merged_frames_fail_tick [OF rt(1,2) e(1,2) rt(3) this(1,1,2,2,3), of "\<lambda>_. ex_io", unfolded rt(4)] show ?thesis
    unfolding Let_def by auto
qed

text \<open>C40. A world can be bound to two partitions: the registration of the second one succeeds. When the world is destroyed only one of the bindings goes with it, and the next message sent from the other partition panics.\<close>

theorem double_binding_panics:
  assumes "rt_state rt = RtRunning" and "world_get rt world = Some e" and "om_get (rt_workers rt) (we_worker e) = Some wk"
    and "om_wf (rt_partitions rt)" and "\<forall>(part, r) \<in> set (rt_partitions rt). ro_world r \<noteq> world"
    and "om_get (rt_partitions rt) p = None" and "om_get (rt_partitions rt) q = None" and "p \<noteq> q"
    and "om_get (rt_partitions rt) target = Some r"
  shows "\<exists>rt1 rt2 rt3 left. register_partition p world rt = (ROk (), rt1) \<and> register_partition q world rt1 = (ROk (), rt2) \<and>
    destroy_partition world rt2 = (ROk (), rt3) \<and> left \<in> {p, q} \<and> send_message left target kind payload rt3 = (RPanic, rt3)"
  using assms by (rule double_binding)

theorem double_binding_panics_witness:
  "let rt = (ex_two 1)\<lparr>rt_partitions := [(9, routing_new 1 0)]\<rparr> in
   \<exists>rt1 rt2 rt3 left. register_partition 7 0 rt = (ROk (), rt1) \<and> register_partition 8 0 rt1 = (ROk (), rt2) \<and>
    destroy_partition 0 rt2 = (ROk (), rt3) \<and> left \<in> {7, 8} \<and> send_message left 9 ''go'' [] rt3 = (RPanic, rt3)"
  unfolding Let_def
  by (rule double_binding_panics [where e = "ex_two_entry 1 0" and r = "routing_new 1 0"
        and wk = "\<lparr>wk_id = 0, wk_state = WRunning, wk_worlds = [0, 1]\<rparr>"])
    (simp_all add: ex_two_eq world_get_def ex_two_entry_def world_entry_new_def routing_new_def om_wf_def)

section \<open>Further results\<close>

text \<open>Every transaction handle reachable from a fresh one, by reads, writes, branching, absorbing, rolling back, committing and aborting in any order, has a well-formed read set, write set and handle counters.\<close>

lemma transaction_invariant:
  assumes "tx_reach tx"
  shows "tx_wf tx"
  using assms by (rule tx_reach_wf)

text \<open>Looking up a secondary index returns, in ascending order and without duplicates, exactly the ids of the live rows whose indexed columns equal the key.\<close>

lemma table_lookup_correct:
  assumes "table_wf t" and "table_lookup t name key = Ok ids"
  shows "sorted_wrt (<) ids \<and> (\<exists>ix. map_of (tb_indexes t) name = Some ix \<and>
    (\<forall>rid. rid \<in> set ids \<longleftrightarrow> (\<exists>r. table_get t rid = Some r \<and> project (ix_columns ix) r = key)))"
proof -
  obtain ix where ix: "map_of (tb_indexes t) name = Some ix" "ids = index_lookup ix key"
    using assms by (auto simp: table_lookup_if split: option.splits if_splits)
  note mirror = table_wf_index [OF assms(1) table_indexes_mem(1) [OF ix(1)]]
  show ?thesis using index_lookup_rows [OF mirror, where key = key] ix by (auto simp: table_get_rows)
qed

text \<open>Reading by primary key returns the row with that key if and only if the table holds one; at most one row can hold it.\<close>

lemma primary_key_correct:
  assumes "table_wf t" and "tb_primary t = Some ix" and "key_conforms (table_schema_of t) ix key"
  shows "get_by_primary_key t key = Ok res \<longleftrightarrow>
    (case res of
       Some r \<Rightarrow> (\<exists>rid. table_get t rid = Some r \<and> project (ix_columns ix) r = key)
     | None \<Rightarrow> \<not> (\<exists>rid r. table_get t rid = Some r \<and> project (ix_columns ix) r = key))"
  using assms by (rule get_by_primary_key_if)

text \<open>Capturing a table and restoring it gives the same storage (rows, versions, epoch, row-id counter, schema) with an empty change buffer, and indexes rebuilt so that the invariant holds, none of which the table did not have.\<close>

lemma table_restore_exact:
  assumes "table_wf t"
  shows "\<exists>t'. table_from_state (table_state_of t) = Ok t' \<and>
    tb_storage t' = (tb_storage t)\<lparr>st_changes := []\<rparr> \<and> table_wf t' \<and>
    index_shape ` set (table_indexes t') \<subseteq> index_shape ` set (table_indexes t)"
  using assms by (rule table_restore_capture)

text \<open>Creating, dropping and indexing tables keeps the store invariant: tables are filed under their schema names, ids are distinct and below the counter, every table is well-formed.\<close>

lemma store_ddl_invariant:
  assumes "store_wf st" and "next_table_id st \<noteq> - 1"
  shows "store_wf (snd (create_table schema st)) \<and> store_wf (snd (drop_table name st)) \<and>
    store_wf (snd (store_add_index name def st)) \<and> store_wf (snd (store_drain_changes st))"
  using assms by (simp add: create_table_wf drop_table_wf store_add_index_wf store_drain_wf)

text \<open>The schema builder accepts exactly the schemas with non-blank distinct names, at least one column and known key columns, and returns them unchanged; it never panics.\<close>

lemma build_accepts_valid:
  "(build b = Ok s \<longleftrightarrow> schema_valid (schema_of b) \<and> s = schema_of b) \<and> build b \<noteq> Panic"
  using build_Ok build_not_Panic by blast

text \<open>Decoding an encoded row gives the row restored and leaves what follows it, for every row that fits in memory.\<close>

lemma row_codec_roundtrip:
  assumes "row_ok r"
  shows "get_row (put_row r @ rest) = Ok (r, rest)"
  using assms by (rule rowc.dec_enc)

text \<open>Decoding an encoded schema re-runs the builder and gives the schema restored, for every valid schema with positional column ids.\<close>

lemma schema_codec_roundtrip:
  assumes "schema_ok s"
  shows "get_schema (put_schema s @ rest) = Ok (s, rest)"
  using assms by (rule schemac.dec_enc)

text \<open>A captured table state survives encoding and decoding exactly.\<close>

lemma state_codec_roundtrip:
  assumes "state_ok st"
  shows "state_decode (state_encode st @ rest) = Ok (st, rest)"
  using assms by (rule statec.dec_enc)

text \<open>Whatever the bytes, a decoded table state has a schema the builder accepts, rows of the schema's types, strictly ascending row ids, and all of them below the row-id counter.\<close>

lemma state_decode_sound:
  assumes "state_decode c = Ok (st, rest)"
  shows "(\<forall>(rid, r, v) \<in> set (tst_rows st). row_conforms (tst_schema st) r \<and> rid < tst_next_row_id st) \<and>
    sorted_wrt (<) (map fst (tst_rows st)) \<and> schema_valid (tst_schema st)"
  using assms by (rule state_decode_valid)

text \<open>Decoding a value, a row, a change or a string from arbitrary bytes returns a value or an error and never panics.\<close>

lemma decoders_total:
  "get_value c \<noteq> Panic \<and> get_row c \<noteq> Panic \<and> get_str c \<noteq> Panic \<and> decode_change c \<noteq> Panic"
  using get_value_not_Panic get_row_not_Panic get_str_not_Panic decode_change_not_Panic by blast

text \<open>The schema decoder is not total: a count of primary-key columns of at least 2^59 makes the preallocation panic, although the module documents an error for malformed input.\<close>

lemma schema_decode_panics:
  assumes "2 ^ 59 \<le> unat n"
  shows "get_schema (put_str ''t'' @ put_u64 0 @ put_bool True @ put_u64 n @ rest) = Panic"
proof -
  have s: "str_ok ''t''" by (simp add: str_ok_def utf8_def alloc_fits_def isize_max_def)
  have "\<not> alloc_fits 16 (unat n)" using assms by (simp add: alloc_fits_def isize_max_def)
  then show ?thesis
    by (simp add: get_schema_def get_primary_def get_strs_def strc.dec_enc [OF s] u64c.dec_enc boolc.dec_enc)
qed

text \<open>Two messages that differ in exactly one byte have different checksums.\<close>

lemma crc_detects_byte:
  assumes "a \<noteq> b"
  shows "crc32 (xs @ a # ys) \<noteq> crc32 (xs @ b # ys)"
  using assms crc32_detects_byte by blast

text \<open>Every storage operation appends to the change buffer exactly the changes that, applied to the old rows, give the new rows, and keeps the storage invariant; a failed operation changes nothing.\<close>

lemma storage_changes_describe:
  assumes "storage_wf s" and "ids_left s"
  shows "logs s (snd (storage_insert r s)) \<and> logs s (snd (storage_update rid r s)) \<and>
    logs s (snd (storage_delete rid s)) \<and> storage_wf (storage_exec x s)"
  using storage_ops_log [OF assms(1)] storage_exec_bounds(1) [OF assms] by blast

text \<open>The documented ascending order of the columnar scan is lost by the first delete that is not of the last slot: after inserting rows 1, 2, 3 and deleting 1 the scan starts with row 3.\<close>

lemma columnar_scan_not_ascending:
  "map fst (columnar_scan (columnar_delete 1 (columnar_insert 3 (Row [VBool True]) 0
     (columnar_insert 2 (Row [VBool True]) 0 (columnar_insert 1 (Row [VBool True]) 0 (columnar_new 1))))))
   = [3, 2]"
  by code_simp

text \<open>The merged iteration over a layered write set visits the keys in strictly ascending order and pairs each key with exactly the entry that get returns, own entries shadowing inherited ones.\<close>

lemma write_set_view:
  assumes "ws_wf ws"
  shows "sorted_wrt (<) (map fst (ws_entries ws)) \<and> om_get (ws_entries ws) (tid, rid) = ws_get ws tid rid"
  using ws_entries_wf [OF assms] by (simp add: om_wf_def)

text \<open>Absorbing a child write set into a root write set gives, key by key, the child entry resolved against the parent entry: an insert followed by a delete disappears, anything else takes the child entry; the shortcut for children without deletes agrees.\<close>

lemma write_set_absorb:
  assumes "ws_wf ws" and "ws_base ws = None" and "ws_wf child"
  shows "ws_get (ws_absorb child ws) t q =
    (case om_get (ws_own child) (t, q) of
       None \<Rightarrow> ws_get ws t q
     | Some e \<Rightarrow> resolve (ws_get ws t q) e)"
  using assms by (rule ws_absorb_view)

text \<open>Truncating a read set to an earlier row count drops exactly the row observations first made since then and never panics; table observations made since then stay.\<close>

lemma read_set_rollback:
  assumes "rs_wf rs" and "rs_extends rs rs'"
  shows "\<exists>restored. rs_truncate_to (rs_entry_count rs) rs' = Ok restored \<and> rs_wf restored \<and>
    rs_insert_order restored = rs_insert_order rs \<and>
    (\<forall>t r. rs_get restored t r = (if (t, r) \<in> set (rs_insert_order rs) then rs_get rs' t r else None)) \<and>
    rs_tables restored = rs_tables rs'"
  using assms by (rule rs_truncate_extends)

text \<open>An index lookup inside a transaction misses a pending update that moves a row into the key when the write set holds no insert, although get shows the moved row and the lookup is documented to include pending writes.\<close>

lemma lookup_misses_moved_row:
  "fst (tx_lookup_index ex_store ''units'' ''by_owner'' [VU64 11] ex_tx_moved) = Ok [] \<and>
   fst (tx_get ex_store ''units'' 0 ex_tx_moved) = Ok (Some (ex_row 1 11))"
  by (rule conjI; code_simp)

text \<open>The schema builder accepts a secondary unique index named primary; commit validation then consults the primary-key index for it, accepts a duplicate, and the apply phase panics.\<close>

lemma reserved_index_panics:
  "is_ok (build ex_bad_builder) \<and> validate ex_bad_store ex_bad_tx = Ok () \<and>
   fst (tx_commit ex_bad_tx ex_bad_store) = Panic"
  by (intro conjI; code_simp)

text \<open>If a crash cuts the log at any byte behind the header, opening it succeeds and recovery returns exactly the transactions whose bytes lie entirely in front of the cut, and the handle is then at the end of the repaired file, so that further appends are recoverable.\<close>

lemma wal_crash_prefix:
  assumes "\<forall>tx \<in> set txs. tx_loggable tx"
  shows "\<exists>i w w' rs. i \<le> length txs \<and> length (frames (log_records (take i txs))) \<le> k \<and>
    (i < length txs \<longrightarrow> k < length (frames (log_records (take (Suc i) txs)))) \<and>
    wal_open now' policy (Some (take (header_len + k)
      (f_bytes (w_file (append_all txs (wal_create now policy)))))) = Ok w \<and>
    wal_recover_changes w = (Ok (log_txs header_len (take i txs), False), w') \<and> log_state now rs w'"
proof -
  have "f_bytes (w_file (append_all txs (wal_create now policy))) = header_bytes now @ frames (log_records txs)"
    using append_all_state [OF wal_create_state assms, of now policy] by (simp add: log_state_def)
  with wal_reopen_log [OF assms, of k now' policy now] show ?thesis by simp
qed

text \<open>After an append that fails with one byte written, the file is truncated but the handle stays behind its end; the next append is acknowledged, lands behind a zero byte, and recovery drops it.\<close>

lemma append_failure_leaves_gap:
  assumes "log_state now rs w" and "run_records header_len (None, []) rs = Ok (grp, txs)"
    and "wal_append tid1 cs1 (IoFail 1 True) w = (Err Internal, w1)"
    and "wal_append tid2 [] IoOk w1 = (Ok lsn, w2)"
  shows "f_bytes (w_file w1) = f_bytes (w_file w) \<and> fst (wal_recover_changes w2) = Ok (txs, True)"
  using append_after_failure_lost [OF assms] append_failed_bytes [OF assms(1), of tid1 cs1 1] assms(3) by auto

text \<open>A snapshot that was written is what the search for the latest snapshot returns, unless another file claims its position or a later one; a write that failed at any point leaves the result of the search unchanged.\<close>

lemma snapshot_found_again:
  assumes "distinct (map fst dir)"
  shows "(snapshot_ok s \<longrightarrow> (\<forall>p \<in> set dir. fst p \<noteq> snapshot_file_name (snap_lsn s) \<longrightarrow> outdated (snap_lsn s) p) \<longrightarrow>
      find_latest (Some (snd (snapshot_write s SnapOk dir))) = Ok (Some (snapshot_file_name (snap_lsn s), s))) \<and>
    (fault \<noteq> SnapOk \<longrightarrow> find_latest (Some (snd (snapshot_write s fault dir))) = find_latest (Some dir))"
proof -
  obtain dir' where w: "snapshot_write s SnapOk dir = (Ok (snapshot_file_name (snap_lsn s)), dir')"
    by (simp add: snapshot_write_def Let_def)
  show ?thesis using find_latest_written [OF _ _ assms w] find_latest_failed_write [of fault s dir] w by simp
qed

text \<open>In every reachable state, whatever transaction commits next, telling the registry of its changes succeeds: no expect or index of the fan-out panics, every view is still there, and the run goes on.\<close>

lemma commit_notification_total:
  assumes "observing config st rg cl" and "history st [(txid, cs)] st'"
  shows "\<exists>report rg'. apply_changes st' cs rg = Ok (report, rg') \<and> observing config st' rg' cl"
proof -
  obtain report rg' where a: "apply_changes st' cs rg = Ok (report, rg')"
    using apply_changes_exact [OF observing_observed [OF assms(1)] assms(2)] by auto
  from observing.commit [OF assms this] a show ?thesis by blast
qed

text \<open>Draining all pending subscriptions misses those whose buffer was filled by subscribing: after a client subscribed and a transaction committed, its buffer holds the snapshot and the updates, yet nothing is returned for it.\<close>

lemma drain_all_skips_initial:
  "has_pending ex_reg_after 0 = Ok True \<and> fst (drain_all_pending ex_reg_after) = []"
  using ex_drain_all by simp

text \<open>A well-formed frame with a batch of subscription deltas whose count no allocation can hold makes the client panic, although the module documents that decoding never panics on hostile input and every other counted sequence is reserved fallibly.\<close>

lemma batch_decode_panics:
  assumes "2 ^ 58 \<le> count" and "24 \<le> unat mx"
  shows "\<exists>frame. build_frame 0x8D (put_u64 sub @ put_u64 request @ put_u64 count) mx = WOk frame \<and>
    decode_server frame mx = WPanic"
  using batch_frame_panics [OF assms] .

text \<open>When no two neighbouring systems can share a group, the parallel executor does exactly what the serial reference loop does, with any number of workers: same transaction, events, messages and the same first failure.\<close>

lemma single_groups_serial:
  assumes "tick_plan (xe_store env) systems = Ok groups" and "\<forall>g \<in> set groups. length g = 1"
  shows "run_systems env (Parallel w) inputs systems ts = run_systems env Serial inputs systems ts"
  using assms by (rule parallel_singletons)

text \<open>The two execution modes do not always agree, although they are documented to give identical results: with a limit of one event per tick, two systems that emit an event each and ignore a failure to do so commit in serial mode and fail in parallel mode, where each child has the whole limit and the merge is refused.\<close>

lemma parallel_differs_from_serial:
  "fst (run_systems ex_env Serial (input_frame_new 0) [ex_system 1, ex_system 2] ex_begun_tick) = Ok () \<and>
   fst (run_systems ex_env (Parallel 2) (input_frame_new 0) [ex_system 1, ex_system 2] ex_begun_tick) = Err Capacity"
proof -
  have "fst (run_systems ex_env Serial (input_frame_new 0) [ex_system 1, ex_system 2] ex_begun_tick) = Ok ()" by code_simp
  moreover have "fst (run_systems ex_env (Parallel 2) (input_frame_new 0) [ex_system 1, ex_system 2] ex_begun_tick) = Err Capacity"
    by code_simp
  ultimately show ?thesis ..
qed

text \<open>Creating the world with the greatest id resizes the vector of worlds to no slots at all, because the index plus one wraps: every world of the runtime is dropped and the creation panics.\<close>

lemma last_world_id_panics:
  assumes "rt_state rt = RtRunning" and "length (rt_worlds rt) \<le> isize_max" and "rcf_factory (rt_config rt) (- 1) store_new sim = Ok p"
    and "assign_worker rt = (ROk worker, rt1)" and "rcf_persistence (rt_config rt) = PersistNone"
  shows "\<exists>rt'. create_partition io (- 1) sim rt = (RPanic, rt') \<and> rt_worlds rt' = []"
  using last_slot [OF assms] .

end
